(* ===== verification/Prelude.thy ===== *)
theory Prelude
  imports Main "HOL-Library.Word"
begin

text \<open>
  What every component shares: results as sums with the \<open>?\<close> operator of the source, the
  pieces of Rust's standard library the modelled code calls (text, checked and saturating
  integers), and the two interfaces that several components share: a spelling table that reads
  back (\<open>spelled_enum\<close>) and a transition table (\<open>transition_table\<close>, \<open>ranked_table\<close>).

  Text is a HOL \<open>string\<close>. A HOL character is one of the 256 code points U+0000 to U+00FF, so
  the model covers text within that range; \<open>utf8_len\<close> counts the bytes Rust's \<open>str::len\<close>
  counts for it. Timestamps and other \<open>i64\<close> values are \<open>int\<close> with the width written out at
  every operation that checks or saturates.
\<close>

named_theorems result_simps \<open>unfolding of results and the question-mark operator\<close>
named_theorems text_simps \<open>character classes and text helpers\<close>

section \<open>Results\<close>

text \<open>\<open>Result<T, E>\<close> is \<open>'e + 'a\<close>: \<open>Inl\<close> the error, \<open>Inr\<close> the value. \<open>and_then r f\<close> is
  \<open>f(r?)\<close>: the first error returns early.\<close>

definition and_then :: "'e + 'a \<Rightarrow> ('a \<Rightarrow> 'e + 'b) \<Rightarrow> 'e + 'b" where
  "and_then r f = (case r of Inl e \<Rightarrow> Inl e | Inr a \<Rightarrow> f a)"

definition map_err :: "('e \<Rightarrow> 'f) \<Rightarrow> 'e + 'a \<Rightarrow> 'f + 'a" where
  "map_err g r = (case r of Inl e \<Rightarrow> Inl (g e) | Inr a \<Rightarrow> Inr a)"

definition ok_or :: "'e \<Rightarrow> 'a option \<Rightarrow> 'e + 'a" where
  "ok_or e x = (case x of None \<Rightarrow> Inl e | Some a \<Rightarrow> Inr a)"

definition is_ok :: "'e + 'a \<Rightarrow> bool" where
  "is_ok r = (case r of Inl _ \<Rightarrow> False | Inr _ \<Rightarrow> True)"

lemma and_then_simps [simp, result_simps]:
  "and_then (Inl e) f = Inl e"
  "and_then (Inr a) f = f a"
  by (simp_all add: and_then_def)

lemma and_then_Inr [result_simps]:
  "and_then r f = Inr b \<longleftrightarrow> (\<exists>a. r = Inr a \<and> f a = Inr b)"
  by (cases r) simp_all

lemma and_then_Inl [result_simps]:
  "and_then r f = Inl e \<longleftrightarrow> r = Inl e \<or> (\<exists>a. r = Inr a \<and> f a = Inl e)"
  by (cases r) simp_all

lemma map_err_simps [simp, result_simps]:
  "map_err g (Inl e) = Inl (g e)"
  "map_err g (Inr a) = Inr a"
  by (simp_all add: map_err_def)

lemma map_err_Inr [simp, result_simps]: "map_err g r = Inr a \<longleftrightarrow> r = Inr a"
  by (cases r) simp_all

lemma ok_or_simps [simp, result_simps]:
  "ok_or e None = Inl e"
  "ok_or e (Some a) = Inr a"
  by (simp_all add: ok_or_def)

lemma ok_or_Inr [simp, result_simps]: "ok_or e x = Inr a \<longleftrightarrow> x = Some a"
  by (cases x) simp_all

lemma is_ok_simps [simp, result_simps]:
  "is_ok (Inl e) = False"
  "is_ok (Inr a) = True"
  by (simp_all add: is_ok_def)

lemma is_ok_iff [result_simps]: "is_ok r \<longleftrightarrow> (\<exists>a. r = Inr a)"
  by (cases r) simp_all

section \<open>Integers\<close>

type_synonym u16 = "16 word"
type_synonym u32 = "32 word"
type_synonym u64 = "64 word"

lemma word_nat_bound: "unat (w :: 'a::len word) < 2 ^ LENGTH('a)"
  by (rule unsigned_less)

lemma unat_of_nat_small: "n < 2 ^ LENGTH('a) \<Longrightarrow> unat (of_nat n :: 'a::len word) = n"
  by (simp add: unat_of_nat take_bit_nat_eq_self)

lemma unat_ucast_small:
  "unat (w :: 'a::len word) < 2 ^ LENGTH('b) \<Longrightarrow> unat (ucast w :: 'b::len word) = unat w"
  by (simp add: unsigned_ucast_eq take_bit_nat_eq_self)

lemma unat_ucast_widen:
  assumes "LENGTH('a) \<le> LENGTH('b)"
  shows "unat (ucast (w :: 'a::len word) :: 'b::len word) = unat w"
proof (rule unat_ucast_small)
  have "(2 :: nat) ^ LENGTH('a) \<le> 2 ^ LENGTH('b)" using assms by (rule power_increasing) simp
  with word_nat_bound [of w] show "unat w < 2 ^ LENGTH('b)" by (rule less_le_trans)
qed

lemma ucast_eq_of_unat: "unat (w :: 'a::len word) = unat (v :: 'b::len word) \<Longrightarrow> ucast v = w"
proof (rule unsigned_word_eqI)
  assume w: "unat w = unat v"
  then show "unat (ucast v :: 'a word) = unat w"
    using word_nat_bound [of w] by (simp add: unat_ucast_small)
qed

text \<open>\<open>TimestampMs\<close>: an \<open>i64\<close> count of milliseconds since the Unix epoch.\<close>

type_synonym timestamp_ms = int

definition i64_min :: int where "i64_min = - (2 ^ 63)"

definition i64_max :: int where "i64_max = 2 ^ 63 - 1"

definition is_i64 :: "int \<Rightarrow> bool" where
  "is_i64 x \<longleftrightarrow> i64_min \<le> x \<and> x \<le> i64_max"

definition i64_checked :: "int \<Rightarrow> int option" where
  "i64_checked x = (if is_i64 x then Some x else None)"

definition i64_checked_add :: "int \<Rightarrow> int \<Rightarrow> int option" where
  "i64_checked_add a b = i64_checked (a + b)"

definition i64_checked_mul :: "int \<Rightarrow> int \<Rightarrow> int option" where
  "i64_checked_mul a b = i64_checked (a * b)"

definition i64_saturating_sub :: "int \<Rightarrow> int \<Rightarrow> int" where
  "i64_saturating_sub a b = max i64_min (min i64_max (a - b))"

definition i64_wrapping_add :: "int \<Rightarrow> int \<Rightarrow> int" where
  "i64_wrapping_add a b = (a + b + 2 ^ 63) mod 2 ^ 64 - 2 ^ 63"

lemmas i64_defs = i64_min_def i64_max_def is_i64_def i64_checked_def i64_checked_add_def
  i64_checked_mul_def i64_saturating_sub_def

lemma i64_checked_add_Some [simp]:
  "i64_checked_add a b = Some c \<longleftrightarrow> is_i64 (a + b) \<and> c = a + b"
  by (auto simp: i64_checked_add_def i64_checked_def)

lemma i64_checked_add_None [simp]: "i64_checked_add a b = None \<longleftrightarrow> \<not> is_i64 (a + b)"
  by (auto simp: i64_checked_add_def i64_checked_def)

lemma i64_wrapping_add_exact: "is_i64 (a + b) \<Longrightarrow> i64_wrapping_add a b = a + b"
  by (simp add: i64_wrapping_add_def is_i64_def i64_min_def i64_max_def mod_pos_pos_trivial)

text \<open>Saturation never changes a comparison with a bound inside the range.\<close>

lemma saturating_sub_ge:
  "is_i64 d \<Longrightarrow> d \<le> i64_saturating_sub a b \<longleftrightarrow> d \<le> a - b \<or> d = i64_min"
  by (auto simp: i64_defs)

lemma saturating_sub_ge_pos:
  "0 \<le> d \<Longrightarrow> is_i64 d \<Longrightarrow> d \<le> i64_saturating_sub a b \<longleftrightarrow> d \<le> a - b"
  by (auto simp: i64_defs)

section \<open>Text\<close>

definition code :: "char \<Rightarrow> nat" where
  "code c = of_char c"

definition is_ascii_digit :: "char \<Rightarrow> bool" where
  "is_ascii_digit c \<longleftrightarrow> 48 \<le> code c \<and> code c \<le> 57"

definition is_ascii_lowercase :: "char \<Rightarrow> bool" where
  "is_ascii_lowercase c \<longleftrightarrow> 97 \<le> code c \<and> code c \<le> 122"

definition is_ascii_uppercase :: "char \<Rightarrow> bool" where
  "is_ascii_uppercase c \<longleftrightarrow> 65 \<le> code c \<and> code c \<le> 90"

definition is_ascii_alphanumeric :: "char \<Rightarrow> bool" where
  "is_ascii_alphanumeric c \<longleftrightarrow> is_ascii_digit c \<or> is_ascii_lowercase c \<or> is_ascii_uppercase c"

text \<open>Unicode White_Space and Cc within U+0000 to U+00FF.\<close>

definition is_whitespace :: "char \<Rightarrow> bool" where
  "is_whitespace c \<longleftrightarrow> (9 \<le> code c \<and> code c \<le> 13) \<or> code c = 32 \<or> code c = 133 \<or> code c = 160"

definition is_control :: "char \<Rightarrow> bool" where
  "is_control c \<longleftrightarrow> code c \<le> 31 \<or> (127 \<le> code c \<and> code c \<le> 159)"

definition to_ascii_upper :: "char \<Rightarrow> char" where
  "to_ascii_upper c = (if is_ascii_lowercase c then char_of (code c - 32) else c)"

definition to_ascii_uppercase :: "string \<Rightarrow> string" where
  "to_ascii_uppercase s = map to_ascii_upper s"

definition trim :: "string \<Rightarrow> string" where
  "trim s = rev (dropWhile is_whitespace (rev (dropWhile is_whitespace s)))"

text \<open>The bytes of a string's UTF-8 form: one up to U+007F, two from U+0080.\<close>

definition utf8_len :: "string \<Rightarrow> nat" where
  "utf8_len s = sum_list (map (\<lambda>c. if code c < 128 then 1 else 2) s)"

lemmas char_class_defs [text_simps] = is_ascii_digit_def is_ascii_lowercase_def
  is_ascii_uppercase_def is_ascii_alphanumeric_def is_whitespace_def is_control_def code_def

definition strip_prefix :: "string \<Rightarrow> string \<Rightarrow> string option" where
  "strip_prefix p s = (if take (length p) s = p then Some (drop (length p) s) else None)"

fun split_once :: "char \<Rightarrow> string \<Rightarrow> (string \<times> string) option" where
  "split_once c [] = None"
| "split_once c (x # xs) =
     (if x = c then Some ([], xs)
      else (case split_once c xs of None \<Rightarrow> None | Some (a, b) \<Rightarrow> Some (x # a, b)))"

fun split_on :: "char \<Rightarrow> string \<Rightarrow> string list" where
  "split_on c [] = [[]]"
| "split_on c (x # xs) =
     (if x = c then [] # split_on c xs
      else (case split_on c xs of [] \<Rightarrow> [[x]] | p # ps \<Rightarrow> (x # p) # ps))"

lemma code_less_256 [simp]: "code c < 256"
  by (simp add: code_def)

lemma code_char_of [simp]: "n < 256 \<Longrightarrow> code (char_of n) = n"
  by (simp add: code_def)

lemma code_inject [simp]: "code a = code b \<longleftrightarrow> a = b"
  by (simp add: code_def)

lemma strip_prefix_Some [simp]: "strip_prefix p s = Some r \<longleftrightarrow> s = p @ r"
  by (auto simp: strip_prefix_def) (metis append_take_drop_id)

lemma strip_prefix_append [simp]: "strip_prefix p (p @ r) = Some r"
  by simp

lemma split_once_Some: "split_once c s = Some (a, b) \<Longrightarrow> s = a @ c # b \<and> c \<notin> set a"
  by (induction s arbitrary: a) (auto split: if_splits option.splits)

lemma split_once_None: "split_once c s = None \<longleftrightarrow> c \<notin> set s"
  by (induction s) (auto split: option.splits)

lemma split_once_append: "c \<notin> set a \<Longrightarrow> split_once c (a @ c # b) = Some (a, b)"
  by (induction a) auto

lemma split_on_not_in: "c \<notin> set a \<Longrightarrow> split_on c a = [a]"
  by (induction a) auto

lemma split_on_append: "c \<notin> set a \<Longrightarrow> split_on c (a @ c # b) = a # split_on c b"
  by (induction a) auto

lemma split_on_nonempty [simp]: "split_on c s \<noteq> []"
  by (induction s) (auto split: list.splits)

lemma split_on_Cons:
  "split_on c s = a # p # ps \<Longrightarrow> \<exists>b. s = a @ c # b \<and> c \<notin> set a \<and> split_on c b = p # ps"
proof (induction s arbitrary: a)
  case (Cons x xs)
  then show ?case
  proof (cases "x = c")
    case False
    with Cons.prems obtain a' where a: "a = x # a'" and s: "split_on c xs = a' # p # ps"
      by (auto split: list.splits)
    from Cons.IH [OF s] a False show ?thesis by force
  qed auto
qed simp

lemma split_on_single: "split_on c s = [a] \<Longrightarrow> s = a \<and> c \<notin> set a"
proof (induction s arbitrary: a)
  case (Cons x xs)
  then show ?case by (cases "split_on c xs") (auto split: if_splits)
qed simp

text \<open>Splitting loses nothing: the pieces joined again are the text.\<close>

fun text_join :: "char \<Rightarrow> string list \<Rightarrow> string" where
  "text_join c [] = []"
| "text_join c [p] = p"
| "text_join c (p # q # ps) = p @ c # text_join c (q # ps)"

lemma text_join_split_on: "text_join c (split_on c s) = s"
proof (induction s)
  case (Cons x xs)
  obtain p ps where "split_on c xs = p # ps" by (cases "split_on c xs") auto
  with Cons show ?case by (cases ps) auto
qed simp

lemma utf8_len_append [simp]: "utf8_len (a @ b) = utf8_len a + utf8_len b"
  by (simp add: utf8_len_def)

lemma utf8_len_Nil [simp]: "utf8_len [] = 0"
  by (simp add: utf8_len_def)

lemma utf8_len_Cons [simp]: "utf8_len (c # s) = (if code c < 128 then 1 else 2) + utf8_len s"
  by (simp add: utf8_len_def)

lemma utf8_len_ascii: "\<forall>c\<in>set s. code c < 128 \<Longrightarrow> utf8_len s = length s"
  by (induction s) auto

lemma length_le_utf8_len: "length s \<le> utf8_len s"
  by (induction s) auto

lemma to_ascii_upper_idem [simp]: "to_ascii_upper (to_ascii_upper c) = to_ascii_upper c"
  by (auto simp: to_ascii_upper_def is_ascii_lowercase_def)

lemma to_ascii_uppercase_idem [simp]:
  "to_ascii_uppercase (to_ascii_uppercase s) = to_ascii_uppercase s"
  by (simp add: to_ascii_uppercase_def)

lemma to_ascii_uppercase_Nil [simp]: "to_ascii_uppercase s = [] \<longleftrightarrow> s = []"
  by (simp add: to_ascii_uppercase_def)

lemma is_whitespace_upper [simp]: "is_whitespace (to_ascii_upper c) = is_whitespace c"
  by (auto simp: to_ascii_upper_def is_ascii_lowercase_def is_whitespace_def)

lemma is_control_upper [simp]: "is_control (to_ascii_upper c) = is_control c"
  by (auto simp: to_ascii_upper_def is_ascii_lowercase_def is_control_def)

text \<open>Decimal digits of a number, as \<open>Display\<close> prints integers.\<close>

definition digit_char :: "nat \<Rightarrow> char" where
  "digit_char d = char_of (48 + d)"

fun nat_string :: "nat \<Rightarrow> string" where
  "nat_string n = (if n < 10 then [digit_char n] else nat_string (n div 10) @ [digit_char (n mod 10)])"

declare nat_string.simps [simp del]

definition int_string :: "int \<Rightarrow> string" where
  "int_string n = (if n < 0 then CHR ''-'' # nat_string (nat (- n)) else nat_string (nat n))"

section \<open>Trimming\<close>

lemma dropWhile_fix: "(\<forall>x xs'. xs = x # xs' \<longrightarrow> \<not> P x) \<Longrightarrow> dropWhile P xs = xs"
  by (cases xs) auto

lemma trim_no_leading:
  assumes "trim s = c # r"
  shows "\<not> is_whitespace c"
proof -
  let ?d = "dropWhile is_whitespace s"
  have "\<exists>pre. rev ?d = pre @ dropWhile is_whitespace (rev ?d)"
    by (metis takeWhile_dropWhile_id)
  then obtain post where p: "?d = trim s @ post"
    unfolding trim_def by (metis rev_append rev_rev_ident)
  with assms have "?d = c # (r @ post)" by simp
  then show ?thesis by (simp add: dropWhile_eq_Cons_conv)
qed

lemma trim_no_trailing:
  assumes "trim s = r @ [c]"
  shows "\<not> is_whitespace c"
proof -
  have "dropWhile is_whitespace (rev (dropWhile is_whitespace s)) = c # rev r"
    using assms unfolding trim_def by (metis rev_append rev_rev_ident rev_singleton_conv rev.simps(2) rev_swap append_Cons append_Nil)
  then show ?thesis by (simp add: dropWhile_eq_Cons_conv)
qed

lemma trim_fixed:
  assumes "\<forall>c r. s = c # r \<longrightarrow> \<not> is_whitespace c" and "\<forall>c r. s = r @ [c] \<longrightarrow> \<not> is_whitespace c"
  shows "trim s = s"
proof -
  have "dropWhile is_whitespace s = s" using assms(1) by (cases s) auto
  moreover have "dropWhile is_whitespace (rev s) = rev s"
    using assms(2) by (cases s rule: rev_cases) auto
  ultimately show ?thesis by (simp add: trim_def)
qed

lemma trim_idem [simp]: "trim (trim s) = trim s"
  by (rule trim_fixed) (auto dest: trim_no_leading trim_no_trailing)

lemma trim_upper: "trim (to_ascii_uppercase s) = to_ascii_uppercase (trim s)"
  by (simp add: trim_def to_ascii_uppercase_def dropWhile_map rev_map comp_def)

lemma set_trim: "set (trim s) \<subseteq> set s"
  unfolding trim_def by (metis set_dropWhileD set_rev subsetI)

section \<open>Interface: a table of spellings that reads back\<close>

text \<open>
  Several enums list their values (\<open>ALL\<close>), spell each one (\<open>as_str\<close>, \<open>letter\<close>) and read a
  spelling back with \<open>ALL.into_iter().find(|x| x.as_str() == text)\<close>. The client relies on two
  laws only: the list is complete and no two values share a spelling.
\<close>

locale spelled_enum =
  fixes all :: "'a list" and spelling :: "'a \<Rightarrow> 'k"
  assumes complete: "x \<in> set all"
    and distinct_spelling: "spelling x = spelling y \<Longrightarrow> x = y"
begin

lemma find_spelling: "find (\<lambda>x. spelling x = k) all = Some x \<longleftrightarrow> spelling x = k"
proof
  assume "find (\<lambda>x. spelling x = k) all = Some x"
  then show "spelling x = k" by (auto simp: find_Some_iff)
next
  assume k: "spelling x = k"
  then have "find (\<lambda>y. spelling y = k) all \<noteq> None"
    using complete [of x] by (auto simp: find_None_iff)
  then obtain y where y: "find (\<lambda>y. spelling y = k) all = Some y" by auto
  then have "spelling y = k" by (auto simp: find_Some_iff)
  with k have "y = x" using distinct_spelling by simp
  with y show "find (\<lambda>y. spelling y = k) all = Some x" by simp
qed

lemma find_none: "find (\<lambda>x. spelling x = k) all = None \<longleftrightarrow> k \<notin> range spelling"
  using complete by (auto simp: find_None_iff)

lemma finite_values: "finite (UNIV :: 'a set)"
  using complete by (metis List.finite_set UNIV_I finite_subset subsetI)

end

section \<open>Interface: a transition table\<close>

text \<open>
  Every state machine of the contract is a table of allowed moves with an initial state and
  terminal states. The laws: every value is listed, nothing leaves a terminal state, a state with
  no move out is terminal, and every state can be reached. A \<open>ranked_table\<close> moves only upwards in
  a rank, so no run comes back and every run is short.
\<close>

locale transition_table =
  fixes all :: "'s list" and initial :: 's and table :: "('s \<times> 's) list" and terminal :: "'s \<Rightarrow> bool"
  assumes all_states: "s \<in> set all"
    and terminal_iff: "terminal s \<longleftrightarrow> (\<forall>t. (s, t) \<notin> set table)"
    and all_reachable: "(initial, s) \<in> (set table)\<^sup>*"
    and no_self_move: "(s, s) \<notin> set table"
begin

lemma terminal_absorbs: "terminal s \<Longrightarrow> (s, t) \<in> (set table)\<^sup>* \<Longrightarrow> t = s"
  by (erule converse_rtranclE) (auto simp: terminal_iff)

lemma progress: "\<not> terminal s \<Longrightarrow> \<exists>t. (s, t) \<in> set table"
  by (auto simp: terminal_iff)

lemma invariant_from_initial:
  assumes "P initial" and "\<And>s t. P s \<Longrightarrow> (s, t) \<in> set table \<Longrightarrow> P t"
  shows "P s"
proof -
  from all_reachable [of s] have "(initial, s) \<in> (set table)\<^sup>*" .
  then show ?thesis
    by (induction rule: rtrancl_induct) (use assms in auto)
qed

end

locale ranked_table = transition_table +
  fixes rank :: "'s \<Rightarrow> nat"
  assumes rank_less: "(s, t) \<in> set table \<Longrightarrow> rank s < rank t"
begin

lemma rank_le: "(s, t) \<in> (set table)\<^sup>* \<Longrightarrow> rank s \<le> rank t"
  by (induction rule: rtrancl_induct) (auto dest: rank_less)

lemma never_returns: "(s, t) \<in> set table \<Longrightarrow> (t, s) \<notin> (set table)\<^sup>*"
  using rank_less rank_le by (meson leD)

lemma run_length: "(s, t) \<in> set table ^^ n \<Longrightarrow> n + rank s \<le> rank t"
proof (induction n arbitrary: t)
  case (Suc n)
  then obtain u where "(s, u) \<in> set table ^^ n" and "(u, t) \<in> set table" by auto
  with Suc.IH [of u] rank_less [of u t] show ?case by simp
qed simp

lemma reaches_terminal: "\<exists>t. terminal t \<and> (s, t) \<in> (set table)\<^sup>*"
proof -
  have fin: "finite (rank ` set all)" by simp
  define m where "m = Max (rank ` set all)"
  have bound: "rank t \<le> m" for t
    unfolding m_def using fin all_states by (intro Max_ge) auto
  show ?thesis
  proof (induction "m - rank s" arbitrary: s rule: less_induct)
    case less
    show ?case
    proof (cases "terminal s")
      case False
      then obtain u where u: "(s, u) \<in> set table" using progress by blast
      have "m - rank u < m - rank s" using rank_less [OF u] bound [of u] by simp
      then obtain t where "terminal t" "(u, t) \<in> (set table)\<^sup>*" using less by blast
      with u show ?thesis by (meson converse_rtrancl_into_rtrancl)
    qed auto
  qed
qed

end

end
