(* ===== verification/Decimal_Api.thy ===== *)
theory Decimal_Api
  imports Complex_Main "HOL-Library.Code_Target_Numeral" Prelude
begin

text \<open>
  Every amount is a \<open>rust_decimal::Decimal\<close>, a type of a third-party crate. It is a parameter of
  the model: an opaque type \<open>'d\<close> and a record \<open>'d decimal_ops\<close> of the operations the modelled
  code calls, passed to every definition that computes with amounts. What the code relies on is
  \<open>decimal_laws\<close> (comparison, sign and zero follow the numeric value \<open>mantissa / 10^scale\<close>) and
  \<open>decimal_arith_laws\<close> (the checked operations are exact whenever a decimal can hold the exact
  result). They state the crate's documented behaviour and say nothing about rounding.

  The operators of \<open>Decimal\<close> (\<open>+\<close>, \<open>-\<close>, \<open>*\<close>, \<open>/\<close>) panic where the checked operations answer
  \<open>None\<close>. \<open>sample_dec\<close> is a small concrete decimal that satisfies the laws; it only shows that
  they can hold, and gives the witnesses something to compute with.
\<close>

section \<open>The operations\<close>

record 'd decimal_ops =
  dec_zero :: 'd
  dec_one :: 'd
  dec_from_int :: "int \<Rightarrow> 'd"
  dec_mantissa :: "'d \<Rightarrow> int"
  dec_scale :: "'d \<Rightarrow> nat"
  dec_is_sign_negative :: "'d \<Rightarrow> bool"
  dec_set_sign_positive :: "'d \<Rightarrow> 'd"
  dec_neg :: "'d \<Rightarrow> 'd"
  dec_is_zero :: "'d \<Rightarrow> bool"
  dec_eq :: "'d \<Rightarrow> 'd \<Rightarrow> bool"
  dec_lt :: "'d \<Rightarrow> 'd \<Rightarrow> bool"
  dec_checked_add :: "'d \<Rightarrow> 'd \<Rightarrow> 'd option"
  dec_checked_sub :: "'d \<Rightarrow> 'd \<Rightarrow> 'd option"
  dec_checked_mul :: "'d \<Rightarrow> 'd \<Rightarrow> 'd option"
  dec_checked_div :: "'d \<Rightarrow> 'd \<Rightarrow> 'd option"
  dec_trunc :: "'d \<Rightarrow> 'd"
  dec_fract :: "'d \<Rightarrow> 'd"
  dec_round_half_even :: "nat \<Rightarrow> 'd \<Rightarrow> 'd"
  dec_from_str_exact :: "string \<Rightarrow> 'd option"
  dec_to_string :: "'d \<Rightarrow> string"

text \<open>The derived comparisons of \<open>Ord\<close>, and its \<open>min\<close> and \<open>max\<close>, which return the first
  argument of \<open>min\<close> and the second of \<open>max\<close> where the two are equal.\<close>

definition dec_le :: "'d decimal_ops \<Rightarrow> 'd \<Rightarrow> 'd \<Rightarrow> bool" where
  "dec_le D a b \<longleftrightarrow> \<not> dec_lt D b a"

definition dec_min :: "'d decimal_ops \<Rightarrow> 'd \<Rightarrow> 'd \<Rightarrow> 'd" where
  "dec_min D a b = (if dec_lt D b a then b else a)"

definition dec_max :: "'d decimal_ops \<Rightarrow> 'd \<Rightarrow> 'd \<Rightarrow> 'd" where
  "dec_max D a b = (if dec_lt D b a then a else b)"

section \<open>The value, and what the code relies on\<close>

definition dec_val :: "'d decimal_ops \<Rightarrow> 'd \<Rightarrow> rat" where
  "dec_val D a = of_int (dec_mantissa D a) / 10 ^ dec_scale D a"

text \<open>The numbers a decimal holds: 96 bits of digits, at most 28 of them after the point.\<close>

definition holds_exactly :: "nat \<Rightarrow> rat \<Rightarrow> bool" where
  "holds_exactly s q \<longleftrightarrow> s \<le> 28 \<and> (\<exists>m. q = of_int m / 10 ^ s \<and> \<bar>m\<bar> < 2 ^ 96)"

definition decimal_laws :: "'d decimal_ops \<Rightarrow> bool" where
  "decimal_laws D \<longleftrightarrow>
     (\<forall>a b. dec_lt D a b \<longleftrightarrow> dec_val D a < dec_val D b) \<and>
     (\<forall>a b. dec_eq D a b \<longleftrightarrow> dec_val D a = dec_val D b) \<and>
     (\<forall>a. dec_is_zero D a \<longleftrightarrow> dec_val D a = 0) \<and>
     (\<forall>a. dec_val D a \<noteq> 0 \<longrightarrow> (dec_is_sign_negative D a \<longleftrightarrow> dec_val D a < 0)) \<and>
     (\<forall>a. dec_val D (dec_set_sign_positive D a) = \<bar>dec_val D a\<bar>) \<and>
     (\<forall>a. \<not> dec_is_sign_negative D (dec_set_sign_positive D a)) \<and>
     (\<forall>a. \<not> dec_is_sign_negative D a \<longrightarrow> dec_set_sign_positive D a = a) \<and>
     (\<forall>a. dec_scale D (dec_set_sign_positive D a) = dec_scale D a) \<and>
     (\<forall>a. dec_val D (dec_neg D a) = - dec_val D a) \<and>
     dec_val D (dec_zero D) = 0 \<and> dec_val D (dec_one D) = 1 \<and>
     (\<forall>a. dec_val D (dec_fract D a) = 0 \<longleftrightarrow> dec_val D a \<in> \<int>)"

definition decimal_arith_laws :: "'d decimal_ops \<Rightarrow> bool" where
  "decimal_arith_laws D \<longleftrightarrow>
     decimal_laws D \<and>
     (\<forall>a b. holds_exactly (max (dec_scale D a) (dec_scale D b)) (dec_val D a + dec_val D b) \<longrightarrow>
        (\<exists>c. dec_checked_add D a b = Some c \<and> dec_val D c = dec_val D a + dec_val D b \<and>
             dec_scale D c \<le> max (dec_scale D a) (dec_scale D b))) \<and>
     (\<forall>a b. holds_exactly (max (dec_scale D a) (dec_scale D b)) (dec_val D a - dec_val D b) \<longrightarrow>
        (\<exists>c. dec_checked_sub D a b = Some c \<and> dec_val D c = dec_val D a - dec_val D b \<and>
             dec_scale D c \<le> max (dec_scale D a) (dec_scale D b))) \<and>
     (\<forall>a b. holds_exactly (dec_scale D a + dec_scale D b) (dec_val D a * dec_val D b) \<longrightarrow>
        (\<exists>c. dec_checked_mul D a b = Some c \<and> dec_val D c = dec_val D a * dec_val D b)) \<and>
     (\<forall>a b s. dec_val D b \<noteq> 0 \<longrightarrow> holds_exactly s (dec_val D a / dec_val D b) \<longrightarrow>
        (\<exists>c. dec_checked_div D a b = Some c \<and> dec_val D c = dec_val D a / dec_val D b)) \<and>
     (\<forall>a b. dec_val D b = 0 \<longrightarrow> dec_checked_div D a b = None) \<and>
     (\<forall>a b. dec_val D b \<noteq> 0 \<longrightarrow> \<bar>dec_val D a / dec_val D b\<bar> < 2 ^ 96 - 1 \<longrightarrow>
        (\<exists>c. dec_checked_div D a b = Some c)) \<and>
     (\<forall>n. \<bar>n\<bar> < 2 ^ 63 \<longrightarrow> dec_val D (dec_from_int D n) = of_int n) \<and>
     dec_scale D (dec_zero D) = 0 \<and>
     (\<forall>a. dec_scale D (dec_trunc D a) = 0) \<and>
     (\<forall>a. 0 \<le> dec_val D a \<longrightarrow> dec_val D (dec_trunc D a) = of_int \<lfloor>dec_val D a\<rfloor>)"

lemma decimal_lawsD:
  assumes "decimal_laws D"
  shows dec_lt_val: "dec_lt D a b \<longleftrightarrow> dec_val D a < dec_val D b"
    and dec_eq_val: "dec_eq D a b \<longleftrightarrow> dec_val D a = dec_val D b"
    and dec_is_zero_val: "dec_is_zero D a \<longleftrightarrow> dec_val D a = 0"
    and dec_sign_val: "dec_val D a \<noteq> 0 \<Longrightarrow> dec_is_sign_negative D a \<longleftrightarrow> dec_val D a < 0"
    and dec_set_positive_val: "dec_val D (dec_set_sign_positive D a) = \<bar>dec_val D a\<bar>"
    and dec_set_positive_sign: "\<not> dec_is_sign_negative D (dec_set_sign_positive D a)"
    and dec_set_positive_id: "\<not> dec_is_sign_negative D a \<Longrightarrow> dec_set_sign_positive D a = a"
    and dec_set_positive_scale: "dec_scale D (dec_set_sign_positive D a) = dec_scale D a"
    and dec_neg_val: "dec_val D (dec_neg D a) = - dec_val D a"
    and dec_zero_val: "dec_val D (dec_zero D) = 0"
    and dec_one_val: "dec_val D (dec_one D) = 1"
    and dec_fract_val: "dec_val D (dec_fract D a) = 0 \<longleftrightarrow> dec_val D a \<in> \<int>"
  using assms unfolding decimal_laws_def by blast+

lemma dec_le_val: "decimal_laws D \<Longrightarrow> dec_le D a b \<longleftrightarrow> dec_val D a \<le> dec_val D b"
  by (simp add: dec_le_def dec_lt_val not_less)

lemma dec_min_val: "decimal_laws D \<Longrightarrow> dec_val D (dec_min D a b) = min (dec_val D a) (dec_val D b)"
  by (simp add: dec_min_def dec_lt_val min_def)

lemma dec_max_val: "decimal_laws D \<Longrightarrow> dec_val D (dec_max D a b) = max (dec_val D a) (dec_val D b)"
  by (simp add: dec_max_def dec_lt_val max_def)

lemmas dec_vals = dec_lt_val dec_eq_val dec_is_zero_val dec_set_positive_val dec_neg_val
  dec_zero_val dec_one_val dec_fract_val dec_le_val dec_min_val dec_max_val

lemma arith_laws_order: "decimal_arith_laws D \<Longrightarrow> decimal_laws D"
  by (simp add: decimal_arith_laws_def)

lemma dec_add_exact:
  "decimal_arith_laws D \<Longrightarrow>
   holds_exactly (max (dec_scale D a) (dec_scale D b)) (dec_val D a + dec_val D b) \<Longrightarrow>
   \<exists>c. dec_checked_add D a b = Some c \<and> dec_val D c = dec_val D a + dec_val D b \<and>
       dec_scale D c \<le> max (dec_scale D a) (dec_scale D b)"
  by (simp add: decimal_arith_laws_def)

lemma dec_sub_exact:
  "decimal_arith_laws D \<Longrightarrow>
   holds_exactly (max (dec_scale D a) (dec_scale D b)) (dec_val D a - dec_val D b) \<Longrightarrow>
   \<exists>c. dec_checked_sub D a b = Some c \<and> dec_val D c = dec_val D a - dec_val D b \<and>
       dec_scale D c \<le> max (dec_scale D a) (dec_scale D b)"
  by (simp add: decimal_arith_laws_def)

lemma dec_mul_exact:
  "decimal_arith_laws D \<Longrightarrow>
   holds_exactly (dec_scale D a + dec_scale D b) (dec_val D a * dec_val D b) \<Longrightarrow>
   \<exists>c. dec_checked_mul D a b = Some c \<and> dec_val D c = dec_val D a * dec_val D b"
  by (simp add: decimal_arith_laws_def)

lemma dec_div_exact:
  "decimal_arith_laws D \<Longrightarrow> dec_val D b \<noteq> 0 \<Longrightarrow> holds_exactly s (dec_val D a / dec_val D b) \<Longrightarrow>
   \<exists>c. dec_checked_div D a b = Some c \<and> dec_val D c = dec_val D a / dec_val D b"
  unfolding decimal_arith_laws_def by blast

lemma dec_div_zero: "decimal_arith_laws D \<Longrightarrow> dec_val D b = 0 \<Longrightarrow> dec_checked_div D a b = None"
  unfolding decimal_arith_laws_def by blast

lemma dec_div_total:
  "decimal_arith_laws D \<Longrightarrow> dec_val D b \<noteq> 0 \<Longrightarrow> \<bar>dec_val D a / dec_val D b\<bar> < 2 ^ 96 - 1 \<Longrightarrow>
   \<exists>c. dec_checked_div D a b = Some c"
  unfolding decimal_arith_laws_def by blast

lemma dec_zero_scale: "decimal_arith_laws D \<Longrightarrow> dec_scale D (dec_zero D) = 0"
  unfolding decimal_arith_laws_def by blast

lemma dec_from_int_val:
  "decimal_arith_laws D \<Longrightarrow> \<bar>n\<bar> < 2 ^ 63 \<Longrightarrow> dec_val D (dec_from_int D n) = of_int n"
  unfolding decimal_arith_laws_def by blast

lemma dec_trunc_val:
  "decimal_arith_laws D \<Longrightarrow> 0 \<le> dec_val D a \<Longrightarrow>
   dec_val D (dec_trunc D a) = of_int \<lfloor>dec_val D a\<rfloor> \<and> dec_scale D (dec_trunc D a) = 0"
  unfolding decimal_arith_laws_def by blast

section \<open>A decimal that satisfies the laws\<close>

text \<open>Sign, digits and scale. Addition, subtraction and multiplication answer \<open>None\<close> where the
  exact result does not fit; division keeps as many of 28 fraction digits as fit.\<close>

datatype sdec = SDec (s_neg: bool) (s_mag: nat) (s_scale: nat)

definition s_mant :: "sdec \<Rightarrow> int" where
  "s_mant a = (if s_neg a then - int (s_mag a) else int (s_mag a))"

definition s_of :: "int \<Rightarrow> nat \<Rightarrow> sdec" where
  "s_of m s = SDec (m < 0) (nat \<bar>m\<bar>) s"

definition s_fit :: "int \<Rightarrow> nat \<Rightarrow> sdec option" where
  "s_fit m s = (if \<bar>m\<bar> < 2 ^ 96 \<and> s \<le> 28 then Some (s_of m s) else None)"

definition s_align :: "sdec \<Rightarrow> sdec \<Rightarrow> (int \<Rightarrow> int \<Rightarrow> int) \<Rightarrow> sdec option" where
  "s_align a b f =
     (let s = max (s_scale a) (s_scale b)
      in s_fit (f (s_mant a * 10 ^ (s - s_scale a)) (s_mant b * 10 ^ (s - s_scale b))) s)"

fun s_quot :: "nat \<Rightarrow> int \<Rightarrow> int \<Rightarrow> sdec option" where
  "s_quot s n d =
     (let q = sgn n * sgn d * (\<bar>n\<bar> * 10 ^ s div \<bar>d\<bar>)
      in if \<bar>q\<bar> < 2 ^ 96 then Some (s_of q s)
         else (case s of 0 \<Rightarrow> None | Suc t \<Rightarrow> s_quot t n d))"

declare s_quot.simps [simp del]

text \<open>Trailing zeros of a quotient are dropped.\<close>

fun s_norm :: "int \<Rightarrow> nat \<Rightarrow> sdec" where
  "s_norm m 0 = s_of m 0"
| "s_norm m (Suc s) = (if 10 dvd m then s_norm (m div 10) s else s_of m (Suc s))"

definition s_div :: "sdec \<Rightarrow> sdec \<Rightarrow> sdec option" where
  "s_div a b =
     (if s_mag b = 0 then None
      else map_option (\<lambda>q. s_norm (s_mant q) (s_scale q))
             (s_quot 28 (s_mant a * 10 ^ s_scale b) (s_mant b * 10 ^ s_scale a)))"

definition s_text :: "sdec \<Rightarrow> string" where
  "s_text a =
     (let ds = nat_string (s_mag a);
          padded = replicate (Suc (s_scale a) - length ds) CHR ''0'' @ ds;
          whole = take (length padded - s_scale a) padded;
          fraction = drop (length padded - s_scale a) padded
      in (if s_neg a then ''-'' else []) @ whole @ (if s_scale a = 0 then [] else CHR ''.'' # fraction))"

definition digits_val :: "string \<Rightarrow> nat" where
  "digits_val ds = foldl (\<lambda>n c. 10 * n + (code c - 48)) 0 ds"

definition s_parse :: "string \<Rightarrow> sdec option" where
  "s_parse t =
     (let u = (case strip_prefix ''-'' t of None \<Rightarrow> t | Some r \<Rightarrow> r);
          parts = (case split_once CHR ''.'' u of None \<Rightarrow> (u, []) | Some p \<Rightarrow> p);
          ds = fst parts @ snd parts
      in if ds \<noteq> [] \<and> list_all is_ascii_digit ds
         then s_fit ((if u = t then 1 else -1) * int (digits_val ds)) (length (snd parts))
         else None)"

definition sample_dec :: "sdec decimal_ops" where
  "sample_dec =
     \<lparr>dec_zero = SDec False 0 0, dec_one = SDec False 1 0, dec_from_int = (\<lambda>n. s_of n 0),
      dec_mantissa = s_mant, dec_scale = s_scale, dec_is_sign_negative = s_neg,
      dec_set_sign_positive = (\<lambda>a. SDec False (s_mag a) (s_scale a)),
      dec_neg = (\<lambda>a. SDec (\<not> s_neg a) (s_mag a) (s_scale a)),
      dec_is_zero = (\<lambda>a. s_mag a = 0),
      dec_eq = (\<lambda>a b. s_mant a * 10 ^ s_scale b = s_mant b * 10 ^ s_scale a),
      dec_lt = (\<lambda>a b. s_mant a * 10 ^ s_scale b < s_mant b * 10 ^ s_scale a),
      dec_checked_add = (\<lambda>a b. s_align a b (+)), dec_checked_sub = (\<lambda>a b. s_align a b (-)),
      dec_checked_mul = (\<lambda>a b. s_fit (s_mant a * s_mant b) (s_scale a + s_scale b)),
      dec_checked_div = s_div,
      dec_trunc = (\<lambda>a. SDec (s_neg a) (s_mag a div 10 ^ s_scale a) 0),
      dec_fract = (\<lambda>a. SDec (s_neg a) (s_mag a mod 10 ^ s_scale a) (s_scale a)),
      dec_round_half_even = (\<lambda>n a.
        if s_scale a \<le> n then a
        else let k = 10 ^ (s_scale a - n); q = s_mag a div k; r = s_mag a mod k
             in SDec (s_neg a) (if 2 * r > k \<or> (2 * r = k \<and> odd q) then Suc q else q) n),
      dec_from_str_exact = s_parse, dec_to_string = s_text\<rparr>"

lemma s_mant_of [simp]: "s_mant (s_of m s) = m"
  by (simp add: s_mant_def s_of_def)

lemma s_scale_of [simp]: "s_scale (s_of m s) = s"
  by (simp add: s_of_def)

lemma s_val: "dec_val sample_dec a = of_int (s_mant a) / 10 ^ s_scale a"
  by (simp add: dec_val_def sample_dec_def)

lemma s_val_of: "dec_val sample_dec (s_of m s) = of_int m / 10 ^ s"
  by (simp add: s_val)

lemma s_zero_iff: "s_mag a = 0 \<longleftrightarrow> s_mant a = 0"
  by (simp add: s_mant_def)

lemma cross_less:
  "of_int m / 10 ^ s < (of_int n / 10 ^ t :: rat) \<longleftrightarrow> m * 10 ^ t < n * 10 ^ s"
proof -
  have "of_int m / 10 ^ s < (of_int n / 10 ^ t :: rat) \<longleftrightarrow>
        of_int m * 10 ^ t < (of_int n * 10 ^ s :: rat)"
    by (simp add: divide_less_eq less_divide_eq field_simps)
  also have "\<dots> \<longleftrightarrow> (of_int (m * 10 ^ t) :: rat) < of_int (n * 10 ^ s)" by simp
  also have "\<dots> \<longleftrightarrow> m * 10 ^ t < n * 10 ^ s" by (rule of_int_less_iff)
  finally show ?thesis .
qed

lemma cross_eq:
  "of_int m / 10 ^ s = (of_int n / 10 ^ t :: rat) \<longleftrightarrow> m * 10 ^ t = n * 10 ^ s"
  using cross_less [of m s n t] cross_less [of n t m s] by linarith

lemma scaled_in_Ints: "(of_int m / 10 ^ s :: rat) \<in> \<int> \<longleftrightarrow> 10 ^ s dvd m"
proof
  assume "(of_int m / 10 ^ s :: rat) \<in> \<int>"
  then obtain k where "of_int m / 10 ^ s = (of_int k :: rat)" by (auto elim: Ints_cases)
  then have "(of_int m :: rat) = of_int (k * 10 ^ s)" by (simp add: field_simps)
  then have "m = k * 10 ^ s" by (simp only: of_int_eq_iff)
  then show "10 ^ s dvd m" by simp
next
  assume "10 ^ s dvd m"
  then obtain k where "m = 10 ^ s * k" ..
  then show "(of_int m / 10 ^ s :: rat) \<in> \<int>" by simp
qed

lemma s_fract_zero: "s_mag (dec_fract sample_dec a) = 0 \<longleftrightarrow> 10 ^ s_scale a dvd s_mant a"
proof -
  have "(10 :: int) ^ s_scale a dvd s_mant a \<longleftrightarrow> int (10 ^ s_scale a) dvd int (s_mag a)"
    by (simp add: s_mant_def)
  also have "\<dots> \<longleftrightarrow> 10 ^ s_scale a dvd s_mag a" by (rule int_dvd_int_iff)
  finally show ?thesis by (auto simp: sample_dec_def mod_eq_0_iff_dvd)
qed

lemma sample_dec_laws: "decimal_laws sample_dec"
proof -
  have lt: "dec_lt sample_dec a b \<longleftrightarrow> dec_val sample_dec a < dec_val sample_dec b" for a b
    unfolding s_val cross_less by (simp add: sample_dec_def)
  have eq: "dec_eq sample_dec a b \<longleftrightarrow> dec_val sample_dec a = dec_val sample_dec b" for a b
    unfolding s_val cross_eq by (simp add: sample_dec_def)
  have zero: "dec_is_zero sample_dec a \<longleftrightarrow> dec_val sample_dec a = 0" for a
    unfolding s_val by (simp add: sample_dec_def s_mant_def)
  have sign: "dec_val sample_dec a \<noteq> 0 \<Longrightarrow>
      dec_is_sign_negative sample_dec a \<longleftrightarrow> dec_val sample_dec a < 0" for a
    unfolding s_val by (auto simp: sample_dec_def s_mant_def divide_less_0_iff)
  have pos: "dec_val sample_dec (dec_set_sign_positive sample_dec a) = \<bar>dec_val sample_dec a\<bar>" for a
    by (simp add: dec_val_def) (simp add: sample_dec_def s_mant_def)
  have pos2: "\<not> dec_is_sign_negative sample_dec (dec_set_sign_positive sample_dec a)" for a
    by (simp add: sample_dec_def)
  have pos3: "\<not> dec_is_sign_negative sample_dec a \<Longrightarrow> dec_set_sign_positive sample_dec a = a" for a
    by (cases a) (simp add: sample_dec_def)
  have pos4: "dec_scale sample_dec (dec_set_sign_positive sample_dec a) = dec_scale sample_dec a" for a
    by (simp add: sample_dec_def)
  have neg: "dec_val sample_dec (dec_neg sample_dec a) = - dec_val sample_dec a" for a
    by (simp add: dec_val_def) (simp add: sample_dec_def s_mant_def)
  have units: "dec_val sample_dec (dec_zero sample_dec) = 0" "dec_val sample_dec (dec_one sample_dec) = 1"
    by (simp_all add: dec_val_def) (simp_all add: sample_dec_def s_mant_def)
  have fract: "dec_val sample_dec (dec_fract sample_dec a) = 0 \<longleftrightarrow> dec_val sample_dec a \<in> \<int>" for a
    unfolding zero [symmetric] s_val scaled_in_Ints s_fract_zero [symmetric]
    by (simp add: sample_dec_def s_mant_def)
  show ?thesis
    unfolding decimal_laws_def using lt eq zero sign pos pos2 pos3 pos4 neg units fract by blast
qed

lemma s_fit_exact:
  assumes "holds_exactly s q" and "q = of_int m / 10 ^ s"
  shows "\<exists>c. s_fit m s = Some c \<and> dec_val sample_dec c = q \<and> s_scale c = s"
proof -
  from assms obtain n where s: "s \<le> 28" and q: "q = of_int n / 10 ^ s" and n: "\<bar>n\<bar> < 2 ^ 96"
    by (auto simp: holds_exactly_def)
  with assms(2) have "m = n" by (simp add: cross_eq)
  with s n q show ?thesis by (simp add: s_fit_def s_val_of)
qed

lemma scale_up:
  "s \<le> k \<Longrightarrow> (of_int (m * 10 ^ (k - s)) / 10 ^ k :: rat) = of_int m / 10 ^ s"
  by (auto simp: le_iff_add power_add)

lemma s_align_exact:
  assumes f: "\<And>m n. of_int (f m n) = g (of_int m) (of_int n :: rat)"
    and g: "\<And>x y z :: rat. g x y / z = g (x / z) (y / z)"
    and h: "holds_exactly (max (s_scale a) (s_scale b)) (g (dec_val sample_dec a) (dec_val sample_dec b))"
  shows "\<exists>c. s_align a b f = Some c \<and> dec_val sample_dec c = g (dec_val sample_dec a) (dec_val sample_dec b) \<and>
    s_scale c = max (s_scale a) (s_scale b)"
proof -
  let ?s = "max (s_scale a) (s_scale b)"
  let ?m = "f (s_mant a * 10 ^ (?s - s_scale a)) (s_mant b * 10 ^ (?s - s_scale b))"
  have "g (dec_val sample_dec a) (dec_val sample_dec b) = of_int ?m / 10 ^ ?s"
    unfolding f g s_val by (simp only: scale_up max.cobounded1 max.cobounded2)
  from s_fit_exact [OF h this] show ?thesis by (simp add: s_align_def Let_def)
qed

lemma trunc_quot:
  fixes n d m :: int
  assumes "d \<noteq> 0" and "n * 10 ^ t = m * d"
  shows "sgn n * sgn d * (\<bar>n\<bar> * 10 ^ t div \<bar>d\<bar>) = m"
proof -
  have "sgn n = sgn m * sgn d"
    using arg_cong [OF assms(2), of sgn] by (simp add: sgn_mult)
  then have sg: "sgn n * sgn d = sgn m"
    using assms(1) by (cases "0 < d") auto
  have "\<bar>n\<bar> * 10 ^ t = \<bar>m\<bar> * \<bar>d\<bar>"
    using arg_cong [OF assms(2), of abs] by (simp add: abs_mult)
  then have "\<bar>n\<bar> * 10 ^ t div \<bar>d\<bar> = \<bar>m\<bar>" using assms(1) by simp
  with sg show ?thesis by (simp add: sgn_mult_abs)
qed

lemma s_quot_exact:
  assumes "d \<noteq> 0" and "n * 10 ^ s = m * d" and "\<bar>m\<bar> < 2 ^ 96" and "s \<le> t"
  shows "\<exists>c. s_quot t n d = Some c \<and> dec_val sample_dec c = of_int m / 10 ^ s"
  using assms(4)
proof (induction t)
  case 0
  then have s: "s = 0" by simp
  with assms(2) have "n * 10 ^ 0 = m * d" by simp
  from trunc_quot [OF assms(1) this] assms(3) s show ?case
    by (subst s_quot.simps) (simp add: s_val_of)
next
  case (Suc t)
  let ?m = "m * 10 ^ (Suc t - s)"
  have nd: "n * 10 ^ Suc t = ?m * d"
  proof -
    obtain k where k: "Suc t = s + k" using Suc.prems le_iff_add by blast
    have "n * 10 ^ Suc t = (n * 10 ^ s) * 10 ^ k" by (simp add: k power_add)
    also have "\<dots> = ?m * d" by (simp add: assms(2) k)
    finally show ?thesis .
  qed
  note q = trunc_quot [OF assms(1) nd]
  show ?case
  proof (cases "\<bar>?m\<bar> < 2 ^ 96")
    case True
    moreover have "(of_int ?m / 10 ^ Suc t :: rat) = of_int m / 10 ^ s"
      by (rule scale_up [OF Suc.prems])
    ultimately show ?thesis
      by (subst s_quot.simps) (simp only: q Let_def if_True s_val_of option.inject ex_simps simp_thms)
  next
    case False
    with assms(3) Suc.prems have "s \<le> t" by (cases "s = Suc t") auto
    then show ?thesis
      using Suc.IH False by (subst s_quot.simps) (simp only: q Let_def if_False nat.case)
  qed
qed

lemma s_norm_val: "dec_val sample_dec (s_norm m s) = of_int m / 10 ^ s"
proof (induction m s rule: s_norm.induct)
  case (2 m s)
  then show ?case by (auto simp: s_val_of)
qed (simp add: s_val_of)

lemma s_div_exact:
  assumes "dec_val sample_dec b \<noteq> 0"
    and "holds_exactly s (dec_val sample_dec a / dec_val sample_dec b)"
  shows "\<exists>c. s_div a b = Some c \<and> dec_val sample_dec c = dec_val sample_dec a / dec_val sample_dec b"
proof -
  let ?n = "s_mant a * 10 ^ s_scale b" and ?d = "s_mant b * 10 ^ s_scale a"
  have b: "s_mant b \<noteq> 0" using assms(1) by (auto simp: s_val)
  obtain m where s: "s \<le> 28" and q: "dec_val sample_dec a / dec_val sample_dec b = of_int m / 10 ^ s"
    and m: "\<bar>m\<bar> < 2 ^ 96"
    using assms(2) by (auto simp: holds_exactly_def)
  have "of_int ?n * 10 ^ s = (of_int m * of_int ?d :: rat)"
    using q b by (simp add: s_val field_simps)
  then have "(of_int (?n * 10 ^ s) :: rat) = of_int (m * ?d)" by simp
  then have "?n * 10 ^ s = m * ?d" by (simp only: of_int_eq_iff)
  from s_quot_exact [OF _ this m s] b q show ?thesis
    by (auto simp: s_div_def s_zero_iff s_norm_val) (simp add: s_val)
qed

lemma s_quot_total:
  assumes "d \<noteq> 0" and "\<bar>n\<bar> div \<bar>d\<bar> < 2 ^ 96"
  shows "\<exists>c. s_quot t n d = Some c"
proof (induction t)
  case 0
  have "\<bar>sgn n * sgn d * (\<bar>n\<bar> div \<bar>d\<bar>)\<bar> \<le> \<bar>n\<bar> div \<bar>d\<bar>"
    by (cases "n = 0") (auto simp: abs_mult abs_sgn_eq pos_imp_zdiv_nonneg_iff assms(1))
  with assms show ?case by (subst s_quot.simps) (simp add: Let_def)
next
  case (Suc t)
  then show ?case by (subst s_quot.simps) (simp add: Let_def)
qed

lemma s_div_total:
  assumes "dec_val sample_dec b \<noteq> 0"
    and "\<bar>dec_val sample_dec a / dec_val sample_dec b\<bar> < 2 ^ 96 - 1"
  shows "\<exists>c. s_div a b = Some c"
proof -
  let ?n = "s_mant a * 10 ^ s_scale b" and ?d = "s_mant b * 10 ^ s_scale a"
  have b: "s_mant b \<noteq> 0" using assms(1) by (auto simp: s_val)
  have "dec_val sample_dec a / dec_val sample_dec b = of_int ?n / (of_int ?d :: rat)"
    by (simp add: s_val)
  then have "of_int \<bar>?n\<bar> / of_int \<bar>?d\<bar> < (2 ^ 96 :: rat)" using assms(2) by simp
  then have "of_int \<bar>?n\<bar> < (2 ^ 96 :: rat) * of_int \<bar>?d\<bar>"
    using b by (simp add: pos_divide_less_eq)
  then have "of_int \<bar>?n\<bar> < (of_int (2 ^ 96 * \<bar>?d\<bar>) :: rat)" by simp
  then have "\<bar>?n\<bar> < 2 ^ 96 * \<bar>?d\<bar>" by (simp only: of_int_less_iff)
  moreover have "\<bar>?n\<bar> div \<bar>?d\<bar> * \<bar>?d\<bar> \<le> \<bar>?n\<bar>"
    using b by (simp add: minus_mod_eq_div_mult [symmetric])
  ultimately have "\<bar>?n\<bar> div \<bar>?d\<bar> * \<bar>?d\<bar> < 2 ^ 96 * \<bar>?d\<bar>" by (rule le_less_trans [rotated])
  then have "\<bar>?n\<bar> div \<bar>?d\<bar> < 2 ^ 96" by (rule mult_right_less_imp_less) simp
  with b have "\<exists>c. s_quot 28 ?n ?d = Some c" by (intro s_quot_total) simp_all
  with b show ?thesis by (simp add: s_div_def s_zero_iff)
qed

lemma s_trunc_val:
  assumes "0 \<le> dec_val sample_dec a"
  shows "dec_val sample_dec (dec_trunc sample_dec a) = of_int \<lfloor>dec_val sample_dec a\<rfloor>"
proof (cases "s_mag a = 0")
  case True
  then show ?thesis by (simp add: dec_val_def) (simp add: sample_dec_def s_mant_def)
next
  case False
  have "s_neg a \<Longrightarrow> dec_val sample_dec a < 0"
    using False by (simp add: s_val s_mant_def divide_less_0_iff)
  with assms have neg: "\<not> s_neg a" by (auto simp: not_less [symmetric])
  then have "\<lfloor>dec_val sample_dec a\<rfloor> = int (s_mag a) div 10 ^ s_scale a"
    by (simp add: s_val s_mant_def)
       (metis floor_divide_of_int_eq of_int_numeral of_int_of_nat_eq of_int_power)
  with neg show ?thesis
    by (simp add: dec_val_def) (simp add: sample_dec_def s_mant_def zdiv_int)
qed

theorem sample_dec_arith_laws: "decimal_arith_laws sample_dec"
proof -
  have add: "holds_exactly (max (dec_scale sample_dec a) (dec_scale sample_dec b))
        (dec_val sample_dec a + dec_val sample_dec b) \<Longrightarrow>
      \<exists>c. dec_checked_add sample_dec a b = Some c \<and>
          dec_val sample_dec c = dec_val sample_dec a + dec_val sample_dec b \<and>
          dec_scale sample_dec c \<le> max (dec_scale sample_dec a) (dec_scale sample_dec b)" for a b
    using s_align_exact [of "(+)" "(+)" a b] by (force simp: sample_dec_def add_divide_distrib)
  have sub: "holds_exactly (max (dec_scale sample_dec a) (dec_scale sample_dec b))
        (dec_val sample_dec a - dec_val sample_dec b) \<Longrightarrow>
      \<exists>c. dec_checked_sub sample_dec a b = Some c \<and>
          dec_val sample_dec c = dec_val sample_dec a - dec_val sample_dec b \<and>
          dec_scale sample_dec c \<le> max (dec_scale sample_dec a) (dec_scale sample_dec b)" for a b
    using s_align_exact [of "(-)" "(-)" a b] by (force simp: sample_dec_def diff_divide_distrib)
  have mul: "holds_exactly (dec_scale sample_dec a + dec_scale sample_dec b)
        (dec_val sample_dec a * dec_val sample_dec b) \<Longrightarrow>
      \<exists>c. dec_checked_mul sample_dec a b = Some c \<and>
          dec_val sample_dec c = dec_val sample_dec a * dec_val sample_dec b" for a b
    using s_fit_exact [of "s_scale a + s_scale b" "dec_val sample_dec a * dec_val sample_dec b"
        "s_mant a * s_mant b"]
    by (simp add: s_val power_add) (auto simp: sample_dec_def)
  have div: "dec_val sample_dec b \<noteq> 0 \<Longrightarrow>
      holds_exactly s (dec_val sample_dec a / dec_val sample_dec b) \<Longrightarrow>
      \<exists>c. dec_checked_div sample_dec a b = Some c \<and>
          dec_val sample_dec c = dec_val sample_dec a / dec_val sample_dec b" for a b s
    using s_div_exact [of b s a] by (simp add: sample_dec_def)
  have div0: "dec_val sample_dec b = 0 \<Longrightarrow> dec_checked_div sample_dec a b = None" for a b
    by (simp add: s_val) (simp add: sample_dec_def s_div_def s_zero_iff)
  have total: "dec_val sample_dec b \<noteq> 0 \<Longrightarrow>
      \<bar>dec_val sample_dec a / dec_val sample_dec b\<bar> < 2 ^ 96 - 1 \<Longrightarrow>
      \<exists>c. dec_checked_div sample_dec a b = Some c" for a b
    using s_div_total [of b a] by (simp add: sample_dec_def)
  have ints: "dec_val sample_dec (dec_from_int sample_dec n) = of_int n" for n
    by (simp add: s_val) (simp add: sample_dec_def)
  have zero_scale: "dec_scale sample_dec (dec_zero sample_dec) = 0"
    by (simp add: sample_dec_def)
  have trunc: "dec_scale sample_dec (dec_trunc sample_dec a) = 0" for a
    by (simp add: sample_dec_def)
  show ?thesis
    unfolding decimal_arith_laws_def
    using sample_dec_laws add sub mul div div0 total ints zero_scale trunc s_trunc_val by blast
qed

end
