(* ===== verification/Market.thy ===== *)
theory Market
  imports Prelude
begin

text \<open>
  \<open>src/model/mod.rs\<close> (the error every checked constructor returns), \<open>src/model/interval.rs\<close> (the
  candle grid) and \<open>src/model/market.rs\<close> (symbols, venues, product families and lines, and the
  key of a data series), with \<open>Side\<close> of \<open>src/model/order.rs\<close>. The lemmas show that every
  spelling reads back to the value it spells and to no other.
\<close>

section \<open>Errors\<close>

text \<open>\<open>ModelError\<close>. A time parse error carries its message; an \<open>f64\<close> its bits.\<close>

datatype model_error =
    InvalidSymbol string
  | InvalidInterval string
  | InvalidSide string
  | InvalidSegmentHash string
  | InvalidTimestamp string
  | TimeParse string
  | CandleColumnLength string nat nat
  | FloatToDecimal u64 string
  | InvalidDecimal string
  | InvalidAsset string
  | AssetMismatch string string
  | InvalidAmount string string string
  | UnitMismatch string string string
  | InvalidIdentifier string string string
  | UnsupportedInstrument string string
  | InvalidTransition string string string
  | MissingEvidence string string string
  | IdentityMismatch string string string
  | UnverifiedIdentity
  | UnsupportedFormat string nat nat

section \<open>The candle grid\<close>

datatype interval = S1 | M1 | M3 | M5 | M15 | M30 | H1 | H2 | H4 | H6 | H8 | H12 | D1 | D3 | W1

fun interval_as_str :: "interval \<Rightarrow> string" where
  "interval_as_str S1 = ''1s''"
| "interval_as_str M1 = ''1m''"
| "interval_as_str M3 = ''3m''"
| "interval_as_str M5 = ''5m''"
| "interval_as_str M15 = ''15m''"
| "interval_as_str M30 = ''30m''"
| "interval_as_str H1 = ''1h''"
| "interval_as_str H2 = ''2h''"
| "interval_as_str H4 = ''4h''"
| "interval_as_str H6 = ''6h''"
| "interval_as_str H8 = ''8h''"
| "interval_as_str H12 = ''12h''"
| "interval_as_str D1 = ''1d''"
| "interval_as_str D3 = ''3d''"
| "interval_as_str W1 = ''1w''"

fun step_ms :: "interval \<Rightarrow> int" where
  "step_ms S1 = 1000"
| "step_ms M1 = 60 * 1000"
| "step_ms M3 = 3 * 60 * 1000"
| "step_ms M5 = 5 * 60 * 1000"
| "step_ms M15 = 15 * 60 * 1000"
| "step_ms M30 = 30 * 60 * 1000"
| "step_ms H1 = 60 * 60 * 1000"
| "step_ms H2 = 2 * 60 * 60 * 1000"
| "step_ms H4 = 4 * 60 * 60 * 1000"
| "step_ms H6 = 6 * 60 * 60 * 1000"
| "step_ms H8 = 8 * 60 * 60 * 1000"
| "step_ms H12 = 12 * 60 * 60 * 1000"
| "step_ms D1 = 24 * 60 * 60 * 1000"
| "step_ms D3 = 3 * 24 * 60 * 60 * 1000"
| "step_ms W1 = 7 * 24 * 60 * 60 * 1000"

definition interval_from_str :: "string \<Rightarrow> model_error + interval" where
  "interval_from_str s =
     (let t = trim s in
      if t = ''1s'' then Inr S1
      else if t = ''1m'' then Inr M1
      else if t = ''3m'' then Inr M3
      else if t = ''5m'' then Inr M5
      else if t = ''15m'' then Inr M15
      else if t = ''30m'' then Inr M30
      else if t = ''1h'' then Inr H1
      else if t = ''2h'' then Inr H2
      else if t = ''4h'' then Inr H4
      else if t = ''6h'' then Inr H6
      else if t = ''8h'' then Inr H8
      else if t = ''12h'' then Inr H12
      else if t = ''1d'' then Inr D1
      else if t = ''3d'' then Inr D3
      else if t = ''1w'' then Inr W1
      else Inl (InvalidInterval t))"

lemma trim_interval [simp]: "trim (interval_as_str i) = interval_as_str i"
  by (rule trim_fixed; cases i) (auto simp: text_simps Cons_eq_append_conv)

lemma step_ms_pos: "0 < step_ms i"
  by (cases i) simp_all

lemma step_ms_bounds: "1000 \<le> step_ms i \<and> step_ms i \<le> 604800000"
  by (cases i) simp_all

lemma interval_from_str_iff: "interval_from_str s = Inr i \<longleftrightarrow> trim s = interval_as_str i"
  by (cases i) (auto simp: interval_from_str_def Let_def)

lemma interval_from_str_error:
  "interval_from_str s = Inl e \<longleftrightarrow> trim s \<notin> range interval_as_str \<and> e = InvalidInterval (trim s)"
proof (cases "interval_from_str s")
  case (Inr i)
  then have "trim s \<in> range interval_as_str" by (simp add: interval_from_str_iff)
  with Inr show ?thesis by simp
next
  case (Inl x)
  then have x: "x = InvalidInterval (trim s)"
    by (auto simp: interval_from_str_def Let_def split: if_splits)
  have "trim s \<notin> range interval_as_str"
    using Inl interval_from_str_iff [of s] by force
  with Inl x show ?thesis by auto
qed

section \<open>Symbols\<close>

datatype symbol = Symbol (symbol_str: string)

definition symbol_new :: "string \<Rightarrow> model_error + symbol" where
  "symbol_new value =
     (let v = trim value
      in if v = [] then Inl (InvalidSymbol ''empty'') else Inr (Symbol (to_ascii_uppercase v)))"

lemma symbol_new_normal:
  assumes "symbol_new t = Inr s"
  shows "symbol_new (symbol_str s) = Inr s"
  using assms by (auto simp: symbol_new_def Let_def trim_upper split: if_splits)

section \<open>Venues, families and product lines\<close>

datatype venue = Binance | Bybit

definition venue_all :: "venue list" where
  "venue_all = [Binance, Bybit]"

fun venue_as_str :: "venue \<Rightarrow> string" where
  "venue_as_str Binance = ''binance''"
| "venue_as_str Bybit = ''bybit''"

datatype category = Spot | Linear | Inverse

definition category_all :: "category list" where
  "category_all = [Spot, Linear, Inverse]"

fun category_as_str :: "category \<Rightarrow> string" where
  "category_as_str Spot = ''spot''"
| "category_as_str Linear = ''linear''"
| "category_as_str Inverse = ''inverse''"

definition is_futures :: "category \<Rightarrow> bool" where
  "is_futures c \<longleftrightarrow> c \<noteq> Spot"

datatype exchange_id =
  BinanceSpot | BinanceLinear | BinanceInverse | BybitSpot | BybitLinear | BybitInverse

fun exchange_parts :: "exchange_id \<Rightarrow> venue \<times> category \<times> string" where
  "exchange_parts BinanceSpot = (Binance, Spot, ''binance_spot'')"
| "exchange_parts BinanceLinear = (Binance, Linear, ''binance_linear'')"
| "exchange_parts BinanceInverse = (Binance, Inverse, ''binance_inverse'')"
| "exchange_parts BybitSpot = (Bybit, Spot, ''bybit_spot'')"
| "exchange_parts BybitLinear = (Bybit, Linear, ''bybit_linear'')"
| "exchange_parts BybitInverse = (Bybit, Inverse, ''bybit_inverse'')"

definition exchange_as_str :: "exchange_id \<Rightarrow> string" where
  "exchange_as_str x = snd (snd (exchange_parts x))"

definition exchange_venue :: "exchange_id \<Rightarrow> venue" where
  "exchange_venue x = fst (exchange_parts x)"

definition exchange_category :: "exchange_id \<Rightarrow> category" where
  "exchange_category x = fst (snd (exchange_parts x))"

fun exchange_from_parts :: "venue \<Rightarrow> category \<Rightarrow> exchange_id" where
  "exchange_from_parts Binance Spot = BinanceSpot"
| "exchange_from_parts Binance Linear = BinanceLinear"
| "exchange_from_parts Binance Inverse = BinanceInverse"
| "exchange_from_parts Bybit Spot = BybitSpot"
| "exchange_from_parts Bybit Linear = BybitLinear"
| "exchange_from_parts Bybit Inverse = BybitInverse"

text \<open>The lines in the order \<open>from_storage_name\<close> tries them.\<close>

definition exchange_lines :: "exchange_id list" where
  "exchange_lines = concat (map (\<lambda>v. map (exchange_from_parts v) category_all) venue_all)"

definition exchange_from_storage_name :: "string \<Rightarrow> exchange_id option" where
  "exchange_from_storage_name name = find (\<lambda>line. exchange_as_str line = name) exchange_lines"

interpretation exchange_spelling: spelled_enum exchange_lines exchange_as_str
proof
  fix x y :: exchange_id
  show "x \<in> set exchange_lines"
    by (cases x) (simp_all add: exchange_lines_def venue_all_def category_all_def)
  show "exchange_as_str x = exchange_as_str y \<Longrightarrow> x = y"
    by (cases x; cases y) (simp_all add: exchange_as_str_def)
qed

interpretation venue_spelling: spelled_enum venue_all venue_as_str
proof
  fix x y :: venue
  show "x \<in> set venue_all" by (cases x) (simp_all add: venue_all_def)
  show "venue_as_str x = venue_as_str y \<Longrightarrow> x = y" by (cases x; cases y) simp_all
qed

interpretation category_spelling: spelled_enum category_all category_as_str
proof
  fix x y :: category
  show "x \<in> set category_all" by (cases x) (simp_all add: category_all_def)
  show "category_as_str x = category_as_str y \<Longrightarrow> x = y" by (cases x; cases y) simp_all
qed

lemma exchange_from_parts_parts [simp]:
  "exchange_from_parts (exchange_venue x) (exchange_category x) = x"
  by (cases x) (simp_all add: exchange_venue_def exchange_category_def)

lemma exchange_parts_from_parts [simp]:
  "exchange_venue (exchange_from_parts v c) = v"
  "exchange_category (exchange_from_parts v c) = c"
  by (cases v; cases c; simp add: exchange_venue_def exchange_category_def)+

record market_id =
  mk_exchange :: exchange_id
  mk_symbol :: symbol
  mk_interval :: interval

definition market_category :: "market_id \<Rightarrow> category" where
  "market_category m = exchange_category (mk_exchange m)"

section \<open>Order sides\<close>

datatype side = Buy | Sell

fun side_as_str :: "side \<Rightarrow> string" where
  "side_as_str Buy = ''BUY''"
| "side_as_str Sell = ''SELL''"

fun side_opposite :: "side \<Rightarrow> side" where
  "side_opposite Buy = Sell"
| "side_opposite Sell = Buy"

definition side_from_str :: "string \<Rightarrow> model_error + side" where
  "side_from_str value =
     (let t = to_ascii_uppercase (trim value)
      in if t = ''BUY'' then Inr Buy else if t = ''SELL'' then Inr Sell else Inl (InvalidSide t))"

section \<open>Properties\<close>

text \<open>Every interval, side and exchange line reads back from its own spelling, and a storage name
  names the line that spells it and no other.\<close>

theorem spellings_read_back:
  "interval_from_str (interval_as_str i) = Inr i \<and> side_from_str (side_as_str s) = Inr s \<and>
   (exchange_from_storage_name n = Some x \<longleftrightarrow> exchange_as_str x = n) \<and>
   (exchange_from_storage_name n = None \<longleftrightarrow> n \<notin> range exchange_as_str) \<and>
   exchange_from_parts (exchange_venue x) (exchange_category x) = x"
proof -
  have sides: "side_from_str (side_as_str Buy) = Inr Buy" "side_from_str (side_as_str Sell) = Inr Sell"
    by code_simp+
  have "side_from_str (side_as_str s) = Inr s" by (cases s) (simp_all only: sides)
  then show ?thesis
    by (simp add: interval_from_str_iff exchange_from_storage_name_def exchange_spelling.find_spelling
        exchange_spelling.find_none)
qed

end
