(* ===== verification/Units.thy ===== *)
theory Units
  imports Decimal_Api Market
begin

text \<open>
  \<open>src/model/units.rs\<close>: decimal text, the \<open>decimal_unit!\<close> newtypes and \<open>Quantity\<close>, and
  \<open>src/model/money.rs\<close>: assets and money. The macro is the higher-order \<open>decimal_unit_new\<close>, and its
  contract the locale \<open>decimal_unit\<close>, interpreted on each of its five uses. The lemmas show that
  the parser accepts the documented grammar exactly, that a unit holds only what its rule accepts,
  and that arithmetic keeps unit and asset.
\<close>

section \<open>Decimal text\<close>

definition starts_with :: "char \<Rightarrow> string \<Rightarrow> bool" where
  "starts_with c s = (case s of [] \<Rightarrow> False | x # _ \<Rightarrow> x = c)"

definition numeral_part :: "string \<Rightarrow> bool" where
  "numeral_part part \<longleftrightarrow> part \<noteq> [] \<and> list_all is_ascii_digit part"

definition parse_decimal :: "'d decimal_ops \<Rightarrow> string \<Rightarrow> model_error + 'd" where
  "parse_decimal D text =
     (let digits = (case strip_prefix ''-'' text of Some d \<Rightarrow> d | None \<Rightarrow> text);
          (whole, fraction) = (case split_once CHR ''.'' digits of
             Some (w, f) \<Rightarrow> (w, Some f) | None \<Rightarrow> (digits, None));
          whole_ok = (whole = ''0'' \<or> (numeral_part whole \<and> \<not> starts_with CHR ''0'' whole))
      in if \<not> whole_ok \<or> \<not> (case fraction of None \<Rightarrow> True | Some f \<Rightarrow> numeral_part f)
         then Inl (InvalidDecimal text)
         else (case dec_from_str_exact D text of
             None \<Rightarrow> Inl (InvalidDecimal text)
           | Some value \<Rightarrow>
               if dec_is_zero D value \<and> starts_with CHR ''-'' text then Inl (InvalidDecimal text)
               else Inr value))"

definition canonical :: "'d decimal_ops \<Rightarrow> 'd \<Rightarrow> 'd" where
  "canonical D value = (if dec_is_zero D value then dec_set_sign_positive D value else value)"

text \<open>The serde form of an amount: text out, and only text in.\<close>

definition decimal_text_serialize :: "'d decimal_ops \<Rightarrow> 'd \<Rightarrow> string" where
  "decimal_text_serialize D value = dec_to_string D (canonical D value)"

definition decimal_text_deserialize :: "'d decimal_ops \<Rightarrow> string \<Rightarrow> model_error + 'd" where
  "decimal_text_deserialize D text = parse_decimal D text"

text \<open>The grammar of the protocol, \<open>-?(0|[1-9][0-9]*)(\.[0-9]+)?\<close>, as a specification.\<close>

inductive whole_form :: "string \<Rightarrow> bool" where
  zero: "whole_form ''0''"
| leading: "is_ascii_digit c \<Longrightarrow> c \<noteq> CHR ''0'' \<Longrightarrow> list_all is_ascii_digit ds \<Longrightarrow> whole_form (c # ds)"

inductive unsigned_form :: "string \<Rightarrow> bool" where
  whole: "whole_form w \<Longrightarrow> unsigned_form w"
| fraction: "whole_form w \<Longrightarrow> f \<noteq> [] \<Longrightarrow> list_all is_ascii_digit f \<Longrightarrow> unsigned_form (w @ ''.'' @ f)"

inductive decimal_form :: "string \<Rightarrow> bool" where
  plain: "unsigned_form u \<Longrightarrow> decimal_form u"
| signed: "unsigned_form u \<Longrightarrow> decimal_form (CHR ''-'' # u)"

inductive_cases unsigned_formE: "unsigned_form u"
inductive_cases decimal_formE: "decimal_form t"

lemma whole_form_iff:
  "whole_form w \<longleftrightarrow> w = ''0'' \<or> (numeral_part w \<and> \<not> starts_with CHR ''0'' w)"
  by (cases w) (auto simp: whole_form.simps numeral_part_def starts_with_def)

lemma digit_not_dot [simp]:
  "\<not> is_ascii_digit CHR ''.''" "\<not> is_ascii_digit CHR ''-''" "is_ascii_digit CHR ''0''"
  by (simp_all add: text_simps)

lemma whole_form_no_dot: "whole_form w \<Longrightarrow> CHR ''.'' \<notin> set w"
  by (erule whole_form.cases) (auto simp: list_all_iff)

lemma whole_form_Cons: "whole_form w \<Longrightarrow> \<exists>c r. w = c # r \<and> is_ascii_digit c"
  by (erule whole_form.cases) simp_all

lemma unsigned_form_iff:
  "unsigned_form u \<longleftrightarrow>
     (case split_once CHR ''.'' u of None \<Rightarrow> whole_form u
      | Some (w, f) \<Rightarrow> whole_form w \<and> numeral_part f)"
proof
  assume "unsigned_form u"
  then show "case split_once CHR ''.'' u of None \<Rightarrow> whole_form u
      | Some (w, f) \<Rightarrow> whole_form w \<and> numeral_part f"
  proof cases
    case whole
    then have "split_once CHR ''.'' u = None"
      using whole_form_no_dot split_once_None by blast
    with whole show ?thesis by simp
  next
    case (fraction w f)
    with whole_form_no_dot [of w] show ?thesis
      by (simp add: split_once_append numeral_part_def)
  qed
next
  assume *: "case split_once CHR ''.'' u of None \<Rightarrow> whole_form u
      | Some (w, f) \<Rightarrow> whole_form w \<and> numeral_part f"
  show "unsigned_form u"
  proof (cases "split_once CHR ''.'' u")
    case None
    with * show ?thesis by (simp add: unsigned_form.whole)
  next
    case (Some p)
    then obtain w f where s: "split_once CHR ''.'' u = Some (w, f)" by (cases p) auto
    from split_once_Some [OF s] * s unsigned_form.fraction [of w f] show ?thesis
      by (simp add: numeral_part_def)
  qed
qed

lemma unsigned_form_no_sign: "unsigned_form u \<Longrightarrow> \<not> starts_with CHR ''-'' u"
  by (auto elim!: unsigned_formE dest!: whole_form_Cons simp: starts_with_def)

lemma strip_minus: "strip_prefix ''-'' t = (if starts_with CHR ''-'' t then Some (tl t) else None)"
  by (cases t) (auto simp: strip_prefix_def starts_with_def)

lemma decimal_form_iff:
  "decimal_form t \<longleftrightarrow>
     unsigned_form (case strip_prefix ''-'' t of Some d \<Rightarrow> d | None \<Rightarrow> t)"
proof (cases t)
  case (Cons c r)
  show ?thesis
  proof (cases "c = CHR ''-''")
    case True
    with Cons show ?thesis
      by (auto elim!: decimal_formE dest: unsigned_form_no_sign intro: decimal_form.signed
          simp: strip_minus starts_with_def)
  next
    case False
    with Cons show ?thesis
      by (auto elim!: decimal_formE intro: decimal_form.plain simp: strip_minus starts_with_def)
  qed
qed (auto elim!: decimal_formE intro: decimal_form.plain simp: strip_minus starts_with_def)

lemma parse_decimal_eq:
  "parse_decimal D text =
     (if decimal_form text
      then (case dec_from_str_exact D text of
          None \<Rightarrow> Inl (InvalidDecimal text)
        | Some value \<Rightarrow>
            if dec_is_zero D value \<and> starts_with CHR ''-'' text then Inl (InvalidDecimal text)
            else Inr value)
      else Inl (InvalidDecimal text))"
  unfolding parse_decimal_def decimal_form_iff unsigned_form_iff Let_def whole_form_iff
  by (auto split: option.splits)

lemma parse_decimal_Inr:
  "parse_decimal D text = Inr v \<longleftrightarrow>
     decimal_form text \<and> dec_from_str_exact D text = Some v \<and>
     \<not> (dec_is_zero D v \<and> starts_with CHR ''-'' text)"
  by (auto simp: parse_decimal_eq split: option.splits)

lemma parse_decimal_Inl: "parse_decimal D text = Inl e \<Longrightarrow> e = InvalidDecimal text"
  by (auto simp: parse_decimal_eq split: option.splits if_splits)

lemma canonical_val: "decimal_laws D \<Longrightarrow> dec_val D (canonical D v) = dec_val D v"
  by (simp add: canonical_def dec_vals)

lemma canonical_idem: "decimal_laws D \<Longrightarrow> canonical D (canonical D v) = canonical D v"
  by (simp add: canonical_def dec_set_positive_id dec_set_positive_sign)

section \<open>Decimal newtypes\<close>

text \<open>\<open>decimal_unit!\<close>: the constructor \<open>new\<close> and the reading of stored text, for a rule \<open>accepts\<close>.\<close>

definition decimal_unit_new ::
  "('d \<Rightarrow> 'u) \<Rightarrow> string \<Rightarrow> string \<Rightarrow> ('d decimal_ops \<Rightarrow> 'd \<Rightarrow> bool) \<Rightarrow>
   'd decimal_ops \<Rightarrow> 'd \<Rightarrow> model_error + 'u" where
  "decimal_unit_new wrap what rule accepts D value =
     (if \<not> accepts D value then Inl (InvalidAmount what (dec_to_string D value) rule)
      else Inr (wrap (canonical D value)))"

definition decimal_unit_try_from ::
  "('d decimal_ops \<Rightarrow> 'd \<Rightarrow> model_error + 'u) \<Rightarrow> 'd decimal_ops \<Rightarrow> string \<Rightarrow> model_error + 'u" where
  "decimal_unit_try_from new D text = and_then (parse_decimal D text) (new D)"

datatype 'd price = Price (price_value: 'd)
datatype 'd base_qty = BaseQty (base_qty_value: 'd)
datatype 'd contracts = Contracts (contracts_value: 'd)
datatype 'd face_value = FaceValue (face_value_value: 'd)
datatype 'd leverage = Leverage (leverage_value: 'd)

definition positive :: "'d decimal_ops \<Rightarrow> 'd \<Rightarrow> bool" where
  "positive D v \<longleftrightarrow> dec_lt D (dec_zero D) v"

definition zero_or_positive :: "'d decimal_ops \<Rightarrow> 'd \<Rightarrow> bool" where
  "zero_or_positive D v \<longleftrightarrow> dec_le D (dec_zero D) v"

definition whole_count :: "'d decimal_ops \<Rightarrow> 'd \<Rightarrow> bool" where
  "whole_count D v \<longleftrightarrow> dec_le D (dec_zero D) v \<and> dec_is_zero D (dec_fract D v)"

definition at_least_one :: "'d decimal_ops \<Rightarrow> 'd \<Rightarrow> bool" where
  "at_least_one D v \<longleftrightarrow> dec_le D (dec_one D) v"

definition price_new :: "'d decimal_ops \<Rightarrow> 'd \<Rightarrow> model_error + 'd price" where
  "price_new = decimal_unit_new Price ''price'' ''positive'' positive"

definition base_qty_new :: "'d decimal_ops \<Rightarrow> 'd \<Rightarrow> model_error + 'd base_qty" where
  "base_qty_new = decimal_unit_new BaseQty ''base quantity'' ''zero or positive'' zero_or_positive"

definition contracts_new :: "'d decimal_ops \<Rightarrow> 'd \<Rightarrow> model_error + 'd contracts" where
  "contracts_new =
     decimal_unit_new Contracts ''contract count'' ''a whole number, zero or positive'' whole_count"

definition face_value_new :: "'d decimal_ops \<Rightarrow> 'd \<Rightarrow> model_error + 'd face_value" where
  "face_value_new = decimal_unit_new FaceValue ''face value'' ''positive'' positive"

definition leverage_new :: "'d decimal_ops \<Rightarrow> 'd \<Rightarrow> model_error + 'd leverage" where
  "leverage_new = decimal_unit_new Leverage ''leverage'' ''at least 1'' at_least_one"

lemma decimal_unit_new_Inr:
  "decimal_unit_new wrap what rule accepts D v = Inr u \<longleftrightarrow> accepts D v \<and> u = wrap (canonical D v)"
  by (auto simp: decimal_unit_new_def)

lemma rules_by_value:
  assumes "decimal_laws D"
  shows "positive D v \<longleftrightarrow> 0 < dec_val D v"
    and "zero_or_positive D v \<longleftrightarrow> 0 \<le> dec_val D v"
    and "whole_count D v \<longleftrightarrow> 0 \<le> dec_val D v \<and> dec_val D v \<in> \<int>"
    and "at_least_one D v \<longleftrightarrow> 1 \<le> dec_val D v"
  using assms
  by (simp_all add: positive_def zero_or_positive_def whole_count_def at_least_one_def dec_vals)

text \<open>The contract of the macro: a value is held exactly when the rule accepts it, zeros are made
  positive, and the rule reads the numeric value only.\<close>

locale decimal_unit =
  fixes new :: "'d decimal_ops \<Rightarrow> 'd \<Rightarrow> model_error + 'u"
    and wrap :: "'d \<Rightarrow> 'u" and unwrap :: "'u \<Rightarrow> 'd"
    and accepts :: "'d decimal_ops \<Rightarrow> 'd \<Rightarrow> bool"
  assumes new_Inr: "new D v = Inr u \<longleftrightarrow> accepts D v \<and> u = wrap (canonical D v)"
    and unwrap_wrap: "unwrap (wrap v) = v"
    and by_value: "decimal_laws D \<Longrightarrow> dec_val D a = dec_val D b \<Longrightarrow> accepts D a = accepts D b"
begin

lemma new_total: "(\<exists>u. new D v = Inr u) \<longleftrightarrow> accepts D v"
  by (simp add: new_Inr)

lemma new_value: "decimal_laws D \<Longrightarrow> new D v = Inr u \<Longrightarrow> dec_val D (unwrap u) = dec_val D v"
  by (auto simp: new_Inr unwrap_wrap canonical_val)

lemma new_accepted: "decimal_laws D \<Longrightarrow> new D v = Inr u \<Longrightarrow> accepts D (unwrap u)"
  using by_value [of D "canonical D v" v] by (auto simp: new_Inr unwrap_wrap canonical_val)

lemma new_again: "decimal_laws D \<Longrightarrow> new D v = Inr u \<Longrightarrow> new D (unwrap u) = Inr u"
  using new_accepted [of D v u] by (auto simp: new_Inr unwrap_wrap canonical_idem)

lemma try_from_Inr:
  "decimal_unit_try_from new D text = Inr u \<longleftrightarrow>
     (\<exists>v. parse_decimal D text = Inr v \<and> accepts D v \<and> u = wrap (canonical D v))"
  by (auto simp: decimal_unit_try_from_def result_simps new_Inr)

end

interpretation price: decimal_unit price_new Price price_value positive
  by unfold_locales (simp_all add: price_new_def decimal_unit_new_Inr rules_by_value)

interpretation base_qty: decimal_unit base_qty_new BaseQty base_qty_value zero_or_positive
  by unfold_locales (simp_all add: base_qty_new_def decimal_unit_new_Inr rules_by_value)

interpretation contracts: decimal_unit contracts_new Contracts contracts_value whole_count
  by unfold_locales (simp_all add: contracts_new_def decimal_unit_new_Inr rules_by_value)

interpretation face_value: decimal_unit face_value_new FaceValue face_value_value positive
  by unfold_locales (simp_all add: face_value_new_def decimal_unit_new_Inr rules_by_value)

interpretation leverage: decimal_unit leverage_new Leverage leverage_value at_least_one
  by unfold_locales (simp_all add: leverage_new_def decimal_unit_new_Inr rules_by_value)

section \<open>Quantities\<close>

datatype 'd quantity = BaseQ "'d base_qty" | ContractsQ "'d contracts"

fun quantity_for_category :: "'d decimal_ops \<Rightarrow> category \<Rightarrow> 'd \<Rightarrow> model_error + 'd quantity" where
  "quantity_for_category D Inverse value = and_then (contracts_new D value) (\<lambda>c. Inr (ContractsQ c))"
| "quantity_for_category D _ value = and_then (base_qty_new D value) (\<lambda>b. Inr (BaseQ b))"

fun unit_of :: "category \<Rightarrow> string" where
  "unit_of Inverse = ''contracts''"
| "unit_of _ = ''base quantity''"

fun quantity_unit :: "'d quantity \<Rightarrow> string" where
  "quantity_unit (BaseQ _) = ''base quantity''"
| "quantity_unit (ContractsQ _) = ''contracts''"

fun quantity_value :: "'d quantity \<Rightarrow> 'd" where
  "quantity_value (BaseQ q) = base_qty_value q"
| "quantity_value (ContractsQ c) = contracts_value c"

definition quantity_is_zero :: "'d decimal_ops \<Rightarrow> 'd quantity \<Rightarrow> bool" where
  "quantity_is_zero D q = dec_is_zero D (quantity_value q)"

definition in_unit_of :: "'d quantity \<Rightarrow> category \<Rightarrow> model_error + 'd quantity" where
  "in_unit_of q c =
     (if quantity_unit q \<noteq> unit_of c
      then Inl (UnitMismatch (category_as_str c @ '' quantities'') (unit_of c) (quantity_unit q))
      else Inr q)"

fun quantity_combine ::
  "'d decimal_ops \<Rightarrow> 'd quantity \<Rightarrow> 'd quantity \<Rightarrow> ('d \<Rightarrow> 'd \<Rightarrow> 'd option) \<Rightarrow> model_error + 'd quantity"
where
  "quantity_combine D (BaseQ a) (BaseQ b) op =
     and_then (ok_or (InvalidAmount ''quantity''
          (dec_to_string D (base_qty_value a) @ '' and '' @ dec_to_string D (base_qty_value b))
          ''within range'') (op (base_qty_value a) (base_qty_value b)))
       (\<lambda>v. and_then (base_qty_new D v) (\<lambda>q. Inr (BaseQ q)))"
| "quantity_combine D (ContractsQ a) (ContractsQ b) op =
     and_then (ok_or (InvalidAmount ''quantity''
          (dec_to_string D (contracts_value a) @ '' and '' @ dec_to_string D (contracts_value b))
          ''within range'') (op (contracts_value a) (contracts_value b)))
       (\<lambda>v. and_then (contracts_new D v) (\<lambda>q. Inr (ContractsQ q)))"
| "quantity_combine D a b op =
     Inl (UnitMismatch ''both quantities'' (quantity_unit a) (quantity_unit b))"

definition quantity_checked_add ::
  "'d decimal_ops \<Rightarrow> 'd quantity \<Rightarrow> 'd quantity \<Rightarrow> model_error + 'd quantity" where
  "quantity_checked_add D a b = quantity_combine D a b (dec_checked_add D)"

definition quantity_checked_sub ::
  "'d decimal_ops \<Rightarrow> 'd quantity \<Rightarrow> 'd quantity \<Rightarrow> model_error + 'd quantity" where
  "quantity_checked_sub D a b = quantity_combine D a b (dec_checked_sub D)"

text \<open>Derived equality: the same variant, and values \<open>Decimal\<close> compares equal.\<close>

fun quantity_eq :: "'d decimal_ops \<Rightarrow> 'd quantity \<Rightarrow> 'd quantity \<Rightarrow> bool" where
  "quantity_eq D (BaseQ a) (BaseQ b) = dec_eq D (base_qty_value a) (base_qty_value b)"
| "quantity_eq D (ContractsQ a) (ContractsQ b) = dec_eq D (contracts_value a) (contracts_value b)"
| "quantity_eq D _ _ = False"

definition quantity_display :: "'d decimal_ops \<Rightarrow> 'd quantity \<Rightarrow> string" where
  "quantity_display D q =
     (case q of BaseQ b \<Rightarrow> dec_to_string D (base_qty_value b)
      | ContractsQ c \<Rightarrow> dec_to_string D (contracts_value c) @ '' contracts'')"

text \<open>What the newtypes guarantee of any quantity the constructors built.\<close>

fun quantity_ok :: "'d decimal_ops \<Rightarrow> 'd quantity \<Rightarrow> bool" where
  "quantity_ok D (BaseQ q) = zero_or_positive D (base_qty_value q)"
| "quantity_ok D (ContractsQ c) = whole_count D (contracts_value c)"

lemma quantity_ok_nonneg: "decimal_laws D \<Longrightarrow> quantity_ok D q \<Longrightarrow> 0 \<le> dec_val D (quantity_value q)"
  by (cases q) (simp_all add: rules_by_value)

lemma unit_of_neq [simp]: "''base quantity'' \<noteq> ''contracts''" "''contracts'' \<noteq> ''base quantity''"
  by simp_all

lemma quantity_for_category_ok:
  assumes "decimal_laws D" and "quantity_for_category D c v = Inr q"
  shows "quantity_ok D q \<and> quantity_unit q = unit_of c \<and> dec_val D (quantity_value q) = dec_val D v"
  using assms
  by (cases c)
    (auto simp: result_simps dest: base_qty.new_accepted contracts.new_accepted
       base_qty.new_value contracts.new_value)

lemma quantity_combine_ok:
  assumes "decimal_laws D" and "quantity_combine D a b op = Inr q"
  shows "quantity_ok D q \<and> quantity_unit q = quantity_unit a \<and> quantity_unit a = quantity_unit b \<and>
         (\<exists>v. op (quantity_value a) (quantity_value b) = Some v \<and>
              dec_val D (quantity_value q) = dec_val D v)"
  using assms
  by (cases a; cases b)
    (auto simp: result_simps dest: base_qty.new_accepted contracts.new_accepted
       base_qty.new_value contracts.new_value)

lemma quantity_combine_mixed:
  "quantity_unit a \<noteq> quantity_unit b \<Longrightarrow>
   quantity_combine D a b op = Inl (UnitMismatch ''both quantities'' (quantity_unit a) (quantity_unit b))"
  by (cases a; cases b) simp_all

section \<open>Position sides\<close>

datatype position_side = Long | Short

definition position_side_all :: "position_side list" where
  "position_side_all = [Long, Short]"

fun position_side_as_str :: "position_side \<Rightarrow> string" where
  "position_side_as_str Long = ''long''"
| "position_side_as_str Short = ''short''"

fun opening_side :: "position_side \<Rightarrow> side" where
  "opening_side Long = Buy"
| "opening_side Short = Sell"

fun closing_side :: "position_side \<Rightarrow> side" where
  "closing_side Long = Sell"
| "closing_side Short = Buy"

fun position_side_opposite :: "position_side \<Rightarrow> position_side" where
  "position_side_opposite Long = Short"
| "position_side_opposite Short = Long"

interpretation position_side_spelling: spelled_enum position_side_all position_side_as_str
proof
  fix x y :: position_side
  show "x \<in> set position_side_all" by (cases x) (simp_all add: position_side_all_def)
  show "position_side_as_str x = position_side_as_str y \<Longrightarrow> x = y" by (cases x; cases y) simp_all
qed

lemma closing_side_opposite [simp]:
  "closing_side s = side_opposite (opening_side s)"
  "closing_side (position_side_opposite s) = opening_side s"
  "position_side_opposite (position_side_opposite s) = s"
  by (cases s; simp)+

section \<open>Properties\<close>

text \<open>Decimal text is accepted exactly when it has the documented form
  \<open>-?(0|[1-9][0-9]*)(\.[0-9]+)?\<close>, the decimal library reads it exactly, and it is not a negative
  zero; every refusal names the text.\<close>

theorem parse_decimal_accepts_the_grammar:
  "(parse_decimal D t = Inr v \<longleftrightarrow>
      decimal_form t \<and> dec_from_str_exact D t = Some v \<and> \<not> (dec_is_zero D v \<and> starts_with CHR ''-'' t)) \<and>
   ((\<exists>e. parse_decimal D t = Inl e) \<longleftrightarrow> parse_decimal D t = Inl (InvalidDecimal t))"
  using parse_decimal_Inr [of D t v] parse_decimal_Inl [of D t] by auto

text \<open>Each decimal newtype holds a value exactly when its rule accepts it (positive, zero or
  positive, whole and not negative, at least one), and holds the value it was given.\<close>

theorem decimal_units_hold_their_rule:
  assumes "decimal_laws D"
  shows "((\<exists>u. price_new D v = Inr u) \<longleftrightarrow> 0 < dec_val D v) \<and>
    ((\<exists>u. base_qty_new D v = Inr u) \<longleftrightarrow> 0 \<le> dec_val D v) \<and>
    ((\<exists>u. contracts_new D v = Inr u) \<longleftrightarrow> 0 \<le> dec_val D v \<and> dec_val D v \<in> \<int>) \<and>
    ((\<exists>u. leverage_new D v = Inr u) \<longleftrightarrow> 1 \<le> dec_val D v) \<and>
    (\<forall>p. price_new D v = Inr p \<longrightarrow> dec_val D (price_value p) = dec_val D v \<and> price_new D (price_value p) = Inr p)"
  using price.new_value [OF assms] price.new_again [OF assms]
  by (auto simp: price.new_total base_qty.new_total contracts.new_total leverage.new_total
      rules_by_value [OF assms])

theorem decimal_units_hold_their_rule_witness:
  "(\<exists>u. contracts_new sample_dec (s_of 3 0) = Inr u) \<and> \<not> (\<exists>u. price_new sample_dec (s_of (- 3) 1) = Inr u)"
proof -
  have "dec_val sample_dec (s_of 3 0) = 3" "dec_val sample_dec (s_of (- 3) 1) = - 3 / 10"
    by (simp_all add: s_val_of)
  with decimal_units_hold_their_rule [OF sample_dec_laws, of "s_of 3 0"]
    decimal_units_hold_their_rule [OF sample_dec_laws, of "s_of (- 3) 1"]
  show ?thesis by simp
qed

text \<open>Adding or subtracting quantities keeps the unit and stays zero or positive; quantities of
  different units are refused.\<close>

theorem quantity_arithmetic_keeps_the_unit:
  assumes "decimal_laws D" and "quantity_checked_sub D a b = Inr q"
  shows "quantity_unit q = quantity_unit a \<and> quantity_unit a = quantity_unit b \<and>
    0 \<le> dec_val D (quantity_value q) \<and>
    (\<exists>v. dec_checked_sub D (quantity_value a) (quantity_value b) = Some v \<and>
         dec_val D (quantity_value q) = dec_val D v)"
  using quantity_combine_ok [OF assms(1)] quantity_ok_nonneg [OF assms(1)] assms(2)
  unfolding quantity_checked_sub_def by blast

theorem quantity_arithmetic_keeps_the_unit_witness:
  "\<exists>q. quantity_checked_sub sample_dec (BaseQ (BaseQty (s_of 5 0))) (BaseQ (BaseQty (s_of 2 0))) = Inr q \<and>
       0 \<le> dec_val sample_dec (quantity_value q)"
proof -
  have "is_ok (quantity_checked_sub sample_dec (BaseQ (BaseQty (s_of 5 0))) (BaseQ (BaseQty (s_of 2 0))))"
    by code_simp
  then obtain q where q: "quantity_checked_sub sample_dec (BaseQ (BaseQty (s_of 5 0))) (BaseQ (BaseQty (s_of 2 0))) = Inr q"
    unfolding is_ok_iff by blast
  from quantity_arithmetic_keeps_the_unit [OF sample_dec_laws q] q show ?thesis by blast
qed

end
