(* ===== verification/Money.thy ===== *)
theory Money
  imports Units
begin

text \<open>
  \<open>src/model/money.rs\<close>: assets and amounts of them, and the step rounding of
  \<open>src/model/decimal.rs\<close>. The lemmas show the normal form of an asset code, that arithmetic never
  crosses assets, and what rounding down to a step returns.
\<close>

section \<open>Assets\<close>

datatype asset = Asset (asset_str: string)

definition asset_new :: "string \<Rightarrow> model_error + asset" where
  "asset_new value =
     (let code = trim value
      in if code = [] \<or> list_ex (\<lambda>c. is_whitespace c \<or> is_control c) code
         then Inl (InvalidAsset value)
         else Inr (Asset (to_ascii_uppercase code)))"

lemma asset_new_Inr:
  "asset_new value = Inr a \<longleftrightarrow>
     trim value \<noteq> [] \<and> (\<forall>c\<in>set (trim value). \<not> is_whitespace c \<and> \<not> is_control c) \<and>
     a = Asset (to_ascii_uppercase (trim value))"
  by (auto simp: asset_new_def Let_def list_ex_iff)

lemma asset_new_normal:
  assumes "asset_new t = Inr a"
  shows "asset_new (asset_str a) = Inr a"
  using assms by (auto simp: asset_new_Inr trim_upper) (auto simp: to_ascii_uppercase_def)

section \<open>Money\<close>

record 'd money =
  amount :: 'd
  asset_of :: asset

definition money_new :: "'d decimal_ops \<Rightarrow> 'd \<Rightarrow> asset \<Rightarrow> 'd money" where
  "money_new D v a = \<lparr>amount = canonical D v, asset_of = a\<rparr>"

definition money_is_zero :: "'d decimal_ops \<Rightarrow> 'd money \<Rightarrow> bool" where
  "money_is_zero D m = dec_is_zero D (amount m)"

definition in_asset :: "'d money \<Rightarrow> asset \<Rightarrow> model_error + 'd money" where
  "in_asset m a =
     (if asset_of m \<noteq> a then Inl (AssetMismatch (asset_str a) (asset_str (asset_of m))) else Inr m)"

definition money_combine ::
  "'d decimal_ops \<Rightarrow> 'd money \<Rightarrow> 'd money \<Rightarrow> ('d \<Rightarrow> 'd \<Rightarrow> 'd option) \<Rightarrow> model_error + 'd money" where
  "money_combine D m n op =
     (if asset_of m \<noteq> asset_of n
      then Inl (AssetMismatch (asset_str (asset_of m)) (asset_str (asset_of n)))
      else and_then (ok_or (InvalidAmount ''amount''
               (dec_to_string D (amount m) @ '' and '' @ dec_to_string D (amount n)) ''within range'')
             (op (amount m) (amount n)))
           (\<lambda>v. Inr (money_new D v (asset_of m))))"

definition money_checked_add :: "'d decimal_ops \<Rightarrow> 'd money \<Rightarrow> 'd money \<Rightarrow> model_error + 'd money" where
  "money_checked_add D m n = money_combine D m n (dec_checked_add D)"

definition money_checked_sub :: "'d decimal_ops \<Rightarrow> 'd money \<Rightarrow> 'd money \<Rightarrow> model_error + 'd money" where
  "money_checked_sub D m n = money_combine D m n (dec_checked_sub D)"

definition money_negated :: "'d decimal_ops \<Rightarrow> 'd money \<Rightarrow> 'd money" where
  "money_negated D m = money_new D (dec_neg D (amount m)) (asset_of m)"

text \<open>Derived equality: the same asset, and amounts \<open>Decimal\<close> compares equal.\<close>

definition money_eq :: "'d decimal_ops \<Rightarrow> 'd money \<Rightarrow> 'd money \<Rightarrow> bool" where
  "money_eq D m n \<longleftrightarrow> dec_eq D (amount m) (amount n) \<and> asset_of m = asset_of n"

lemma money_new_simps [simp]:
  "amount (money_new D v a) = canonical D v"
  "asset_of (money_new D v a) = a"
  by (simp_all add: money_new_def)

lemma in_asset_Inr [simp]: "in_asset m a = Inr n \<longleftrightarrow> n = m \<and> asset_of m = a"
  by (auto simp: in_asset_def)

lemma money_combine_Inr:
  "money_combine D m n op = Inr r \<longleftrightarrow>
     asset_of m = asset_of n \<and>
     (\<exists>v. op (amount m) (amount n) = Some v \<and> r = money_new D v (asset_of m))"
  by (auto simp: money_combine_def result_simps)

lemma money_combine_asset:
  "money_combine D m n op = Inr r \<Longrightarrow> asset_of r = asset_of m \<and> asset_of n = asset_of m"
  by (auto simp: money_combine_Inr)

lemma money_negated_val: "decimal_laws D \<Longrightarrow> dec_val D (amount (money_negated D m)) = - dec_val D (amount m)"
  by (simp add: money_negated_def canonical_val dec_vals)

lemma money_eq_val:
  "decimal_laws D \<Longrightarrow>
   money_eq D m n \<longleftrightarrow> dec_val D (amount m) = dec_val D (amount n) \<and> asset_of m = asset_of n"
  by (simp add: money_eq_def dec_eq_val)

section \<open>Rounding to a step\<close>

text \<open>\<open>round_down_to_step\<close> in a release build; \<open>None\<close> is the panic of an operator.\<close>

definition round_down_to_step :: "'d decimal_ops \<Rightarrow> 'd \<Rightarrow> 'd \<Rightarrow> 'd option" where
  "round_down_to_step D value step =
     (if dec_le D step (dec_zero D) then Some value
      else (case dec_checked_div D value step of
          None \<Rightarrow> None
        | Some q \<Rightarrow> dec_checked_mul D (dec_trunc D q) step))"

lemma floor_multiple:
  fixes v s :: rat
  assumes "0 < s"
  shows "of_int \<lfloor>v / s\<rfloor> * s \<le> v \<and> v < of_int \<lfloor>v / s\<rfloor> * s + s"
  using floor_divide_lower [OF assms, of v] floor_divide_upper [OF assms, of v]
  by (simp add: distrib_right)

lemma round_down_exact:
  assumes D: "decimal_arith_laws D" and "0 < dec_val D step" and "0 \<le> dec_val D value"
    and quotient: "holds_exactly s (dec_val D value / dec_val D step)"
    and product: "holds_exactly (dec_scale D step)
      (of_int \<lfloor>dec_val D value / dec_val D step\<rfloor> * dec_val D step)"
  shows "\<exists>r. round_down_to_step D value step = Some r \<and>
    dec_val D r = of_int \<lfloor>dec_val D value / dec_val D step\<rfloor> * dec_val D step"
proof -
  note laws = arith_laws_order [OF D]
  obtain q where q: "dec_checked_div D value step = Some q"
    and qv: "dec_val D q = dec_val D value / dec_val D step"
    using dec_div_exact [OF D _ quotient] assms(2) by auto
  have "0 \<le> dec_val D q" using assms(2,3) by (simp add: qv)
  from dec_trunc_val [OF D this] qv
  have t: "dec_val D (dec_trunc D q) = of_int \<lfloor>dec_val D value / dec_val D step\<rfloor>"
    and ts: "dec_scale D (dec_trunc D q) = 0" by simp_all
  from dec_mul_exact [OF D, of "dec_trunc D q" step] product
  obtain r where "dec_checked_mul D (dec_trunc D q) step = Some r"
    and "dec_val D r = dec_val D (dec_trunc D q) * dec_val D step"
    by (auto simp: t ts)
  with q t laws assms(2) show ?thesis
    by (auto simp: round_down_to_step_def dec_vals)
qed

section \<open>Properties\<close>

text \<open>Money of one asset is never added to, subtracted from or read as money of another; where
  both are one asset the result is the library's sum, or a refusal.\<close>

theorem money_never_mixes_assets:
  assumes "decimal_laws D"
  shows "(money_checked_add D m n = Inr r \<longleftrightarrow>
      asset_of m = asset_of n \<and>
      (\<exists>v. dec_checked_add D (amount m) (amount n) = Some v \<and> r = money_new D v (asset_of m))) \<and>
    (asset_of m \<noteq> asset_of n \<longrightarrow>
      money_checked_add D m n = Inl (AssetMismatch (asset_str (asset_of m)) (asset_str (asset_of n)))) \<and>
    dec_val D (amount (money_negated D m)) = - dec_val D (amount m)"
  unfolding money_checked_add_def
  by (simp add: money_combine_Inr money_negated_val [OF assms]) (simp add: money_combine_def)

theorem money_never_mixes_assets_witness:
  "money_checked_add sample_dec (money_new sample_dec (s_of 1 0) (Asset ''USDT''))
     (money_new sample_dec (s_of 1 0) (Asset ''BTC'')) = Inl (AssetMismatch ''USDT'' ''BTC'')"
  using money_never_mixes_assets [OF sample_dec_laws,
      of "money_new sample_dec (s_of 1 0) (Asset ''USDT'')" "money_new sample_dec (s_of 1 0) (Asset ''BTC'')"]
  by simp

text \<open>Where the quotient and the product fit a decimal exactly, rounding down to a step returns
  the largest multiple of the step that is not above the value.\<close>

theorem round_down_is_the_floor:
  assumes "decimal_arith_laws D" and "0 < dec_val D step" and "0 \<le> dec_val D value"
    and "holds_exactly s (dec_val D value / dec_val D step)"
    and "holds_exactly (dec_scale D step) (of_int \<lfloor>dec_val D value / dec_val D step\<rfloor> * dec_val D step)"
  shows "\<exists>r. round_down_to_step D value step = Some r \<and>
    dec_val D r = of_int \<lfloor>dec_val D value / dec_val D step\<rfloor> * dec_val D step \<and>
    dec_val D r \<le> dec_val D value \<and> dec_val D value < dec_val D r + dec_val D step"
  using round_down_exact [OF assms] floor_multiple [OF assms(2), of "dec_val D value"] by auto

theorem round_down_is_the_floor_witness:
  "\<exists>r. round_down_to_step sample_dec (s_of 1234 3) (s_of 1 2) = Some r \<and> dec_val sample_dec r = 123 / 100"
proof -
  have v: "dec_val sample_dec (s_of 1234 3) = 1234 / 1000" "dec_val sample_dec (s_of 1 2) = 1 / 100"
    by (simp_all add: s_val_of)
  have fl: "\<lfloor>(1234 / 1000 :: rat) / (1 / 100)\<rfloor> = 123" by (simp add: floor_eq_iff)
  have q: "holds_exactly 1 ((1234 / 1000 :: rat) / (1 / 100))"
    unfolding holds_exactly_def by (auto intro!: exI [of _ 1234])
  have sc: "dec_scale sample_dec (s_of 1 2) = 2" by (simp add: sample_dec_def)
  have p: "holds_exactly 2 (123 * (1 / 100) :: rat)"
    unfolding holds_exactly_def by (auto intro!: exI [of _ 123])
  from round_down_is_the_floor [OF sample_dec_arith_laws, of "s_of 1 2" "s_of 1234 3" 1]
  show ?thesis unfolding v fl sc using q p by auto
qed

end
