(* ===== verification/Identity.thy ===== *)
theory Identity
  imports Money
begin

text \<open>
  Who and what an execution is for: \<open>src/model/identity.rs\<close> (environment, instrument, the text
  identifiers of \<open>text_id!\<close>, operation numbers), \<open>src/model/account.rs\<close> (the venue account behind
  a set of credentials) and \<open>src/model/futures/identity.rs\<close> (position keys, profiles, owner tags,
  epochs and cycles). The macro's contract is the locale \<open>text_id\<close>, interpreted on each of its
  uses: a stored identifier reads back to itself and nothing else is ever held.

  SHA-256 and the random source of \<open>OwnerTag::generate\<close> are code outside the repository: the
  digest is a parameter, the random bytes an argument.
\<close>

section \<open>Environment and instrument\<close>

datatype environment = Mainnet | Testnet | Demo

definition environment_all :: "environment list" where
  "environment_all = [Mainnet, Testnet, Demo]"

fun environment_as_str :: "environment \<Rightarrow> string" where
  "environment_as_str Mainnet = ''mainnet''"
| "environment_as_str Testnet = ''testnet''"
| "environment_as_str Demo = ''demo''"

definition is_production :: "environment \<Rightarrow> bool" where
  "is_production e \<longleftrightarrow> e = Mainnet"

interpretation environment_spelling: spelled_enum environment_all environment_as_str
proof
  fix x y :: environment
  show "x \<in> set environment_all" by (cases x) (simp_all add: environment_all_def)
  show "environment_as_str x = environment_as_str y \<Longrightarrow> x = y" by (cases x; cases y) simp_all
qed

record instrument_id =
  ii_exchange :: exchange_id
  ii_symbol :: symbol
  ii_settle :: asset

definition instrument_venue :: "instrument_id \<Rightarrow> venue" where
  "instrument_venue i = exchange_venue (ii_exchange i)"

definition instrument_category :: "instrument_id \<Rightarrow> category" where
  "instrument_category i = exchange_category (ii_exchange i)"

definition instrument_series :: "instrument_id \<Rightarrow> interval \<Rightarrow> market_id" where
  "instrument_series i step = \<lparr>mk_exchange = ii_exchange i, mk_symbol = ii_symbol i, mk_interval = step\<rparr>"

definition instrument_display :: "instrument_id \<Rightarrow> string" where
  "instrument_display i = exchange_as_str (ii_exchange i) @ '' '' @ symbol_str (ii_symbol i)"

lemma series_category [simp]: "market_category (instrument_series i step) = instrument_category i"
  by (simp add: market_category_def instrument_series_def instrument_category_def)

section \<open>Text identifiers\<close>

definition plain_text :: "string \<Rightarrow> nat \<Rightarrow> bool" where
  "plain_text value most \<longleftrightarrow>
     value \<noteq> [] \<and> length value \<le> most \<and> \<not> list_ex (\<lambda>c. is_whitespace c \<or> is_control c) value"

text \<open>\<open>text_id!\<close>: the constructor, which loading calls again.\<close>

definition text_id_new ::
  "(string \<Rightarrow> 'i) \<Rightarrow> string \<Rightarrow> string \<Rightarrow> (string \<Rightarrow> bool) \<Rightarrow> string \<Rightarrow> model_error + 'i" where
  "text_id_new wrap what rule valid value =
     (if \<not> valid value then Inl (InvalidIdentifier what value rule) else Inr (wrap value))"

datatype venue_order_id = VenueOrderId (venue_order_id_str: string)
datatype venue_algo_id = VenueAlgoId (venue_algo_id_str: string)
datatype venue_trade_id = VenueTradeId (venue_trade_id_str: string)
datatype issued_account_id = IssuedAccountId (issued_account_id_str: string)
datatype key_fingerprint = KeyFingerprint (key_fingerprint_str: string)
datatype profile_id = ProfileId (profile_id_str: string)
datatype owner_tag = OwnerTag (owner_tag_str: string)
datatype signal_id = SignalId (signal_id_str: string)

definition venue_order_id_new :: "string \<Rightarrow> model_error + venue_order_id" where
  "venue_order_id_new = text_id_new VenueOrderId ''venue order id''
     ''1 to 128 characters without spaces'' (\<lambda>text. plain_text text 128)"

definition venue_algo_id_new :: "string \<Rightarrow> model_error + venue_algo_id" where
  "venue_algo_id_new = text_id_new VenueAlgoId ''venue algo order id''
     ''1 to 128 characters without spaces'' (\<lambda>text. plain_text text 128)"

definition venue_trade_id_new :: "string \<Rightarrow> model_error + venue_trade_id" where
  "venue_trade_id_new = text_id_new VenueTradeId ''venue trade id''
     ''1 to 128 characters without spaces'' (\<lambda>text. plain_text text 128)"

definition issued_account_id_new :: "string \<Rightarrow> model_error + issued_account_id" where
  "issued_account_id_new = text_id_new IssuedAccountId ''venue account id''
     ''1 to 64 characters without spaces'' (\<lambda>text. plain_text text 64)"

definition hex_digit :: "char \<Rightarrow> bool" where
  "hex_digit c \<longleftrightarrow> is_ascii_digit c \<or> (97 \<le> code c \<and> code c \<le> 102)"

definition hex16 :: "string \<Rightarrow> bool" where
  "hex16 text \<longleftrightarrow> utf8_len text = 16 \<and> list_all hex_digit text"

definition key_fingerprint_new :: "string \<Rightarrow> model_error + key_fingerprint" where
  "key_fingerprint_new =
     text_id_new KeyFingerprint ''key fingerprint'' ''16 lowercase hex digits'' hex16"

definition lower_or_digit :: "char \<Rightarrow> bool" where
  "lower_or_digit c \<longleftrightarrow> is_ascii_lowercase c \<or> is_ascii_digit c"

definition profile_id_valid :: "string \<Rightarrow> bool" where
  "profile_id_valid text \<longleftrightarrow>
     (case text of [] \<Rightarrow> False
      | first # rest \<Rightarrow>
          lower_or_digit first \<and> utf8_len text \<le> 32 \<and>
          list_all (\<lambda>b. lower_or_digit b \<or> b = CHR ''-'' \<or> b = CHR ''_'') rest)"

definition profile_id_new :: "string \<Rightarrow> model_error + profile_id" where
  "profile_id_new = text_id_new ProfileId ''profile id''
     ''1 to 32 of a-z, 0-9, - and _, starting with a letter or digit'' profile_id_valid"

definition owner_tag_valid :: "string \<Rightarrow> bool" where
  "owner_tag_valid text \<longleftrightarrow> utf8_len text = 6 \<and> list_all lower_or_digit text"

definition owner_tag_new :: "string \<Rightarrow> model_error + owner_tag" where
  "owner_tag_new = text_id_new OwnerTag ''owner tag'' ''6 of a-z and 0-9'' owner_tag_valid"

definition signal_id_valid :: "string \<Rightarrow> bool" where
  "signal_id_valid text \<longleftrightarrow> text \<noteq> [] \<and> length text \<le> 128 \<and> \<not> list_ex is_control text"

definition signal_id_new :: "string \<Rightarrow> model_error + signal_id" where
  "signal_id_new = text_id_new SignalId ''signal id''
     ''1 to 128 characters without control characters'' signal_id_valid"

locale text_id =
  fixes new :: "string \<Rightarrow> model_error + 'i" and wrap :: "string \<Rightarrow> 'i"
    and as_str :: "'i \<Rightarrow> string" and valid :: "string \<Rightarrow> bool"
  assumes new_Inr: "new t = Inr i \<longleftrightarrow> valid t \<and> i = wrap t"
    and as_str_wrap: "as_str (wrap t) = t"
begin

lemma as_str_new: "new t = Inr i \<Longrightarrow> as_str i = t"
  by (auto simp: new_Inr as_str_wrap)

lemma reload: "new t = Inr i \<Longrightarrow> new (as_str i) = Inr i"
  by (auto simp: new_Inr as_str_wrap)

lemma new_inject: "new t = Inr i \<Longrightarrow> new u = Inr i \<Longrightarrow> t = u"
  using as_str_new by blast

lemma refused: "(\<exists>e. new t = Inl e) \<longleftrightarrow> \<not> valid t"
proof (cases "new t")
  case (Inl e)
  with new_Inr [of t "wrap t"] have "\<not> valid t" by simp
  with Inl show ?thesis by simp
next
  case (Inr i)
  then have "valid t" by (simp add: new_Inr)
  with Inr show ?thesis by simp
qed

end

lemma text_id_new_Inr: "text_id_new wrap what rule valid t = Inr i \<longleftrightarrow> valid t \<and> i = wrap t"
  by (auto simp: text_id_new_def)

interpretation venue_order_id:
  text_id venue_order_id_new VenueOrderId venue_order_id_str "\<lambda>t. plain_text t 128"
  by unfold_locales (simp_all add: venue_order_id_new_def text_id_new_Inr)

interpretation venue_algo_id:
  text_id venue_algo_id_new VenueAlgoId venue_algo_id_str "\<lambda>t. plain_text t 128"
  by unfold_locales (simp_all add: venue_algo_id_new_def text_id_new_Inr)

interpretation venue_trade_id:
  text_id venue_trade_id_new VenueTradeId venue_trade_id_str "\<lambda>t. plain_text t 128"
  by unfold_locales (simp_all add: venue_trade_id_new_def text_id_new_Inr)

interpretation issued_account_id:
  text_id issued_account_id_new IssuedAccountId issued_account_id_str "\<lambda>t. plain_text t 64"
  by unfold_locales (simp_all add: issued_account_id_new_def text_id_new_Inr)

interpretation key_fingerprint: text_id key_fingerprint_new KeyFingerprint key_fingerprint_str hex16
  by unfold_locales (simp_all add: key_fingerprint_new_def text_id_new_Inr)

interpretation profile_id: text_id profile_id_new ProfileId profile_id_str profile_id_valid
  by unfold_locales (simp_all add: profile_id_new_def text_id_new_Inr)

interpretation owner_tag: text_id owner_tag_new OwnerTag owner_tag_str owner_tag_valid
  by unfold_locales (simp_all add: owner_tag_new_def text_id_new_Inr)

interpretation signal_id: text_id signal_id_new SignalId signal_id_str signal_id_valid
  by unfold_locales (simp_all add: signal_id_new_def text_id_new_Inr)

lemma lower_or_digit_ascii: "lower_or_digit c \<Longrightarrow> code c < 128 \<and> c \<noteq> CHR ''-''"
  by (auto simp: lower_or_digit_def text_simps)

lemma owner_tag_valid_iff: "owner_tag_valid t \<longleftrightarrow> length t = 6 \<and> list_all lower_or_digit t"
proof -
  have "list_all lower_or_digit t \<Longrightarrow> utf8_len t = length t"
    by (rule utf8_len_ascii) (auto simp: list_all_iff lower_or_digit_ascii)
  then show ?thesis by (auto simp: owner_tag_valid_def)
qed

section \<open>Numbered identifiers\<close>

datatype operation_id = OperationId (operation_id_get: u64)
datatype position_cycle_id = PositionCycleId (position_cycle_id_get: u64)
datatype activation_epoch = ActivationEpoch (activation_epoch_get: u32)

definition operation_id_new :: "u64 \<Rightarrow> model_error + operation_id" where
  "operation_id_new value =
     (if value = 0 then Inl (InvalidIdentifier ''operation id'' (nat_string (unat value)) ''positive'')
      else Inr (OperationId value))"

definition position_cycle_id_new :: "u64 \<Rightarrow> model_error + position_cycle_id" where
  "position_cycle_id_new value =
     (if value = 0
      then Inl (InvalidIdentifier ''position cycle id'' (nat_string (unat value)) ''positive'')
      else Inr (PositionCycleId value))"

lemma operation_id_new_Inr [simp]:
  "operation_id_new n = Inr i \<longleftrightarrow> n \<noteq> 0 \<and> i = OperationId n"
  by (auto simp: operation_id_new_def)

lemma position_cycle_id_new_Inr [simp]:
  "position_cycle_id_new n = Inr i \<longleftrightarrow> n \<noteq> 0 \<and> i = PositionCycleId n"
  by (auto simp: position_cycle_id_new_def)

section \<open>Accounts, position keys and profiles\<close>

text \<open>\<open>KeyFingerprint::of\<close>, with the hex text of the SHA-256 digest as a parameter.\<close>

definition key_fingerprint_of :: "(string \<Rightarrow> string) \<Rightarrow> string \<Rightarrow> key_fingerprint" where
  "key_fingerprint_of sha256_hex api_key = KeyFingerprint (take 16 (sha256_hex api_key))"

datatype venue_account_id = VenueIssued issued_account_id | FingerprintId key_fingerprint

definition venue_account_issued :: "string \<Rightarrow> model_error + venue_account_id" where
  "venue_account_issued text = and_then (issued_account_id_new text) (\<lambda>i. Inr (VenueIssued i))"

definition venue_account_fingerprint :: "(string \<Rightarrow> string) \<Rightarrow> string \<Rightarrow> venue_account_id" where
  "venue_account_fingerprint sha256_hex api_key = FingerprintId (key_fingerprint_of sha256_hex api_key)"

fun is_venue_issued :: "venue_account_id \<Rightarrow> bool" where
  "is_venue_issued (VenueIssued _) = True"
| "is_venue_issued (FingerprintId _) = False"

fun venue_account_str :: "venue_account_id \<Rightarrow> string" where
  "venue_account_str (VenueIssued i) = issued_account_id_str i"
| "venue_account_str (FingerprintId k) = key_fingerprint_str k"

record account_ref =
  ar_venue :: venue
  ar_environment :: environment
  ar_account :: venue_account_id

definition account_ref_new :: "venue \<Rightarrow> environment \<Rightarrow> venue_account_id \<Rightarrow> model_error + account_ref" where
  "account_ref_new v e a =
     (if is_production e \<and> \<not> is_venue_issued a
      then Inl (InvalidIdentifier ''mainnet account'' (venue_as_str v @ '' '' @ environment_as_str e)
             ''needs the venue's account id, not a key fingerprint'')
      else Inr \<lparr>ar_venue = v, ar_environment = e, ar_account = a\<rparr>)"

record position_key =
  pk_account :: account_ref
  pk_instrument :: instrument_id

definition position_key_new :: "account_ref \<Rightarrow> instrument_id \<Rightarrow> model_error + position_key" where
  "position_key_new a i =
     (if \<not> is_futures (instrument_category i)
      then Inl (UnsupportedInstrument (instrument_display i) ''a spot instrument holds no position'')
      else if instrument_venue i \<noteq> ar_venue a
      then Inl (InvalidIdentifier ''position key''
             (instrument_display i @ '' for a '' @ venue_as_str (ar_venue a) @ '' account'')
             ''the instrument must trade on the account's venue'')
      else Inr \<lparr>pk_account = a, pk_instrument = i\<rparr>)"

record profile_identity =
  pi_id :: profile_id
  pi_account :: account_ref
  pi_category :: category
  pi_owner :: owner_tag

definition profile_identity_new ::
  "profile_id \<Rightarrow> account_ref \<Rightarrow> category \<Rightarrow> owner_tag \<Rightarrow> model_error + profile_identity" where
  "profile_identity_new i a c t =
     (if \<not> is_futures c
      then Inl (InvalidIdentifier ''profile category'' (category_as_str c)
             ''a profile trades linear or inverse futures'')
      else Inr \<lparr>pi_id = i, pi_account = a, pi_category = c, pi_owner = t\<rparr>)"

definition account_ref_ok :: "account_ref \<Rightarrow> bool" where
  "account_ref_ok a \<longleftrightarrow> (ar_environment a = Mainnet \<longrightarrow> is_venue_issued (ar_account a))"

definition position_key_ok :: "position_key \<Rightarrow> bool" where
  "position_key_ok k \<longleftrightarrow>
     is_futures (instrument_category (pk_instrument k)) \<and>
     instrument_venue (pk_instrument k) = ar_venue (pk_account k)"

lemma account_ref_new_Inr:
  "account_ref_new v e a = Inr r \<longleftrightarrow>
     r = \<lparr>ar_venue = v, ar_environment = e, ar_account = a\<rparr> \<and> account_ref_ok r"
  by (auto simp: account_ref_new_def account_ref_ok_def is_production_def)

lemma position_key_new_Inr:
  "position_key_new a i = Inr k \<longleftrightarrow>
     k = \<lparr>pk_account = a, pk_instrument = i\<rparr> \<and> position_key_ok k"
  by (auto simp: position_key_new_def position_key_ok_def)

section \<open>Properties\<close>

text \<open>An account on mainnet always carries the venue's own id, and a position key always names a
  futures instrument on its account's venue; nothing else is refused.\<close>

theorem keys_are_guarded:
  "(account_ref_new v e a = Inr r \<longleftrightarrow>
      r = \<lparr>ar_venue = v, ar_environment = e, ar_account = a\<rparr> \<and>
      \<not> (e = Mainnet \<and> \<not> is_venue_issued a)) \<and>
   (position_key_new acc i = Inr k \<longleftrightarrow>
      k = \<lparr>pk_account = acc, pk_instrument = i\<rparr> \<and> is_futures (instrument_category i) \<and>
      instrument_venue i = ar_venue acc)"
  by (auto simp: account_ref_new_Inr position_key_new_Inr account_ref_ok_def position_key_ok_def)

end
