(* ===== verification/Client_Order_Id.thy ===== *)
theory Client_Order_Id
  imports Identity
begin

text \<open>
  \<open>src/model/futures/client_order_id.rs\<close>: the client order ids QuantForge writes in layout 1,
  with \<open>OwnerTag::generate\<close> of \<open>src/model/futures/identity.rs\<close>, which prints a random number in
  the same base 36. The lemmas show that base 36 and the layout round trip in both directions, so
  one id has exactly one text, within 36 bytes.
\<close>

section \<open>Base 36\<close>

definition base36_digits :: string where
  "base36_digits = ''0123456789abcdefghijklmnopqrstuvwxyz''"

lemma word_div36_less: "(v :: u64) div 36 \<noteq> 0 \<Longrightarrow> unat (v div 36) < unat v"
proof -
  assume "v div 36 \<noteq> 0"
  then have "v \<noteq> 0" by auto
  then have "0 < unat v" by (simp add: unat_gt_0)
  then show ?thesis by (simp add: unat_div)
qed

text \<open>The \<open>loop\<close> pushes the low digit first; the result is the pushed digits reversed.\<close>

function base36_loop :: "string \<Rightarrow> u64 \<Rightarrow> string" where
  "base36_loop digits value =
     (let pushed = digits @ [base36_digits ! unat (value mod 36)]; rest = value div 36
      in if rest = 0 then pushed else base36_loop pushed rest)"
  by pat_completeness auto

termination by (relation "measure (\<lambda>(_, v). unat v)") (auto intro: word_div36_less)

declare base36_loop.simps [simp del]

definition to_base36 :: "u64 \<Rightarrow> string" where
  "to_base36 value = rev (base36_loop [] value)"

definition digit_position :: "char \<Rightarrow> nat option" where
  "digit_position b = find (\<lambda>i. base36_digits ! i = b) [0..<36]"

definition u64_checked_mul_add :: "u64 \<Rightarrow> nat \<Rightarrow> nat \<Rightarrow> u64 option" where
  "u64_checked_mul_add v m d =
     (if unat v * m < 2 ^ 64 \<and> unat v * m + d < 2 ^ 64 then Some (of_nat (unat v * m + d)) else None)"

fun from_base36_fold :: "u64 \<Rightarrow> string \<Rightarrow> u64 option" where
  "from_base36_fold value [] = Some value"
| "from_base36_fold value (b # bs) =
     (case digit_position b of
        None \<Rightarrow> None
      | Some d \<Rightarrow> (case u64_checked_mul_add value 36 d of
          None \<Rightarrow> None
        | Some v \<Rightarrow> from_base36_fold v bs))"

definition from_base36 :: "string \<Rightarrow> u64 option" where
  "from_base36 text =
     (if text = [] \<or> (1 < utf8_len text \<and> starts_with CHR ''0'' text) then None
      else from_base36_fold 0 text)"

text \<open>The digits of a number as values, most significant first: the specification.\<close>

fun base36_nat :: "nat \<Rightarrow> nat list" where
  "base36_nat n = (if n < 36 then [n] else base36_nat (n div 36) @ [n mod 36])"

declare base36_nat.simps [simp del]

definition base36_value :: "nat list \<Rightarrow> nat" where
  "base36_value ds = foldl (\<lambda>n d. 36 * n + d) 0 ds"

lemma base36_value_snoc [simp]: "base36_value (ds @ [d]) = 36 * base36_value ds + d"
  by (simp add: base36_value_def)

lemma base36_nat_value [simp]: "base36_value (base36_nat n) = n"
proof (induction n rule: base36_nat.induct)
  case (1 n)
  then show ?case by (cases "n < 36") (simp_all add: base36_nat.simps [of n] base36_value_def)
qed

lemma base36_nat_digits: "d \<in> set (base36_nat n) \<Longrightarrow> d < 36"
proof (induction n rule: base36_nat.induct)
  case (1 n)
  then show ?case by (cases "n < 36") (auto simp: base36_nat.simps [of n])
qed

lemma base36_nat_ne [simp]: "base36_nat n \<noteq> []"
  by (subst base36_nat.simps) simp

lemma base36_nat_leading: "hd (base36_nat n) = 0 \<Longrightarrow> base36_nat n = [0]"
proof (induction n rule: base36_nat.induct)
  case (1 n)
  show ?case
  proof (cases "n < 36")
    case False
    with 1 have "base36_nat (n div 36) = [0]" by (simp add: base36_nat.simps [of n])
    then have "base36_value [0] = n div 36" by (metis base36_nat_value)
    with False show ?thesis by (simp add: base36_value_def)
  next
    case True
    then have "base36_nat n = [n]" by (subst base36_nat.simps) simp
    with 1 show ?thesis by simp
  qed
qed

lemma base36_digit_values:
  "i < 36 \<Longrightarrow> base36_digits ! i = char_of (if i < 10 then 48 + i else 87 + i)"
proof -
  have "\<forall>i\<in>set [0..<36]. base36_digits ! i = char_of (if i < 10 then 48 + i else 87 + i)"
    by code_simp
  then show "i < 36 \<Longrightarrow> ?thesis" by simp
qed

lemma digit_position_Some: "digit_position b = Some i \<longleftrightarrow> i < 36 \<and> base36_digits ! i = b"
proof -
  have inj: "base36_digits ! i = base36_digits ! j \<Longrightarrow> i < 36 \<Longrightarrow> j < 36 \<Longrightarrow> i = j" for i j
    using arg_cong [of "base36_digits ! i" "base36_digits ! j" code]
    by (auto simp: base36_digit_values split: if_splits)
  show ?thesis
  proof
    assume "digit_position b = Some i"
    then show "i < 36 \<and> base36_digits ! i = b" by (auto simp: digit_position_def find_Some_iff)
  next
    assume i: "i < 36 \<and> base36_digits ! i = b"
    then have "digit_position b \<noteq> None" by (auto simp: digit_position_def find_None_iff)
    then obtain j where j: "digit_position b = Some j" by auto
    then have "j < 36 \<and> base36_digits ! j = b" by (auto simp: digit_position_def find_Some_iff)
    with i inj [of j i] j show "digit_position b = Some i" by simp
  qed
qed

lemma to_base36_eq: "to_base36 v = map ((!) base36_digits) (base36_nat (unat v))"
proof -
  have "base36_loop acc v = acc @ rev (map ((!) base36_digits) (base36_nat (unat v)))" for acc
  proof (induction acc v rule: base36_loop.induct)
    case (1 acc v)
    have m: "unat (v mod 36) = unat v mod 36" and d: "unat (v div 36) = unat v div 36"
      by (simp_all add: unat_mod unat_div)
    show ?case
    proof (cases "v div 36 = 0")
      case True
      with d have "unat v div 36 = 0" by simp
      then have "unat v < 36" by simp
      with True m show ?thesis
        by (simp add: base36_loop.simps [of acc] base36_nat.simps [of "unat v"])
    next
      case False
      with d have "\<not> unat v < 36" by (metis div_less unat_eq_zero)
      with False 1 m d show ?thesis
        by (simp add: base36_loop.simps [of acc] base36_nat.simps [of "unat v"])
    qed
  qed
  then show ?thesis by (simp add: to_base36_def rev_map [symmetric])
qed

lemma foldl_digits_ge: "n \<le> foldl (\<lambda>n d. 36 * n + d) n ds" for n :: nat
proof (induction ds arbitrary: n)
  case (Cons d ds)
  have "n \<le> 36 * n + d" by simp
  also have "\<dots> \<le> foldl (\<lambda>n d. 36 * n + d) (36 * n + d) ds" by (rule Cons)
  finally show ?case by simp
qed simp

lemma from_base36_fold_digits:
  assumes "\<forall>d\<in>set ds. d < 36"
  shows "from_base36_fold v (map ((!) base36_digits) ds) =
    (let n = foldl (\<lambda>n d. 36 * n + d) (unat v) ds in if n < 2 ^ 64 then Some (of_nat n) else None)"
  using assms
proof (induction ds arbitrary: v)
  case Nil
  have "unat v < 2 ^ 64" using word_nat_bound [of v] by simp
  then show ?case by simp
next
  case (Cons d ds)
  then have "digit_position (base36_digits ! d) = Some d" by (simp add: digit_position_Some)
  moreover have "unat (of_nat (unat v * 36 + d) :: u64) = unat v * 36 + d"
    if "unat v * 36 + d < 2 ^ 64" by (rule unat_of_nat_small) (use that in simp)
  ultimately show ?case
    using Cons foldl_digits_ge [of "36 * unat v + d" ds]
    by (auto simp: u64_checked_mul_add_def Let_def mult.commute)
qed

lemma from_base36_fold_reads:
  "from_base36_fold v t = Some w \<Longrightarrow> \<exists>ds. t = map ((!) base36_digits) ds \<and> (\<forall>d\<in>set ds. d < 36)"
proof (induction t arbitrary: v)
  case (Cons b bs)
  then obtain d u where d: "digit_position b = Some d" and "from_base36_fold u bs = Some w"
    by (auto split: option.splits)
  with Cons.IH obtain ds where "bs = map ((!) base36_digits) ds" and "\<forall>d\<in>set ds. d < 36" by blast
  with d show ?case by (intro exI [of _ "d # ds"]) (auto simp: digit_position_Some)
qed simp

lemma base36_digit_class:
  "d < 36 \<Longrightarrow> lower_or_digit (base36_digits ! d) \<and> (base36_digits ! d = CHR ''0'' \<longleftrightarrow> d = 0)"
  using code_inject [of "base36_digits ! d" "CHR ''0''"]
  by (auto simp: base36_digit_values lower_or_digit_def is_ascii_lowercase_def is_ascii_digit_def)
    (simp_all add: code_def)

lemma digits_utf8_len:
  "\<forall>d\<in>set ds. d < 36 \<Longrightarrow> utf8_len (map ((!) base36_digits) ds) = length ds"
  by (subst utf8_len_ascii) (auto dest: base36_digit_class lower_or_digit_ascii)

lemma to_base36_chars: "c \<in> set (to_base36 v) \<Longrightarrow> lower_or_digit c"
  by (auto simp: to_base36_eq dest!: base36_nat_digits base36_digit_class)

lemma to_base36_ne [simp]: "to_base36 v \<noteq> []"
  by (simp add: to_base36_eq)

lemma base36_value_unique:
  assumes "\<forall>d\<in>set ds. d < 36" and "ds \<noteq> []" and "hd ds = 0 \<Longrightarrow> ds = [0]"
  shows "base36_nat (base36_value ds) = ds"
  using assms
proof (induction ds rule: rev_induct)
  case (snoc d ds)
  show ?case
  proof (cases "ds = []")
    case True
    with snoc.prems show ?thesis by (simp add: base36_value_def base36_nat.simps)
  next
    case False
    with snoc.prems have hd: "hd ds \<noteq> 0" by auto
    with False snoc have IH: "base36_nat (base36_value ds) = ds" by auto
    have "base36_value ds \<noteq> 0"
    proof
      assume "base36_value ds = 0"
      with IH have "ds = [0]" by (simp add: base36_nat.simps)
      with hd show False by simp
    qed
    with IH snoc.prems show ?thesis by (subst base36_nat.simps) auto
  qed
qed simp

lemma base36_round_trip: "from_base36 (to_base36 v) = Some v"
proof -
  have ds: "\<forall>d\<in>set (base36_nat (unat v)). d < 36" using base36_nat_digits by blast
  have "\<not> (1 < utf8_len (to_base36 v) \<and> starts_with CHR ''0'' (to_base36 v))"
  proof
    assume *: "1 < utf8_len (to_base36 v) \<and> starts_with CHR ''0'' (to_base36 v)"
    then have "hd (base36_nat (unat v)) = 0"
      using ds by (cases "base36_nat (unat v)") (auto simp: to_base36_eq starts_with_def base36_digit_class)
    then have "length (base36_nat (unat v)) = 1" by (simp add: base36_nat_leading)
    with * ds show False by (simp add: to_base36_eq digits_utf8_len)
  qed
  moreover have "from_base36_fold 0 (to_base36 v) = Some v"
    using base36_nat_value [of "unat v"] word_nat_bound [of v]
    by (simp add: to_base36_eq from_base36_fold_digits [OF ds] base36_value_def)
  ultimately show ?thesis by (simp add: from_base36_def)
qed

lemma base36_canonical:
  assumes "from_base36 t = Some v"
  shows "t = to_base36 v"
proof -
  from assms have t: "t \<noteq> []" "\<not> (1 < utf8_len t \<and> starts_with CHR ''0'' t)"
    and f: "from_base36_fold 0 t = Some v"
    by (auto simp: from_base36_def split: if_splits)
  from from_base36_fold_reads [OF f]
  obtain ds where ds: "t = map ((!) base36_digits) ds" "\<forall>d\<in>set ds. d < 36" by blast
  with f have v: "base36_value ds = unat v"
    by (auto simp: from_base36_fold_digits Let_def base36_value_def unat_of_nat_small split: if_splits)
  have "utf8_len t = length ds" using ds by (simp add: digits_utf8_len)
  with t ds have "hd ds = 0 \<Longrightarrow> ds = [0]"
    by (cases ds) (simp_all add: starts_with_def base36_digit_class del: utf8_len_Cons)
  with ds t have "base36_nat (base36_value ds) = ds" by (intro base36_value_unique) auto
  with v ds show ?thesis by (simp add: to_base36_eq)
qed

lemma base36_nat_length: "n < 36 ^ k \<Longrightarrow> 0 < k \<Longrightarrow> length (base36_nat n) \<le> k"
proof (induction k arbitrary: n)
  case (Suc k)
  show ?case
  proof (cases "n < 36")
    case False
    with Suc.prems have "n div 36 < 36 ^ k" and "0 < k"
      by (auto simp: less_mult_imp_div_less mult.commute intro!: Nat.gr0I)
    with Suc.IH False show ?thesis by (simp add: base36_nat.simps [of n])
  qed (simp add: base36_nat.simps [of n])
qed simp

lemma to_base36_length: "unat v < 36 ^ k \<Longrightarrow> 0 < k \<Longrightarrow> length (to_base36 v) \<le> k"
  by (simp add: to_base36_eq base36_nat_length)

section \<open>The layout\<close>

datatype order_leg = EntryLeg | CloseLeg | StopLeg | BridgeLeg

definition order_leg_all :: "order_leg list" where
  "order_leg_all = [EntryLeg, CloseLeg, StopLeg, BridgeLeg]"

fun leg_letter :: "order_leg \<Rightarrow> char" where
  "leg_letter EntryLeg = CHR ''e''"
| "leg_letter CloseLeg = CHR ''c''"
| "leg_letter StopLeg = CHR ''s''"
| "leg_letter BridgeLeg = CHR ''b''"

fun leg_as_str :: "order_leg \<Rightarrow> string" where
  "leg_as_str EntryLeg = ''entry''"
| "leg_as_str CloseLeg = ''close''"
| "leg_as_str StopLeg = ''stop''"
| "leg_as_str BridgeLeg = ''bridge''"

interpretation leg_letters: spelled_enum order_leg_all leg_letter
proof
  fix x y :: order_leg
  show "x \<in> set order_leg_all" by (cases x) (simp_all add: order_leg_all_def)
  show "leg_letter x = leg_letter y \<Longrightarrow> x = y" by (cases x; cases y) simp_all
qed

record client_order_id =
  co_owner :: owner_tag
  co_epoch :: activation_epoch
  co_operation :: operation_id
  co_leg :: order_leg
  co_attempt :: u16

definition co_layout :: string where "co_layout = ''qf1''"

definition co_max_len :: nat where "co_max_len = 36"

definition co_max_attempt :: u16 where "co_max_attempt = 1295"

definition client_order_id_new ::
  "owner_tag \<Rightarrow> activation_epoch \<Rightarrow> operation_id \<Rightarrow> order_leg \<Rightarrow> u16 \<Rightarrow> model_error + client_order_id" where
  "client_order_id_new tag epoch operation leg attempt =
     (if \<not> (1 \<le> attempt \<and> attempt \<le> co_max_attempt)
      then Inl (InvalidIdentifier ''order attempt'' (nat_string (unat attempt))
             ''1 to 1295; a later attempt starts a new operation'')
      else Inr \<lparr>co_owner = tag, co_epoch = epoch, co_operation = operation, co_leg = leg,
             co_attempt = attempt\<rparr>)"

definition client_order_id_display :: "client_order_id \<Rightarrow> string" where
  "client_order_id_display c =
     co_layout @ ''-'' @ owner_tag_str (co_owner c) @ ''-'' @
     to_base36 (ucast (activation_epoch_get (co_epoch c))) @ ''-'' @
     to_base36 (operation_id_get (co_operation c)) @ ''-'' @
     [leg_letter (co_leg c)] @ to_base36 (ucast (co_attempt c))"

definition u32_try_from :: "u64 \<Rightarrow> u32 option" where
  "u32_try_from v = (if unat v < 2 ^ 32 then Some (ucast v) else None)"

definition u16_try_from :: "u64 \<Rightarrow> u16 option" where
  "u16_try_from v = (if unat v < 2 ^ 16 then Some (ucast v) else None)"

definition client_order_id_from_str :: "string \<Rightarrow> model_error + client_order_id" where
  "client_order_id_from_str text =
     (let invalid = InvalidIdentifier ''client order id'' text ''not a layout-1 ID QuantForge issued''
      in (case split_on CHR ''-'' text of
          [layout, tag, epoch, operation, leg_attempt] \<Rightarrow>
            if layout \<noteq> co_layout \<or> co_max_len < utf8_len text then Inl invalid
            else and_then (map_err (\<lambda>_. invalid) (owner_tag_new tag)) (\<lambda>tag.
              and_then (ok_or invalid (Option.bind (from_base36 epoch) u32_try_from)) (\<lambda>epoch.
              and_then (ok_or invalid (Option.bind (from_base36 operation)
                (\<lambda>v. case operation_id_new v of Inl _ \<Rightarrow> None | Inr i \<Rightarrow> Some i))) (\<lambda>operation.
              (case leg_attempt of
                 [] \<Rightarrow> Inl invalid
               | letter # rest \<Rightarrow>
                   and_then (ok_or invalid (find (\<lambda>leg. leg_letter leg = letter) order_leg_all)) (\<lambda>leg.
                   and_then (ok_or invalid (Option.bind (from_base36 rest) u16_try_from)) (\<lambda>attempt.
                   map_err (\<lambda>_. invalid)
                     (client_order_id_new tag (ActivationEpoch epoch) operation leg attempt)))))))
        | _ \<Rightarrow> Inl invalid))"

definition parse_ours :: "string \<Rightarrow> client_order_id option" where
  "parse_ours text = (case client_order_id_from_str text of Inl _ \<Rightarrow> None | Inr c \<Rightarrow> Some c)"

text \<open>What the constructors guarantee of an id's parts.\<close>

definition client_order_id_ok :: "client_order_id \<Rightarrow> bool" where
  "client_order_id_ok c \<longleftrightarrow>
     owner_tag_valid (owner_tag_str (co_owner c)) \<and> operation_id_get (co_operation c) \<noteq> 0 \<and>
     1 \<le> co_attempt c \<and> co_attempt c \<le> co_max_attempt"

lemma to_base36_no_dash: "CHR ''-'' \<notin> set (to_base36 v)"
  using to_base36_chars lower_or_digit_ascii by blast

lemma owner_tag_no_dash: "owner_tag_valid t \<Longrightarrow> CHR ''-'' \<notin> set t"
  using lower_or_digit_ascii by (auto simp: owner_tag_valid_iff list_all_iff)

lemma leg_letter_no_dash: "leg_letter l \<noteq> CHR ''-''"
  by (cases l) simp_all

lemma split_display:
  assumes "client_order_id_ok c"
  shows "split_on CHR ''-'' (client_order_id_display c) =
    [co_layout, owner_tag_str (co_owner c), to_base36 (ucast (activation_epoch_get (co_epoch c))),
     to_base36 (operation_id_get (co_operation c)),
     leg_letter (co_leg c) # to_base36 (ucast (co_attempt c))]"
proof -
  have "CHR ''-'' \<notin> set co_layout" by (simp add: co_layout_def)
  moreover have "CHR ''-'' \<notin> set (owner_tag_str (co_owner c))"
    using assms by (simp add: client_order_id_ok_def owner_tag_no_dash)
  moreover have "CHR ''-'' \<notin> set (leg_letter (co_leg c) # to_base36 (ucast (co_attempt c)))"
    using to_base36_no_dash leg_letter_no_dash by force
  ultimately show ?thesis
    using to_base36_no_dash
    by (simp add: client_order_id_display_def split_on_append split_on_not_in del: split_on.simps)
qed

lemma display_length:
  assumes "client_order_id_ok c"
  shows "utf8_len (client_order_id_display c) \<le> co_max_len"
proof -
  have ascii: "utf8_len (to_base36 v) = length (to_base36 v)" for v
    using to_base36_chars lower_or_digit_ascii by (intro utf8_len_ascii) blast
  have e: "length (to_base36 (ucast (activation_epoch_get (co_epoch c)))) \<le> 7"
    using word_nat_bound [of "activation_epoch_get (co_epoch c)"]
    by (intro to_base36_length) (simp_all add: unat_ucast_widen)
  have o: "length (to_base36 (operation_id_get (co_operation c))) \<le> 13"
    using word_nat_bound [of "operation_id_get (co_operation c)"]
    by (intro to_base36_length) simp_all
  have "unat (co_attempt c) \<le> 1295"
    using assms by (simp add: client_order_id_ok_def co_max_attempt_def word_le_nat_alt)
  then have a: "length (to_base36 (ucast (co_attempt c))) \<le> 2"
    by (intro to_base36_length) (simp_all add: unat_ucast_widen)
  have t: "utf8_len (owner_tag_str (co_owner c)) = 6"
    using assms by (simp add: client_order_id_ok_def owner_tag_valid_def)
  have l: "utf8_len [leg_letter (co_leg c)] = 1" by (cases "co_leg c") (simp_all add: code_def)
  have "utf8_len co_layout = 3" "utf8_len ''-'' = 1" by (simp_all add: co_layout_def code_def)
  then show ?thesis
    using e o a t l unfolding client_order_id_display_def co_max_len_def utf8_len_append ascii by linarith
qed

lemma display_reads_back:
  assumes "client_order_id_ok c"
  shows "client_order_id_from_str (client_order_id_display c) = Inr c"
proof -
  obtain tag epoch operation leg attempt where
    c: "c = \<lparr>co_owner = OwnerTag tag, co_epoch = ActivationEpoch epoch,
          co_operation = OperationId operation, co_leg = leg, co_attempt = attempt\<rparr>"
    by (metis client_order_id.surjective owner_tag.exhaust activation_epoch.exhaust
        operation_id.exhaust old.unit.exhaust)
  have e: "u32_try_from (ucast epoch) = Some epoch"
    using word_nat_bound [of epoch] by (simp add: u32_try_from_def unat_ucast_widen ucast_eq_of_unat)
  have a: "u16_try_from (ucast attempt) = Some attempt"
    using word_nat_bound [of attempt] by (simp add: u16_try_from_def unat_ucast_widen ucast_eq_of_unat)
  have l: "find (\<lambda>l. leg_letter l = leg_letter leg) order_leg_all = Some leg"
    by (simp add: leg_letters.find_spelling)
  have t: "owner_tag_new tag = Inr (OwnerTag tag)"
    using assms by (simp add: c client_order_id_ok_def owner_tag.new_Inr)
  show ?thesis
    using assms display_length [OF assms] e a l t
    unfolding client_order_id_from_str_def Let_def split_display [OF assms]
    by (simp add: c base36_round_trip operation_id_new_def client_order_id_new_def client_order_id_ok_def)
qed

lemma read_is_canonical:
  assumes "client_order_id_from_str text = Inr c"
  shows "client_order_id_display c = text \<and> client_order_id_ok c"
proof -
  obtain layout tag epoch operation leg_attempt where
    parts: "split_on CHR ''-'' text = [layout, tag, epoch, operation, leg_attempt]"
    using assms by (auto simp: client_order_id_from_str_def Let_def split: list.splits)
  obtain letter rest where la: "leg_attempt = letter # rest"
    using assms parts
    by (cases leg_attempt) (auto simp: client_order_id_from_str_def Let_def result_simps split: if_splits)
  obtain e o' a leg where
    layout: "layout = co_layout" and tag: "owner_tag_valid tag"
    and e: "from_base36 epoch = Some e" "unat e < 2 ^ 32"
    and o': "from_base36 operation = Some o'" "o' \<noteq> 0"
    and leg: "find (\<lambda>leg. leg_letter leg = letter) order_leg_all = Some leg"
    and a: "from_base36 rest = Some a" "unat a < 2 ^ 16"
    and new: "client_order_id_new (OwnerTag tag) (ActivationEpoch (ucast e)) (OperationId o') leg
        (ucast a) = Inr c"
    using assms unfolding client_order_id_from_str_def Let_def parts la
    by (auto simp: result_simps owner_tag.new_Inr bind_eq_Some_conv u32_try_from_def u16_try_from_def
        split: if_splits sum.splits)
  have "text = layout @ ''-'' @ tag @ ''-'' @ epoch @ ''-'' @ operation @ ''-'' @ letter # rest"
    using text_join_split_on [of "CHR ''-''" "text"] by (simp add: parts la)
  moreover have "ucast (ucast e :: u32) = e" and "ucast (ucast a :: u16) = a"
    by (rule ucast_eq_of_unat [OF sym [OF unat_ucast_small]]; use e a in simp)+
  moreover have "leg_letter leg = letter" using leg by (simp add: leg_letters.find_spelling)
  ultimately show ?thesis
    using new layout tag o' base36_canonical [OF e(1)] base36_canonical [OF o'(1)] base36_canonical [OF a(1)]
    by (auto simp: client_order_id_new_def client_order_id_display_def client_order_id_ok_def
        owner_tag_valid_def split: if_splits)
qed

section \<open>Properties\<close>

text \<open>A text reads as a client order id exactly when it is that id's own text: each id has one
  spelling, and whatever the parser accepts prints back unchanged.\<close>

theorem client_order_id_round_trip:
  "client_order_id_from_str t = Inr c \<longleftrightarrow> client_order_id_ok c \<and> client_order_id_display c = t"
  using read_is_canonical display_reads_back by blast

text \<open>Base 36 is canonical: a text reads as a 64-bit number exactly when it is what printing that
  number writes.\<close>

theorem base36_canonical_spelling: "from_base36 t = Some v \<longleftrightarrow> t = to_base36 v"
  using base36_round_trip base36_canonical by blast

text \<open>Every id the layout writes fits the 36 bytes both venues accept, and different ids have
  different texts.\<close>

theorem client_order_id_fits:
  assumes "client_order_id_ok c"
  shows "utf8_len (client_order_id_display c) \<le> 36 \<and>
    (\<forall>d. client_order_id_ok d \<and> client_order_id_display d = client_order_id_display c \<longrightarrow> d = c)"
proof -
  have "d = c" if "client_order_id_ok d" "client_order_id_display d = client_order_id_display c" for d
    using display_reads_back [OF that(1)] display_reads_back [OF assms]
    unfolding that(2) by (metis sum.inject(2))
  with display_length [OF assms] show ?thesis by (auto simp: co_max_len_def)
qed

definition sample_order_id :: client_order_id where
  "sample_order_id = \<lparr>co_owner = OwnerTag ''abc123'', co_epoch = ActivationEpoch 4294967295,
     co_operation = OperationId 18446744073709551615, co_leg = EntryLeg, co_attempt = 1295\<rparr>"

theorem client_order_id_fits_witness: "utf8_len (client_order_id_display sample_order_id) \<le> 36"
proof -
  have "client_order_id_ok sample_order_id"
    by (simp add: client_order_id_ok_def sample_order_id_def owner_tag_valid_iff lower_or_digit_def
        text_simps co_max_attempt_def)
  from client_order_id_fits [OF this] show ?thesis by simp
qed

end
