(* ===== verification/Instrument.thy ===== *)
theory Instrument
  imports Client_Order_Id
begin

text \<open>
  \<open>src/model/futures/instrument.rs\<close>: a futures instrument's metadata, the checks every adapter's
  instrument passes (\<open>TryFrom<InstrumentSpec>\<close>) and universe rule 1; and the data of
  \<open>src/model/futures/account.rs\<close>: margin settings, exposures and complete position snapshots. The
  lemmas state the invariant of a checked instrument, that it is exactly what the checks accept,
  and that a snapshot is flat exactly when it shows no side.
\<close>

section \<open>Instrument metadata\<close>

datatype contract_kind = Perpetual | TradFiPerpetual | Dated timestamp_ms

datatype trading_status = Trading | OtherStatus string

datatype face_value_source = Metadata | DocumentedRule

record 'd inverse_contract =
  ic_face_value :: "'d face_value"
  ic_source :: face_value_source

record 'd leverage_filter =
  lf_min :: "'d leverage"
  lf_max :: "'d leverage"
  lf_step :: 'd

record 'd instrument_spec =
  is_id :: instrument_id
  is_base :: asset
  is_quote :: asset
  is_contract :: contract_kind
  is_status :: trading_status
  is_delist_at_ms :: "timestamp_ms option"
  is_inverse :: "'d inverse_contract option"
  is_tick :: "'d price"
  is_step :: "'d quantity"
  is_market_step :: "'d quantity"
  is_min_qty :: "'d quantity"
  is_market_min_qty :: "'d quantity"
  is_market_max_qty :: "'d quantity"
  is_min_notional :: "'d money option"
  is_leverage :: "'d leverage_filter option"
  is_observed_at_ms :: timestamp_ms

datatype 'd futures_instrument = FuturesInstrument (fi_spec: "'d instrument_spec")

definition fi_id :: "'d futures_instrument \<Rightarrow> instrument_id" where
  "fi_id i = is_id (fi_spec i)"

definition fi_category :: "'d futures_instrument \<Rightarrow> category" where
  "fi_category i = instrument_category (is_id (fi_spec i))"

definition linear_settle :: string where
  "linear_settle = ''USDT''"

datatype universe_refusal =
  UTradFi | UDated timestamp_ms | UNotTrading string | UNotUsdtSettled asset

definition universe_check :: "'d futures_instrument \<Rightarrow> universe_refusal + unit" where
  "universe_check i =
     (case is_contract (fi_spec i) of
        TradFiPerpetual \<Rightarrow> Inl UTradFi
      | Dated delivery_ms \<Rightarrow> Inl (UDated delivery_ms)
      | Perpetual \<Rightarrow>
          (case is_status (fi_spec i) of
             OtherStatus status \<Rightarrow> Inl (UNotTrading status)
           | Trading \<Rightarrow>
               if fi_category i = Linear \<and> asset_str (ii_settle (fi_id i)) \<noteq> linear_settle
               then Inl (UNotUsdtSettled (ii_settle (fi_id i)))
               else Inr ()))"

fun universe_refusal_display :: "universe_refusal \<Rightarrow> string" where
  "universe_refusal_display UTradFi = ''TradFi perpetuals are outside the v0.3 universe''"
| "universe_refusal_display (UDated _) = ''dated futures are outside the v0.3 universe''"
| "universe_refusal_display (UNotTrading status) =
     ''the venue lists it as '' @ status @ '', not trading''"
| "universe_refusal_display (UNotUsdtSettled settle) =
     ''linear contracts settled in '' @ asset_str settle @ '' are refused; only USDT is''"

section \<open>The checks\<close>

definition spec_quantities :: "'d instrument_spec \<Rightarrow> 'd quantity list" where
  "spec_quantities s = [is_step s, is_market_step s, is_min_qty s, is_market_min_qty s, is_market_max_qty s]"

fun all_in_unit :: "category \<Rightarrow> 'd quantity list \<Rightarrow> model_error + unit" where
  "all_in_unit c [] = Inr ()"
| "all_in_unit c (q # qs) = and_then (in_unit_of q c) (\<lambda>_. all_in_unit c qs)"

definition instrument_try_from ::
  "'d decimal_ops \<Rightarrow> 'd instrument_spec \<Rightarrow> model_error + 'd futures_instrument" where
  "instrument_try_from D s =
     (let refuse = (\<lambda>reason. Inl (UnsupportedInstrument (instrument_display (is_id s)) reason));
          c = instrument_category (is_id s)
      in if \<not> is_futures c then refuse ''a spot instrument is not a futures contract''
         else if c = Inverse \<and> is_inverse s = None
         then refuse ''an inverse contract needs its face value''
         else if c = Linear \<and> is_inverse s \<noteq> None
         then refuse ''a linear contract has no face value''
         else if c = Inverse \<and> ii_settle (is_id s) \<noteq> is_base s
         then refuse (''an inverse contract settles in its base coin '' @ asset_str (is_base s) @
                '', not '' @ asset_str (ii_settle (is_id s)))
         else and_then (all_in_unit c (spec_quantities s)) (\<lambda>_.
           if quantity_is_zero D (is_step s) \<or> quantity_is_zero D (is_market_step s)
           then refuse ''a quantity step must be positive''
           else if dec_lt D (quantity_value (is_market_max_qty s)) (quantity_value (is_market_min_qty s))
           then refuse ''the market minimum exceeds the maximum''
           else if (case is_min_notional s of None \<Rightarrow> False | Some n \<Rightarrow> asset_of n \<noteq> is_quote s)
           then refuse (''the minimum notional is in '' @
                  asset_str (asset_of (the (is_min_notional s))) @
                  '', not the quote asset '' @ asset_str (is_quote s))
           else if (case is_leverage s of None \<Rightarrow> False | Some l \<Rightarrow>
                dec_lt D (leverage_value (lf_max l)) (leverage_value (lf_min l)) \<or>
                dec_le D (lf_step l) (dec_zero D))
           then refuse ''the leverage filter is inconsistent''
           else Inr (FuturesInstrument s)))"

text \<open>The invariant of a checked instrument, stated over values.\<close>

definition spec_ok :: "'d decimal_ops \<Rightarrow> 'd instrument_spec \<Rightarrow> bool" where
  "spec_ok D s \<longleftrightarrow>
     (instrument_category (is_id s) = Linear \<and> is_inverse s = None \<or>
      instrument_category (is_id s) = Inverse \<and> is_inverse s \<noteq> None \<and> ii_settle (is_id s) = is_base s) \<and>
     (\<forall>q\<in>set (spec_quantities s). quantity_unit q = unit_of (instrument_category (is_id s))) \<and>
     dec_val D (quantity_value (is_step s)) \<noteq> 0 \<and> dec_val D (quantity_value (is_market_step s)) \<noteq> 0 \<and>
     dec_val D (quantity_value (is_market_min_qty s)) \<le> dec_val D (quantity_value (is_market_max_qty s)) \<and>
     (\<forall>n. is_min_notional s = Some n \<longrightarrow> asset_of n = is_quote s) \<and>
     (\<forall>l. is_leverage s = Some l \<longrightarrow>
        dec_val D (leverage_value (lf_min l)) \<le> dec_val D (leverage_value (lf_max l)) \<and>
        0 < dec_val D (lf_step l))"

lemma in_unit_of_Inr [simp]: "in_unit_of q c = Inr r \<longleftrightarrow> r = q \<and> quantity_unit q = unit_of c"
  by (auto simp: in_unit_of_def)

lemma all_in_unit_Inr: "all_in_unit c qs = Inr u \<longleftrightarrow> (\<forall>q\<in>set qs. quantity_unit q = unit_of c)"
  by (induction qs) (auto simp: result_simps)

lemma instrument_try_from_Inr:
  assumes "decimal_laws D"
  shows "instrument_try_from D s = Inr i \<longleftrightarrow> i = FuturesInstrument s \<and> spec_ok D s"
proof -
  have "instrument_category (is_id s) = Spot \<or> instrument_category (is_id s) = Linear \<or>
      instrument_category (is_id s) = Inverse"
    by (cases "instrument_category (is_id s)") auto
  then show ?thesis
    using assms
    by (elim disjE)
      (auto simp: instrument_try_from_def spec_ok_def Let_def is_futures_def result_simps
        all_in_unit_Inr quantity_is_zero_def dec_vals not_less split: option.splits)
qed

lemma universe_check_Inr:
  "universe_check i = Inr () \<longleftrightarrow>
     is_contract (fi_spec i) = Perpetual \<and> is_status (fi_spec i) = Trading \<and>
     (fi_category i = Linear \<longrightarrow> asset_str (ii_settle (fi_id i)) = linear_settle)"
  by (auto simp: universe_check_def split: contract_kind.splits trading_status.splits)

section \<open>The account and its positions\<close>

datatype account_kind = Standard | PortfolioMargin | BybitUnifiedV1 | OtherAccount string

fun account_kind_as_str :: "account_kind \<Rightarrow> string" where
  "account_kind_as_str Standard = ''standard''"
| "account_kind_as_str PortfolioMargin = ''portfolio_margin''"
| "account_kind_as_str BybitUnifiedV1 = ''bybit_unified_1_0''"
| "account_kind_as_str (OtherAccount _) = ''other''"

datatype position_mode = OneWay | Hedge

fun position_mode_as_str :: "position_mode \<Rightarrow> string" where
  "position_mode_as_str OneWay = ''one-way''"
| "position_mode_as_str Hedge = ''hedge''"

datatype margin_mode = Isolated | Cross

definition margin_mode_all :: "margin_mode list" where
  "margin_mode_all = [Isolated, Cross]"

fun margin_mode_as_str :: "margin_mode \<Rightarrow> string" where
  "margin_mode_as_str Isolated = ''isolated''"
| "margin_mode_as_str Cross = ''cross''"

interpretation margin_mode_spelling: spelled_enum margin_mode_all margin_mode_as_str
proof
  fix x y :: margin_mode
  show "x \<in> set margin_mode_all" by (cases x) (simp_all add: margin_mode_all_def)
  show "margin_mode_as_str x = margin_mode_as_str y \<Longrightarrow> x = y" by (cases x; cases y) simp_all
qed

record 'd exposure =
  ex_side :: position_side
  ex_size :: "'d quantity"
  ex_entry_price :: "'d price"

datatype liquidation_gap = ReportedZero | ReportedEmpty

datatype 'd liquidation = LiquidationPrice "'d price" | Unavailable liquidation_gap

fun liquidation_display :: "'d decimal_ops \<Rightarrow> 'd liquidation \<Rightarrow> string" where
  "liquidation_display D (LiquidationPrice p) = dec_to_string D (price_value p)"
| "liquidation_display D (Unavailable ReportedZero) = ''N/A (the venue reports none)''"
| "liquidation_display D (Unavailable ReportedEmpty) = ''N/A (the venue left it empty)''"

record 'd position_snapshot =
  sn_instrument :: instrument_id
  sn_exposure :: "'d exposure option"
  sn_notional :: "'d money option"
  sn_leverage :: "'d leverage"
  sn_margin_mode :: margin_mode
  sn_mark_price :: "'d price option"
  sn_liquidation :: "'d liquidation"
  sn_unrealized_pnl :: "'d money option"
  sn_margin :: "'d money option"
  sn_observed_at_ms :: timestamp_ms

definition is_flat :: "'d decimal_ops \<Rightarrow> 'd position_snapshot \<Rightarrow> bool" where
  "is_flat D p = (case sn_exposure p of None \<Rightarrow> True | Some e \<Rightarrow> quantity_is_zero D (ex_size e))"

text \<open>\<open>exposure.filter(|e| !e.size.is_zero())\<close>, and its side.\<close>

definition open_exposure :: "'d decimal_ops \<Rightarrow> 'd position_snapshot \<Rightarrow> 'd exposure option" where
  "open_exposure D p =
     (case sn_exposure p of
        None \<Rightarrow> None
      | Some e \<Rightarrow> if quantity_is_zero D (ex_size e) then None else Some e)"

definition snapshot_side :: "'d decimal_ops \<Rightarrow> 'd position_snapshot \<Rightarrow> position_side option" where
  "snapshot_side D p = map_option ex_side (open_exposure D p)"

lemma is_flat_iff: "is_flat D p \<longleftrightarrow> open_exposure D p = None"
  by (auto simp: is_flat_def open_exposure_def split: option.splits)

lemma is_flat_side: "is_flat D p \<longleftrightarrow> snapshot_side D p = None"
  by (simp add: is_flat_iff snapshot_side_def)

section \<open>Properties\<close>

text \<open>Sample values for the witnesses.\<close>

definition sample_instrument_id :: instrument_id where
  "sample_instrument_id = \<lparr>ii_exchange = BinanceLinear, ii_symbol = Symbol ''BTCUSDT'', ii_settle = Asset ''USDT''\<rparr>"

definition sample_spec :: "sdec instrument_spec" where
  "sample_spec =
     \<lparr>is_id = sample_instrument_id, is_base = Asset ''BTC'', is_quote = Asset ''USDT'', is_contract = Perpetual,
      is_status = Trading, is_delist_at_ms = None, is_inverse = None, is_tick = Price (s_of 1 1),
      is_step = BaseQ (BaseQty (s_of 1 3)), is_market_step = BaseQ (BaseQty (s_of 1 3)),
      is_min_qty = BaseQ (BaseQty (s_of 1 3)), is_market_min_qty = BaseQ (BaseQty (s_of 1 3)),
      is_market_max_qty = BaseQ (BaseQty (s_of 100 0)), is_min_notional = None, is_leverage = None,
      is_observed_at_ms = 0\<rparr>"

text \<open>An adapter's metadata becomes a futures instrument exactly when it is a linear contract
  without a face value or an inverse one with a face value that settles in its base coin, every
  quantity is in the family's unit, the steps are not zero, the market minimum does not exceed the
  maximum, the minimum notional is in the quote asset and the leverage filter is consistent.\<close>

theorem instrument_checks:
  assumes "decimal_laws D"
  shows "instrument_try_from D s = Inr i \<longleftrightarrow> fi_spec i = s \<and> spec_ok D s"
  unfolding instrument_try_from_Inr [OF assms] by (cases i) auto

theorem instrument_checks_witness: "instrument_try_from sample_dec sample_spec = Inr (FuturesInstrument sample_spec)"
proof -
  have "spec_ok sample_dec sample_spec"
    by (simp add: spec_ok_def sample_spec_def sample_instrument_id_def instrument_category_def
        exchange_category_def spec_quantities_def s_val_of)
  then show ?thesis
    using instrument_checks [OF sample_dec_laws, of sample_spec "FuturesInstrument sample_spec"] by simp
qed

end
