(* ===== verification/Orders.thy ===== *)
theory Orders
  imports Instrument
begin

text \<open>
  \<open>src/model/futures/order.rs\<close> and \<open>src/model/futures/stop.rs\<close>: the orders and stops that are
  sent, and the records the venue answers with. An entry, a close and a stop are each built by one
  checked constructor; the lemmas say exactly which arguments it accepts.
\<close>

section \<open>Stops\<close>

datatype trigger_basis = MarkBasis | LastBasis | IndexBasis

datatype price_protection = ProtectionEnabled | ProtectionDisabled | NotApplicable

datatype 'd stop_scope = WholePosition | ScopeQuantity "'d quantity"

record 'd attached_stop =
  as_trigger_price :: "'d price"
  as_basis :: trigger_basis

section \<open>Orders that are sent\<close>

record 'd entry_order =
  eo_instrument :: instrument_id
  eo_side :: position_side
  eo_quantity :: "'d quantity"
  eo_client_order_id :: client_order_id
  eo_attached_stop :: "'d attached_stop option"

record 'd close_order =
  cl_instrument :: instrument_id
  cl_closes :: position_side
  cl_quantity :: "'d quantity"
  cl_client_order_id :: client_order_id

record 'd stop_request =
  sr_instrument :: instrument_id
  sr_position_side :: position_side
  sr_trigger_price :: "'d price"
  sr_basis :: trigger_basis
  sr_price_protection :: price_protection
  sr_scope :: "'d stop_scope"
  sr_client_order_id :: client_order_id

definition positive_quantity ::
  "'d decimal_ops \<Rightarrow> string \<Rightarrow> 'd quantity \<Rightarrow> model_error + 'd quantity" where
  "positive_quantity D what q =
     (if quantity_is_zero D q then Inl (InvalidAmount what (quantity_display D q) ''positive'')
      else Inr q)"

definition expect_leg :: "client_order_id \<Rightarrow> order_leg list \<Rightarrow> model_error + unit" where
  "expect_leg c legs =
     (if co_leg c \<notin> set legs
      then Inl (InvalidIdentifier ''client order id'' (client_order_id_display c)
             ''its leg does not match the order'')
      else Inr ())"

definition entry_order_new ::
  "'d decimal_ops \<Rightarrow> 'd futures_instrument \<Rightarrow> position_side \<Rightarrow> 'd quantity \<Rightarrow> client_order_id \<Rightarrow>
   'd attached_stop option \<Rightarrow> model_error + 'd entry_order" where
  "entry_order_new D i side q c attached =
     and_then (map_err (\<lambda>refusal. UnsupportedInstrument (instrument_display (fi_id i))
         (universe_refusal_display refusal)) (universe_check i)) (\<lambda>_.
     and_then (in_unit_of q (fi_category i)) (\<lambda>q.
     and_then (positive_quantity D ''order quantity'' q) (\<lambda>q.
     and_then (expect_leg c [EntryLeg]) (\<lambda>_.
       Inr \<lparr>eo_instrument = fi_id i, eo_side = side, eo_quantity = q, eo_client_order_id = c,
            eo_attached_stop = attached\<rparr>))))"

definition close_order_new ::
  "'d decimal_ops \<Rightarrow> instrument_id \<Rightarrow> position_side \<Rightarrow> 'd quantity \<Rightarrow> client_order_id \<Rightarrow>
   model_error + 'd close_order" where
  "close_order_new D i closes q c =
     and_then (in_unit_of q (instrument_category i)) (\<lambda>q.
     and_then (positive_quantity D ''order quantity'' q) (\<lambda>q.
     and_then (expect_leg c [CloseLeg]) (\<lambda>_.
       Inr \<lparr>cl_instrument = i, cl_closes = closes, cl_quantity = q, cl_client_order_id = c\<rparr>)))"

definition stop_request_new ::
  "'d decimal_ops \<Rightarrow> instrument_id \<Rightarrow> position_side \<Rightarrow> 'd price \<Rightarrow> trigger_basis \<Rightarrow>
   price_protection \<Rightarrow> 'd stop_scope \<Rightarrow> client_order_id \<Rightarrow> model_error + 'd stop_request" where
  "stop_request_new D i side trigger basis protection scope c =
     and_then
       (case scope of
          WholePosition \<Rightarrow> expect_leg c [StopLeg]
        | ScopeQuantity q \<Rightarrow>
            and_then (in_unit_of q (instrument_category i)) (\<lambda>q.
            and_then (positive_quantity D ''stop quantity'' q) (\<lambda>_.
              expect_leg c [BridgeLeg])))
       (\<lambda>_. Inr \<lparr>sr_instrument = i, sr_position_side = side, sr_trigger_price = trigger,
                sr_basis = basis, sr_price_protection = protection, sr_scope = scope,
                sr_client_order_id = c\<rparr>)"

lemma positive_quantity_Inr [simp]:
  "positive_quantity D what q = Inr r \<longleftrightarrow> r = q \<and> \<not> quantity_is_zero D q"
  by (auto simp: positive_quantity_def)

lemma expect_leg_Inr [simp]: "expect_leg c legs = Inr u \<longleftrightarrow> co_leg c \<in> set legs"
  by (auto simp: expect_leg_def)

lemma expect_leg_Inl: "expect_leg c legs = Inl e \<Longrightarrow> co_leg c \<notin> set legs"
  by (auto simp: expect_leg_def split: if_splits)

lemma entry_order_new_Inr:
  "entry_order_new D i side q c attached = Inr ord \<longleftrightarrow>
     universe_check i = Inr () \<and> quantity_unit q = unit_of (fi_category i) \<and>
     \<not> quantity_is_zero D q \<and> co_leg c = EntryLeg \<and>
     ord = \<lparr>eo_instrument = fi_id i, eo_side = side, eo_quantity = q, eo_client_order_id = c,
            eo_attached_stop = attached\<rparr>"
  by (auto simp: entry_order_new_def result_simps)

lemma close_order_new_Inr:
  "close_order_new D i closes q c = Inr ord \<longleftrightarrow>
     quantity_unit q = unit_of (instrument_category i) \<and> \<not> quantity_is_zero D q \<and>
     co_leg c = CloseLeg \<and>
     ord = \<lparr>cl_instrument = i, cl_closes = closes, cl_quantity = q, cl_client_order_id = c\<rparr>"
  by (auto simp: close_order_new_def result_simps)

lemma stop_request_new_Inr:
  "stop_request_new D i side trigger basis protection scope c = Inr r \<longleftrightarrow>
     (case scope of
        WholePosition \<Rightarrow> co_leg c = StopLeg
      | ScopeQuantity q \<Rightarrow>
          quantity_unit q = unit_of (instrument_category i) \<and> \<not> quantity_is_zero D q \<and>
          co_leg c = BridgeLeg) \<and>
     r = \<lparr>sr_instrument = i, sr_position_side = side, sr_trigger_price = trigger, sr_basis = basis,
          sr_price_protection = protection, sr_scope = scope, sr_client_order_id = c\<rparr>"
  by (auto simp: stop_request_new_def result_simps split: stop_scope.splits)

section \<open>What the venue answers\<close>

record order_attempt =
  at_client_order_id :: client_order_id
  at_sent_at_ms :: timestamp_ms

datatype order_origin = ClientOrigin | LiquidationOrigin | AdlOrigin

datatype cancel_attribution = ByUser | BySystem | Unattributed

datatype futures_order_status =
  FNew | FPartiallyFilled | FFilled | FCanceled cancel_attribution | FRejected | FExpired

fun is_final :: "futures_order_status \<Rightarrow> bool" where
  "is_final FNew = False"
| "is_final FPartiallyFilled = False"
| "is_final _ = True"

datatype record_source = Query | StreamSource

record 'd futures_order =
  fo_instrument :: instrument_id
  fo_venue_order_id :: venue_order_id
  fo_client_id :: "string option"
  fo_side :: side
  fo_reduce_only :: bool
  fo_origin :: order_origin
  fo_status :: futures_order_status
  fo_requested :: "'d quantity"
  fo_filled :: "'d quantity"
  fo_average_price :: "'d price option"
  fo_source :: record_source
  fo_updated_at_ms :: timestamp_ms

definition fo_client_order_id :: "'d futures_order \<Rightarrow> client_order_id option" where
  "fo_client_order_id o' = Option.bind (fo_client_id o') parse_ours"

record order_lookup_guarantee =
  visibility_verified :: bool
  unfilled_retention_ms :: int

record 'd futures_fill =
  ff_trade_id :: venue_trade_id
  ff_venue_order_id :: venue_order_id
  ff_client_id :: "string option"
  ff_instrument :: instrument_id
  ff_origin :: order_origin
  ff_side :: side
  ff_price :: "'d price"
  ff_quantity :: "'d quantity"
  ff_fee :: "'d money"
  ff_realized_pnl :: "'d money option"
  ff_time_ms :: timestamp_ms
  ff_source :: record_source

definition ff_client_order_id :: "'d futures_fill \<Rightarrow> client_order_id option" where
  "ff_client_order_id f = Option.bind (ff_client_id f) parse_ours"

record rejection =
  rj_client_order_id :: client_order_id
  rj_kind :: string
  rj_message :: string

text \<open>A stop as a read-back shows it.\<close>

datatype stop_ref =
    AlgoRef venue_algo_id "string option"
  | OrderRef venue_order_id "string option"
  | PositionRef instrument_id

datatype stop_status =
  SActive | STriggered | SFinished | SCanceled cancel_attribution | SRejected | SExpired

record 'd stop_order =
  so_stop :: stop_ref
  so_instrument :: instrument_id
  so_position_side :: position_side
  so_trigger_price :: "'d price"
  so_basis :: "trigger_basis option"
  so_price_protection :: price_protection
  so_scope :: "'d stop_scope"
  so_status :: stop_status
  so_triggered_order :: "venue_order_id option"
  so_updated_at_ms :: timestamp_ms

section \<open>Properties\<close>

text \<open>An entry is built exactly for a crypto perpetual in trading status, settled in USDT where it
  is linear, with a positive quantity in the family's unit and an entry's client id; a close needs no
  universe check, and a stop's client id matches what it covers.\<close>

theorem orders_are_guarded:
  "((\<exists>ord. entry_order_new D i side q c attached = Inr ord) \<longleftrightarrow>
      is_contract (fi_spec i) = Perpetual \<and> is_status (fi_spec i) = Trading \<and>
      (if fi_category i = Linear then asset_str (ii_settle (fi_id i)) = ''USDT'' else True) \<and>
      quantity_unit q = unit_of (fi_category i) \<and> \<not> quantity_is_zero D q \<and> co_leg c = EntryLeg) \<and>
   ((\<exists>ord. close_order_new D j side q c = Inr ord) \<longleftrightarrow>
      quantity_unit q = unit_of (instrument_category j) \<and> \<not> quantity_is_zero D q \<and> co_leg c = CloseLeg) \<and>
   ((\<exists>r. stop_request_new D j side p basis protection scope c = Inr r) \<longleftrightarrow>
      (case scope of
         WholePosition \<Rightarrow> co_leg c = StopLeg
       | ScopeQuantity q \<Rightarrow> quantity_unit q = unit_of (instrument_category j) \<and>
           \<not> quantity_is_zero D q \<and> co_leg c = BridgeLeg))"
  by (auto simp: entry_order_new_Inr close_order_new_Inr stop_request_new_Inr universe_check_Inr linear_settle_def)

end
