(* ===== verification/Accounting.thy ===== *)
theory Accounting
  imports Orders
begin

text \<open>
  \<open>src/model/futures/accounting.rs\<close>: a closed cycle's realized PnL, and the ledger keys and time
  windows of \<open>src/model/futures/ledger.rs\<close>. One private constructor, \<open>checked\<close>, guards every way
  a PnL is built or loaded; \<open>pnl_ok\<close> is the invariant it establishes. The rule text of its net
  check writes a minus sign U+2212, which the model spells \<open>-\<close>.
\<close>

section \<open>Accounting status\<close>

datatype accounting_status = Provisional | Final

definition accounting_initial :: accounting_status where
  "accounting_initial = Provisional"

definition accounting_all :: "accounting_status list" where
  "accounting_all = [Provisional, Final]"

definition accounting_transitions :: "(accounting_status \<times> accounting_status) list" where
  "accounting_transitions = [(Provisional, Final)]"

fun accounting_as_str :: "accounting_status \<Rightarrow> string" where
  "accounting_as_str Provisional = ''provisional''"
| "accounting_as_str Final = ''final''"

definition accounting_is_terminal :: "accounting_status \<Rightarrow> bool" where
  "accounting_is_terminal s \<longleftrightarrow> s = Final"

fun accounting_rank :: "accounting_status \<Rightarrow> nat" where
  "accounting_rank Provisional = 0"
| "accounting_rank Final = 1"

interpretation accounting: ranked_table
  accounting_all accounting_initial accounting_transitions accounting_is_terminal accounting_rank
proof
  fix s t :: accounting_status
  show "s \<in> set accounting_all" by (cases s) (simp_all add: accounting_all_def)
  show "accounting_is_terminal s \<longleftrightarrow> (\<forall>t. (s, t) \<notin> set accounting_transitions)"
    by (cases s) (simp_all add: accounting_is_terminal_def accounting_transitions_def)
  show "(accounting_initial, s) \<in> (set accounting_transitions)\<^sup>*"
    by (cases s) (auto simp: accounting_initial_def accounting_transitions_def)
  show "(s, s) \<notin> set accounting_transitions" by (simp add: accounting_transitions_def)
  show "(s, t) \<in> set accounting_transitions \<Longrightarrow> accounting_rank s < accounting_rank t"
    by (auto simp: accounting_transitions_def)
qed

section \<open>Realized PnL\<close>

datatype pnl_source = FillsSource | IncomeRecords | ClosedPnl | TransactionLog | Derived

record 'd pnl_figure =
  pf_amount :: "'d money"
  pf_source :: pnl_source

record 'd realized_pnl =
  rp_settle :: asset
  rp_gross :: "'d pnl_figure option"
  rp_fees :: "'d pnl_figure option"
  rp_funding :: "'d pnl_figure option"
  rp_net :: "'d pnl_figure option"
  rp_other_fees :: "'d money list"
  rp_status :: accounting_status

definition pnl_pending :: model_error where
  "pnl_pending =
     MissingEvidence ''accounting'' (accounting_as_str Final) ''gross, fees, funding and net all known''"

fun figures_in_asset :: "asset \<Rightarrow> 'd pnl_figure option list \<Rightarrow> model_error + unit" where
  "figures_in_asset settle [] = Inr ()"
| "figures_in_asset settle (None # fs) = figures_in_asset settle fs"
| "figures_in_asset settle (Some f # fs) =
     and_then (in_asset (pf_amount f) settle) (\<lambda>_. figures_in_asset settle fs)"

definition money_display :: "'d decimal_ops \<Rightarrow> 'd money \<Rightarrow> string" where
  "money_display D m = dec_to_string D (amount m) @ '' '' @ asset_str (asset_of m)"

text \<open>\<open>gross.checked_sub(fees)?.checked_add(funding)?\<close>, and the reverse for a net summary.\<close>

definition net_of :: "'d decimal_ops \<Rightarrow> 'd pnl_figure \<Rightarrow> 'd pnl_figure \<Rightarrow> 'd pnl_figure \<Rightarrow> model_error + 'd money" where
  "net_of D gross fees funding =
     and_then (money_checked_sub D (pf_amount gross) (pf_amount fees))
       (\<lambda>m. money_checked_add D m (pf_amount funding))"

definition gross_of :: "'d decimal_ops \<Rightarrow> 'd pnl_figure \<Rightarrow> 'd pnl_figure \<Rightarrow> 'd pnl_figure \<Rightarrow> model_error + 'd money" where
  "gross_of D net fees funding =
     and_then (money_checked_add D (pf_amount net) (pf_amount fees))
       (\<lambda>m. money_checked_sub D m (pf_amount funding))"

text \<open>The check that known figures agree.\<close>

definition pnl_net_check ::
  "'d decimal_ops \<Rightarrow> 'd pnl_figure option \<Rightarrow> 'd pnl_figure option \<Rightarrow> 'd pnl_figure option \<Rightarrow>
   'd pnl_figure option \<Rightarrow> model_error + unit" where
  "pnl_net_check D gross fees funding net =
     (case (gross, fees, funding, net) of
        (Some g, Some f, Some u, Some n) \<Rightarrow>
          and_then (net_of D g f u) (\<lambda>expected.
            if \<not> dec_eq D (amount expected) (amount (pf_amount n))
            then Inl (InvalidAmount ''net pnl'' (money_display D (pf_amount n))
                   ''gross - fees + funding'')
            else Inr ())
      | _ \<Rightarrow> Inr ())"

definition pnl_checked ::
  "'d decimal_ops \<Rightarrow> asset \<Rightarrow> 'd pnl_figure option \<Rightarrow> 'd pnl_figure option \<Rightarrow> 'd pnl_figure option \<Rightarrow>
   'd pnl_figure option \<Rightarrow> 'd money list \<Rightarrow> accounting_status \<Rightarrow> model_error + 'd realized_pnl" where
  "pnl_checked D settle gross fees funding net other status =
     and_then (figures_in_asset settle [gross, fees, funding, net]) (\<lambda>_.
       case find (\<lambda>fee. asset_of fee = settle) other of
         Some fee \<Rightarrow> Inl (AssetMismatch ''fees in other assets'' (asset_str (asset_of fee)))
       | None \<Rightarrow>
           and_then (pnl_net_check D gross fees funding net)
             (\<lambda>_. if status = Final \<and> list_ex (\<lambda>f. f = None) [gross, fees, funding, net]
                  then Inl pnl_pending
                  else Inr \<lparr>rp_settle = settle, rp_gross = gross, rp_fees = fees,
                         rp_funding = funding, rp_net = net, rp_other_fees = other,
                         rp_status = status\<rparr>))"

definition from_components ::
  "'d decimal_ops \<Rightarrow> asset \<Rightarrow> 'd pnl_figure option \<Rightarrow> 'd pnl_figure option \<Rightarrow> 'd pnl_figure option \<Rightarrow>
   'd money list \<Rightarrow> model_error + 'd realized_pnl" where
  "from_components D settle gross fees funding other =
     and_then
       (case (gross, fees, funding) of
          (Some g, Some f, Some u) \<Rightarrow>
            and_then (net_of D g f u) (\<lambda>m. Inr (Some \<lparr>pf_amount = m, pf_source = Derived\<rparr>))
        | _ \<Rightarrow> Inr None)
       (\<lambda>net. pnl_checked D settle gross fees funding net other accounting_initial)"

definition from_net ::
  "'d decimal_ops \<Rightarrow> asset \<Rightarrow> 'd pnl_figure \<Rightarrow> 'd pnl_figure option \<Rightarrow> 'd pnl_figure option \<Rightarrow>
   'd money list \<Rightarrow> model_error + 'd realized_pnl" where
  "from_net D settle net fees funding other =
     and_then
       (case (fees, funding) of
          (Some f, Some u) \<Rightarrow>
            and_then (gross_of D net f u) (\<lambda>m. Inr (Some \<lparr>pf_amount = m, pf_source = Derived\<rparr>))
        | _ \<Rightarrow> Inr None)
       (\<lambda>gross. pnl_checked D settle gross fees funding (Some net) other accounting_initial)"

definition finalize :: "'d realized_pnl \<Rightarrow> model_error + 'd realized_pnl" where
  "finalize p =
     (if list_ex (\<lambda>f. f = None) [rp_gross p, rp_fees p, rp_funding p, rp_net p] then Inl pnl_pending
      else Inr (p\<lparr>rp_status := Final\<rparr>))"

definition return_on :: "'d decimal_ops \<Rightarrow> 'd realized_pnl \<Rightarrow> 'd money \<Rightarrow> model_error + 'd option" where
  "return_on D p entry_notional =
     and_then (in_asset entry_notional (rp_settle p)) (\<lambda>notional.
       if dec_le D (amount notional) (dec_zero D)
       then Inl (InvalidAmount ''entry notional'' (money_display D notional) ''positive'')
       else (case rp_net p of
           None \<Rightarrow> Inr None
         | Some net \<Rightarrow>
             and_then (ok_or (InvalidAmount ''return'' (money_display D (pf_amount net)) ''within range'')
                 (dec_checked_div D (amount (pf_amount net)) (amount notional)))
               (\<lambda>ratio. Inr (Some (dec_round_half_even D 8 ratio)))))"

text \<open>\<open>TryFrom<RealizedPnlParts>\<close>: loading runs the same checks on the stored fields.\<close>

definition realized_pnl_try_from :: "'d decimal_ops \<Rightarrow> 'd realized_pnl \<Rightarrow> model_error + 'd realized_pnl" where
  "realized_pnl_try_from D p =
     pnl_checked D (rp_settle p) (rp_gross p) (rp_fees p) (rp_funding p) (rp_net p) (rp_other_fees p)
       (rp_status p)"

section \<open>The invariant of a PnL\<close>

definition pnl_figures :: "'d realized_pnl \<Rightarrow> 'd pnl_figure option list" where
  "pnl_figures p = [rp_gross p, rp_fees p, rp_funding p, rp_net p]"

definition pnl_ok :: "'d decimal_ops \<Rightarrow> 'd realized_pnl \<Rightarrow> bool" where
  "pnl_ok D p \<longleftrightarrow>
     (\<forall>f. Some f \<in> set (pnl_figures p) \<longrightarrow> asset_of (pf_amount f) = rp_settle p) \<and>
     (\<forall>m\<in>set (rp_other_fees p). asset_of m \<noteq> rp_settle p) \<and>
     (\<forall>g f u n. pnl_figures p = [Some g, Some f, Some u, Some n] \<longrightarrow>
        (\<exists>e. net_of D g f u = Inr e \<and> dec_eq D (amount e) (amount (pf_amount n)))) \<and>
     (rp_status p = Final \<longrightarrow> None \<notin> set (pnl_figures p))"

lemma figures_in_asset_Inr:
  "figures_in_asset settle fs = Inr u \<longleftrightarrow> (\<forall>f. Some f \<in> set fs \<longrightarrow> asset_of (pf_amount f) = settle)"
  by (induction settle fs rule: figures_in_asset.induct) (auto simp: result_simps)

lemma find_asset_None: "find (\<lambda>m. asset_of m = a) ms = None \<longleftrightarrow> (\<forall>m\<in>set ms. asset_of m \<noteq> a)"
  by (auto simp: find_None_iff)

lemma list_ex_None: "list_ex (\<lambda>f. f = None) fs \<longleftrightarrow> None \<in> set fs"
  by (auto simp: list_ex_iff)

lemma pnl_net_check_Inr:
  "pnl_net_check D g f u n = Inr x \<longleftrightarrow>
     (\<forall>g' f' u' n'. [g, f, u, n] = [Some g', Some f', Some u', Some n'] \<longrightarrow>
        (\<exists>e. net_of D g' f' u' = Inr e \<and> dec_eq D (amount e) (amount (pf_amount n'))))"
  by (cases g; cases f; cases u; cases n) (auto simp: pnl_net_check_def result_simps)

lemma pnl_checked_Inr:
  "pnl_checked D settle gross fees funding net other status = Inr p \<longleftrightarrow>
     p = \<lparr>rp_settle = settle, rp_gross = gross, rp_fees = fees, rp_funding = funding, rp_net = net,
          rp_other_fees = other, rp_status = status\<rparr> \<and> pnl_ok D p"
proof -
  let ?p = "\<lparr>rp_settle = settle, rp_gross = gross, rp_fees = fees, rp_funding = funding, rp_net = net,
          rp_other_fees = other, rp_status = status\<rparr>"
  have figs: "pnl_figures ?p = [gross, fees, funding, net]" by (simp add: pnl_figures_def)
  have "pnl_checked D settle gross fees funding net other status = Inr p \<longleftrightarrow> p = ?p \<and> pnl_ok D ?p"
  proof (cases "find (\<lambda>m. asset_of m = settle) other")
    case (Some m)
    then have "m \<in> set other \<and> asset_of m = settle" by (auto simp: find_Some_iff)
    then have "\<not> pnl_ok D ?p" by (auto simp: pnl_ok_def)
    with Some show ?thesis by (simp add: pnl_checked_def and_then_Inr)
  next
    case None
    then have other: "\<forall>m\<in>set other. asset_of m \<noteq> settle" by (simp add: find_asset_None)
    show ?thesis
      unfolding pnl_checked_def list_ex_None None option.case and_then_Inr figures_in_asset_Inr
        pnl_net_check_Inr pnl_ok_def figs
      using other by (simp del: list.set) blast
  qed
  then show ?thesis by auto
qed

lemma realized_pnl_eta:
  "\<lparr>rp_settle = rp_settle p, rp_gross = rp_gross p, rp_fees = rp_fees p, rp_funding = rp_funding p,
    rp_net = rp_net p, rp_other_fees = rp_other_fees p, rp_status = rp_status p\<rparr> = (p :: 'd realized_pnl)"
  by simp

lemma realized_pnl_try_from_Inr: "realized_pnl_try_from D p = Inr q \<longleftrightarrow> q = p \<and> pnl_ok D p"
  unfolding realized_pnl_try_from_def pnl_checked_Inr realized_pnl_eta by auto

lemma from_components_ok: "from_components D settle gross fees funding other = Inr p \<Longrightarrow> pnl_ok D p"
  by (auto simp: from_components_def result_simps pnl_checked_Inr)

lemma from_net_ok: "from_net D settle net fees funding other = Inr p \<Longrightarrow> pnl_ok D p"
  by (auto simp: from_net_def result_simps pnl_checked_Inr)

lemma finalize_Inr:
  "finalize p = Inr q \<longleftrightarrow> None \<notin> set (pnl_figures p) \<and> q = p\<lparr>rp_status := Final\<rparr>"
  unfolding finalize_def list_ex_None pnl_figures_def by auto

lemma finalize_ok:
  assumes "pnl_ok D p" and "finalize p = Inr q"
  shows "pnl_ok D q \<and> rp_status q = Final \<and> rp_net q = rp_net p \<and> rp_net q \<noteq> None"
proof -
  have q: "None \<notin> set (pnl_figures p)" "q = p\<lparr>rp_status := Final\<rparr>"
    using assms(2) by (simp_all add: finalize_Inr)
  then have "pnl_figures q = pnl_figures p" "rp_other_fees q = rp_other_fees p" "rp_settle q = rp_settle p"
    by (simp_all add: pnl_figures_def)
  with assms(1) q have "pnl_ok D q" by (simp add: pnl_ok_def)
  moreover have "rp_net p \<noteq> None" using q by (cases "rp_net p") (simp_all add: pnl_figures_def)
  ultimately show ?thesis using q by simp
qed

text \<open>\<open>net_of\<close> computes gross - fees + funding wherever a decimal can hold both steps.\<close>

lemma net_of_value:
  assumes D: "decimal_arith_laws D" and n: "net_of D g f u = Inr e"
    and "\<And>x. dec_checked_sub D (amount (pf_amount g)) (amount (pf_amount f)) = Some x \<Longrightarrow>
           dec_val D x = dec_val D (amount (pf_amount g)) - dec_val D (amount (pf_amount f))"
    and "\<And>x y. dec_checked_add D x (amount (pf_amount u)) = Some y \<Longrightarrow>
           dec_val D y = dec_val D x + dec_val D (amount (pf_amount u))"
  shows "dec_val D (amount e) =
    dec_val D (amount (pf_amount g)) - dec_val D (amount (pf_amount f)) + dec_val D (amount (pf_amount u))"
  using n assms(3,4) arith_laws_order [OF D]
  by (auto simp: net_of_def result_simps money_checked_sub_def money_checked_add_def
      money_combine_Inr canonical_val)

lemma net_of_asset:
  "net_of D g f u = Inr e \<Longrightarrow>
   asset_of e = asset_of (pf_amount g) \<and> asset_of (pf_amount f) = asset_of e \<and>
   asset_of (pf_amount u) = asset_of e"
  by (auto simp: net_of_def result_simps money_checked_sub_def money_checked_add_def
      dest!: money_combine_asset)

section \<open>The ledger\<close>

datatype ledger_kind = Funding | Fee | RealizedPnlKind | Transfer | OtherLedger string

fun ledger_kind_as_str :: "ledger_kind \<Rightarrow> string" where
  "ledger_kind_as_str Funding = ''funding''"
| "ledger_kind_as_str Fee = ''fee''"
| "ledger_kind_as_str RealizedPnlKind = ''realized_pnl''"
| "ledger_kind_as_str Transfer = ''transfer''"
| "ledger_kind_as_str (OtherLedger name) = name"

record 'd ledger_entry =
  le_exchange :: exchange_id
  le_id :: string
  le_kind :: ledger_kind
  le_instrument :: "instrument_id option"
  le_amount :: "'d money"
  le_trade_id :: "venue_trade_id option"
  le_order_id :: "venue_order_id option"
  le_time_ms :: timestamp_ms

definition ledger_key :: "'d ledger_entry \<Rightarrow> exchange_id \<times> string \<times> string" where
  "ledger_key e = (le_exchange e, ledger_kind_as_str (le_kind e), le_id e)"

record time_window =
  tw_start_ms :: timestamp_ms
  tw_end_ms :: timestamp_ms

definition time_window_new :: "timestamp_ms \<Rightarrow> timestamp_ms \<Rightarrow> model_error + time_window" where
  "time_window_new start_ms end_ms =
     (if end_ms < start_ms
      then Inl (InvalidAmount ''time window''
             (int_string start_ms @ ''..='' @ int_string end_ms) ''a start no later than its end'')
      else Inr \<lparr>tw_start_ms = start_ms, tw_end_ms = end_ms\<rparr>)"

lemma time_window_new_Inr:
  "time_window_new a b = Inr w \<longleftrightarrow> a \<le> b \<and> w = \<lparr>tw_start_ms = a, tw_end_ms = b\<rparr>"
  by (auto simp: time_window_new_def)

definition builtin_ledger_names :: "string list" where
  "builtin_ledger_names = map ledger_kind_as_str [Funding, Fee, RealizedPnlKind, Transfer]"

text \<open>Kinds share a name in the key only where the venue's own word is one of the fixed names.\<close>

lemma ledger_kind_clash:
  "ledger_kind_as_str k = ledger_kind_as_str l \<longleftrightarrow>
     k = l \<or>
     (ledger_kind_as_str k \<in> set builtin_ledger_names \<and>
      (k = OtherLedger (ledger_kind_as_str l) \<or> l = OtherLedger (ledger_kind_as_str k)))"
  by (cases k; cases l) (auto simp: builtin_ledger_names_def)

section \<open>Properties\<close>

text \<open>A PnL that was built from its components or from the venue's net loads again unchanged, and
  so does its final form; it is final only with every figure known, and keeps its net.\<close>

theorem pnl_reloads:
  assumes "from_components D settle gross fees funding other = Inr p \<or> from_net D settle net fees funding other = Inr p"
  shows "realized_pnl_try_from D p = Inr p \<and>
    (\<forall>q. finalize p = Inr q \<longrightarrow>
       realized_pnl_try_from D q = Inr q \<and> rp_net q = rp_net p \<and> rp_net q \<noteq> None) \<and>
    ((\<exists>q. finalize p = Inr q) \<longleftrightarrow> None \<notin> set [rp_gross p, rp_fees p, rp_funding p, rp_net p])"
proof -
  have ok: "pnl_ok D p" using assms from_components_ok from_net_ok by blast
  then have "realized_pnl_try_from D p = Inr p" by (simp add: realized_pnl_try_from_Inr)
  moreover have "realized_pnl_try_from D q = Inr q \<and> rp_net q = rp_net p \<and> rp_net q \<noteq> None" if "finalize p = Inr q" for q
    using finalize_ok [OF ok that] unfolding realized_pnl_try_from_Inr by metis
  moreover have "(\<exists>q. finalize p = Inr q) \<longleftrightarrow> None \<notin> set [rp_gross p, rp_fees p, rp_funding p, rp_net p]"
    unfolding finalize_Inr pnl_figures_def by blast
  ultimately show ?thesis by blast
qed

definition sample_figure :: "int \<Rightarrow> sdec pnl_figure" where
  "sample_figure n = \<lparr>pf_amount = money_new sample_dec (s_of n 0) (Asset ''USDT''), pf_source = FillsSource\<rparr>"

lemma sample_pnl_ok:
  "is_ok (from_components sample_dec (Asset ''USDT'') (Some (sample_figure 10)) (Some (sample_figure 2))
     (Some (sample_figure 1)) [])"
  by code_simp

theorem pnl_reloads_witness:
  "\<exists>p. from_components sample_dec (Asset ''USDT'') (Some (sample_figure 10)) (Some (sample_figure 2))
         (Some (sample_figure 1)) [] = Inr p \<and> realized_pnl_try_from sample_dec p = Inr p"
proof -
  obtain p where p: "from_components sample_dec (Asset ''USDT'') (Some (sample_figure 10))
      (Some (sample_figure 2)) (Some (sample_figure 1)) [] = Inr p"
    using sample_pnl_ok unfolding is_ok_iff by blast
  then show ?thesis using pnl_reloads [of sample_dec "Asset ''USDT''" "Some (sample_figure 10)"] by blast
qed

text \<open>With gross, fees and funding known, the net is gross minus fees plus funding in the
  settlement asset, wherever a decimal holds both steps exactly.\<close>

theorem net_is_gross_less_fees_plus_funding:
  assumes D: "decimal_arith_laws D"
    and p: "from_components D settle (Some g) (Some f) (Some u) other = Inr p"
    and diff: "holds_exactly (max (dec_scale D (amount (pf_amount g))) (dec_scale D (amount (pf_amount f))))
      (dec_val D (amount (pf_amount g)) - dec_val D (amount (pf_amount f)))"
    and total: "\<And>d. dec_checked_sub D (amount (pf_amount g)) (amount (pf_amount f)) = Some d \<Longrightarrow>
      holds_exactly (max (dec_scale D d) (dec_scale D (amount (pf_amount u))))
        (dec_val D d + dec_val D (amount (pf_amount u)))"
  shows "\<exists>n. rp_net p = Some n \<and> asset_of (pf_amount n) = settle \<and> pf_source n = Derived \<and>
    dec_val D (amount (pf_amount n)) =
      dec_val D (amount (pf_amount g)) - dec_val D (amount (pf_amount f)) + dec_val D (amount (pf_amount u))"
proof -
  note laws = arith_laws_order [OF D]
  obtain e where e: "net_of D g f u = Inr e" and net: "rp_net p = Some \<lparr>pf_amount = e, pf_source = Derived\<rparr>"
    and ok: "pnl_ok D p" and s: "rp_settle p = settle"
    using p by (auto simp: from_components_def and_then_Inr pnl_checked_Inr)
  obtain x y where x: "dec_checked_sub D (amount (pf_amount g)) (amount (pf_amount f)) = Some x"
    and y: "dec_checked_add D (canonical D x) (amount (pf_amount u)) = Some y" and ey: "amount e = canonical D y"
    using e by (auto simp: net_of_def and_then_Inr money_checked_sub_def money_checked_add_def money_combine_Inr)
  have xv: "dec_val D x = dec_val D (amount (pf_amount g)) - dec_val D (amount (pf_amount f))"
    using dec_sub_exact [OF D diff] x by auto
  have xs: "dec_scale D (canonical D x) = dec_scale D x"
    by (simp add: canonical_def dec_set_positive_scale [OF laws])
  have "dec_val D y = dec_val D x + dec_val D (amount (pf_amount u))"
    using dec_add_exact [OF D, of "canonical D x" "amount (pf_amount u)"] total [OF x] y
    by (auto simp: canonical_val [OF laws] xs)
  then have "dec_val D (amount e) =
      dec_val D (amount (pf_amount g)) - dec_val D (amount (pf_amount f)) + dec_val D (amount (pf_amount u))"
    by (simp add: ey canonical_val [OF laws] xv)
  moreover have "asset_of e = settle" using ok net s by (auto simp: pnl_ok_def pnl_figures_def)
  ultimately show ?thesis using net by auto
qed

theorem net_is_gross_less_fees_plus_funding_witness:
  "\<exists>p n. from_components sample_dec (Asset ''USDT'') (Some (sample_figure 10)) (Some (sample_figure 2))
         (Some (sample_figure 1)) [] = Inr p \<and> rp_net p = Some n \<and> dec_val sample_dec (amount (pf_amount n)) = 9"
proof -
  obtain p where p: "from_components sample_dec (Asset ''USDT'') (Some (sample_figure 10))
      (Some (sample_figure 2)) (Some (sample_figure 1)) [] = Inr p"
    using sample_pnl_ok unfolding is_ok_iff by blast
  have v: "dec_val sample_dec (amount (pf_amount (sample_figure n))) = of_int n" for n
    by (simp add: sample_figure_def canonical_val [OF sample_dec_laws] s_val_of)
  have sc: "dec_scale sample_dec (amount (pf_amount (sample_figure n))) = 0" for n
    by (simp add: sample_figure_def canonical_def dec_set_positive_scale [OF sample_dec_laws])
       (simp add: sample_dec_def)
  have h: "holds_exactly 0 (of_int k)" if "\<bar>k\<bar> < 2 ^ 96" for k using that by (auto simp: holds_exactly_def)
  have d: "dec_val sample_dec d = 8 \<and> dec_scale sample_dec d = 0"
    if "dec_checked_sub sample_dec (amount (pf_amount (sample_figure 10))) (amount (pf_amount (sample_figure 2))) = Some d"
    for d
    using dec_sub_exact [OF sample_dec_arith_laws, of "amount (pf_amount (sample_figure 10))"
        "amount (pf_amount (sample_figure 2))"] that h [of 8]
    unfolding v sc by auto
  from net_is_gross_less_fees_plus_funding [OF sample_dec_arith_laws p] h [of 8] h [of 9] d p show ?thesis
    unfolding v sc by auto
qed

text \<open>A ledger key tells two entries apart by product line, kind and venue id, with one exception:
  a kind the venue names with one of the fixed names shares that name's key.\<close>

theorem ledger_keys_and_kinds:
  "(ledger_key e = ledger_key f \<longleftrightarrow>
      le_exchange e = le_exchange f \<and> le_id e = le_id f \<and>
      (le_kind e = le_kind f \<or>
       ledger_kind_as_str (le_kind e) \<in> set [''funding'', ''fee'', ''realized_pnl'', ''transfer''] \<and>
       (le_kind e = OtherLedger (ledger_kind_as_str (le_kind f)) \<or>
        le_kind f = OtherLedger (ledger_kind_as_str (le_kind e))))) \<and>
   ledger_key \<lparr>le_exchange = x, le_id = i, le_kind = OtherLedger ''fee'', le_instrument = None,
       le_amount = m, le_trade_id = None, le_order_id = None, le_time_ms = t\<rparr> =
     ledger_key \<lparr>le_exchange = x, le_id = i, le_kind = Fee, le_instrument = None,
       le_amount = m, le_trade_id = None, le_order_id = None, le_time_ms = t\<rparr>"
proof -
  have names: "set [''funding'', ''fee'', ''realized_pnl'', ''transfer''] = set builtin_ledger_names"
    by (simp add: builtin_ledger_names_def)
  have "ledger_key e = ledger_key f \<longleftrightarrow>
      le_exchange e = le_exchange f \<and> le_id e = le_id f \<and>
      ledger_kind_as_str (le_kind e) = ledger_kind_as_str (le_kind f)"
    by (auto simp: ledger_key_def)
  then show ?thesis unfolding names ledger_kind_clash by (simp add: ledger_key_def)
qed

end
