(* ===== verification/Protection.thy ===== *)
theory Protection
  imports Accounting
begin

text \<open>
  \<open>src/model/futures/coverage.rs\<close> (the check that a read-back shows a stop covering the whole
  position) and \<open>src/model/futures/protection_state.rs\<close> (the state machine \<open>futures_position\<close>).
  \<open>covering_stop\<close> is the specification of the check. The machine's moves are the operations
  \<open>move_to\<close>, \<open>verified\<close>, \<open>removed_by_operator\<close> and \<open>closed\<close>; its table is an instance of
  \<open>transition_table\<close>.
\<close>

section \<open>Coverage\<close>

record 'd recorded_stop =
  rs_trigger_price :: "'d price"
  rs_basis :: trigger_basis
  rs_price_protection :: price_protection

datatype stop_owner = QuantForgeStop | OperatorStop

datatype coverage_gap =
  OtherInstrument | Flat | WrongSide | NotActive | TooSmall | BasisUnreported | NotAsRecorded

record 'd covered_stop =
  cs_owner :: stop_owner
  cs_stop :: "'d stop_order"

definition covers :: "'d decimal_ops \<Rightarrow> 'd stop_order \<Rightarrow> 'd position_snapshot \<Rightarrow> coverage_gap + unit" where
  "covers D stop position =
     (if so_instrument stop \<noteq> sn_instrument position then Inl OtherInstrument
      else (case open_exposure D position of
          None \<Rightarrow> Inl Flat
        | Some ex \<Rightarrow>
            if so_position_side stop \<noteq> ex_side ex then Inl WrongSide
            else if so_status stop \<noteq> SActive then Inl NotActive
            else if (case so_scope stop of
                WholePosition \<Rightarrow> False
              | ScopeQuantity q \<Rightarrow>
                  quantity_unit q \<noteq> quantity_unit (ex_size ex) \<or>
                  dec_lt D (quantity_value q) (quantity_value (ex_size ex)))
            then Inl TooSmall
            else if so_basis stop = None then Inl BasisUnreported
            else Inr ()))"

definition covered_ours ::
  "'d decimal_ops \<Rightarrow> 'd stop_order \<Rightarrow> 'd position_snapshot \<Rightarrow> 'd recorded_stop \<Rightarrow>
   coverage_gap + 'd covered_stop" where
  "covered_ours D stop position recorded =
     and_then (covers D stop position) (\<lambda>_.
       let as_recorded =
         dec_eq D (price_value (so_trigger_price stop)) (price_value (rs_trigger_price recorded)) \<and>
         so_basis stop = Some MarkBasis \<and> rs_basis recorded = MarkBasis \<and>
         so_price_protection stop = rs_price_protection recorded
       in if \<not> as_recorded then Inl NotAsRecorded
          else Inr \<lparr>cs_owner = QuantForgeStop, cs_stop = stop\<rparr>)"

definition covered_operators ::
  "'d decimal_ops \<Rightarrow> 'd stop_order \<Rightarrow> 'd position_snapshot \<Rightarrow> coverage_gap + 'd covered_stop" where
  "covered_operators D stop position =
     and_then (covers D stop position) (\<lambda>_. Inr \<lparr>cs_owner = OperatorStop, cs_stop = stop\<rparr>)"

text \<open>The specification: an active stop on the position's own instrument and side, with a reported
  basis, whose scope closes at least the whole size.\<close>

definition scope_closes :: "'d decimal_ops \<Rightarrow> 'd stop_scope \<Rightarrow> 'd quantity \<Rightarrow> bool" where
  "scope_closes D scope held =
     (case scope of
        WholePosition \<Rightarrow> True
      | ScopeQuantity q \<Rightarrow>
          quantity_unit q = quantity_unit held \<and>
          dec_val D (quantity_value held) \<le> dec_val D (quantity_value q))"

definition covering_stop :: "'d decimal_ops \<Rightarrow> 'd stop_order \<Rightarrow> 'd position_snapshot \<Rightarrow> bool" where
  "covering_stop D stop position \<longleftrightarrow>
     (\<exists>ex. sn_exposure position = Some ex \<and> dec_val D (quantity_value (ex_size ex)) \<noteq> 0 \<and>
        so_instrument stop = sn_instrument position \<and> so_position_side stop = ex_side ex \<and>
        so_status stop = SActive \<and> so_basis stop \<noteq> None \<and>
        scope_closes D (so_scope stop) (ex_size ex))"

lemma covers_Inr:
  assumes "decimal_laws D"
  shows "covers D stop position = Inr u \<longleftrightarrow> covering_stop D stop position"
proof (cases "sn_exposure position")
  case (Some ex)
  show ?thesis
    unfolding covers_def covering_stop_def scope_closes_def open_exposure_def quantity_is_zero_def
    using assms Some
    by (cases "so_scope stop") (auto simp: dec_vals not_less)
qed (simp add: covers_def covering_stop_def open_exposure_def)

lemma covered_operators_Inr:
  "decimal_laws D \<Longrightarrow>
   covered_operators D stop position = Inr c \<longleftrightarrow>
     c = \<lparr>cs_owner = OperatorStop, cs_stop = stop\<rparr> \<and> covering_stop D stop position"
  by (auto simp: covered_operators_def and_then_Inr covers_Inr)

lemma covered_ours_Inr:
  "decimal_laws D \<Longrightarrow>
   covered_ours D stop position recorded = Inr c \<longleftrightarrow>
     c = \<lparr>cs_owner = QuantForgeStop, cs_stop = stop\<rparr> \<and> covering_stop D stop position \<and>
     dec_val D (price_value (so_trigger_price stop)) = dec_val D (price_value (rs_trigger_price recorded)) \<and>
     so_basis stop = Some MarkBasis \<and> rs_basis recorded = MarkBasis \<and>
     so_price_protection stop = rs_price_protection recorded"
  by (auto simp: covered_ours_def and_then_Inr covers_Inr Let_def dec_eq_val)

section \<open>The machine\<close>

datatype protection_state =
    ProtectionPending | Protected | ProtectedByOperator | ProtectionUnknown | Unprotected
  | UnprotectedByOperator | Closing | Closed

definition protection_initial :: protection_state where
  "protection_initial = ProtectionPending"

definition protection_all :: "protection_state list" where
  "protection_all =
     [ProtectionPending, Protected, ProtectedByOperator, ProtectionUnknown, Unprotected,
      UnprotectedByOperator, Closing, Closed]"

definition protection_transitions :: "(protection_state \<times> protection_state) list" where
  "protection_transitions =
     [(ProtectionPending, Protected),
      (ProtectionPending, ProtectedByOperator),
      (ProtectionPending, ProtectionUnknown),
      (ProtectionPending, Unprotected),
      (ProtectionPending, Closing),
      (ProtectionPending, Closed),
      (Protected, ProtectionPending),
      (Protected, ProtectedByOperator),
      (Protected, ProtectionUnknown),
      (Protected, Unprotected),
      (Protected, UnprotectedByOperator),
      (Protected, Closing),
      (Protected, Closed),
      (ProtectedByOperator, ProtectionPending),
      (ProtectedByOperator, ProtectionUnknown),
      (ProtectedByOperator, UnprotectedByOperator),
      (ProtectedByOperator, Closing),
      (ProtectedByOperator, Closed),
      (ProtectionUnknown, ProtectionPending),
      (ProtectionUnknown, Protected),
      (ProtectionUnknown, ProtectedByOperator),
      (ProtectionUnknown, Unprotected),
      (ProtectionUnknown, UnprotectedByOperator),
      (ProtectionUnknown, Closing),
      (ProtectionUnknown, Closed),
      (Unprotected, ProtectionPending),
      (Unprotected, Protected),
      (Unprotected, Closing),
      (Unprotected, Closed),
      (UnprotectedByOperator, ProtectedByOperator),
      (UnprotectedByOperator, Closing),
      (UnprotectedByOperator, Closed),
      (Closing, Protected),
      (Closing, ProtectionUnknown),
      (Closing, Unprotected),
      (Closing, Closed)]"

fun protection_as_str :: "protection_state \<Rightarrow> string" where
  "protection_as_str ProtectionPending = ''protection_pending''"
| "protection_as_str Protected = ''protected''"
| "protection_as_str ProtectedByOperator = ''protected_by_operator''"
| "protection_as_str ProtectionUnknown = ''protection_unknown''"
| "protection_as_str Unprotected = ''unprotected''"
| "protection_as_str UnprotectedByOperator = ''unprotected_by_operator''"
| "protection_as_str Closing = ''closing''"
| "protection_as_str Closed = ''closed''"

definition protection_is_terminal :: "protection_state \<Rightarrow> bool" where
  "protection_is_terminal s \<longleftrightarrow> s = Closed"

definition protection_can_move_to :: "protection_state \<Rightarrow> protection_state \<Rightarrow> bool" where
  "protection_can_move_to s t \<longleftrightarrow> (s, t) \<in> set protection_transitions"

definition protection_checked :: "protection_state \<Rightarrow> protection_state \<Rightarrow> model_error + protection_state" where
  "protection_checked s t =
     (if \<not> protection_can_move_to s t
      then Inl (InvalidTransition ''position protection'' (protection_as_str s) (protection_as_str t))
      else Inr t)"

definition protection_evidence :: "protection_state \<Rightarrow> string option" where
  "protection_evidence t =
     (if t = Protected \<or> t = ProtectedByOperator then Some ''a read-back showing a covering stop''
      else if t = UnprotectedByOperator then Some ''the operator removing the stop''
      else if t = Closed then Some ''a snapshot showing the position gone''
      else None)"

definition protection_move_to :: "protection_state \<Rightarrow> protection_state \<Rightarrow> model_error + protection_state" where
  "protection_move_to s t =
     (case protection_evidence t of
        None \<Rightarrow> protection_checked s t
      | Some evidence \<Rightarrow> Inl (MissingEvidence ''position protection'' (protection_as_str t) evidence))"

definition protection_verified :: "protection_state \<Rightarrow> 'd covered_stop \<Rightarrow> model_error + protection_state" where
  "protection_verified s covered =
     (let t = (case cs_owner covered of QuantForgeStop \<Rightarrow> Protected | OperatorStop \<Rightarrow> ProtectedByOperator)
      in if t = s then Inr s else protection_checked s t)"

text \<open>\<open>OperatorRemoval\<close>: the evidence, built only from a stop cancelled by the user or a command.\<close>

datatype operator_removal = OperatorRemoval (by_command: bool)

definition removal_user_cancel :: "'d stop_order \<Rightarrow> model_error + operator_removal" where
  "removal_user_cancel stop =
     (if so_status stop \<noteq> SCanceled ByUser
      then Inl (MissingEvidence ''position protection'' ''unprotected_by_operator''
             ''a stop the venue reports as cancelled by the user'')
      else Inr (OperatorRemoval False))"

definition removal_command :: operator_removal where
  "removal_command = OperatorRemoval True"

definition protection_removed_by_operator ::
  "protection_state \<Rightarrow> operator_removal \<Rightarrow> model_error + protection_state" where
  "protection_removed_by_operator s removal =
     (if s = UnprotectedByOperator then Inr s else protection_checked s UnprotectedByOperator)"

definition position_gone :: "'d decimal_ops \<Rightarrow> 'd position_snapshot \<Rightarrow> position_side \<Rightarrow> bool" where
  "position_gone D snapshot side \<longleftrightarrow>
     is_flat D snapshot \<or> snapshot_side D snapshot = Some (position_side_opposite side)"

definition protection_closed ::
  "'d decimal_ops \<Rightarrow> protection_state \<Rightarrow> 'd position_snapshot \<Rightarrow> position_side \<Rightarrow>
   model_error + protection_state" where
  "protection_closed D s snapshot side =
     (if \<not> position_gone D snapshot side
      then Inl (MissingEvidence ''position protection'' (protection_as_str Closed)
             (''a snapshot without the '' @ position_side_as_str side @ '' position''))
      else protection_checked s Closed)"

section \<open>What the machine allows\<close>

text \<open>The moves out of a state, read off the table.\<close>

definition protection_next :: "protection_state \<Rightarrow> protection_state list" where
  "protection_next s = map snd (filter (\<lambda>p. fst p = s) protection_transitions)"

lemma protection_can_move_next: "protection_can_move_to s t \<longleftrightarrow> t \<in> set (protection_next s)"
  by (force simp: protection_can_move_to_def protection_next_def)

lemma protection_next_simps [simp]:
  "protection_next ProtectionPending =
     [Protected, ProtectedByOperator, ProtectionUnknown, Unprotected, Closing, Closed]"
  "protection_next Protected =
     [ProtectionPending, ProtectedByOperator, ProtectionUnknown, Unprotected, UnprotectedByOperator,
      Closing, Closed]"
  "protection_next ProtectedByOperator =
     [ProtectionPending, ProtectionUnknown, UnprotectedByOperator, Closing, Closed]"
  "protection_next ProtectionUnknown =
     [ProtectionPending, Protected, ProtectedByOperator, Unprotected, UnprotectedByOperator, Closing,
      Closed]"
  "protection_next Unprotected = [ProtectionPending, Protected, Closing, Closed]"
  "protection_next UnprotectedByOperator = [ProtectedByOperator, Closing, Closed]"
  "protection_next Closing = [Protected, ProtectionUnknown, Unprotected, Closed]"
  "protection_next Closed = []"
  by (simp_all add: protection_next_def protection_transitions_def)

lemma protection_step_in: "(s, t) \<in> set protection_transitions \<longleftrightarrow> t \<in> set (protection_next s)"
  using protection_can_move_next by (simp add: protection_can_move_to_def)

interpretation protection: transition_table
  protection_all protection_initial protection_transitions protection_is_terminal
proof
  fix s :: protection_state
  show "s \<in> set protection_all" by (cases s) (simp_all add: protection_all_def)
  show "protection_is_terminal s \<longleftrightarrow> (\<forall>t. (s, t) \<notin> set protection_transitions)"
    by (cases s) (auto simp: protection_is_terminal_def protection_step_in)
  show "(s, s) \<notin> set protection_transitions"
    by (cases s) (simp_all add: protection_step_in)
  have one: "(ProtectionPending, t) \<in> (set protection_transitions)\<^sup>*"
    if "t \<in> set (protection_next ProtectionPending)" for t
    using that by (simp only: protection_step_in [symmetric] r_into_rtrancl)
  have "(Protected, UnprotectedByOperator) \<in> set protection_transitions"
    by (simp add: protection_step_in)
  with one [of Protected] have "(ProtectionPending, UnprotectedByOperator) \<in> (set protection_transitions)\<^sup>*"
    by (simp add: rtrancl.rtrancl_into_rtrancl)
  with one show "(protection_initial, s) \<in> (set protection_transitions)\<^sup>*"
    by (cases s) (simp_all add: protection_initial_def)
qed

lemma protection_checked_Inr:
  "protection_checked s t = Inr u \<longleftrightarrow> u = t \<and> t \<in> set (protection_next s)"
  by (auto simp: protection_checked_def protection_can_move_next)

lemma protection_move_to_Inr:
  "protection_move_to s t = Inr u \<longleftrightarrow>
     u = t \<and> t \<in> {ProtectionPending, ProtectionUnknown, Unprotected, Closing} \<and>
     t \<in> set (protection_next s)"
  by (cases t) (auto simp: protection_move_to_def protection_evidence_def protection_checked_Inr)

definition owner_state :: "stop_owner \<Rightarrow> protection_state" where
  "owner_state w = (case w of QuantForgeStop \<Rightarrow> Protected | OperatorStop \<Rightarrow> ProtectedByOperator)"

lemma owner_state_simps [simp]:
  "owner_state QuantForgeStop = Protected" "owner_state OperatorStop = ProtectedByOperator"
  by (simp_all add: owner_state_def)

lemma protection_verified_Inr:
  "protection_verified s c = Inr u \<longleftrightarrow>
     u = owner_state (cs_owner c) \<and> (s = u \<or> u \<in> set (protection_next s))"
  by (auto simp: protection_verified_def owner_state_def protection_checked_Inr Let_def
      split: stop_owner.splits)

lemma protection_removed_Inr:
  "protection_removed_by_operator s r = Inr u \<longleftrightarrow>
     u = UnprotectedByOperator \<and> (s = u \<or> u \<in> set (protection_next s))"
  by (auto simp: protection_removed_by_operator_def protection_checked_Inr)

lemma protection_closed_Inr:
  "protection_closed D s snapshot side = Inr u \<longleftrightarrow>
     u = Closed \<and> s \<noteq> Closed \<and> position_gone D snapshot side"
  by (cases s) (auto simp: protection_closed_def protection_checked_Inr)

text \<open>A position is gone when no exposure on its side is left.\<close>

lemma position_gone_iff:
  "position_gone D snapshot side \<longleftrightarrow> snapshot_side D snapshot \<noteq> Some side"
  by (cases "snapshot_side D snapshot"; cases side)
    (auto simp: position_gone_def is_flat_side, (metis position_side.exhaust position_side_opposite.simps)+)

section \<open>Properties\<close>

text \<open>C33: a read-back stop is taken as covering the position exactly when it is an active stop on the
  position's instrument and side, with a reported basis, whose scope closes at least the whole size;
  as QuantForge's own it must also match the recorded trigger, basis and price protection.\<close>

theorem coverage_is_exact:
  assumes "decimal_laws D"
  shows "((\<exists>c. covered_operators D stop position = Inr c) \<longleftrightarrow> covering_stop D stop position) \<and>
    ((\<exists>c. covered_ours D stop position recorded = Inr c) \<longleftrightarrow>
       covering_stop D stop position \<and>
       dec_val D (price_value (so_trigger_price stop)) = dec_val D (price_value (rs_trigger_price recorded)) \<and>
       so_basis stop = Some MarkBasis \<and> rs_basis recorded = MarkBasis \<and>
       so_price_protection stop = rs_price_protection recorded)"
  by (auto simp: covered_operators_Inr [OF assms] covered_ours_Inr [OF assms])

definition sample_snapshot :: "nat \<Rightarrow> int \<Rightarrow> sdec position_snapshot" where
  "sample_snapshot held at_ms =
     \<lparr>sn_instrument = sample_instrument_id,
      sn_exposure =
        (if held = 0 then None
         else Some \<lparr>ex_side = Long, ex_size = BaseQ (BaseQty (s_of (int held) 0)),
                    ex_entry_price = Price (s_of 100 0)\<rparr>),
      sn_notional = None, sn_leverage = Leverage (s_of 1 0), sn_margin_mode = Isolated,
      sn_mark_price = None, sn_liquidation = Unavailable ReportedZero, sn_unrealized_pnl = None,
      sn_margin = None, sn_observed_at_ms = at_ms\<rparr>"

definition sample_stop :: "sdec stop_order" where
  "sample_stop =
     \<lparr>so_stop = OrderRef (VenueOrderId ''7'') None, so_instrument = sample_instrument_id,
      so_position_side = Long, so_trigger_price = Price (s_of 90 0), so_basis = Some MarkBasis,
      so_price_protection = ProtectionEnabled, so_scope = ScopeQuantity (BaseQ (BaseQty (s_of 20 1))),
      so_status = SActive, so_triggered_order = None, so_updated_at_ms = 0\<rparr>"

definition sample_recorded_stop :: "sdec recorded_stop" where
  "sample_recorded_stop =
     \<lparr>rs_trigger_price = Price (s_of 900 1), rs_basis = MarkBasis, rs_price_protection = ProtectionEnabled\<rparr>"

lemma sample_stop_covers: "covering_stop sample_dec sample_stop (sample_snapshot 2 0)"
  by (simp add: covering_stop_def sample_stop_def sample_snapshot_def scope_closes_def s_val_of)

theorem coverage_is_exact_witness:
  "(\<exists>c. covered_ours sample_dec sample_stop (sample_snapshot 2 0) sample_recorded_stop = Inr c) \<and>
   \<not> (\<exists>c. covered_operators sample_dec sample_stop (sample_snapshot 3 0) = Inr c)"
proof -
  have "\<not> covering_stop sample_dec sample_stop (sample_snapshot 3 0)"
    by (simp add: covering_stop_def sample_stop_def sample_snapshot_def scope_closes_def s_val_of)
  with coverage_is_exact [OF sample_dec_laws, of sample_stop "sample_snapshot 2 0" sample_recorded_stop]
    coverage_is_exact [OF sample_dec_laws, of sample_stop "sample_snapshot 3 0"] sample_stop_covers
  show ?thesis by (simp add: sample_stop_def sample_recorded_stop_def s_val_of)
qed

text \<open>The protection machine's gates. \<open>move_to\<close> makes exactly the table's moves that need no
  evidence; a verified stop leads to the state of its owner, an operator's removal to
  \<open>unprotected_by_operator\<close> and a snapshot without the position to \<open>closed\<close>, each along the table;
  an operator's stop never becomes QuantForge's without \<open>protection_pending\<close> in between, and every
  state but \<open>closed\<close> can still close.\<close>

theorem protection_gates:
  "((\<exists>u. protection_move_to s t = Inr u) \<longleftrightarrow>
      protection_can_move_to s t \<and> t \<notin> {Protected, ProtectedByOperator, UnprotectedByOperator, Closed}) \<and>
   ((\<exists>u. protection_verified s c = Inr u) \<longleftrightarrow>
      s = owner_state (cs_owner c) \<or> protection_can_move_to s (owner_state (cs_owner c))) \<and>
   ((\<exists>u. protection_removed_by_operator s r = Inr u) \<longleftrightarrow>
      s \<in> {Protected, ProtectedByOperator, ProtectionUnknown, UnprotectedByOperator}) \<and>
   ((\<exists>u. protection_closed D s snapshot side = Inr u) \<longleftrightarrow>
      s \<noteq> Closed \<and> snapshot_side D snapshot \<noteq> Some side) \<and>
   \<not> protection_can_move_to ProtectedByOperator Protected \<and>
   \<not> protection_can_move_to UnprotectedByOperator ProtectionPending \<and>
   (s, Closed) \<in> (set protection_transitions)\<^sup>* \<and>
   ((Closed, t) \<in> (set protection_transitions)\<^sup>* \<longleftrightarrow> t = Closed)"
proof (intro conjI)
  show "(\<exists>u. protection_move_to s t = Inr u) \<longleftrightarrow>
      protection_can_move_to s t \<and> t \<notin> {Protected, ProtectedByOperator, UnprotectedByOperator, Closed}"
    by (cases t) (simp_all add: protection_move_to_Inr protection_can_move_next)
  show "(\<exists>u. protection_removed_by_operator s r = Inr u) \<longleftrightarrow>
      s \<in> {Protected, ProtectedByOperator, ProtectionUnknown, UnprotectedByOperator}"
    by (cases s) (simp_all add: protection_removed_Inr)
  show "(Closed, t) \<in> (set protection_transitions)\<^sup>* \<longleftrightarrow> t = Closed"
    using protection.terminal_absorbs [of Closed t] by (auto simp: protection_is_terminal_def)
  show "(s, Closed) \<in> (set protection_transitions)\<^sup>*"
    by (cases s) (auto simp: protection_step_in intro: r_into_rtrancl)
qed (auto simp: protection_verified_Inr protection_closed_Inr position_gone_iff protection_can_move_next)

end
