(* ===== verification/Position.thy ===== *)
theory Position
  imports Protection
begin

text \<open>
  \<open>src/model/futures/position.rs\<close>: one owned position cycle. Each \<open>&mut self\<close> method is a function
  to the new record; on an error the source leaves the record as it was. \<open>cycle_step\<close> is one call of
  any method with the evidence its argument can carry, and \<open>cycle_reachable\<close> the records such calls
  produce from \<open>open\<close>. The invariant \<open>cycle_ok\<close> is what loading checks.
\<close>

section \<open>The record and its operations\<close>

datatype close_reason =
  ExitSignal | StopLoss | Manual | LiquidationClose | AdlClose | Protective | UnknownReason

fun close_reason_as_str :: "close_reason \<Rightarrow> string" where
  "close_reason_as_str ExitSignal = ''exit_signal''"
| "close_reason_as_str StopLoss = ''stop_loss''"
| "close_reason_as_str Manual = ''manual''"
| "close_reason_as_str LiquidationClose = ''liquidation''"
| "close_reason_as_str AdlClose = ''adl''"
| "close_reason_as_str Protective = ''protective''"
| "close_reason_as_str UnknownReason = ''unknown''"

record 'd position_cycle =
  pc_id :: position_cycle_id
  pc_key :: position_key
  pc_profile :: profile_id
  pc_side :: position_side
  pc_opened_by :: operation_id
  pc_protection :: protection_state
  pc_recorded_stop :: "'d recorded_stop option"
  pc_close_reason :: "close_reason option"
  pc_pnl :: "'d realized_pnl option"
  pc_opened_at_ms :: timestamp_ms
  pc_closed_at_ms :: "timestamp_ms option"

definition cycle_open ::
  "position_cycle_id \<Rightarrow> position_key \<Rightarrow> profile_id \<Rightarrow> position_side \<Rightarrow> operation_id \<Rightarrow> timestamp_ms \<Rightarrow>
   'd position_cycle" where
  "cycle_open i k p s o' t =
     \<lparr>pc_id = i, pc_key = k, pc_profile = p, pc_side = s, pc_opened_by = o',
      pc_protection = protection_initial, pc_recorded_stop = None, pc_close_reason = None,
      pc_pnl = None, pc_opened_at_ms = t, pc_closed_at_ms = None\<rparr>"

definition cycle_foreign :: "string \<Rightarrow> model_error" where
  "cycle_foreign evidence = MissingEvidence ''position protection'' ''its next state'' evidence"

definition cycle_record_stop :: "'d position_cycle \<Rightarrow> 'd recorded_stop \<Rightarrow> 'd position_cycle" where
  "cycle_record_stop c stop = c\<lparr>pc_recorded_stop := Some stop\<rparr>"

definition cycle_move_protection ::
  "'d position_cycle \<Rightarrow> protection_state \<Rightarrow> model_error + 'd position_cycle" where
  "cycle_move_protection c t =
     and_then (protection_move_to (pc_protection c) t) (\<lambda>s. Inr (c\<lparr>pc_protection := s\<rparr>))"

definition cycle_verified :: "'d position_cycle \<Rightarrow> 'd covered_stop \<Rightarrow> model_error + 'd position_cycle" where
  "cycle_verified c covered =
     (if so_instrument (cs_stop covered) \<noteq> pk_instrument (pc_key c) \<or>
         so_position_side (cs_stop covered) \<noteq> pc_side c
      then Inl (cycle_foreign ''a stop on this position'')
      else and_then (protection_verified (pc_protection c) covered)
             (\<lambda>s. Inr (c\<lparr>pc_protection := s\<rparr>)))"

definition cycle_removed_by_operator ::
  "'d position_cycle \<Rightarrow> operator_removal \<Rightarrow> model_error + 'd position_cycle" where
  "cycle_removed_by_operator c removal =
     and_then (protection_removed_by_operator (pc_protection c) removal)
       (\<lambda>s. Inr (c\<lparr>pc_protection := s\<rparr>))"

definition cycle_close ::
  "'d decimal_ops \<Rightarrow> 'd position_cycle \<Rightarrow> 'd position_snapshot \<Rightarrow> close_reason \<Rightarrow>
   model_error + 'd position_cycle" where
  "cycle_close D c snapshot reason =
     (if sn_instrument snapshot \<noteq> pk_instrument (pc_key c)
      then Inl (cycle_foreign ''a snapshot of this position'')
      else and_then (protection_closed D (pc_protection c) snapshot (pc_side c))
             (\<lambda>s. Inr (c\<lparr>pc_protection := s, pc_close_reason := Some reason,
                         pc_closed_at_ms := Some (sn_observed_at_ms snapshot)\<rparr>)))"

definition cycle_set_pnl :: "'d position_cycle \<Rightarrow> 'd realized_pnl \<Rightarrow> model_error + 'd position_cycle" where
  "cycle_set_pnl c pnl =
     (let settle = ii_settle (pk_instrument (pc_key c))
      in if rp_settle pnl \<noteq> settle
         then Inl (AssetMismatch (asset_str settle) (asset_str (rp_settle pnl)))
         else Inr (c\<lparr>pc_pnl := Some pnl\<rparr>))"

text \<open>\<open>TryFrom<PositionCycleParts>\<close>; the parts are the record's own fields.\<close>

definition cycle_try_from :: "'d position_cycle \<Rightarrow> model_error + 'd position_cycle" where
  "cycle_try_from parts =
     (let closed = (pc_protection parts = Closed)
      in if closed \<noteq> (pc_close_reason parts \<noteq> None) \<or> closed \<noteq> (pc_closed_at_ms parts \<noteq> None)
         then Inl (InvalidIdentifier ''position cycle''
                (nat_string (unat (position_cycle_id_get (pc_id parts))))
                ''a closed cycle has a close reason and time, and an open one has neither'')
         else
           let cycle = (cycle_open (pc_id parts) (pc_key parts) (pc_profile parts) (pc_side parts)
                 (pc_opened_by parts) (pc_opened_at_ms parts))
               \<lparr>pc_protection := pc_protection parts, pc_recorded_stop := pc_recorded_stop parts,
                pc_close_reason := pc_close_reason parts, pc_closed_at_ms := pc_closed_at_ms parts\<rparr>
           in (case pc_pnl parts of None \<Rightarrow> Inr cycle | Some pnl \<Rightarrow> cycle_set_pnl cycle pnl))"

section \<open>Reachable records\<close>

inductive cycle_step :: "'d decimal_ops \<Rightarrow> 'd position_cycle \<Rightarrow> 'd position_cycle \<Rightarrow> bool"
  for D :: "'d decimal_ops" where
  record_stop: "cycle_step D c (cycle_record_stop c stop)"
| move: "cycle_move_protection c t = Inr c' \<Longrightarrow> cycle_step D c c'"
| ours: "covered_ours D stop position recorded = Inr v \<Longrightarrow> cycle_verified c v = Inr c' \<Longrightarrow>
    cycle_step D c c'"
| operators: "covered_operators D stop position = Inr v \<Longrightarrow> cycle_verified c v = Inr c' \<Longrightarrow>
    cycle_step D c c'"
| user_cancel: "removal_user_cancel (stop :: 'd stop_order) = Inr r \<Longrightarrow> cycle_removed_by_operator c r = Inr c' \<Longrightarrow>
    cycle_step D c c'"
| command: "cycle_removed_by_operator c removal_command = Inr c' \<Longrightarrow> cycle_step D c c'"
| close: "cycle_close D c snapshot reason = Inr c' \<Longrightarrow> cycle_step D c c'"
| set_pnl: "cycle_set_pnl c pnl = Inr c' \<Longrightarrow> cycle_step D c c'"

inductive_cases cycle_stepE: "cycle_step D c c'"

inductive cycle_reachable :: "'d decimal_ops \<Rightarrow> 'd position_cycle \<Rightarrow> bool" for D where
  opened: "cycle_reachable D (cycle_open i k p s o' t)"
| step: "cycle_reachable D c \<Longrightarrow> cycle_step D c c' \<Longrightarrow> cycle_reachable D c'"

definition cycle_ok :: "'d position_cycle \<Rightarrow> bool" where
  "cycle_ok c \<longleftrightarrow>
     (pc_protection c = Closed \<longleftrightarrow> pc_close_reason c \<noteq> None) \<and>
     (pc_protection c = Closed \<longleftrightarrow> pc_closed_at_ms c \<noteq> None) \<and>
     (\<forall>p. pc_pnl c = Some p \<longrightarrow> rp_settle p = ii_settle (pk_instrument (pc_key c)))"

lemma cycle_move_Inr:
  "cycle_move_protection c t = Inr c' \<longleftrightarrow>
     protection_move_to (pc_protection c) t = Inr t \<and> c' = c\<lparr>pc_protection := t\<rparr>"
  by (auto simp: cycle_move_protection_def and_then_Inr protection_move_to_Inr)

lemma cycle_verified_Inr:
  "cycle_verified c v = Inr c' \<longleftrightarrow>
     so_instrument (cs_stop v) = pk_instrument (pc_key c) \<and> so_position_side (cs_stop v) = pc_side c \<and>
     protection_verified (pc_protection c) v = Inr (owner_state (cs_owner v)) \<and>
     c' = c\<lparr>pc_protection := owner_state (cs_owner v)\<rparr>"
  by (auto simp: cycle_verified_def and_then_Inr protection_verified_Inr)

lemma cycle_removed_Inr:
  "cycle_removed_by_operator c r = Inr c' \<longleftrightarrow>
     protection_removed_by_operator (pc_protection c) r = Inr UnprotectedByOperator \<and>
     c' = c\<lparr>pc_protection := UnprotectedByOperator\<rparr>"
  by (auto simp: cycle_removed_by_operator_def and_then_Inr protection_removed_Inr)

lemma cycle_close_Inr:
  "cycle_close D c sn reason = Inr c' \<longleftrightarrow>
     sn_instrument sn = pk_instrument (pc_key c) \<and> pc_protection c \<noteq> Closed \<and>
     position_gone D sn (pc_side c) \<and>
     c' = c\<lparr>pc_protection := Closed, pc_close_reason := Some reason,
            pc_closed_at_ms := Some (sn_observed_at_ms sn)\<rparr>"
  by (auto simp: cycle_close_def and_then_Inr protection_closed_Inr)

lemma cycle_set_pnl_Inr:
  "cycle_set_pnl c p = Inr c' \<longleftrightarrow>
     rp_settle p = ii_settle (pk_instrument (pc_key c)) \<and> c' = c\<lparr>pc_pnl := Some p\<rparr>"
  by (auto simp: cycle_set_pnl_def Let_def)

lemmas cycle_ops_Inr = cycle_move_Inr cycle_verified_Inr cycle_removed_Inr cycle_close_Inr
  cycle_set_pnl_Inr

lemma owner_state_open [simp]: "owner_state w \<noteq> Closed" "Closed \<noteq> owner_state w"
  by (cases w; simp)+

lemma cycle_step_identity:
  "cycle_step D c c' \<Longrightarrow>
   pc_key c' = pc_key c \<and> pc_side c' = pc_side c \<and> pc_id c' = pc_id c \<and>
   pc_opened_by c' = pc_opened_by c \<and> pc_profile c' = pc_profile c \<and>
   pc_opened_at_ms c' = pc_opened_at_ms c"
  by (erule cycle_stepE) (auto simp: cycle_ops_Inr cycle_record_stop_def)

lemma cycle_step_ok: "cycle_step D c c' \<Longrightarrow> cycle_ok c \<Longrightarrow> cycle_ok c'"
  by (erule cycle_stepE)
    (auto simp: cycle_ops_Inr cycle_record_stop_def cycle_ok_def protection_move_to_Inr
      protection_verified_Inr protection_removed_Inr)

lemma cycle_open_ok: "cycle_ok (cycle_open i k p s o' t)"
  by (simp add: cycle_ok_def cycle_open_def protection_initial_def)

lemma cycle_reachable_ok: "cycle_reachable D c \<Longrightarrow> cycle_ok c"
  by (induction rule: cycle_reachable.induct) (auto intro: cycle_open_ok cycle_step_ok)

lemma cycle_rebuild:
  "(cycle_open (pc_id c) (pc_key c) (pc_profile c) (pc_side c) (pc_opened_by c) (pc_opened_at_ms c))
     \<lparr>pc_protection := pc_protection c, pc_recorded_stop := pc_recorded_stop c,
      pc_close_reason := pc_close_reason c, pc_closed_at_ms := pc_closed_at_ms c\<rparr>
   = c\<lparr>pc_pnl := None\<rparr>"
  by (simp add: cycle_open_def)

lemma cycle_try_from_Inr: "cycle_try_from c = Inr c' \<longleftrightarrow> c' = c \<and> cycle_ok c"
proof (cases "pc_pnl c")
  case None
  then have "c\<lparr>pc_pnl := None\<rparr> = c" by simp
  with None show ?thesis
    unfolding cycle_try_from_def Let_def cycle_rebuild cycle_ok_def by auto
next
  case (Some p)
  then have "c\<lparr>pc_pnl := Some p\<rparr> = c" by simp
  with Some show ?thesis
    unfolding cycle_try_from_def Let_def cycle_rebuild cycle_ok_def by (auto simp: cycle_set_pnl_Inr)
qed

section \<open>Safety\<close>

text \<open>What a step that makes the cycle protected rests on.\<close>

definition stop_evidence :: "'d decimal_ops \<Rightarrow> 'd position_cycle \<Rightarrow> 'd stop_order \<Rightarrow> 'd position_snapshot \<Rightarrow> bool" where
  "stop_evidence D c stop position \<longleftrightarrow>
     covering_stop D stop position \<and> sn_instrument position = pk_instrument (pc_key c) \<and>
     snapshot_side D position = Some (pc_side c)"

lemma covering_stop_side:
  "decimal_laws D \<Longrightarrow> covering_stop D stop position \<Longrightarrow>
   sn_instrument position = so_instrument stop \<and> snapshot_side D position = Some (so_position_side stop)"
  by (auto simp: covering_stop_def snapshot_side_def open_exposure_def quantity_is_zero_def dec_vals)

lemma cycle_step_protected:
  assumes D: "decimal_laws D" and "cycle_step D c c'" and "pc_protection c' \<noteq> pc_protection c"
    and "pc_protection c' \<in> {Protected, ProtectedByOperator}"
  shows "\<exists>stop position v. cycle_verified c v = Inr c' \<and> cs_stop v = stop \<and> stop_evidence D c stop position \<and>
    (if pc_protection c' = Protected
     then \<exists>recorded. covered_ours D stop position recorded = Inr v
     else covered_operators D stop position = Inr v)"
  using assms(2)
proof cases
  case (ours stop position recorded v)
  with covering_stop_side [OF D, of stop position] show ?thesis
    by (intro exI [of _ stop] exI [of _ position] exI [of _ v])
      (auto simp: covered_ours_Inr [OF D] cycle_verified_Inr stop_evidence_def)
next
  case (operators stop position v)
  with covering_stop_side [OF D, of stop position] show ?thesis
    by (intro exI [of _ stop] exI [of _ position] exI [of _ v])
      (auto simp: covered_operators_Inr [OF D] cycle_verified_Inr stop_evidence_def)
qed (use assms in \<open>auto simp: cycle_ops_Inr protection_move_to_Inr cycle_record_stop_def\<close>)

lemma cycle_step_closed:
  assumes "cycle_step D c c'" and "pc_protection c' = Closed" and "pc_protection c \<noteq> Closed"
  shows "\<exists>snapshot reason. cycle_close D c snapshot reason = Inr c' \<and>
    sn_instrument snapshot = pk_instrument (pc_key c) \<and> snapshot_side D snapshot \<noteq> Some (pc_side c) \<and>
    pc_close_reason c' = Some reason \<and> pc_closed_at_ms c' = Some (sn_observed_at_ms snapshot)"
  using assms(1)
proof cases
  case (close snapshot reason)
  then show ?thesis
    by (intro exI [of _ snapshot] exI [of _ reason]) (auto simp: cycle_close_Inr position_gone_iff)
qed (use assms in \<open>auto simp: cycle_ops_Inr protection_move_to_Inr cycle_record_stop_def\<close>)

lemma cycle_step_after_close:
  assumes "cycle_step D c c'" and "pc_protection c = Closed"
  shows "pc_protection c' = Closed \<and> pc_close_reason c' = pc_close_reason c \<and>
    pc_closed_at_ms c' = pc_closed_at_ms c"
  using assms(1)
  by cases
    (use assms(2) in \<open>auto simp: cycle_ops_Inr protection_move_to_Inr protection_verified_Inr
      protection_removed_Inr cycle_record_stop_def\<close>)

lemma cycle_step_unprotected_by_operator:
  assumes "cycle_step D c c'" and "pc_protection c' = UnprotectedByOperator"
    and "pc_protection c \<noteq> UnprotectedByOperator"
  shows "pc_protection c \<in> {Protected, ProtectedByOperator, ProtectionUnknown} \<and>
    (\<exists>r. cycle_removed_by_operator c r = Inr c')"
  using assms(1)
proof cases
  case (user_cancel stop r)
  with assms(3) show ?thesis
    by (cases "pc_protection c") (auto simp: cycle_removed_Inr protection_removed_Inr)
next
  case command
  with assms(3) show ?thesis
    by (cases "pc_protection c") (auto simp: cycle_removed_Inr protection_removed_Inr)
next
  case (ours stop position recorded v)
  with assms(2) show ?thesis by (cases "cs_owner v") (auto simp: cycle_verified_Inr)
next
  case (operators stop position v)
  with assms(2) show ?thesis by (cases "cs_owner v") (auto simp: cycle_verified_Inr)
qed (use assms in \<open>auto simp: cycle_ops_Inr protection_move_to_Inr cycle_record_stop_def\<close>)

section \<open>Properties\<close>

text \<open>C31: an open cycle becomes protected only by a stop read back on its own instrument and side
  that covers the whole position the snapshot shows: QuantForge's stop, checked against the record,
  or the operator's.\<close>

theorem protected_only_on_evidence:
  assumes "decimal_laws D" and "cycle_step D c c'" and "pc_protection c' \<noteq> pc_protection c"
    and "pc_protection c' \<in> {Protected, ProtectedByOperator}"
  shows "\<exists>stop position v. cycle_verified c v = Inr c' \<and> cs_stop v = stop \<and>
    covering_stop D stop position \<and> sn_instrument position = pk_instrument (pc_key c) \<and>
    snapshot_side D position = Some (pc_side c) \<and>
    (if pc_protection c' = Protected
     then \<exists>recorded. covered_ours D stop position recorded = Inr v
     else covered_operators D stop position = Inr v)"
  using cycle_step_protected [OF assms] unfolding stop_evidence_def by blast

definition sample_key :: position_key where
  "sample_key =
     \<lparr>pk_account = \<lparr>ar_venue = Binance, ar_environment = Testnet,
        ar_account = VenueIssued (IssuedAccountId ''42'')\<rparr>,
      pk_instrument = sample_instrument_id\<rparr>"

definition sample_cycle :: "sdec position_cycle" where
  "sample_cycle = cycle_open (PositionCycleId 1) sample_key (ProfileId ''p'') Long (OperationId 1) 0"

definition sample_covered :: "sdec covered_stop" where
  "sample_covered = \<lparr>cs_owner = QuantForgeStop, cs_stop = sample_stop\<rparr>"

lemma sample_covered_ours:
  "covered_ours sample_dec sample_stop (sample_snapshot 2 0) sample_recorded_stop = Inr sample_covered"
  unfolding covered_ours_Inr [OF sample_dec_laws]
  using sample_stop_covers by (simp add: sample_covered_def sample_stop_def sample_recorded_stop_def s_val_of)

lemma sample_verified:
  "cycle_verified sample_cycle sample_covered = Inr (sample_cycle\<lparr>pc_protection := Protected\<rparr>)"
  by (simp add: cycle_verified_Inr sample_cycle_def cycle_open_def sample_covered_def sample_stop_def
      sample_key_def protection_verified_Inr protection_initial_def)

lemma sample_protected_step: "cycle_step sample_dec sample_cycle (sample_cycle\<lparr>pc_protection := Protected\<rparr>)"
  using cycle_step.ours [OF sample_covered_ours sample_verified] .

theorem protected_only_on_evidence_witness:
  "\<exists>stop position. covering_stop sample_dec stop position \<and>
     snapshot_side sample_dec position = Some (pc_side sample_cycle)"
  using protected_only_on_evidence [OF sample_dec_laws sample_protected_step]
  by (auto simp: sample_cycle_def cycle_open_def protection_initial_def)

text \<open>C32: a cycle closes only on a snapshot of its own instrument that no longer shows its side, with
  the reason given and the snapshot's time.\<close>

theorem closes_only_on_a_snapshot:
  assumes "cycle_step D c c'" and "pc_protection c' = Closed" and "pc_protection c \<noteq> Closed"
  shows "\<exists>snapshot reason. cycle_close D c snapshot reason = Inr c' \<and>
    sn_instrument snapshot = pk_instrument (pc_key c) \<and> snapshot_side D snapshot \<noteq> Some (pc_side c) \<and>
    pc_close_reason c' = Some reason \<and> pc_closed_at_ms c' = Some (sn_observed_at_ms snapshot)"
  by (rule cycle_step_closed [OF assms])

definition sample_closed_cycle :: "sdec position_cycle" where
  "sample_closed_cycle = sample_cycle\<lparr>pc_protection := Closed, pc_close_reason := Some Manual,
     pc_closed_at_ms := Some 9\<rparr>"

lemma sample_close_step: "cycle_step sample_dec sample_cycle sample_closed_cycle"
proof (rule cycle_step.close [of _ _ "sample_snapshot 0 9" Manual])
  show "cycle_close sample_dec sample_cycle (sample_snapshot 0 9) Manual = Inr sample_closed_cycle"
    by (simp add: cycle_close_Inr sample_cycle_def cycle_open_def sample_snapshot_def sample_key_def
        position_gone_iff snapshot_side_def open_exposure_def protection_initial_def sample_closed_cycle_def)
qed

theorem closes_only_on_a_snapshot_witness:
  "\<exists>snapshot. snapshot_side sample_dec snapshot \<noteq> Some (pc_side sample_cycle) \<and>
     pc_closed_at_ms sample_closed_cycle = Some (sn_observed_at_ms snapshot)"
  using closes_only_on_a_snapshot [OF sample_close_step]
  by (auto simp: sample_closed_cycle_def sample_cycle_def cycle_open_def protection_initial_def)

text \<open>A closed cycle is final: whatever calls follow, it stays closed with the same reason and time,
  and its identity never changes.\<close>

theorem closed_cycle_is_final:
  assumes "(cycle_step D)\<^sup>*\<^sup>* c c'" and "pc_protection c = Closed"
  shows "pc_protection c' = Closed \<and> pc_close_reason c' = pc_close_reason c \<and>
    pc_closed_at_ms c' = pc_closed_at_ms c \<and> pc_id c' = pc_id c \<and> pc_key c' = pc_key c \<and>
    pc_side c' = pc_side c"
  using assms
proof (induction rule: rtranclp_induct)
  case (step c1 c2)
  then show ?case using cycle_step_after_close [OF step.hyps(2)] cycle_step_identity [OF step.hyps(2)] by simp
qed simp

theorem closed_cycle_is_final_witness:
  "pc_close_reason (cycle_record_stop sample_closed_cycle sample_recorded_stop) = Some Manual"
  using closed_cycle_is_final [OF r_into_rtranclp,
      OF cycle_step.record_stop [of sample_dec sample_closed_cycle sample_recorded_stop]]
  by (simp add: sample_closed_cycle_def)

text \<open>Every record that calls on an opened cycle produce is one that loading accepts unchanged.\<close>

theorem reachable_cycles_load:
  assumes "cycle_reachable D c"
  shows "cycle_try_from c = Inr c \<and> (pc_protection c = Closed \<longleftrightarrow> pc_close_reason c \<noteq> None)"
  using cycle_reachable_ok [OF assms] unfolding cycle_try_from_Inr cycle_ok_def by blast

theorem reachable_cycles_load_witness: "cycle_try_from sample_closed_cycle = Inr sample_closed_cycle"
proof -
  have "cycle_reachable sample_dec sample_closed_cycle"
    using cycle_reachable.step [OF cycle_reachable.opened sample_close_step [unfolded sample_cycle_def]] .
  from reachable_cycles_load [OF this] show ?thesis by simp
qed

end
