(* ===== verification/Intent_State.thy ===== *)
theory Intent_State
  imports Orders
begin

text \<open>
  \<open>src/model/futures/intent_state.rs\<close>: the state machine \<open>signal_intent\<close> of an external signal's
  intent. Its table is an instance of \<open>ranked_table\<close>: no run returns and none is longer than five
  moves. Moves that need the venue's evidence have their own operation and \<open>move_to\<close> refuses them.
\<close>

datatype intent_state =
    Received | Admitted | Rejected | Duplicate | Noop | Expired | Submitting | OutcomeUnknown
  | NotPlaced | PartiallyFilled | Filled | Unfilled

definition intent_initial :: intent_state where
  "intent_initial = Received"

definition intent_all :: "intent_state list" where
  "intent_all =
     [Received, Admitted, Rejected, Duplicate, Noop, Expired, Submitting, OutcomeUnknown, NotPlaced,
      PartiallyFilled, Filled, Unfilled]"

definition intent_transitions :: "(intent_state \<times> intent_state) list" where
  "intent_transitions =
     [(Received, Admitted),
      (Received, Rejected),
      (Received, Duplicate),
      (Received, Noop),
      (Admitted, Submitting),
      (Admitted, Expired),
      (Admitted, Rejected),
      (Admitted, Noop),
      (Submitting, PartiallyFilled),
      (Submitting, Filled),
      (Submitting, Unfilled),
      (Submitting, Rejected),
      (Submitting, OutcomeUnknown),
      (OutcomeUnknown, PartiallyFilled),
      (OutcomeUnknown, Filled),
      (OutcomeUnknown, Unfilled),
      (OutcomeUnknown, Rejected),
      (OutcomeUnknown, NotPlaced),
      (PartiallyFilled, Filled)]"

fun intent_as_str :: "intent_state \<Rightarrow> string" where
  "intent_as_str Received = ''received''"
| "intent_as_str Admitted = ''admitted''"
| "intent_as_str Rejected = ''rejected''"
| "intent_as_str Duplicate = ''duplicate''"
| "intent_as_str Noop = ''noop''"
| "intent_as_str Expired = ''expired''"
| "intent_as_str Submitting = ''submitting''"
| "intent_as_str OutcomeUnknown = ''outcome_unknown''"
| "intent_as_str NotPlaced = ''not_placed''"
| "intent_as_str PartiallyFilled = ''partially_filled''"
| "intent_as_str Filled = ''filled''"
| "intent_as_str Unfilled = ''unfilled''"

fun intent_is_terminal :: "intent_state \<Rightarrow> bool" where
  "intent_is_terminal Rejected = True"
| "intent_is_terminal Duplicate = True"
| "intent_is_terminal Noop = True"
| "intent_is_terminal Expired = True"
| "intent_is_terminal NotPlaced = True"
| "intent_is_terminal Filled = True"
| "intent_is_terminal Unfilled = True"
| "intent_is_terminal _ = False"

fun intent_is_unresolved :: "intent_state \<Rightarrow> bool" where
  "intent_is_unresolved Submitting = True"
| "intent_is_unresolved OutcomeUnknown = True"
| "intent_is_unresolved _ = False"

definition intent_can_move_to :: "intent_state \<Rightarrow> intent_state \<Rightarrow> bool" where
  "intent_can_move_to s t \<longleftrightarrow> (s, t) \<in> set intent_transitions"

definition intent_invalid :: "intent_state \<Rightarrow> intent_state \<Rightarrow> model_error" where
  "intent_invalid s t = InvalidTransition ''intent'' (intent_as_str s) (intent_as_str t)"

definition intent_checked :: "intent_state \<Rightarrow> intent_state \<Rightarrow> model_error + intent_state" where
  "intent_checked s t = (if \<not> intent_can_move_to s t then Inl (intent_invalid s t) else Inr t)"

definition intent_state_move_to :: "intent_state \<Rightarrow> intent_state \<Rightarrow> model_error + intent_state" where
  "intent_state_move_to s t =
     (let gated = (t = PartiallyFilled \<or> t = Filled \<or> t = Unfilled \<or> t = NotPlaced \<or>
                   (t = Rejected \<and> intent_is_unresolved s))
      in if gated
         then Inl (MissingEvidence ''intent'' (intent_as_str t)
                ''an order, a fill or a refusal read back from the venue'')
         else intent_checked s t)"

definition intent_state_on_order ::
  "'d decimal_ops \<Rightarrow> intent_state \<Rightarrow> 'd futures_order \<Rightarrow> model_error + intent_state" where
  "intent_state_on_order D s ord =
     (let filled = (\<not> quantity_is_zero D (fo_filled ord));
          outcome =
            (if fo_status ord = FRejected \<and> \<not> filled then Some Rejected
             else if is_final (fo_status ord) \<and> filled then Some Filled
             else if is_final (fo_status ord) \<and> \<not> filled then Some Unfilled
             else if filled then Some PartiallyFilled
             else None)
      in (case outcome of
            None \<Rightarrow> Inr s
          | Some t \<Rightarrow> if t = s then Inr s else intent_checked s t))"

definition intent_state_on_fill :: "intent_state \<Rightarrow> 'd futures_fill \<Rightarrow> model_error + intent_state" where
  "intent_state_on_fill s fill =
     (if s = PartiallyFilled \<or> s = Filled then Inr s else intent_checked s PartiallyFilled)"

definition intent_state_on_rejection :: "intent_state \<Rightarrow> rejection \<Rightarrow> model_error + intent_state" where
  "intent_state_on_rejection s r =
     (if s \<noteq> Submitting then Inl (intent_invalid s Rejected) else Inr Rejected)"

definition retry_rejected :: "intent_state \<Rightarrow> model_error + intent_state" where
  "retry_rejected s = intent_checked s Rejected"

definition settle_not_placed :: "intent_state \<Rightarrow> model_error + intent_state" where
  "settle_not_placed s = intent_checked s NotPlaced"

section \<open>The table\<close>

definition intent_next :: "intent_state \<Rightarrow> intent_state list" where
  "intent_next s = map snd (filter (\<lambda>p. fst p = s) intent_transitions)"

lemma intent_next_simps [simp]:
  "intent_next Received = [Admitted, Rejected, Duplicate, Noop]"
  "intent_next Admitted = [Submitting, Expired, Rejected, Noop]"
  "intent_next Submitting = [PartiallyFilled, Filled, Unfilled, Rejected, OutcomeUnknown]"
  "intent_next OutcomeUnknown = [PartiallyFilled, Filled, Unfilled, Rejected, NotPlaced]"
  "intent_next PartiallyFilled = [Filled]"
  "intent_next Rejected = []" "intent_next Duplicate = []" "intent_next Noop = []"
  "intent_next Expired = []" "intent_next NotPlaced = []" "intent_next Filled = []"
  "intent_next Unfilled = []"
  by (simp_all add: intent_next_def intent_transitions_def)

lemma intent_step_in: "(s, t) \<in> set intent_transitions \<longleftrightarrow> t \<in> set (intent_next s)"
  by (force simp: intent_next_def)

fun intent_rank :: "intent_state \<Rightarrow> nat" where
  "intent_rank Received = 0"
| "intent_rank Admitted = 1"
| "intent_rank Submitting = 2"
| "intent_rank OutcomeUnknown = 3"
| "intent_rank PartiallyFilled = 4"
| "intent_rank _ = 5"

interpretation intent: ranked_table
  intent_all intent_initial intent_transitions intent_is_terminal intent_rank
proof
  fix s t :: intent_state
  show "s \<in> set intent_all" by (cases s) (simp_all add: intent_all_def)
  show "intent_is_terminal s \<longleftrightarrow> (\<forall>t. (s, t) \<notin> set intent_transitions)"
    by (cases s) (auto simp: intent_step_in)
  show "(s, s) \<notin> set intent_transitions" by (cases s) (simp_all add: intent_step_in)
  show "(s, t) \<in> set intent_transitions \<Longrightarrow> intent_rank s < intent_rank t"
    unfolding intent_step_in by (cases s) auto
  have one: "(Received, t) \<in> (set intent_transitions)\<^sup>*"
    if "(Received, u) \<in> (set intent_transitions)\<^sup>*" "t \<in> set (intent_next u)" for t u
    using that by (simp add: rtrancl.rtrancl_into_rtrancl intent_step_in)
  have a: "(Received, Admitted) \<in> (set intent_transitions)\<^sup>*" using one [of Received] by simp
  have b: "(Received, Submitting) \<in> (set intent_transitions)\<^sup>*" using one [OF a] by simp
  have c: "(Received, OutcomeUnknown) \<in> (set intent_transitions)\<^sup>*" using one [OF b] by simp
  show "(intent_initial, s) \<in> (set intent_transitions)\<^sup>*"
    using one [of Received] one [OF a] one [OF b] one [OF c] a b c
    by (cases s) (simp_all add: intent_initial_def)
qed

lemma intent_checked_Inr: "intent_checked s t = Inr u \<longleftrightarrow> u = t \<and> t \<in> set (intent_next s)"
  by (auto simp: intent_checked_def intent_can_move_to_def intent_step_in)

lemma intent_state_move_to_Inr:
  "intent_state_move_to s t = Inr u \<longleftrightarrow>
     u = t \<and> t \<in> set (intent_next s) \<and> t \<in> {Admitted, Duplicate, Noop, Expired, Submitting, OutcomeUnknown, Rejected} \<and>
     (t = Rejected \<longrightarrow> \<not> intent_is_unresolved s)"
  by (cases s; cases t) (simp_all add: intent_state_move_to_def intent_checked_Inr)

text \<open>What an order read back proves, as a specification over the filled quantity.\<close>

lemma intent_state_on_order_Inr:
  "intent_state_on_order D s ord = Inr u \<longleftrightarrow>
     (if is_final (fo_status ord)
      then u = (if \<not> quantity_is_zero D (fo_filled ord) then Filled
                else if fo_status ord = FRejected then Rejected else Unfilled)
      else if \<not> quantity_is_zero D (fo_filled ord) then u = PartiallyFilled else u = s) \<and>
     (u = s \<or> u \<in> set (intent_next s))"
  by (cases "fo_status ord") (auto simp: intent_state_on_order_def Let_def intent_checked_Inr)

lemma intent_state_on_fill_Inr:
  "intent_state_on_fill s f = Inr u \<longleftrightarrow>
     (s = Filled \<and> u = Filled) \<or> (u = PartiallyFilled \<and> s \<in> {PartiallyFilled, Submitting, OutcomeUnknown})"
  by (cases s) (auto simp: intent_state_on_fill_def intent_checked_Inr)

section \<open>Properties\<close>

text \<open>No intent comes back to a state it left and none makes more than five moves; from every state a
  terminal one can be reached, and nothing leaves a terminal state.\<close>

theorem intent_runs_are_short:
  assumes "(s, t) \<in> set intent_transitions ^^ n"
  shows "n \<le> 5 \<and> (0 < n \<longrightarrow> (t, s) \<notin> (set intent_transitions)\<^sup>*) \<and>
    (intent_is_terminal s \<longrightarrow> t = s) \<and>
    (\<exists>u. intent_is_terminal u \<and> (t, u) \<in> (set intent_transitions)\<^sup>*)"
proof -
  have run: "n + intent_rank s \<le> intent_rank t" by (rule intent.run_length [OF assms])
  have top: "intent_rank t \<le> 5" by (cases t) simp_all
  have "(t, s) \<notin> (set intent_transitions)\<^sup>*" if "0 < n"
    using intent.rank_le [of t s] run that by fastforce
  moreover have "(s, t) \<in> (set intent_transitions)\<^sup>*"
    using assms by (rule relpow_imp_rtrancl)
  ultimately show ?thesis
    using run top intent.terminal_absorbs [of s t] intent.reaches_terminal [of t] by force
qed

theorem intent_runs_are_short_witness:
  "(Filled, Received) \<notin> (set intent_transitions)\<^sup>* \<and> (Received, Filled) \<in> set intent_transitions ^^ 5"
proof -
  have step: "(s, u) \<in> set intent_transitions ^^ Suc n"
    if "(s, t) \<in> set intent_transitions ^^ n" "u \<in> set (intent_next t)" for s t u n
    using that by (auto simp: intent_step_in)
  have "(Received, Received) \<in> set intent_transitions ^^ 0" by simp
  from step [OF step [OF step [OF step [OF step [OF this, of Admitted], of Submitting], of OutcomeUnknown],
        of PartiallyFilled], of Filled]
  have five: "(Received, Filled) \<in> set intent_transitions ^^ 5" by (simp add: eval_nat_numeral)
  from intent_runs_are_short [OF five] five show ?thesis by simp
qed

end
