(* ===== verification/Intent.thy ===== *)
theory Intent
  imports Intent_State
begin

text \<open>
  \<open>src/model/futures/intent.rs\<close>: the record a store keeps of an external signal's intent. Each
  \<open>&mut self\<close> method is a function to the new record; on an error the source leaves the record as it
  was. \<open>intent_step\<close> is one successful call of any method and \<open>intent_reachable\<close> the records such
  calls produce from \<open>new\<close>. The lemmas show which evidence each outcome needs, that terminal
  records stay as they are, that an entry is sent at most once, and when a record loads again.
\<close>

section \<open>The record\<close>

definition intent_format :: u32 where "intent_format = 1"

definition propagation_delay_ms :: int where "propagation_delay_ms = 30000"

definition settle_window_ms :: int where "settle_window_ms = 60000"

record 'd entry_intent =
  ei_profile :: profile_id
  ei_signal :: signal_id
  ei_signal_time_ms :: timestamp_ms
  ei_key :: position_key
  ei_side :: position_side
  ei_expected_price :: "'d price"
  ei_stop :: "'d price option"

record exit_intent =
  xi_profile :: profile_id
  xi_signal :: signal_id
  xi_signal_time_ms :: timestamp_ms
  xi_key :: position_key
  xi_side :: position_side

datatype 'd intent_kind = EntryIntent "'d entry_intent" | ExitIntent exit_intent

fun kind_key :: "'d intent_kind \<Rightarrow> position_key" where
  "kind_key (EntryIntent e) = ei_key e"
| "kind_key (ExitIntent x) = xi_key x"

fun kind_leg :: "'d intent_kind \<Rightarrow> order_leg" where
  "kind_leg (EntryIntent _) = EntryLeg"
| "kind_leg (ExitIntent _) = CloseLeg"

fun is_entry :: "'d intent_kind \<Rightarrow> bool" where
  "is_entry (EntryIntent _) = True"
| "is_entry (ExitIntent _) = False"

record 'd external_intent =
  xt_format :: u32
  xt_kind :: "'d intent_kind"
  xt_state :: intent_state
  xt_attempts :: "order_attempt list"

record 'd not_placed_evidence =
  np_client_order_id :: client_order_id
  np_queried_at_ms :: timestamp_ms
  np_guarantee :: order_lookup_guarantee
  np_position :: "'d position_snapshot"

section \<open>The operations\<close>

definition intent_new :: "'d intent_kind \<Rightarrow> 'd external_intent" where
  "intent_new kind =
     \<lparr>xt_format = intent_format, xt_kind = kind, xt_state = intent_initial, xt_attempts = []\<rparr>"

definition intent_missing :: "string \<Rightarrow> model_error" where
  "intent_missing evidence = MissingEvidence ''intent'' ''its next state'' evidence"

definition sent_ids :: "'d external_intent \<Rightarrow> client_order_id list" where
  "sent_ids x = map at_client_order_id (xt_attempts x)"

definition intent_move_to :: "'d external_intent \<Rightarrow> intent_state \<Rightarrow> model_error + 'd external_intent" where
  "intent_move_to x t =
     (if t = Expired \<and> \<not> is_entry (xt_kind x)
      then Inl (InvalidTransition ''exit intent'' (intent_as_str (xt_state x)) (intent_as_str t))
      else and_then (intent_state_move_to (xt_state x) t) (\<lambda>s. Inr (x\<lparr>xt_state := s\<rparr>)))"

definition record_attempt :: "'d external_intent \<Rightarrow> order_attempt \<Rightarrow> model_error + 'd external_intent" where
  "record_attempt x attempt =
     and_then (expect_leg (at_client_order_id attempt) [kind_leg (xt_kind x)]) (\<lambda>_.
       if list_ex (\<lambda>sent. at_client_order_id sent = at_client_order_id attempt) (xt_attempts x)
       then Inl (InvalidIdentifier ''order attempt''
              (client_order_id_display (at_client_order_id attempt))
              ''each attempt has its own client order id'')
       else
         let retry = (\<not> is_entry (xt_kind x) \<and> intent_is_unresolved (xt_state x))
         in if xt_state x = Admitted \<and> xt_attempts x = []
            then and_then (intent_state_move_to (xt_state x) Submitting)
                   (\<lambda>s. Inr (x\<lparr>xt_state := s, xt_attempts := xt_attempts x @ [attempt]\<rparr>))
            else if \<not> retry
            then Inl (InvalidTransition ''intent'' (intent_as_str (xt_state x)) ''another attempt'')
            else Inr (x\<lparr>xt_attempts := xt_attempts x @ [attempt]\<rparr>))"

definition superseded :: "'d external_intent \<Rightarrow> client_order_id \<Rightarrow> bool" where
  "superseded x c \<longleftrightarrow>
     \<not> is_entry (xt_kind x) \<and> xt_attempts x \<noteq> [] \<and> at_client_order_id (last (xt_attempts x)) \<noteq> c"

definition own_evidence ::
  "'d external_intent \<Rightarrow> client_order_id option \<Rightarrow> instrument_id \<Rightarrow> model_error + unit" where
  "own_evidence x c i =
     (let ours = (case c of None \<Rightarrow> False
        | Some c \<Rightarrow> list_ex (\<lambda>attempt. at_client_order_id attempt = c) (xt_attempts x))
      in if \<not> ours \<or> i \<noteq> pk_instrument (kind_key (xt_kind x))
         then Inl (intent_missing ''evidence for one of the intent's own attempts'')
         else Inr ())"

definition intent_on_order ::
  "'d decimal_ops \<Rightarrow> 'd external_intent \<Rightarrow> 'd futures_order \<Rightarrow> model_error + 'd external_intent" where
  "intent_on_order D x ord =
     (let c = fo_client_order_id ord
      in and_then (own_evidence x c (fo_instrument ord)) (\<lambda>_.
         let nothing_executed = (is_final (fo_status ord) \<and> quantity_is_zero D (fo_filled ord))
         in if nothing_executed \<and> (case c of None \<Rightarrow> False | Some c \<Rightarrow> superseded x c) then Inr x
            else and_then (intent_state_on_order D (xt_state x) ord) (\<lambda>s. Inr (x\<lparr>xt_state := s\<rparr>))))"

definition intent_on_fill :: "'d external_intent \<Rightarrow> 'd futures_fill \<Rightarrow> model_error + 'd external_intent" where
  "intent_on_fill x fill =
     and_then (own_evidence x (ff_client_order_id fill) (ff_instrument fill)) (\<lambda>_.
     and_then (intent_state_on_fill (xt_state x) fill) (\<lambda>s. Inr (x\<lparr>xt_state := s\<rparr>)))"

definition intent_on_rejection :: "'d external_intent \<Rightarrow> rejection \<Rightarrow> model_error + 'd external_intent" where
  "intent_on_rejection x r =
     (let c = rj_client_order_id r
      in if \<not> list_ex (\<lambda>sent. at_client_order_id sent = c) (xt_attempts x)
         then Inl (intent_missing ''a refusal of one of the intent's own attempts'')
         else if superseded x c then Inr x
         else and_then
                (if 1 < length (xt_attempts x) then retry_rejected (xt_state x)
                 else intent_state_on_rejection (xt_state x) r)
                (\<lambda>s. Inr (x\<lparr>xt_state := s\<rparr>)))"

definition not_placed_proven ::
  "'d decimal_ops \<Rightarrow> 'd external_intent \<Rightarrow> 'd not_placed_evidence \<Rightarrow> timestamp_ms \<Rightarrow> bool" where
  "not_placed_proven D x ev sent_at =
     (let waited = i64_saturating_sub (np_queried_at_ms ev) sent_at;
          guarantee = np_guarantee ev;
          position = np_position ev
      in visibility_verified guarantee \<and>
         propagation_delay_ms \<le> waited \<and>
         waited \<le> unfilled_retention_ms guarantee \<and>
         sn_instrument position = pk_instrument (kind_key (xt_kind x)) \<and>
         propagation_delay_ms \<le> i64_saturating_sub (sn_observed_at_ms position) sent_at \<and>
         np_queried_at_ms ev \<le> sn_observed_at_ms position \<and>
         is_flat D position)"

definition entry_not_placed ::
  "'d decimal_ops \<Rightarrow> 'd external_intent \<Rightarrow> 'd not_placed_evidence \<Rightarrow> model_error + 'd external_intent" where
  "entry_not_placed D x ev =
     (if \<not> is_entry (xt_kind x) then Inl (intent_missing ''an entry; an exit retries instead'')
      else and_then
        (ok_or (intent_missing ''a lookup of the intent's own attempt'')
          (map_option at_sent_at_ms
            (find (\<lambda>attempt. at_client_order_id attempt = np_client_order_id ev) (xt_attempts x))))
        (\<lambda>sent_at.
          if \<not> not_placed_proven D x ev sent_at
          then Inl (intent_missing (''a verified lookup past the propagation delay, inside retention, '' @
                 ''and a flat snapshot from after it''))
          else and_then (settle_not_placed (xt_state x)) (\<lambda>s. Inr (x\<lparr>xt_state := s\<rparr>))))"

definition unsettled_past_window :: "'d external_intent \<Rightarrow> timestamp_ms \<Rightarrow> bool" where
  "unsettled_past_window x now_ms \<longleftrightarrow>
     intent_is_unresolved (xt_state x) \<and>
     (case xt_attempts x of [] \<Rightarrow> False
      | first # _ \<Rightarrow> settle_window_ms \<le> i64_saturating_sub now_ms (at_sent_at_ms first))"

text \<open>\<open>TryFrom<ExternalIntentParts>\<close>; the parts are the record's own fields.\<close>

fun all_legs :: "order_leg \<Rightarrow> order_attempt list \<Rightarrow> model_error + unit" where
  "all_legs leg [] = Inr ()"
| "all_legs leg (a # as) = and_then (expect_leg (at_client_order_id a) [leg]) (\<lambda>_. all_legs leg as)"

definition needs_attempt :: "intent_state \<Rightarrow> bool" where
  "needs_attempt s \<longleftrightarrow>
     s = Submitting \<or> s = OutcomeUnknown \<or> s = PartiallyFilled \<or> s = Filled \<or> s = Unfilled \<or> s = NotPlaced"

definition intent_try_from :: "'d external_intent \<Rightarrow> model_error + 'd external_intent" where
  "intent_try_from parts =
     (if xt_format parts \<noteq> intent_format
      then Inl (UnsupportedFormat ''intent'' (unat (xt_format parts)) (unat intent_format))
      else and_then (all_legs (kind_leg (xt_kind parts)) (xt_attempts parts)) (\<lambda>_.
        if needs_attempt (xt_state parts) \<and> xt_attempts parts = []
        then Inl (MissingEvidence ''intent'' (intent_as_str (xt_state parts)) ''an owned order attempt'')
        else if is_entry (xt_kind parts) \<and> 1 < length (xt_attempts parts)
        then Inl (InvalidIdentifier ''entry intent''
               (nat_string (length (xt_attempts parts)) @ '' attempts'') ''an entry is sent once'')
        else Inr parts))"

section \<open>What each operation accepts\<close>

lemma list_ex_sent: "list_ex (\<lambda>a. at_client_order_id a = c) (xt_attempts x) \<longleftrightarrow> c \<in> set (sent_ids x)"
  by (auto simp: list_ex_iff sent_ids_def)

lemma own_evidence_Inr:
  "own_evidence x c i = Inr u \<longleftrightarrow>
     (\<exists>c'. c = Some c' \<and> c' \<in> set (sent_ids x)) \<and> i = pk_instrument (kind_key (xt_kind x))"
  by (cases c) (auto simp: own_evidence_def list_ex_sent)

lemma intent_move_to_Inr:
  "intent_move_to x t = Inr y \<longleftrightarrow>
     \<not> (t = Expired \<and> \<not> is_entry (xt_kind x)) \<and> intent_state_move_to (xt_state x) t = Inr t \<and>
     y = x\<lparr>xt_state := t\<rparr>"
  by (auto simp: intent_move_to_def and_then_Inr intent_state_move_to_Inr)

lemma record_attempt_Inr:
  "record_attempt x a = Inr y \<longleftrightarrow>
     co_leg (at_client_order_id a) = kind_leg (xt_kind x) \<and> at_client_order_id a \<notin> set (sent_ids x) \<and>
     (if xt_state x = Admitted \<and> xt_attempts x = []
      then y = x\<lparr>xt_state := Submitting, xt_attempts := [a]\<rparr>
      else \<not> is_entry (xt_kind x) \<and> intent_is_unresolved (xt_state x) \<and>
           y = x\<lparr>xt_attempts := xt_attempts x @ [a]\<rparr>)"
  by (auto simp: record_attempt_def and_then_Inr intent_state_move_to_Inr list_ex_sent Let_def)

lemma intent_on_order_Inr:
  "intent_on_order D x ord = Inr y \<longleftrightarrow>
     (\<exists>c. fo_client_order_id ord = Some c \<and> c \<in> set (sent_ids x) \<and>
        fo_instrument ord = pk_instrument (kind_key (xt_kind x)) \<and>
        (if is_final (fo_status ord) \<and> quantity_is_zero D (fo_filled ord) \<and> superseded x c then y = x
         else \<exists>s. intent_state_on_order D (xt_state x) ord = Inr s \<and> y = x\<lparr>xt_state := s\<rparr>))"
  by (cases "fo_client_order_id ord") (auto simp: intent_on_order_def and_then_Inr own_evidence_Inr Let_def)

lemma intent_on_fill_Inr:
  "intent_on_fill x fill = Inr y \<longleftrightarrow>
     (\<exists>c. ff_client_order_id fill = Some c \<and> c \<in> set (sent_ids x)) \<and>
     ff_instrument fill = pk_instrument (kind_key (xt_kind x)) \<and>
     (\<exists>s. intent_state_on_fill (xt_state x) fill = Inr s \<and> y = x\<lparr>xt_state := s\<rparr>)"
  by (auto simp: intent_on_fill_def and_then_Inr own_evidence_Inr)

lemma intent_on_rejection_Inr:
  "intent_on_rejection x r = Inr y \<longleftrightarrow>
     rj_client_order_id r \<in> set (sent_ids x) \<and>
     (if superseded x (rj_client_order_id r) then y = x
      else y = x\<lparr>xt_state := Rejected\<rparr> \<and>
        (xt_state x = Submitting \<or> 1 < length (xt_attempts x) \<and> xt_state x \<in> {Received, Admitted, OutcomeUnknown}))"
  by (cases "xt_state x")
    (auto simp: intent_on_rejection_def and_then_Inr list_ex_sent Let_def retry_rejected_def
      intent_checked_Inr intent_state_on_rejection_def)

lemma find_sent:
  "find (\<lambda>a. at_client_order_id a = c) as = Some a \<Longrightarrow> a \<in> set as \<and> at_client_order_id a = c"
  by (auto simp: find_Some_iff)

lemma entry_not_placed_Inr:
  "entry_not_placed D x ev = Inr y \<longleftrightarrow>
     is_entry (xt_kind x) \<and> xt_state x = OutcomeUnknown \<and> y = x\<lparr>xt_state := NotPlaced\<rparr> \<and>
     (\<exists>a. find (\<lambda>a. at_client_order_id a = np_client_order_id ev) (xt_attempts x) = Some a \<and>
        not_placed_proven D x ev (at_sent_at_ms a))"
  by (cases "xt_state x")
    (auto simp: entry_not_placed_def and_then_Inr settle_not_placed_def intent_checked_Inr)

lemma all_legs_Inr: "all_legs leg as = Inr u \<longleftrightarrow> (\<forall>a\<in>set as. co_leg (at_client_order_id a) = leg)"
  by (induction as) (auto simp: and_then_Inr)

definition intent_ok :: "'d external_intent \<Rightarrow> bool" where
  "intent_ok x \<longleftrightarrow>
     xt_format x = intent_format \<and>
     (\<forall>a\<in>set (xt_attempts x). co_leg (at_client_order_id a) = kind_leg (xt_kind x)) \<and>
     (needs_attempt (xt_state x) \<longrightarrow> xt_attempts x \<noteq> []) \<and>
     (is_entry (xt_kind x) \<longrightarrow> length (xt_attempts x) \<le> 1)"

lemma intent_try_from_Inr: "intent_try_from x = Inr y \<longleftrightarrow> y = x \<and> intent_ok x"
  by (auto simp: intent_try_from_def and_then_Inr all_legs_Inr intent_ok_def)

text \<open>The value of the section 9 bounds: with times in the \<open>i64\<close> range the saturating differences are the
  real ones.\<close>

lemma not_placed_proven_bounds:
  assumes "not_placed_proven D x ev sent_at" and "is_i64 (unfilled_retention_ms (np_guarantee ev))"
  shows "sent_at + propagation_delay_ms \<le> np_queried_at_ms ev"
    and "np_queried_at_ms ev \<le> sn_observed_at_ms (np_position ev)"
    and "unfilled_retention_ms (np_guarantee ev) < i64_max \<Longrightarrow>
      np_queried_at_ms ev \<le> sent_at + unfilled_retention_ms (np_guarantee ev)"
    and "visibility_verified (np_guarantee ev)" and "is_flat D (np_position ev)"
    and "sn_instrument (np_position ev) = pk_instrument (kind_key (xt_kind x))"
proof -
  have d: "0 \<le> propagation_delay_ms" "is_i64 propagation_delay_ms"
    by (simp_all add: propagation_delay_ms_def i64_defs)
  from assms(1) show "sent_at + propagation_delay_ms \<le> np_queried_at_ms ev"
    by (simp add: not_placed_proven_def Let_def saturating_sub_ge_pos [OF d])
  from assms(1) show "np_queried_at_ms ev \<le> sn_observed_at_ms (np_position ev)"
    and "visibility_verified (np_guarantee ev)" and "is_flat D (np_position ev)"
    and "sn_instrument (np_position ev) = pk_instrument (kind_key (xt_kind x))"
    by (simp_all add: not_placed_proven_def Let_def)
  assume "unfilled_retention_ms (np_guarantee ev) < i64_max"
  with assms show "np_queried_at_ms ev \<le> sent_at + unfilled_retention_ms (np_guarantee ev)"
    by (auto simp: not_placed_proven_def Let_def i64_saturating_sub_def propagation_delay_ms_def
        max_def min_def i64_min_def i64_max_def split: if_splits)
qed

section \<open>Reachable records\<close>

inductive intent_step :: "'d decimal_ops \<Rightarrow> 'd external_intent \<Rightarrow> 'd external_intent \<Rightarrow> bool"
  for D :: "'d decimal_ops" where
  move_to: "intent_move_to x t = Inr y \<Longrightarrow> intent_step D x y"
| attempt: "record_attempt x a = Inr y \<Longrightarrow> intent_step D x y"
| order: "intent_on_order D x ord = Inr y \<Longrightarrow> intent_step D x y"
| fill: "intent_on_fill x f = Inr y \<Longrightarrow> intent_step D x y"
| rejection: "intent_on_rejection x r = Inr y \<Longrightarrow> intent_step D x y"
| not_placed: "entry_not_placed D x ev = Inr y \<Longrightarrow> intent_step D x y"

inductive_cases intent_stepE: "intent_step D x y"

inductive intent_reachable :: "'d decimal_ops \<Rightarrow> 'd external_intent \<Rightarrow> bool" for D where
  new: "intent_reachable D (intent_new kind)"
| step: "intent_reachable D x \<Longrightarrow> intent_step D x y \<Longrightarrow> intent_reachable D y"

lemmas intent_ops_Inr = intent_move_to_Inr record_attempt_Inr intent_on_order_Inr intent_on_fill_Inr
  intent_on_rejection_Inr entry_not_placed_Inr

lemma intent_step_kind:
  "intent_step D x y \<Longrightarrow> xt_kind y = xt_kind x \<and> xt_format y = xt_format x"
  by (erule intent_stepE) (auto simp: intent_ops_Inr split: if_splits)

lemma intent_step_attempts:
  "intent_step D x y \<Longrightarrow> xt_attempts y = xt_attempts x \<or>
     (\<exists>a. record_attempt x a = Inr y \<and> xt_attempts y = xt_attempts x @ [a])"
  by (erule intent_stepE) (auto simp: intent_ops_Inr split: if_splits)

lemma intent_step_state:
  assumes "intent_step D x y"
  shows "xt_state y = xt_state x \<or> xt_state y \<in> set (intent_next (xt_state x))"
  using assms
proof cases
  case (order ord)
  then show ?thesis by (auto simp: intent_on_order_Inr intent_state_on_order_Inr split: if_splits)
qed (auto simp: intent_move_to_Inr intent_state_move_to_Inr record_attempt_Inr intent_on_fill_Inr
    intent_state_on_fill_Inr intent_on_rejection_Inr entry_not_placed_Inr split: if_splits)

text \<open>What every reachable record satisfies. It is weaker than \<open>intent_ok\<close> in one place: \<open>move_to\<close>
  may put a record with no attempt into \<open>submitting\<close> and \<open>outcome_unknown\<close>.\<close>

definition intent_inv :: "'d external_intent \<Rightarrow> bool" where
  "intent_inv x \<longleftrightarrow>
     xt_format x = intent_format \<and>
     (\<forall>a\<in>set (xt_attempts x). co_leg (at_client_order_id a) = kind_leg (xt_kind x)) \<and>
     (is_entry (xt_kind x) \<longrightarrow> length (xt_attempts x) \<le> 1) \<and>
     distinct (sent_ids x) \<and>
     (xt_attempts x = [] \<longrightarrow> xt_state x \<notin> {NotPlaced, PartiallyFilled, Filled, Unfilled}) \<and>
     (xt_attempts x \<noteq> [] \<longrightarrow> xt_state x \<notin> {Received, Admitted, Duplicate, Noop, Expired})"

lemma sent_ids_Nil [simp]: "sent_ids x = [] \<longleftrightarrow> xt_attempts x = []"
  by (simp add: sent_ids_def)

lemma sent_ids_update [simp]:
  "sent_ids (x\<lparr>xt_state := s\<rparr>) = sent_ids x"
  "sent_ids (x\<lparr>xt_attempts := as\<rparr>) = map at_client_order_id as"
  by (simp_all add: sent_ids_def)

lemma intent_inv_new: "intent_inv (intent_new kind)"
  by (simp add: intent_inv_def intent_new_def intent_initial_def sent_ids_def)

lemma intent_inv_state:
  assumes "intent_inv x" and "s = xt_state x \<or> s \<in> set (intent_next (xt_state x))"
    and "xt_attempts x = [] \<longrightarrow> s \<notin> {NotPlaced, PartiallyFilled, Filled, Unfilled}"
  shows "intent_inv (x\<lparr>xt_state := s\<rparr>)"
  using assms by (cases "xt_state x") (auto simp: intent_inv_def)

lemma intent_inv_step:
  assumes "intent_step D x y" and inv: "intent_inv x"
  shows "intent_inv y"
  using assms(1)
proof cases
  case (move_to t)
  then have "intent_inv (x\<lparr>xt_state := t\<rparr>)"
    by (intro intent_inv_state [OF inv]) (auto simp: intent_move_to_Inr intent_state_move_to_Inr)
  with move_to show ?thesis by (simp add: intent_move_to_Inr)
next
  case (attempt a)
  then show ?thesis
    using inv by (auto simp: record_attempt_Inr intent_inv_def sent_ids_def split: if_splits)
next
  case (order ord)
  then obtain c where c: "c \<in> set (sent_ids x)" by (auto simp: intent_on_order_Inr)
  then have "xt_attempts x \<noteq> []" by (auto simp: sent_ids_def)
  with order show ?thesis
    using inv
    by (auto simp: intent_on_order_Inr intent_state_on_order_Inr intro!: intent_inv_state split: if_splits)
next
  case (fill f)
  then obtain c where c: "c \<in> set (sent_ids x)" by (auto simp: intent_on_fill_Inr)
  then have "xt_attempts x \<noteq> []" by (auto simp: sent_ids_def)
  with fill show ?thesis
    using inv by (auto simp: intent_on_fill_Inr intent_state_on_fill_Inr intro!: intent_inv_state)
next
  case (rejection r)
  then have "xt_attempts x \<noteq> []" by (auto simp: intent_on_rejection_Inr sent_ids_def)
  with rejection show ?thesis
    using inv by (auto simp: intent_on_rejection_Inr intro!: intent_inv_state split: if_splits)
next
  case (not_placed ev)
  then have "xt_attempts x \<noteq> []" by (auto simp: entry_not_placed_Inr)
  with not_placed show ?thesis
    using inv by (auto simp: entry_not_placed_Inr intro!: intent_inv_state)
qed

lemma intent_reachable_inv: "intent_reachable D x \<Longrightarrow> intent_inv x"
  by (induction rule: intent_reachable.induct) (auto intro: intent_inv_new intent_inv_step)

lemma intent_inv_loads:
  assumes "intent_inv x"
  shows "intent_ok x \<or> (xt_attempts x = [] \<and> xt_state x \<in> {Submitting, OutcomeUnknown})"
  using assms by (auto simp: intent_inv_def intent_ok_def needs_attempt_def)

lemma intent_step_terminal:
  assumes "intent_step D x y" and "intent_is_terminal (xt_state x)"
  shows "y = x"
proof -
  from assms(2) have next_nil: "intent_next (xt_state x) = []" by (cases "xt_state x") simp_all
  with intent_step_state [OF assms(1)] have s: "xt_state y = xt_state x" by simp
  have "xt_attempts y = xt_attempts x"
    using intent_step_attempts [OF assms(1)] assms(2)
    by (auto simp: record_attempt_Inr split: if_splits) (cases "xt_state x"; simp)+
  with s intent_step_kind [OF assms(1)] show ?thesis by simp
qed

text \<open>Exposure is recorded only on a fill, or an order with a filled quantity, of an own attempt.\<close>

definition own_order :: "'d external_intent \<Rightarrow> 'd futures_order \<Rightarrow> bool" where
  "own_order x ord \<longleftrightarrow>
     (\<exists>c. fo_client_order_id ord = Some c \<and> c \<in> set (sent_ids x)) \<and>
     fo_instrument ord = pk_instrument (kind_key (xt_kind x))"

definition own_fill :: "'d external_intent \<Rightarrow> 'd futures_fill \<Rightarrow> bool" where
  "own_fill x f \<longleftrightarrow>
     (\<exists>c. ff_client_order_id f = Some c \<and> c \<in> set (sent_ids x)) \<and>
     ff_instrument f = pk_instrument (kind_key (xt_kind x))"

lemma intent_step_filled:
  assumes "intent_step D x y" and "xt_state y \<noteq> xt_state x" and "xt_state y \<in> {PartiallyFilled, Filled}"
  shows "(\<exists>ord. intent_on_order D x ord = Inr y \<and> own_order x ord \<and> \<not> quantity_is_zero D (fo_filled ord)) \<or>
    (\<exists>f. intent_on_fill x f = Inr y \<and> own_fill x f \<and> xt_state y = PartiallyFilled)"
  using assms(1)
proof cases
  case (order ord)
  with assms(2,3) show ?thesis
    by (intro disjI1 exI [of _ ord])
      (auto simp: own_order_def intent_on_order_Inr intent_state_on_order_Inr split: if_splits)
next
  case (fill f)
  with assms(2) show ?thesis
    by (intro disjI2 exI [of _ f]) (auto simp: own_fill_def intent_on_fill_Inr intent_state_on_fill_Inr)
qed (use assms(2,3) in \<open>auto simp: intent_ops_Inr intent_state_move_to_Inr split: if_splits\<close>)

lemma intent_step_not_placed:
  assumes "intent_step D x y" and "xt_state y = NotPlaced" and "xt_state x \<noteq> NotPlaced"
  shows "\<exists>ev a. entry_not_placed D x ev = Inr y \<and> a \<in> set (xt_attempts x) \<and>
    at_client_order_id a = np_client_order_id ev \<and> is_entry (xt_kind x) \<and>
    xt_state x = OutcomeUnknown \<and> not_placed_proven D x ev (at_sent_at_ms a)"
  using assms(1)
proof cases
  case (not_placed ev)
  then obtain a where
    "find (\<lambda>a. at_client_order_id a = np_client_order_id ev) (xt_attempts x) = Some a"
    "not_placed_proven D x ev (at_sent_at_ms a)" "is_entry (xt_kind x)" "xt_state x = OutcomeUnknown"
    by (auto simp: entry_not_placed_Inr)
  with find_sent not_placed show ?thesis by blast
next
  case (order ord)
  with assms(2,3) show ?thesis
    by (auto simp: intent_on_order_Inr intent_state_on_order_Inr split: if_splits)
qed (use assms(2,3) in \<open>auto simp: intent_ops_Inr intent_state_move_to_Inr intent_state_on_fill_Inr split: if_splits\<close>)

lemma intent_step_bare:
  assumes "intent_step D x y" and "is_entry (xt_kind x)" and "xt_state x \<in> {Submitting, OutcomeUnknown}"
    and "xt_attempts x = []"
  shows "xt_attempts y = [] \<and> xt_state y \<in> {Submitting, OutcomeUnknown}"
  using assms(1)
proof cases
  case (move_to t)
  with assms show ?thesis by (auto simp: intent_move_to_Inr intent_state_move_to_Inr)
qed (use assms in \<open>auto simp: record_attempt_Inr intent_on_order_Inr intent_on_fill_Inr intent_on_rejection_Inr
    entry_not_placed_Inr sent_ids_def\<close>)

lemma intent_steps_terminal:
  assumes "(intent_step D)\<^sup>*\<^sup>* x y" and "intent_is_terminal (xt_state x)"
  shows "y = x"
  using assms(1)
proof (induction rule: rtranclp_induct)
  case (step y z)
  with intent_step_terminal [of D y z] assms(2) show ?case by simp
qed simp

section \<open>Properties\<close>

text \<open>C28: an intent is recorded as filled or partly filled only by an order with a filled quantity, or by a
  fill, that names one of its own attempts on its own instrument.\<close>

theorem filled_only_on_own_evidence:
  assumes "intent_step D x y" and "xt_state y \<noteq> xt_state x" and "xt_state y \<in> {PartiallyFilled, Filled}"
  shows "(\<exists>ord. intent_on_order D x ord = Inr y \<and> own_order x ord \<and> \<not> quantity_is_zero D (fo_filled ord)) \<or>
    (\<exists>f. intent_on_fill x f = Inr y \<and> own_fill x f \<and> xt_state y = PartiallyFilled)"
  by (rule intent_step_filled [OF assms])

definition sample_kind :: "sdec intent_kind" where
  "sample_kind = EntryIntent
     \<lparr>ei_profile = ProfileId ''p'', ei_signal = SignalId ''s'', ei_signal_time_ms = 0,
      ei_key =
        \<lparr>pk_account = \<lparr>ar_venue = Binance, ar_environment = Testnet,
           ar_account = VenueIssued (IssuedAccountId ''42'')\<rparr>,
         pk_instrument = sample_instrument_id\<rparr>,
      ei_side = Long, ei_expected_price = Price (s_of 100 0), ei_stop = None\<rparr>"

definition sample_attempt :: order_attempt where
  "sample_attempt = \<lparr>at_client_order_id = sample_order_id, at_sent_at_ms = 1000\<rparr>"

definition sample_intent :: "intent_state \<Rightarrow> order_attempt list \<Rightarrow> sdec external_intent" where
  "sample_intent s as = \<lparr>xt_format = intent_format, xt_kind = sample_kind, xt_state = s, xt_attempts = as\<rparr>"

lemmas sample_intent_defs = sample_intent_def sample_kind_def sample_attempt_def

definition sample_fill :: "sdec futures_fill" where
  "sample_fill =
     \<lparr>ff_trade_id = VenueTradeId ''1'', ff_venue_order_id = VenueOrderId ''1'',
      ff_client_id = Some (client_order_id_display sample_order_id), ff_instrument = sample_instrument_id,
      ff_origin = ClientOrigin, ff_side = Buy, ff_price = Price (s_of 100 0),
      ff_quantity = BaseQ (BaseQty (s_of 1 0)), ff_fee = money_new sample_dec (s_of 0 0) (Asset ''USDT''),
      ff_realized_pnl = None, ff_time_ms = 2000, ff_source = Query\<rparr>"

lemma sample_id_ok: "client_order_id_ok sample_order_id"
  by (simp add: client_order_id_ok_def sample_order_id_def owner_tag_valid_iff lower_or_digit_def
      text_simps co_max_attempt_def)

lemma sample_fill_id: "ff_client_order_id sample_fill = Some sample_order_id"
  using display_reads_back [OF sample_id_ok] by (simp add: ff_client_order_id_def sample_fill_def parse_ours_def)

lemma sample_fill_accepted:
  "intent_on_fill (sample_intent Submitting [sample_attempt]) sample_fill =
     Inr (sample_intent PartiallyFilled [sample_attempt])"
  unfolding intent_on_fill_Inr sample_fill_id
  by (simp add: sample_intent_defs sent_ids_def sample_fill_def intent_state_on_fill_Inr)

lemma sample_fill_step:
  "intent_step sample_dec (sample_intent Submitting [sample_attempt]) (sample_intent PartiallyFilled [sample_attempt])"
  by (rule intent_step.fill [OF sample_fill_accepted])

theorem filled_only_on_own_evidence_witness:
  "\<exists>f. own_fill (sample_intent Submitting [sample_attempt]) f \<or>
     (\<exists>ord. own_order (sample_intent Submitting [sample_attempt]) ord)"
  using filled_only_on_own_evidence [OF sample_fill_step] by (auto simp: sample_intent_def)

text \<open>C29: \<open>not_placed\<close> is recorded only for an entry whose outcome was unknown, on evidence for one of
  its attempts: a verified lookup no sooner than the propagation delay after sending and inside the
  retention, and a flat snapshot of the instrument from after the lookup.\<close>

theorem not_placed_is_proven:
  assumes "intent_step D x y" and "xt_state y = NotPlaced" and "xt_state x \<noteq> NotPlaced"
  shows "\<exists>ev a. entry_not_placed D x ev = Inr y \<and> is_entry (xt_kind x) \<and> xt_state x = OutcomeUnknown \<and>
    a \<in> set (xt_attempts x) \<and> at_client_order_id a = np_client_order_id ev \<and>
    visibility_verified (np_guarantee ev) \<and>
    at_sent_at_ms a + 30000 \<le> np_queried_at_ms ev \<and>
    np_queried_at_ms ev \<le> sn_observed_at_ms (np_position ev) \<and>
    (if is_i64 (unfilled_retention_ms (np_guarantee ev)) \<and> unfilled_retention_ms (np_guarantee ev) < i64_max
     then np_queried_at_ms ev \<le> at_sent_at_ms a + unfilled_retention_ms (np_guarantee ev) else True) \<and>
    sn_instrument (np_position ev) = pk_instrument (kind_key (xt_kind x)) \<and> is_flat D (np_position ev)"
proof -
  obtain ev a where e: "entry_not_placed D x ev = Inr y" "a \<in> set (xt_attempts x)"
    "at_client_order_id a = np_client_order_id ev" "is_entry (xt_kind x)" "xt_state x = OutcomeUnknown"
    and p: "not_placed_proven D x ev (at_sent_at_ms a)"
    using intent_step_not_placed [OF assms] by blast
  note b = not_placed_proven_bounds [OF p]
  from e b(3) p show ?thesis
    by (intro exI [of _ ev] exI [of _ a])
      (auto simp: not_placed_proven_def Let_def saturating_sub_ge_pos propagation_delay_ms_def is_i64_def
        i64_min_def i64_max_def)
qed

definition sample_not_placed :: "sdec not_placed_evidence" where
  "sample_not_placed =
     \<lparr>np_client_order_id = sample_order_id, np_queried_at_ms = 31000,
      np_guarantee = \<lparr>visibility_verified = True, unfilled_retention_ms = 600000\<rparr>,
      np_position =
        \<lparr>sn_instrument = sample_instrument_id, sn_exposure = None, sn_notional = None,
         sn_leverage = Leverage (s_of 1 0), sn_margin_mode = Isolated, sn_mark_price = None,
         sn_liquidation = Unavailable ReportedZero, sn_unrealized_pnl = None, sn_margin = None,
         sn_observed_at_ms = 32000\<rparr>\<rparr>"

lemma sample_not_placed_step:
  "intent_step sample_dec (sample_intent OutcomeUnknown [sample_attempt]) (sample_intent NotPlaced [sample_attempt])"
proof (rule intent_step.not_placed [of _ _ sample_not_placed])
  show "entry_not_placed sample_dec (sample_intent OutcomeUnknown [sample_attempt]) sample_not_placed =
      Inr (sample_intent NotPlaced [sample_attempt])"
    by (simp add: entry_not_placed_Inr sample_intent_defs sample_not_placed_def not_placed_proven_def
        i64_saturating_sub_def i64_min_def i64_max_def propagation_delay_ms_def is_flat_def)
qed

theorem not_placed_is_proven_witness:
  "\<exists>ev. entry_not_placed sample_dec (sample_intent OutcomeUnknown [sample_attempt]) ev =
     Inr (sample_intent NotPlaced [sample_attempt]) \<and> visibility_verified (np_guarantee ev)"
  using not_placed_is_proven [OF sample_not_placed_step] by (auto simp: sample_intent_def)

text \<open>C27: an entry is sent at most once and no two attempts of an intent share a client order id; an
  entry's attempt is an entry order's, an exit's a close's; and a terminal intent never changes again.\<close>

theorem entries_are_sent_once:
  assumes "intent_reachable D x"
  shows "distinct (map at_client_order_id (xt_attempts x)) \<and>
    length (xt_attempts x) \<le> (if is_entry (xt_kind x) then 1 else length (xt_attempts x)) \<and>
    (\<forall>a\<in>set (xt_attempts x). co_leg (at_client_order_id a) = kind_leg (xt_kind x)) \<and>
    (\<forall>y. intent_is_terminal (xt_state x) \<and> (intent_step D)\<^sup>*\<^sup>* x y \<longrightarrow> y = x)"
  using intent_reachable_inv [OF assms] intent_steps_terminal [of D x]
  by (auto simp: intent_inv_def sent_ids_def)

lemma sample_admitted: "intent_reachable sample_dec (sample_intent Admitted [])"
proof (rule intent_reachable.step [OF intent_reachable.new [of _ sample_kind]])
  have "intent_move_to (intent_new sample_kind) Admitted = Inr (sample_intent Admitted [])"
    by (simp add: intent_move_to_Inr intent_new_def intent_initial_def intent_state_move_to_Inr sample_intent_def)
  then show "intent_step sample_dec (intent_new sample_kind) (sample_intent Admitted [])"
    by (rule intent_step.move_to)
qed

lemma sample_sent: "intent_reachable sample_dec (sample_intent Submitting [sample_attempt])"
proof (rule intent_reachable.step [OF sample_admitted])
  have "record_attempt (sample_intent Admitted []) sample_attempt = Inr (sample_intent Submitting [sample_attempt])"
    by (simp add: record_attempt_Inr sample_intent_defs sample_order_id_def sent_ids_def)
  then show "intent_step sample_dec (sample_intent Admitted []) (sample_intent Submitting [sample_attempt])"
    by (rule intent_step.attempt)
qed

theorem entries_are_sent_once_witness:
  "length (xt_attempts (sample_intent Submitting [sample_attempt])) = 1 \<and>
   list_all (\<lambda>a. co_leg (at_client_order_id a) = EntryLeg) (xt_attempts (sample_intent Submitting [sample_attempt]))"
  using entries_are_sent_once [OF sample_sent] by (simp add: sample_intent_defs)

text \<open>C30: a record that calls on a new intent produce loads again unchanged, with one exception: one
  that \<open>move_to\<close> put into \<open>submitting\<close>, or from there into \<open>outcome_unknown\<close>, before any attempt was
  recorded is refused by the loader.\<close>

theorem reachable_intents_load:
  assumes "intent_reachable D x"
  shows "if xt_attempts x = [] \<and> xt_state x \<in> {Submitting, OutcomeUnknown}
    then \<exists>e. intent_try_from x = Inl e else intent_try_from x = Inr x"
proof -
  note inv = intent_reachable_inv [OF assms]
  show ?thesis
  proof (cases "xt_attempts x = [] \<and> xt_state x \<in> {Submitting, OutcomeUnknown}")
    case True
    then have "\<not> intent_ok x" by (auto simp: intent_ok_def needs_attempt_def)
    then have "intent_try_from x \<noteq> Inr y" for y by (simp add: intent_try_from_Inr)
    with True show ?thesis by (cases "intent_try_from x") auto
  qed (use intent_inv_loads [OF inv] in \<open>auto simp: intent_try_from_Inr\<close>)
qed

lemma sample_bare: "intent_reachable sample_dec (sample_intent Submitting [])"
proof (rule intent_reachable.step [OF sample_admitted])
  have "intent_move_to (sample_intent Admitted []) Submitting = Inr (sample_intent Submitting [])"
    by (simp add: intent_move_to_Inr intent_state_move_to_Inr sample_intent_def)
  then show "intent_step sample_dec (sample_intent Admitted []) (sample_intent Submitting [])"
    by (rule intent_step.move_to)
qed

theorem reachable_intents_load_witness:
  "intent_try_from (sample_intent Submitting [sample_attempt]) = Inr (sample_intent Submitting [sample_attempt]) \<and>
   (\<exists>e. intent_try_from (sample_intent Submitting []) = Inl e)"
  using reachable_intents_load [OF sample_sent] reachable_intents_load [OF sample_bare]
  by (simp add: sample_intent_def)

text \<open>Once \<open>move_to\<close> has put an entry into \<open>submitting\<close> without an attempt, no attempt can be
  recorded any more: every call from there leaves the attempts empty.\<close>

theorem bare_submitting_never_sends:
  assumes "(intent_step D)\<^sup>*\<^sup>* x y" and "is_entry (xt_kind x)" and "xt_state x = Submitting"
    and "xt_attempts x = []"
  shows "xt_attempts y = [] \<and> xt_state y \<in> {Submitting, OutcomeUnknown}"
proof -
  have "xt_attempts y = [] \<and> xt_state y \<in> {Submitting, OutcomeUnknown} \<and> is_entry (xt_kind y)"
    using assms
  proof (induction rule: rtranclp_induct)
    case (step y z)
    then show ?case using intent_step_bare [of D y z] intent_step_kind [of D y z] by simp
  qed simp
  then show ?thesis by simp
qed

theorem bare_submitting_never_sends_witness:
  "{y. (intent_step sample_dec)\<^sup>*\<^sup>* (sample_intent Submitting []) y \<and> xt_attempts y \<noteq> []} = {}"
  using bare_submitting_never_sends [of sample_dec "sample_intent Submitting []"]
  by (simp add: sample_intent_defs)

end
