(* ===== verification/Store.thy ===== *)
theory Store
  imports Identity
begin

text \<open>
  \<open>src/model/store.rs\<close> (a store's identity, its activation and the identity every journal carries),
  \<open>src/model/durability.rs\<close> (the settings a commit relies on) and the run records of
  \<open>src/model/run.rs\<close>. The activation table has no terminal state, so it is a \<open>transition_table\<close>
  without a rank.
\<close>

section \<open>Identity and activation\<close>

definition hex32 :: "string \<Rightarrow> bool" where
  "hex32 text \<longleftrightarrow> utf8_len text = 32 \<and> list_all hex_digit text"

datatype store_id = StoreId (store_id_str: string)

definition store_id_new :: "string \<Rightarrow> model_error + store_id" where
  "store_id_new = text_id_new StoreId ''store id'' ''32 lowercase hex digits'' hex32"

interpretation store_id: text_id store_id_new StoreId store_id_str hex32
  by unfold_locales (simp_all add: store_id_new_def text_id_new_Inr)

datatype store_activation = Inactive | Active | Deactivated

definition activation_all :: "store_activation list" where
  "activation_all = [Inactive, Active, Deactivated]"

definition activation_initial :: store_activation where
  "activation_initial = Inactive"

definition activation_transitions :: "(store_activation \<times> store_activation) list" where
  "activation_transitions = [(Inactive, Active), (Active, Deactivated), (Deactivated, Active)]"

fun activation_as_str :: "store_activation \<Rightarrow> string" where
  "activation_as_str Inactive = ''inactive''"
| "activation_as_str Active = ''active''"
| "activation_as_str Deactivated = ''deactivated''"

definition activation_is_terminal :: "store_activation \<Rightarrow> bool" where
  "activation_is_terminal s = False"

definition activation_can_move_to :: "store_activation \<Rightarrow> store_activation \<Rightarrow> bool" where
  "activation_can_move_to s t \<longleftrightarrow> (s, t) \<in> set activation_transitions"

definition activation_move_to :: "store_activation \<Rightarrow> store_activation \<Rightarrow> model_error + store_activation" where
  "activation_move_to s t =
     (if \<not> activation_can_move_to s t
      then Inl (InvalidTransition ''store'' (activation_as_str s) (activation_as_str t))
      else Inr t)"

definition activation_from_str :: "string \<Rightarrow> model_error + store_activation" where
  "activation_from_str value =
     ok_or (InvalidIdentifier ''store activation'' value ''inactive, active or deactivated'')
       (find (\<lambda>s. activation_as_str s = value) activation_all)"

record store_identity =
  st_store_id :: store_id
  st_schema_version :: u32
  st_environment :: "environment option"
  st_activation :: store_activation
  st_epoch :: activation_epoch

datatype identity_source = Legacy | Recorded | Adopted

definition identity_source_all :: "identity_source list" where
  "identity_source_all = [Legacy, Recorded, Adopted]"

fun identity_source_as_str :: "identity_source \<Rightarrow> string" where
  "identity_source_as_str Legacy = ''legacy''"
| "identity_source_as_str Recorded = ''recorded''"
| "identity_source_as_str Adopted = ''adopted''"

definition identity_source_from_str :: "string \<Rightarrow> model_error + identity_source" where
  "identity_source_from_str value =
     ok_or (InvalidIdentifier ''identity source'' value ''legacy, recorded or adopted'')
       (find (\<lambda>s. identity_source_as_str s = value) identity_source_all)"

interpretation activation_spelling: spelled_enum activation_all activation_as_str
proof
  fix x y :: store_activation
  show "x \<in> set activation_all" by (cases x) (simp_all add: activation_all_def)
  show "activation_as_str x = activation_as_str y \<Longrightarrow> x = y" by (cases x; cases y) simp_all
qed

interpretation identity_source_spelling: spelled_enum identity_source_all identity_source_as_str
proof
  fix x y :: identity_source
  show "x \<in> set identity_source_all" by (cases x) (simp_all add: identity_source_all_def)
  show "identity_source_as_str x = identity_source_as_str y \<Longrightarrow> x = y" by (cases x; cases y) simp_all
qed

interpretation activation: transition_table
  activation_all activation_initial activation_transitions activation_is_terminal
proof
  fix s :: store_activation
  show "s \<in> set activation_all" by (rule activation_spelling.complete)
  show "activation_is_terminal s \<longleftrightarrow> (\<forall>t. (s, t) \<notin> set activation_transitions)"
    by (cases s) (auto simp: activation_is_terminal_def activation_transitions_def)
  show "(s, s) \<notin> set activation_transitions" by (simp add: activation_transitions_def)
  have a: "(Inactive, Active) \<in> (set activation_transitions)\<^sup>*"
    by (rule r_into_rtrancl) (simp add: activation_transitions_def)
  have "(Active, Deactivated) \<in> set activation_transitions" by (simp add: activation_transitions_def)
  with a have "(Inactive, Deactivated) \<in> (set activation_transitions)\<^sup>*" by (rule rtrancl_into_rtrancl)
  with a show "(activation_initial, s) \<in> (set activation_transitions)\<^sup>*"
    by (cases s) (simp_all add: activation_initial_def)
qed

section \<open>The identity of a run\<close>

record run_identity =
  ri_environment :: "environment option"
  ri_account :: "venue_account_id option"
  ri_source :: identity_source

definition run_identity_legacy :: run_identity where
  "run_identity_legacy = \<lparr>ri_environment = None, ri_account = None, ri_source = Legacy\<rparr>"

definition run_identity_recorded :: "environment option \<Rightarrow> venue_account_id option \<Rightarrow> run_identity" where
  "run_identity_recorded e a = \<lparr>ri_environment = e, ri_account = a, ri_source = Recorded\<rparr>"

definition run_identity_adopted :: "environment option \<Rightarrow> venue_account_id option \<Rightarrow> run_identity" where
  "run_identity_adopted e a = \<lparr>ri_environment = e, ri_account = a, ri_source = Adopted\<rparr>"

definition describe_environment :: "environment option \<Rightarrow> string" where
  "describe_environment e = (case e of None \<Rightarrow> ''undeclared'' | Some e \<Rightarrow> environment_as_str e)"

definition describe_account :: "venue_account_id option \<Rightarrow> string" where
  "describe_account a =
     (case a of
        None \<Rightarrow> ''none''
      | Some (VenueIssued i) \<Rightarrow> ''venue:'' @ issued_account_id_str i
      | Some (FingerprintId k) \<Rightarrow> ''key_fingerprint:'' @ key_fingerprint_str k)"

definition identity_matches :: "run_identity \<Rightarrow> run_identity \<Rightarrow> model_error + unit" where
  "identity_matches r current =
     (if ri_source r = Legacy then Inl UnverifiedIdentity
      else if ri_environment r \<noteq> ri_environment current
      then Inl (IdentityMismatch ''environment'' (describe_environment (ri_environment r))
             (describe_environment (ri_environment current)))
      else if ri_account r \<noteq> ri_account current
      then Inl (IdentityMismatch ''account'' (describe_account (ri_account r))
             (describe_account (ri_account current)))
      else Inr ())"

lemma identity_matches_Inr:
  "identity_matches r c = Inr () \<longleftrightarrow>
     ri_source r \<noteq> Legacy \<and> ri_environment r = ri_environment c \<and> ri_account r = ri_account c"
  by (auto simp: identity_matches_def)

lemma describe_environment_inject: "describe_environment e = describe_environment f \<longleftrightarrow> e = f"
proof -
  have env: "environment_as_str x \<noteq> ''undeclared''" for x by (cases x) simp_all
  show ?thesis
    using env environment_spelling.distinct_spelling
    by (auto simp: describe_environment_def env [symmetric] split: option.splits)
qed

lemma describe_account_inject: "describe_account a = describe_account b \<longleftrightarrow> a = b"
  by (auto simp: describe_account_def issued_account_id.expand key_fingerprint.expand
      split: option.splits venue_account_id.splits)

section \<open>Durability\<close>

record durability_setting =
  ds_name :: string
  ds_effective :: string
  ds_required :: string
  ds_met :: bool

record durability_report =
  dr_settings :: "durability_setting list"
  dr_remedy :: string

definition durability_is_met :: "durability_report \<Rightarrow> bool" where
  "durability_is_met r = list_all ds_met (dr_settings r)"

fun join_with :: "string \<Rightarrow> string list \<Rightarrow> string" where
  "join_with sep [] = []"
| "join_with sep [s] = s"
| "join_with sep (s # t # ts) = s @ sep @ join_with sep (t # ts)"

definition durability_problem :: "durability_report \<Rightarrow> string option" where
  "durability_problem r =
     (let unmet = map (\<lambda>s. ds_name s @ '' is '' @ ds_effective s @ '', and needs '' @ ds_required s)
            (filter (\<lambda>s. \<not> ds_met s) (dr_settings r))
      in if unmet \<noteq> [] then Some (join_with '', '' unmet @ ''; '' @ dr_remedy r) else None)"

definition durability_display :: "durability_report \<Rightarrow> string" where
  "durability_display r = join_with '' '' (map (\<lambda>s. ds_name s @ ''='' @ ds_effective s) (dr_settings r))"

lemma durability_problem_None: "durability_problem r = None \<longleftrightarrow> durability_is_met r"
  by (simp add: durability_problem_def durability_is_met_def Let_def filter_empty_conv list_all_iff)

section \<open>Properties\<close>

text \<open>A run continues under the current connection exactly when its identity was recorded or adopted
  and names the same environment and account; a legacy identity matches nothing, and a mismatch names
  two values that differ.\<close>

theorem runs_continue_under_their_identity:
  "(identity_matches r current = Inr () \<longleftrightarrow>
      ri_source r \<noteq> Legacy \<and> ri_environment r = ri_environment current \<and> ri_account r = ri_account current) \<and>
   identity_matches run_identity_legacy current = Inl UnverifiedIdentity \<and>
   identity_matches (run_identity_recorded e a) (run_identity_adopted e a) = Inr () \<and>
   identity_matches r current \<noteq> Inl (IdentityMismatch what value value)"
  using identity_matches_Inr [of r current]
  by (auto simp: identity_matches_def run_identity_legacy_def run_identity_recorded_def
      run_identity_adopted_def describe_environment_inject describe_account_inject)

text \<open>A store is activated and deactivated any number of times but is never inactive again, every
  state can be left, and its stored name reads back.\<close>

theorem activation_never_returns_to_inactive:
  "((\<exists>u. activation_move_to s t = Inr u) \<longleftrightarrow> (s = Active \<and> t = Deactivated) \<or> (s \<noteq> Active \<and> t = Active)) \<and>
   (s, Inactive) \<notin> (set activation_transitions)\<^sup>+ \<and>
   (activation_from_str n = Inr s \<longleftrightarrow> activation_as_str s = n)"
proof (intro conjI)
  show "(\<exists>u. activation_move_to s t = Inr u) \<longleftrightarrow> (s = Active \<and> t = Deactivated) \<or> (s \<noteq> Active \<and> t = Active)"
    by (cases s; cases t) (simp_all add: activation_move_to_def activation_can_move_to_def activation_transitions_def)
  show "(s, Inactive) \<notin> (set activation_transitions)\<^sup>+"
    by (rule notI, erule tranclE) (auto simp: activation_transitions_def)
  show "activation_from_str n = Inr s \<longleftrightarrow> activation_as_str s = n"
    by (auto simp: activation_from_str_def activation_spelling.find_spelling)
qed

end
