(* ===== verification/Candles.thy ===== *)
theory Candles
  imports Decimal_Api Market
begin

text \<open>
  \<open>src/model/candle.rs\<close> (the candle and the validation of a loaded range) and
  \<open>src/model/candle_batch.rs\<close> (candles as columns). \<open>gapless\<close> and \<open>candle_sane\<close> specify what a
  report without issues means; the batch lemmas show the round trips between rows and columns.
\<close>

section \<open>Validation\<close>

record 'd candle =
  cd_open_time_ms :: timestamp_ms
  cd_close_time_ms :: timestamp_ms
  cd_open :: 'd
  cd_high :: 'd
  cd_low :: 'd
  cd_close :: 'd
  cd_volume :: 'd
  cd_trades :: "u64 option"

datatype validation_issue =
    OutOfOrder timestamp_ms timestamp_ms
  | DuplicateOpenTime timestamp_ms
  | Gap timestamp_ms timestamp_ms
  | OhlcInvalid timestamp_ms string

record validation_report =
  vr_market :: market_id
  vr_candle_count :: nat
  vr_issues :: "validation_issue list"

definition report_is_ok :: "validation_report \<Rightarrow> bool" where
  "report_is_ok r \<longleftrightarrow> vr_issues r = []"

definition order_issues :: "int \<Rightarrow> timestamp_ms option \<Rightarrow> timestamp_ms \<Rightarrow> validation_issue list" where
  "order_issues step prev_open open_time =
     (case prev_open of
        None \<Rightarrow> []
      | Some prev \<Rightarrow>
          if open_time \<le> prev then [OutOfOrder prev open_time]
          else (case i64_checked_add prev step of
              Some expected \<Rightarrow> if open_time = expected then [] else [Gap expected open_time]
            | None \<Rightarrow> [Gap i64_max open_time]))"

definition issue_if :: "bool \<Rightarrow> timestamp_ms \<Rightarrow> string \<Rightarrow> validation_issue list" where
  "issue_if b t reason = (if b then [OhlcInvalid t reason] else [])"

definition ohlc_issues :: "'d decimal_ops \<Rightarrow> 'd candle \<Rightarrow> validation_issue list" where
  "ohlc_issues D c =
     (let t = cd_open_time_ms c in
      issue_if (dec_lt D (cd_high c) (cd_low c)) t ''low > high'' @
      issue_if (dec_lt D (cd_open c) (cd_low c) \<or> dec_lt D (cd_high c) (cd_open c)) t
        ''open not within [low, high]'' @
      issue_if (dec_lt D (cd_close c) (cd_low c) \<or> dec_lt D (cd_high c) (cd_close c)) t
        ''close not within [low, high]'' @
      issue_if (cd_close_time_ms c < cd_open_time_ms c) t ''close_time_ms < open_time_ms'' @
      issue_if (dec_le D (cd_open c) (dec_zero D)) t ''open <= 0'' @
      issue_if (dec_le D (cd_high c) (dec_zero D)) t ''high <= 0'' @
      issue_if (dec_le D (cd_low c) (dec_zero D)) t ''low <= 0'' @
      issue_if (dec_le D (cd_close c) (dec_zero D)) t ''close <= 0'' @
      issue_if (dec_lt D (cd_volume c) (dec_zero D)) t ''volume < 0'')"

text \<open>The loop, with the open times seen so far and the previous one.\<close>

fun validate_loop ::
  "'d decimal_ops \<Rightarrow> int \<Rightarrow> timestamp_ms set \<Rightarrow> timestamp_ms option \<Rightarrow> 'd candle list \<Rightarrow> validation_issue list"
where
  "validate_loop D step seen prev_open [] = []"
| "validate_loop D step seen prev_open (c # cs) =
     (if cd_open_time_ms c \<in> seen then [DuplicateOpenTime (cd_open_time_ms c)] else []) @
     order_issues step prev_open (cd_open_time_ms c) @
     ohlc_issues D c @
     validate_loop D step (insert (cd_open_time_ms c) seen) (Some (cd_open_time_ms c)) cs"

definition validate_candles :: "'d decimal_ops \<Rightarrow> market_id \<Rightarrow> 'd candle list \<Rightarrow> validation_report" where
  "validate_candles D market candles =
     \<lparr>vr_market = market, vr_candle_count = length candles,
      vr_issues = validate_loop D (step_ms (mk_interval market)) {} None candles\<rparr>"

text \<open>The specification.\<close>

definition candle_sane :: "'d decimal_ops \<Rightarrow> 'd candle \<Rightarrow> bool" where
  "candle_sane D c \<longleftrightarrow>
     0 < dec_val D (cd_low c) \<and>
     dec_val D (cd_low c) \<le> dec_val D (cd_open c) \<and> dec_val D (cd_open c) \<le> dec_val D (cd_high c) \<and>
     dec_val D (cd_low c) \<le> dec_val D (cd_close c) \<and> dec_val D (cd_close c) \<le> dec_val D (cd_high c) \<and>
     0 \<le> dec_val D (cd_volume c) \<and> cd_open_time_ms c \<le> cd_close_time_ms c"

definition gapless :: "int \<Rightarrow> 'd candle list \<Rightarrow> bool" where
  "gapless step cs \<longleftrightarrow>
     (\<forall>i<length cs. cd_open_time_ms (cs ! i) = cd_open_time_ms (cs ! 0) + int i * step)"

lemma ohlc_issues_Nil: "decimal_laws D \<Longrightarrow> ohlc_issues D c = [] \<longleftrightarrow> candle_sane D c"
  by (auto simp: ohlc_issues_def issue_if_def candle_sane_def dec_vals Let_def)

lemma order_issues_Nil:
  assumes "is_i64 open_time" and "0 < step"
  shows "order_issues step prev_open open_time = [] \<longleftrightarrow>
    (\<forall>prev. prev_open = Some prev \<longrightarrow> open_time = prev + step)"
proof (cases prev_open)
  case (Some prev)
  then show ?thesis
    using assms by (auto simp: order_issues_def i64_checked_add_def i64_checked_def)
qed (simp add: order_issues_def)

definition chain_from :: "int \<Rightarrow> timestamp_ms option \<Rightarrow> 'd candle list \<Rightarrow> bool" where
  "chain_from step prev_open cs \<longleftrightarrow>
     (\<forall>prev. prev_open = Some prev \<longrightarrow>
        (\<forall>i<length cs. cd_open_time_ms (cs ! i) = prev + (int i + 1) * step))"

lemma chain_from_Cons:
  "chain_from step (Some p) (c # cs) \<longleftrightarrow>
     cd_open_time_ms c = p + step \<and> chain_from step (Some (cd_open_time_ms c)) cs"
proof -
  have "(\<forall>i<length (c # cs). cd_open_time_ms ((c # cs) ! i) = p + (int i + 1) * step) \<longleftrightarrow>
      cd_open_time_ms c = p + step \<and>
      (\<forall>i<length cs. cd_open_time_ms (cs ! i) = p + (int (Suc i) + 1) * step)"
    by (simp add: All_less_Suc2)
  then show ?thesis by (auto simp: chain_from_def distrib_right add.assoc)
qed

lemma validate_loop_Some:
  assumes "decimal_laws D" and "0 < step" and "\<forall>c\<in>set cs. is_i64 (cd_open_time_ms c)"
    and "\<forall>t\<in>seen. t \<le> p"
  shows "validate_loop D step seen (Some p) cs = [] \<longleftrightarrow>
    chain_from step (Some p) cs \<and> (\<forall>c\<in>set cs. candle_sane D c)"
  using assms(3,4)
proof (induction cs arbitrary: seen p)
  case (Cons c cs)
  let ?t = "cd_open_time_ms c"
  show ?case
  proof (cases "?t = p + step")
    case True
    with Cons.prems assms(2) have "?t \<notin> seen" and "\<forall>t\<in>insert ?t seen. t \<le> ?t" by force+
    with Cons True show ?thesis
      by (simp add: order_issues_Nil [OF _ assms(2)] ohlc_issues_Nil [OF assms(1)] chain_from_Cons) blast
  next
    case False
    with Cons.prems show ?thesis
      by (simp add: order_issues_Nil [OF _ assms(2)] chain_from_Cons)
  qed
qed (simp add: chain_from_def)

lemma gapless_Cons: "gapless step (c # cs) \<longleftrightarrow> chain_from step (Some (cd_open_time_ms c)) cs"
  by (simp add: gapless_def chain_from_def All_less_Suc2 add.commute)

lemma validate_loop_None:
  assumes "decimal_laws D" and "0 < step" and "\<forall>c\<in>set cs. is_i64 (cd_open_time_ms c)"
  shows "validate_loop D step {} None cs = [] \<longleftrightarrow> gapless step cs \<and> (\<forall>c\<in>set cs. candle_sane D c)"
proof (cases cs)
  case (Cons c cs')
  with assms show ?thesis
    by (auto simp: order_issues_def ohlc_issues_Nil gapless_Cons validate_loop_Some)
qed (simp add: gapless_def)

section \<open>Columns\<close>

record 'd candle_columns =
  cc_open_time_ms :: "timestamp_ms list"
  cc_close_time_ms :: "timestamp_ms list"
  cc_open :: "'d list"
  cc_high :: "'d list"
  cc_low :: "'d list"
  cc_close :: "'d list"
  cc_volume :: "'d list"
  cc_trades :: "u64 option list"

datatype 'd candle_batch = CandleBatch (batch_columns: "'d candle_columns")

definition from_candles :: "'d candle list \<Rightarrow> 'd candle_batch" where
  "from_candles cs = CandleBatch
     \<lparr>cc_open_time_ms = map cd_open_time_ms cs, cc_close_time_ms = map cd_close_time_ms cs,
      cc_open = map cd_open cs, cc_high = map cd_high cs, cc_low = map cd_low cs,
      cc_close = map cd_close cs, cc_volume = map cd_volume cs, cc_trades = map cd_trades cs\<rparr>"

definition column_lengths :: "'d candle_columns \<Rightarrow> (string \<times> nat) list" where
  "column_lengths c =
     [(''close_time_ms'', length (cc_close_time_ms c)), (''open'', length (cc_open c)),
      (''high'', length (cc_high c)), (''low'', length (cc_low c)), (''close'', length (cc_close c)),
      (''volume'', length (cc_volume c)), (''trades'', length (cc_trades c))]"

definition from_columns :: "'d candle_columns \<Rightarrow> model_error + 'd candle_batch" where
  "from_columns c =
     (let expected = length (cc_open_time_ms c)
      in (case find (\<lambda>p. snd p \<noteq> expected) (column_lengths c) of
            Some (column, found) \<Rightarrow> Inl (CandleColumnLength column found expected)
          | None \<Rightarrow> Inr (CandleBatch c)))"

fun zip_rows ::
  "timestamp_ms list \<Rightarrow> timestamp_ms list \<Rightarrow> 'd list \<Rightarrow> 'd list \<Rightarrow> 'd list \<Rightarrow> 'd list \<Rightarrow> 'd list \<Rightarrow>
   u64 option list \<Rightarrow> 'd candle list" where
  "zip_rows (t # ts) (u # us) (a # as) (h # hs) (l # ls) (c # cs) (v # vs) (n # ns) =
     \<lparr>cd_open_time_ms = t, cd_close_time_ms = u, cd_open = a, cd_high = h, cd_low = l, cd_close = c,
      cd_volume = v, cd_trades = n\<rparr> # zip_rows ts us as hs ls cs vs ns"
| "zip_rows _ _ _ _ _ _ _ _ = []"

definition to_candles :: "'d candle_batch \<Rightarrow> 'd candle list" where
  "to_candles b =
     (let c = batch_columns b
      in zip_rows (cc_open_time_ms c) (cc_close_time_ms c) (cc_open c) (cc_high c) (cc_low c) (cc_close c)
           (cc_volume c) (cc_trades c))"

definition batch_len :: "'d candle_batch \<Rightarrow> nat" where
  "batch_len b = length (cc_open_time_ms (batch_columns b))"

definition columns_ok :: "'d candle_columns \<Rightarrow> bool" where
  "columns_ok c \<longleftrightarrow> (\<forall>p\<in>set (column_lengths c). snd p = length (cc_open_time_ms c))"

lemma from_columns_Inr: "from_columns c = Inr b \<longleftrightarrow> b = CandleBatch c \<and> columns_ok c"
proof (cases "find (\<lambda>p. snd p \<noteq> length (cc_open_time_ms c)) (column_lengths c)")
  case None
  then have "columns_ok c" unfolding columns_ok_def find_None_iff by auto
  with None show ?thesis by (auto simp: from_columns_def)
next
  case (Some p)
  then have "p \<in> set (column_lengths c) \<and> snd p \<noteq> length (cc_open_time_ms c)"
    by (auto simp: find_Some_iff)
  then have "\<not> columns_ok c" by (auto simp: columns_ok_def)
  with Some show ?thesis by (cases p) (auto simp: from_columns_def)
qed

lemma to_from_candles: "to_candles (from_candles cs) = cs"
proof (induction cs)
  case (Cons c cs)
  then show ?case by (simp add: to_candles_def from_candles_def)
qed (simp add: to_candles_def from_candles_def)

lemma zip_rows_columns:
  assumes "length us = length ts" "length as = length ts" "length hs = length ts" "length ls = length ts"
    "length cs = length ts" "length vs = length ts" "length ns = length ts"
  shows "from_candles (zip_rows ts us as hs ls cs vs ns) =
    CandleBatch \<lparr>cc_open_time_ms = ts, cc_close_time_ms = us, cc_open = as, cc_high = hs, cc_low = ls,
      cc_close = cs, cc_volume = vs, cc_trades = ns\<rparr>"
  using assms
proof (induction ts arbitrary: us as hs ls cs vs ns)
  case (Cons t ts)
  then show ?case
    by (simp add: length_Suc_conv) (elim exE conjE, simp add: from_candles_def)
qed (simp add: from_candles_def)

lemma from_to_candles:
  assumes "columns_ok (batch_columns b)"
  shows "from_candles (to_candles b) = b"
  using assms
  by (cases b) (simp add: to_candles_def zip_rows_columns columns_ok_def column_lengths_def Let_def)

section \<open>Properties\<close>

text \<open>A loaded range validates without issues exactly when every candle opens one interval after the
  one before it and is sane in itself: positive prices, open and close between low and high, volume
  not negative, closing no sooner than it opens.\<close>

theorem validation_is_exact:
  assumes "decimal_laws D" and "\<forall>c\<in>set cs. is_i64 (cd_open_time_ms c)"
  shows "report_is_ok (validate_candles D market cs) \<longleftrightarrow>
    gapless (step_ms (mk_interval market)) cs \<and> (\<forall>c\<in>set cs. candle_sane D c)"
proof -
  have "0 < step_ms (mk_interval market)" by (cases "mk_interval market") simp_all
  from validate_loop_None [OF assms(1) this assms(2)] show ?thesis
    by (simp add: report_is_ok_def validate_candles_def)
qed

definition sample_candle :: "int \<Rightarrow> int \<Rightarrow> int \<Rightarrow> sdec candle" where
  "sample_candle minute op cl =
     \<lparr>cd_open_time_ms = minute * 60000, cd_close_time_ms = minute * 60000 + 59999, cd_open = s_of op 0,
      cd_high = s_of (max op cl) 0, cd_low = s_of (min op cl) 0, cd_close = s_of cl 0,
      cd_volume = s_of 1 0, cd_trades = None\<rparr>"

definition sample_candles :: "sdec candle list" where
  "sample_candles = [sample_candle 0 100 100, sample_candle 1 100 110, sample_candle 2 125 120]"

definition sample_market :: market_id where
  "sample_market = \<lparr>mk_exchange = BinanceSpot, mk_symbol = Symbol ''BTCUSDT'', mk_interval = M1\<rparr>"

theorem validation_is_exact_witness:
  "report_is_ok (validate_candles sample_dec sample_market sample_candles) \<and>
   \<not> report_is_ok (validate_candles sample_dec sample_market (tl sample_candles @ sample_candles))"
proof -
  have i64: "\<forall>c\<in>set (tl sample_candles @ sample_candles). is_i64 (cd_open_time_ms c)"
    and i64': "\<forall>c\<in>set sample_candles. is_i64 (cd_open_time_ms c)"
    by (simp_all add: sample_candles_def sample_candle_def i64_defs)
  have "gapless 60000 sample_candles" and "\<forall>c\<in>set sample_candles. candle_sane sample_dec c"
    by (simp_all add: gapless_def sample_candles_def sample_candle_def All_less_Suc2 candle_sane_def s_val_of)
  moreover have "\<not> gapless 60000 (tl sample_candles @ sample_candles)"
    unfolding gapless_def by (auto simp: sample_candles_def sample_candle_def intro!: exI [of _ 2])
  ultimately show ?thesis
    using validation_is_exact [OF sample_dec_laws i64, of sample_market]
      validation_is_exact [OF sample_dec_laws i64', of sample_market]
    by (simp add: sample_market_def)
qed

text \<open>Candles and columns are the same data: rows turned into columns read back as the rows, and
  columns are accepted exactly when they have one length, and then turn into rows and back.\<close>

theorem batch_round_trip:
  "to_candles (from_candles cs) = cs \<and>
   (\<forall>b. from_columns cols = Inr b \<longrightarrow>
      batch_columns b = cols \<and> from_candles (to_candles b) = b \<and> length (to_candles b) = batch_len b) \<and>
   ((\<exists>b. from_columns cols = Inr b) \<longleftrightarrow> (\<forall>p\<in>set (column_lengths cols). snd p = length (cc_open_time_ms cols)))"
proof -
  have "batch_columns b = cols \<and> from_candles (to_candles b) = b \<and> length (to_candles b) = batch_len b"
    if "from_columns cols = Inr b" for b
  proof -
    have b: "b = CandleBatch cols" and ok: "columns_ok (batch_columns b)"
      using that by (simp_all add: from_columns_Inr)
    have "batch_len (from_candles (to_candles b)) = length (to_candles b)"
      by (simp add: batch_len_def from_candles_def)
    with b from_to_candles [OF ok] show ?thesis by simp
  qed
  then show ?thesis by (auto simp: to_from_candles from_columns_Inr columns_ok_def)
qed

theorem batch_round_trip_witness:
  "\<exists>b. from_columns (batch_columns (from_candles sample_candles)) = Inr b \<and> to_candles b = sample_candles"
proof -
  have "\<exists>b. from_columns (batch_columns (from_candles sample_candles)) = Inr b"
    unfolding batch_round_trip [THEN conjunct2, THEN conjunct2]
    by (simp add: from_candles_def column_lengths_def)
  then obtain b where b: "from_columns (batch_columns (from_candles sample_candles)) = Inr b" by blast
  then have "batch_columns b = batch_columns (from_candles sample_candles)"
    using batch_round_trip by blast
  then have "b = from_candles sample_candles" by (simp add: candle_batch.expand)
  with b batch_round_trip show ?thesis by blast
qed

end
