(* ===== verification/Sdk.thy ===== *)
theory Sdk
  imports Candles
begin

text \<open>
  \<open>src/sdk/strategy.rs\<close> (the strategy contract), \<open>src/sdk/indicators.rs\<close> (the rolling mean) and
  \<open>src/sdk/builtin/sma_cross.rs\<close>. A strategy is a record of its callbacks over its own state \<open>'s\<close>.
  The running sum uses \<open>Decimal\<close>'s panicking operators: a panic inside a callback is the error
  \<open>StrategyPanic\<close>. The lemmas relate the incremental mean to the mean of the last \<open>window\<close> inputs.
\<close>

section \<open>The contract\<close>

datatype target_position = FlatTarget | LongAllIn

record 'd strategy_context =
  sx_market :: market_id
  sx_now_ms :: timestamp_ms
  sx_cash :: 'd
  sx_position_qty :: 'd

datatype strategy_error = StrategyMsg string | StrategyPanic

record ('d, 's) strategy =
  on_start :: "'d strategy_context \<Rightarrow> 's \<Rightarrow> strategy_error + 's"
  on_bar :: "'d strategy_context \<Rightarrow> 'd candle \<Rightarrow> 's \<Rightarrow> strategy_error + ('s \<times> target_position option)"
  on_finish :: "'d strategy_context \<Rightarrow> 's \<Rightarrow> strategy_error + 's"

section \<open>The rolling mean\<close>

record 'd sma =
  sma_window :: nat
  sma_sum :: 'd
  sma_values :: "'d list"

definition sma_new :: "'d decimal_ops \<Rightarrow> nat \<Rightarrow> strategy_error + 'd sma" where
  "sma_new D window =
     (if window = 0 then Inl (StrategyMsg ''SMA window must be greater than zero'')
      else Inr \<lparr>sma_window = window, sma_sum = dec_zero D, sma_values = []\<rparr>)"

definition sma_reset :: "'d decimal_ops \<Rightarrow> 'd sma \<Rightarrow> 'd sma" where
  "sma_reset D s = s\<lparr>sma_sum := dec_zero D, sma_values := []\<rparr>"

text \<open>\<open>update\<close>: \<open>None\<close> is the panic of an operator. \<open>pop_front\<close> on the pushed window is never empty.\<close>

definition sma_update :: "'d decimal_ops \<Rightarrow> 'd sma \<Rightarrow> 'd \<Rightarrow> ('d sma \<times> 'd option) option" where
  "sma_update D s input =
     (let values = sma_values s @ [input]
      in Option.bind (dec_checked_add D (sma_sum s) input) (\<lambda>added.
         Option.bind
           (if sma_window s < length values
            then map_option (\<lambda>left. (left, tl values)) (dec_checked_sub D added (hd values))
            else Some (added, values))
           (\<lambda>(total, values).
              let s' = s\<lparr>sma_sum := total, sma_values := values\<rparr>
              in if length values = sma_window s
                 then map_option (\<lambda>mean. (s', Some mean))
                        (dec_checked_div D total (dec_from_int D (int (sma_window s))))
                 else Some (s', None))))"

fun sma_feed :: "'d decimal_ops \<Rightarrow> 'd sma \<Rightarrow> 'd list \<Rightarrow> ('d sma \<times> 'd option) option" where
  "sma_feed D s [] = Some (s, None)"
| "sma_feed D s (x # xs) =
     Option.bind (sma_update D s x) (\<lambda>(s', out). if xs = [] then Some (s', out) else sma_feed D s' xs)"

section \<open>The crossover strategy\<close>

record 'd sma_cross =
  sc_fast :: "'d sma"
  sc_slow :: "'d sma"

definition sma_cross_new :: "'d decimal_ops \<Rightarrow> nat \<Rightarrow> nat \<Rightarrow> strategy_error + 'd sma_cross" where
  "sma_cross_new D fast slow =
     (if fast = 0 \<or> slow = 0
      then Inl (StrategyMsg ''fast and slow windows must be greater than zero'')
      else if slow \<le> fast
      then Inl (StrategyMsg ''fast window must be smaller than slow window'')
      else and_then (sma_new D fast) (\<lambda>f. and_then (sma_new D slow) (\<lambda>s.
             Inr \<lparr>sc_fast = f, sc_slow = s\<rparr>)))"

definition sma_cross_on_bar ::
  "'d decimal_ops \<Rightarrow> 'd strategy_context \<Rightarrow> 'd candle \<Rightarrow> 'd sma_cross \<Rightarrow>
   strategy_error + ('d sma_cross \<times> target_position option)" where
  "sma_cross_on_bar D ctx bar s =
     and_then (ok_or StrategyPanic (sma_update D (sc_fast s) (cd_close bar))) (\<lambda>(fast, fast_now).
     and_then (ok_or StrategyPanic (sma_update D (sc_slow s) (cd_close bar))) (\<lambda>(slow, slow_now).
       Inr (\<lparr>sc_fast = fast, sc_slow = slow\<rparr>,
         case (fast_now, slow_now) of
           (Some f, Some g) \<Rightarrow>
             if dec_lt D g f then Some LongAllIn else if dec_lt D f g then Some FlatTarget else None
         | _ \<Rightarrow> None)))"

definition sma_cross_strategy :: "'d decimal_ops \<Rightarrow> ('d, 'd sma_cross) strategy" where
  "sma_cross_strategy D =
     \<lparr>on_start = (\<lambda>_ s. Inr s), on_bar = sma_cross_on_bar D, on_finish = (\<lambda>_ s. Inr s)\<rparr>"

text \<open>The strategies that ship with the crate.\<close>

datatype built_in_strategy = SmaCross nat nat

fun strategy_name :: "built_in_strategy \<Rightarrow> string" where
  "strategy_name (SmaCross fast slow) = ''sma_cross''"

fun strategy_build :: "'d decimal_ops \<Rightarrow> built_in_strategy \<Rightarrow> strategy_error + 'd sma_cross" where
  "strategy_build D (SmaCross fast slow) = sma_cross_new D fast slow"

section \<open>The incremental mean is the mean of the window\<close>

text \<open>The last \<open>n\<close> observations, and the bound under which no sum of a window leaves the decimal
  range: every input a multiple of \<open>10^-s\<close> no larger than \<open>M\<close> of them.\<close>

definition last_n :: "nat \<Rightarrow> 'a list \<Rightarrow> 'a list" where
  "last_n n xs = drop (length xs - n) xs"

definition val_sum :: "'d decimal_ops \<Rightarrow> 'd list \<Rightarrow> rat" where
  "val_sum D xs = sum_list (map (dec_val D) xs)"

definition small_input :: "'d decimal_ops \<Rightarrow> nat \<Rightarrow> int \<Rightarrow> 'd \<Rightarrow> bool" where
  "small_input D s M x \<longleftrightarrow> dec_scale D x \<le> s \<and> \<bar>dec_mantissa D x\<bar> * 10 ^ (s - dec_scale D x) \<le> M"

definition sma_inv :: "'d decimal_ops \<Rightarrow> nat \<Rightarrow> nat \<Rightarrow> 'd sma \<Rightarrow> 'd list \<Rightarrow> bool" where
  "sma_inv D s w st xs \<longleftrightarrow>
     sma_window st = w \<and> sma_values st = last_n w xs \<and>
     dec_val D (sma_sum st) = val_sum D (last_n w xs) \<and> dec_scale D (sma_sum st) \<le> s"

lemma dec_scaled:
  assumes "dec_scale D a \<le> k"
  shows "dec_val D a * 10 ^ k = of_int (dec_mantissa D a * 10 ^ (k - dec_scale D a))"
  using assms by (auto simp: dec_val_def le_iff_add power_add)

lemma holds_exactly_small:
  assumes "dec_scale D a \<le> s" and "dec_scale D b \<le> s" and "s \<le> 28"
    and "q * 10 ^ max (dec_scale D a) (dec_scale D b) \<in> \<int>" and "\<bar>q\<bar> * 10 ^ s < 2 ^ 96"
  shows "holds_exactly (max (dec_scale D a) (dec_scale D b)) q"
proof -
  let ?k = "max (dec_scale D a) (dec_scale D b)"
  obtain m where m: "q * 10 ^ ?k = of_int m" using assms(4) by (auto elim: Ints_cases)
  have "(10 :: rat) ^ ?k \<le> 10 ^ s" using assms(1,2) by (intro power_increasing) simp_all
  then have "\<bar>q\<bar> * 10 ^ ?k \<le> \<bar>q\<bar> * 10 ^ s" by (intro mult_left_mono) simp_all
  also note assms(5)
  finally have "\<bar>q * 10 ^ ?k\<bar> < 2 ^ 96" by (simp add: abs_mult)
  then have "of_int \<bar>m\<bar> < (of_int (2 ^ 96) :: rat)" by (simp add: m)
  then have "\<bar>m\<bar> < 2 ^ 96" by (simp only: of_int_less_iff)
  moreover have "q = of_int m / 10 ^ ?k" using m by (simp add: field_simps)
  ultimately show ?thesis using assms(1-3) by (auto simp: holds_exactly_def)
qed

lemma scaled_Ints:
  "dec_val D a * 10 ^ max (dec_scale D a) (dec_scale D b) \<in> \<int>"
  "dec_val D b * 10 ^ max (dec_scale D a) (dec_scale D b) \<in> \<int>"
  by (simp_all only: dec_scaled max.cobounded1 max.cobounded2 Ints_of_int)

lemma add_small:
  assumes "decimal_arith_laws D" and "dec_scale D a \<le> s" and "dec_scale D b \<le> s" and "s \<le> 28"
    and "\<bar>dec_val D a + dec_val D b\<bar> * 10 ^ s < 2 ^ 96"
  shows "\<exists>c. dec_checked_add D a b = Some c \<and> dec_val D c = dec_val D a + dec_val D b \<and> dec_scale D c \<le> s"
proof -
  have "(dec_val D a + dec_val D b) * 10 ^ max (dec_scale D a) (dec_scale D b) \<in> \<int>"
    unfolding distrib_right by (intro Ints_add scaled_Ints)
  from holds_exactly_small [OF assms(2-4) this assms(5)] dec_add_exact [OF assms(1)] assms(2,3)
  show ?thesis by fastforce
qed

lemma sub_small:
  assumes "decimal_arith_laws D" and "dec_scale D a \<le> s" and "dec_scale D b \<le> s" and "s \<le> 28"
    and "\<bar>dec_val D a - dec_val D b\<bar> * 10 ^ s < 2 ^ 96"
  shows "\<exists>c. dec_checked_sub D a b = Some c \<and> dec_val D c = dec_val D a - dec_val D b \<and> dec_scale D c \<le> s"
proof -
  have "(dec_val D a - dec_val D b) * 10 ^ max (dec_scale D a) (dec_scale D b) \<in> \<int>"
    unfolding left_diff_distrib by (intro Ints_diff scaled_Ints)
  from holds_exactly_small [OF assms(2-4) this assms(5)] dec_sub_exact [OF assms(1)] assms(2,3)
  show ?thesis by fastforce
qed

lemma small_input_val: "small_input D s M x \<Longrightarrow> \<bar>dec_val D x\<bar> * 10 ^ s \<le> of_int M"
proof -
  assume x: "small_input D s M x"
  then have "\<bar>dec_val D x\<bar> * 10 ^ s = \<bar>of_int (dec_mantissa D x * 10 ^ (s - dec_scale D x))\<bar>"
    unfolding small_input_def by (subst dec_scaled [symmetric]) (simp_all add: abs_mult)
  also have "\<dots> = of_int (\<bar>dec_mantissa D x\<bar> * 10 ^ (s - dec_scale D x))" by (simp add: abs_mult)
  also have "\<dots> \<le> of_int M" using x by (simp only: of_int_le_iff small_input_def)
  finally show ?thesis .
qed

lemma val_sum_bound:
  "\<forall>x\<in>set xs. small_input D s M x \<Longrightarrow> \<bar>val_sum D xs\<bar> * 10 ^ s \<le> of_nat (length xs) * of_int M"
proof (induction xs)
  case (Cons x xs)
  have "\<bar>val_sum D (x # xs)\<bar> \<le> \<bar>dec_val D x\<bar> + \<bar>val_sum D xs\<bar>" by (simp add: val_sum_def)
  then have "\<bar>val_sum D (x # xs)\<bar> * 10 ^ s \<le> \<bar>dec_val D x\<bar> * 10 ^ s + \<bar>val_sum D xs\<bar> * 10 ^ s"
    by (metis distrib_right mult_right_mono zero_le_numeral zero_le_power)
  also have "\<dots> \<le> of_int M + of_nat (length xs) * of_int M"
    using Cons small_input_val [of D s M x] by (intro add_mono) auto
  finally show ?case by (simp add: algebra_simps)
qed (simp add: val_sum_def)

lemma val_sum_snoc [simp]: "val_sum D (xs @ [x]) = val_sum D xs + dec_val D x"
  by (simp add: val_sum_def)

lemma last_n_snoc:
  "last_n w (xs @ [x]) =
     (if length xs < w then last_n w xs @ [x] else tl (last_n w xs @ [x]))"
proof (cases "length xs < w")
  case False
  show ?thesis
  proof (cases w)
    case (Suc v)
    with False have "drop (length xs - w) xs \<noteq> []" by simp
    moreover have "length (xs @ [x]) - w = Suc (length xs - w)" using False by simp
    ultimately show ?thesis using False Suc by (simp add: last_n_def drop_Suc tl_drop)
  qed (simp add: last_n_def)
qed (simp add: last_n_def)

lemma length_last_n [simp]: "length (last_n w xs) = min w (length xs)"
  by (simp add: last_n_def)

lemma set_last_n: "set (last_n w xs) \<subseteq> set xs"
  by (simp add: last_n_def set_drop_subset)

text \<open>One update keeps the invariant and never panics.\<close>

lemma sma_update_inv:
  assumes D: "decimal_arith_laws D" and w: "0 < w" "w < 2 ^ 63" and s: "s \<le> 28"
    and inv: "sma_inv D s w st xs" and small: "\<forall>y\<in>set (xs @ [x]). small_input D s M y"
    and M: "(int w + 1) * M < 2 ^ 96"
  shows "\<exists>st' out. sma_update D st x = Some (st', out) \<and> sma_inv D s w st' (xs @ [x]) \<and>
    out = (if length (xs @ [x]) < w then None
           else dec_checked_div D (sma_sum st') (dec_from_int D (int w))) \<and>
    (w \<le> length (xs @ [x]) \<longrightarrow> out \<noteq> None)"
proof -
  let ?v = "last_n w xs" and ?v' = "last_n w (xs @ [x])"
  have M0: "0 \<le> M" using small by (auto simp: small_input_def intro: order_trans [rotated])
  have small_v: "\<forall>y\<in>set (?v @ [x]). small_input D s M y" and small_v': "\<forall>y\<in>set ?v'. small_input D s M y"
    using small set_last_n [of w xs] set_last_n [of w "xs @ [x]"] by auto
  have "of_nat (length (?v @ [x])) * (of_int M :: rat) \<le> of_int ((int w + 1) * M)"
    using M0 by (auto intro!: mult_right_mono)
  also have "\<dots> < of_int (2 ^ 96)" using M by (simp only: of_int_less_iff)
  finally have bound: "of_nat (length (?v @ [x])) * (of_int M :: rat) < 2 ^ 96" by simp
  have bound': "of_nat (length ?v') * (of_int M :: rat) < 2 ^ 96"
    using bound M0 by (elim le_less_trans [rotated]) (auto intro!: mult_right_mono)
  obtain added where added: "dec_checked_add D (sma_sum st) x = Some added"
    and added_val: "dec_val D added = val_sum D (?v @ [x])" and added_scale: "dec_scale D added \<le> s"
    using add_small [OF D, of "sma_sum st" s x] inv small val_sum_bound [OF small_v] bound s
    by (auto simp: sma_inv_def small_input_def)
  have total: "\<exists>total. (if w < length (?v @ [x])
        then map_option (\<lambda>left. (left, tl (?v @ [x]))) (dec_checked_sub D added (hd (?v @ [x])))
        else Some (added, ?v @ [x])) = Some (total, ?v') \<and>
      dec_val D total = val_sum D ?v' \<and> dec_scale D total \<le> s"
  proof (cases "length xs < w")
    case True
    then show ?thesis using added_val added_scale by (simp add: last_n_snoc)
  next
    case False
    obtain y ys where y: "?v @ [x] = y # ys" by (cases "?v @ [x]") auto
    have v': "?v' = ys" using False y by (simp add: last_n_snoc)
    have diff: "dec_val D added - dec_val D y = val_sum D ys"
      using added_val y by (simp add: val_sum_def)
    have "small_input D s M y" using small_v y by simp
    with sub_small [OF D added_scale _ s, of y] diff val_sum_bound [OF small_v'] bound' v'
    show ?thesis using False y by (auto simp: small_input_def)
  qed
  then obtain total where t: "(if w < length (?v @ [x])
        then map_option (\<lambda>left. (left, tl (?v @ [x]))) (dec_checked_sub D added (hd (?v @ [x])))
        else Some (added, ?v @ [x])) = Some (total, ?v')"
    and t_val: "dec_val D total = val_sum D ?v'" and t_scale: "dec_scale D total \<le> s" by blast
  let ?st = "st\<lparr>sma_sum := total, sma_values := ?v'\<rparr>"
  have inv': "sma_inv D s w ?st (xs @ [x])"
    using inv t_val t_scale by (simp add: sma_inv_def)
  have n: "dec_val D (dec_from_int D (int w)) = of_nat w"
    using dec_from_int_val [OF D, of "int w"] w by simp
  have "\<bar>dec_val D total\<bar> \<le> \<bar>dec_val D total\<bar> * 10 ^ s" by (simp add: mult_le_cancel_left1)
  also have "\<dots> \<le> of_nat (length ?v') * of_int M" using val_sum_bound [OF small_v'] t_val by simp
  also have "\<dots> \<le> of_int (int w * M)" using M0 by (auto intro!: mult_right_mono)
  finally have "\<bar>dec_val D total / of_nat w\<bar> \<le> of_int M"
    using w by (simp add: pos_divide_le_eq mult.commute)
  moreover have "M < 2 ^ 96 - 1"
  proof -
    have "2 * M \<le> (int w + 1) * M" using w M0 by (intro mult_right_mono) simp_all
    with M show ?thesis by simp
  qed
  then have "(of_int M :: rat) < of_int (2 ^ 96 - 1)" by (simp only: of_int_less_iff)
  ultimately have "\<bar>dec_val D total / dec_val D (dec_from_int D (int w))\<bar> < 2 ^ 96 - 1"
    by (simp add: n)
  from dec_div_total [OF D _ this] w n
  obtain mean where mean: "dec_checked_div D total (dec_from_int D (int w)) = Some mean" by auto
  have upd: "sma_update D st x = Some (?st, if length ?v' = w then Some mean else None)"
    using inv added t mean by (simp add: sma_update_def sma_inv_def Let_def)
  show ?thesis
  proof (intro exI conjI)
    show "sma_update D st x = Some (?st, if length ?v' = w then Some mean else None)" by (rule upd)
    show "sma_inv D s w ?st (xs @ [x])" by (rule inv')
  qed (use mean in auto)
qed

lemma sma_feed_snoc:
  "xs \<noteq> [] \<Longrightarrow> sma_feed D st (xs @ [x]) = Option.bind (sma_feed D st xs) (\<lambda>(st', _). sma_update D st' x)"
proof (induction xs arbitrary: st)
  case (Cons y ys)
  then show ?case
    by (cases "sma_update D st y"; cases "ys = []") (auto split: prod.splits option.splits)
qed simp

lemma sma_feed_inv:
  assumes D: "decimal_arith_laws D" and w: "0 < w" "w < 2 ^ 63" and s: "s \<le> 28"
    and M: "(int w + 1) * M < 2 ^ 96" and new: "sma_new D w = Inr st0" and "xs \<noteq> []"
    and "\<forall>y\<in>set xs. small_input D s M y"
  shows "\<exists>st out. sma_feed D st0 xs = Some (st, out) \<and> sma_inv D s w st xs \<and>
    out = (if length xs < w then None else dec_checked_div D (sma_sum st) (dec_from_int D (int w))) \<and>
    (w \<le> length xs \<longrightarrow> out \<noteq> None)"
  using assms(7,8)
proof (induction xs rule: rev_induct)
  case (snoc x xs)
  have start: "sma_inv D s w st0 []"
    using new dec_zero_scale [OF D] dec_zero_val [OF arith_laws_order [OF D]]
    by (auto simp: sma_new_def sma_inv_def last_n_def val_sum_def split: if_splits)
  show ?case
  proof (cases "xs = []")
    case True
    with sma_update_inv [OF D w s start _ M, of x] snoc.prems show ?thesis by fastforce
  next
    case False
    with snoc obtain st out where "sma_feed D st0 xs = Some (st, out)" and inv: "sma_inv D s w st xs"
      by auto
    with sma_update_inv [OF D w s inv snoc.prems(2) M] show ?thesis
      by (simp only: sma_feed_snoc [OF False] bind.bind_lunit prod.case)
  qed
qed simp

section \<open>Properties\<close>

text \<open>Fed any number of observations that are small enough, the rolling mean never panics, holds
  exactly the last \<open>window\<close> of them with their exact sum, and answers once the window is full with
  that sum divided by the window: the incremental mean is the mean of the window.\<close>

theorem rolling_mean_is_the_window_mean:
  assumes "decimal_arith_laws D" and "0 < w" and "w < 2 ^ 63" and "s \<le> 28" and "(int w + 1) * M < 2 ^ 96"
    and "sma_new D w = Inr st0" and "xs \<noteq> []" and "\<forall>y\<in>set xs. small_input D s M y"
  shows "\<exists>st out. sma_feed D st0 xs = Some (st, out) \<and> sma_values st = last_n w xs \<and>
    dec_val D (sma_sum st) = val_sum D (last_n w xs) \<and>
    out = (if length xs < w then None else dec_checked_div D (sma_sum st) (dec_from_int D (int w))) \<and>
    (w \<le> length xs \<longrightarrow> out \<noteq> None)"
  using sma_feed_inv [OF assms(1-5,6-8)] unfolding sma_inv_def by blast

theorem rolling_mean_is_the_window_mean_witness:
  "\<exists>st0 st out. sma_new sample_dec 2 = Inr st0 \<and>
     sma_feed sample_dec st0 (map (\<lambda>n. s_of n 1) [10, 25, 35]) = Some (st, out) \<and>
     dec_val sample_dec (sma_sum st) = 6 \<and> out \<noteq> None"
proof -
  let ?xs = "map (\<lambda>n. s_of n 1) [10, 25, 35]"
  obtain st0 where st0: "sma_new sample_dec 2 = Inr st0" by (simp add: sma_new_def)
  have "\<forall>y\<in>set ?xs. small_input sample_dec 1 1000 y"
    by (simp add: small_input_def sample_dec_def s_of_def s_mant_def)
  from rolling_mean_is_the_window_mean [OF sample_dec_arith_laws _ _ _ _ st0 _ this] st0
  show ?thesis by (force simp: last_n_def val_sum_def s_val_of)
qed

end
