(* ===== verification/Backtest.thy ===== *)
theory Backtest
  imports Sdk Identity
begin

text \<open>
  \<open>src/engine/backtest.rs\<close>: the deterministic bar-by-bar backtest, with \<open>TargetPosition\<close>,
  \<open>PositionState\<close> and \<open>ClosedTrade\<close> of \<open>src/model/run.rs\<close> and \<open>EngineError\<close> of
  \<open>src/engine/mod.rs\<close>. The loop's mutable variables are the record \<open>bt_state\<close>; \<open>bt_bar\<close> is one
  iteration. The lemmas show the execution model: fills happen at a later bar's open, an open
  position always has its open trade, and a prefix of the candles decides a prefix of the trades.
\<close>

section \<open>Run records and errors\<close>

datatype execution_mode = DryRun | Live

fun execution_mode_as_str :: "execution_mode \<Rightarrow> string" where
  "execution_mode_as_str DryRun = ''dry_run''"
| "execution_mode_as_str Live = ''live''"

datatype run_status = Starting | Running | Stopped | Failed

fun run_status_as_str :: "run_status \<Rightarrow> string" where
  "run_status_as_str Starting = ''starting''"
| "run_status_as_str Running = ''running''"
| "run_status_as_str Stopped = ''stopped''"
| "run_status_as_str Failed = ''failed''"

record 'd closed_trade =
  ct_symbol :: symbol
  ct_entry_time_ms :: timestamp_ms
  ct_exit_time_ms :: timestamp_ms
  ct_entry_price :: 'd
  ct_exit_price :: 'd
  ct_qty :: 'd
  ct_gross_quote_pnl :: 'd
  ct_entry_order_id :: "venue_order_id option"
  ct_exit_order_id :: "venue_order_id option"

datatype engine_error =
    NoCandles
  | InvalidConfig string
  | InvalidState string
  | Overflow string
  | StrategyFailed strategy_error
  | ExchangeFailed string
  | StorageFailed string
  | EnginePanic

section \<open>The engine\<close>

record 'd backtest_config =
  bc_initial_cash :: 'd
  bc_fee_bps :: 'd
  bc_close_out_at_end :: bool

record 'd backtest_result =
  br_initial_cash :: 'd
  br_final_equity :: 'd
  br_total_return_pct :: 'd
  br_trade_count :: nat
  br_max_drawdown_pct :: 'd
  br_trades :: "'d closed_trade list"

record 'd open_trade =
  ot_entry_time_ms :: timestamp_ms
  ot_entry_price :: 'd
  ot_qty :: 'd
  ot_cash_before :: 'd

text \<open>The account a fill changes.\<close>

record 'd bt_account =
  ba_cash :: 'd
  ba_qty :: 'd
  ba_open_trade :: "'d open_trade option"
  ba_trades :: "'d closed_trade list"

definition checked :: "'d option \<Rightarrow> string \<Rightarrow> engine_error + 'd" where
  "checked value what = ok_or (Overflow what) value"

definition mark :: "'d decimal_ops \<Rightarrow> 'd \<Rightarrow> 'd \<Rightarrow> 'd \<Rightarrow> engine_error + 'd" where
  "mark D cash qty price =
     checked (Option.bind (dec_checked_mul D qty price) (dec_checked_add D cash)) ''the equity mark''"

definition bt_exit ::
  "'d decimal_ops \<Rightarrow> market_id \<Rightarrow> 'd \<Rightarrow> timestamp_ms \<Rightarrow> 'd \<Rightarrow> 'd bt_account \<Rightarrow> engine_error + 'd bt_account"
where
  "bt_exit D market price timestamp fee_rate a =
     (if dec_le D (ba_qty a) (dec_zero D) then Inr a
      else and_then (checked (dec_checked_mul D (ba_qty a) price) ''the exit'') (\<lambda>notional.
        and_then (checked (dec_checked_mul D notional fee_rate) ''the exit'') (\<lambda>fee.
        and_then (checked (Option.bind (dec_checked_add D (ba_cash a) notional)
            (\<lambda>v. dec_checked_sub D v fee)) ''the exit'') (\<lambda>cash_after.
        (case ba_open_trade a of
           None \<Rightarrow> Inr (a\<lparr>ba_cash := cash_after, ba_qty := dec_zero D\<rparr>)
         | Some op \<Rightarrow>
             and_then (checked (dec_checked_sub D cash_after (ot_cash_before op)) ''the exit'') (\<lambda>pnl.
               Inr \<lparr>ba_cash = cash_after, ba_qty = dec_zero D, ba_open_trade = None,
                    ba_trades = ba_trades a @
                      [\<lparr>ct_symbol = mk_symbol market, ct_entry_time_ms = ot_entry_time_ms op,
                        ct_exit_time_ms = timestamp, ct_entry_price = ot_entry_price op,
                        ct_exit_price = price, ct_qty = ot_qty op, ct_gross_quote_pnl = pnl,
                        ct_entry_order_id = None, ct_exit_order_id = None\<rparr>]\<rparr>))))))"

definition bt_entry ::
  "'d decimal_ops \<Rightarrow> 'd \<Rightarrow> timestamp_ms \<Rightarrow> 'd \<Rightarrow> 'd bt_account \<Rightarrow> engine_error + 'd bt_account"
where
  "bt_entry D price timestamp fee_rate a =
     (if dec_lt D (dec_zero D) (ba_qty a) \<or> dec_le D (ba_cash a) (dec_zero D) then Inr a
      else and_then (checked (Option.bind (dec_checked_add D (dec_one D) fee_rate)
            (dec_checked_mul D price)) ''the entry'') (\<lambda>denominator.
        if dec_le D denominator (dec_zero D) then Inr a
        else and_then (checked (dec_checked_div D (ba_cash a) denominator) ''the entry'') (\<lambda>buy_qty.
          and_then (checked (dec_checked_mul D buy_qty price) ''the entry'') (\<lambda>notional.
          and_then (checked (dec_checked_mul D notional fee_rate) ''the entry'') (\<lambda>fee.
          and_then (checked (Option.bind (dec_checked_sub D (ba_cash a) notional)
              (\<lambda>v. dec_checked_sub D v fee)) ''the entry'') (\<lambda>cash_after.
            Inr (a\<lparr>ba_cash := cash_after, ba_qty := buy_qty,
                   ba_open_trade := Some \<lparr>ot_entry_time_ms = timestamp, ot_entry_price = price,
                     ot_qty = buy_qty, ot_cash_before = ba_cash a\<rparr>\<rparr>)))))))"

definition bt_execute_target ::
  "'d decimal_ops \<Rightarrow> market_id \<Rightarrow> target_position \<Rightarrow> 'd \<Rightarrow> timestamp_ms \<Rightarrow> 'd \<Rightarrow> 'd bt_account \<Rightarrow>
   engine_error + 'd bt_account" where
  "bt_execute_target D market target price timestamp fee_rate a =
     (case target of
        FlatTarget \<Rightarrow> bt_exit D market price timestamp fee_rate a
      | LongAllIn \<Rightarrow> bt_entry D price timestamp fee_rate a)"

record ('d, 's) bt_state =
  bt_account :: "'d bt_account"
  bt_pending :: "target_position option"
  bt_peak :: 'd
  bt_drawdown :: 'd
  bt_strategy :: 's

definition bt_mark_equity ::
  "'d decimal_ops \<Rightarrow> 'd candle \<Rightarrow> ('d, 's) bt_state \<Rightarrow> engine_error + ('d, 's) bt_state" where
  "bt_mark_equity D c st =
     and_then (mark D (ba_cash (bt_account st)) (ba_qty (bt_account st)) (cd_close c)) (\<lambda>equity.
       let peak = (if dec_lt D (bt_peak st) equity then equity else bt_peak st)
       in if dec_lt D (dec_zero D) peak
          then and_then (checked (Option.bind (dec_checked_sub D peak equity)
                 (\<lambda>fall. dec_checked_div D fall peak)) ''the drawdown'') (\<lambda>drawdown.
               Inr (st\<lparr>bt_peak := peak,
                       bt_drawdown := (if dec_lt D (bt_drawdown st) drawdown then drawdown
                                       else bt_drawdown st)\<rparr>))
          else Inr (st\<lparr>bt_peak := peak\<rparr>))"

definition bt_context :: "market_id \<Rightarrow> timestamp_ms \<Rightarrow> 'd bt_account \<Rightarrow> 'd strategy_context" where
  "bt_context market now a =
     \<lparr>sx_market = market, sx_now_ms = now, sx_cash = ba_cash a, sx_position_qty = ba_qty a\<rparr>"

text \<open>One bar; \<open>index\<close> is its position, and the pending target is taken only after the first bar.\<close>

definition bt_bar ::
  "'d decimal_ops \<Rightarrow> market_id \<Rightarrow> ('d, 's) strategy \<Rightarrow> 'd \<Rightarrow> nat \<Rightarrow> 'd candle \<Rightarrow> ('d, 's) bt_state \<Rightarrow>
   engine_error + ('d, 's) bt_state" where
  "bt_bar D market strat fee_rate index c st =
     and_then
       (case (if 0 < index then bt_pending st else None) of
          None \<Rightarrow> Inr (bt_account st)
        | Some target \<Rightarrow>
            bt_execute_target D market target (cd_open c) (cd_open_time_ms c) fee_rate (bt_account st))
       (\<lambda>a. and_then (bt_mark_equity D c (st\<lparr>bt_account := a\<rparr>)) (\<lambda>st'.
         and_then (map_err StrategyFailed
             (on_bar strat (bt_context market (cd_open_time_ms c) a) c (bt_strategy st')))
           (\<lambda>(s, target). Inr (st'\<lparr>bt_strategy := s, bt_pending := target\<rparr>))))"

fun bt_loop ::
  "'d decimal_ops \<Rightarrow> market_id \<Rightarrow> ('d, 's) strategy \<Rightarrow> 'd \<Rightarrow> nat \<Rightarrow> 'd candle list \<Rightarrow> ('d, 's) bt_state \<Rightarrow>
   engine_error + ('d, 's) bt_state" where
  "bt_loop D market strat fee_rate index [] st = Inr st"
| "bt_loop D market strat fee_rate index (c # cs) st =
     and_then (bt_bar D market strat fee_rate index c st) (bt_loop D market strat fee_rate (Suc index) cs)"

definition bt_validate :: "'d decimal_ops \<Rightarrow> 'd backtest_config \<Rightarrow> 'd candle list \<Rightarrow> engine_error + 'd" where
  "bt_validate D cfg cs =
     (if cs = [] then Inl NoCandles
      else if dec_le D (bc_initial_cash cfg) (dec_zero D)
      then Inl (InvalidConfig (''initial_cash must be greater than 0, got '' @
             dec_to_string D (bc_initial_cash cfg)))
      else if dec_lt D (bc_fee_bps cfg) (dec_zero D)
      then Inl (InvalidConfig (''fee_bps must be zero or greater, got '' @ dec_to_string D (bc_fee_bps cfg)))
      else checked (dec_checked_div D (bc_fee_bps cfg) (dec_from_int D 10000)) ''the fee rate'')"

definition bt_start :: "'d decimal_ops \<Rightarrow> 'd backtest_config \<Rightarrow> 's \<Rightarrow> ('d, 's) bt_state" where
  "bt_start D cfg s =
     \<lparr>bt_account = \<lparr>ba_cash = bc_initial_cash cfg, ba_qty = dec_zero D, ba_open_trade = None, ba_trades = []\<rparr>,
      bt_pending = None, bt_peak = dec_zero D, bt_drawdown = dec_zero D, bt_strategy = s\<rparr>"

text \<open>After the last bar: the close-out, \<open>on_finish\<close> and the figures.\<close>

definition bt_close_out ::
  "'d decimal_ops \<Rightarrow> 'd backtest_config \<Rightarrow> market_id \<Rightarrow> 'd \<Rightarrow> 'd candle \<Rightarrow> 'd bt_account \<Rightarrow>
   engine_error + 'd bt_account" where
  "bt_close_out D cfg market fee_rate lst a =
     (if bc_close_out_at_end cfg \<and> dec_lt D (dec_zero D) (ba_qty a)
      then bt_execute_target D market FlatTarget (cd_close lst) (cd_close_time_ms lst) fee_rate a
      else Inr a)"

definition bt_figures ::
  "'d decimal_ops \<Rightarrow> 'd backtest_config \<Rightarrow> 'd candle \<Rightarrow> 'd \<Rightarrow> 'd bt_account \<Rightarrow> engine_error + 'd backtest_result"
where
  "bt_figures D cfg lst drawdown a =
     and_then (mark D (ba_cash a) (ba_qty a) (cd_close lst)) (\<lambda>final_equity.
     and_then (checked (Option.bind (dec_checked_sub D final_equity (bc_initial_cash cfg)) (\<lambda>gain.
         Option.bind (dec_checked_div D gain (bc_initial_cash cfg)) (\<lambda>ratio.
         dec_checked_mul D ratio (dec_from_int D 100)))) ''the return'') (\<lambda>total_return.
     and_then (checked (dec_checked_mul D drawdown (dec_from_int D 100)) ''the drawdown'') (\<lambda>max_drawdown.
       Inr \<lparr>br_initial_cash = bc_initial_cash cfg, br_final_equity = final_equity,
            br_total_return_pct = total_return, br_trade_count = length (ba_trades a),
            br_max_drawdown_pct = max_drawdown, br_trades = ba_trades a\<rparr>)))"

definition backtest_run ::
  "'d decimal_ops \<Rightarrow> 'd backtest_config \<Rightarrow> market_id \<Rightarrow> 'd candle list \<Rightarrow> ('d, 's) strategy \<Rightarrow> 's \<Rightarrow>
   engine_error + ('d backtest_result \<times> 's)" where
  "backtest_run D cfg market cs strat s =
     and_then (bt_validate D cfg cs) (\<lambda>fee_rate.
     let st = bt_start D cfg s in
     and_then (map_err StrategyFailed
         (on_start strat (bt_context market (cd_open_time_ms (hd cs)) (bt_account st)) s)) (\<lambda>s1.
     and_then (bt_loop D market strat fee_rate 0 cs (st\<lparr>bt_strategy := s1\<rparr>)) (\<lambda>st1.
     and_then (bt_close_out D cfg market fee_rate (last cs) (bt_account st1)) (\<lambda>a.
     and_then (map_err StrategyFailed
         (on_finish strat (bt_context market (cd_open_time_ms (last cs)) a) (bt_strategy st1))) (\<lambda>s2.
     and_then (bt_figures D cfg (last cs) (bt_drawdown st1) a) (\<lambda>r.
       Inr (r, s2)))))))"

section \<open>Fills\<close>

lemma bt_exit_cases:
  assumes "bt_exit D market price ts fee a = Inr b"
  shows "b = a \<or>
    (\<not> dec_le D (ba_qty a) (dec_zero D) \<and> ba_qty b = dec_zero D \<and>
     (ba_open_trade a = None \<and> ba_trades b = ba_trades a \<and> ba_open_trade b = None \<or>
      (\<exists>op pnl. ba_open_trade a = Some op \<and> ba_open_trade b = None \<and>
         dec_checked_sub D (ba_cash b) (ot_cash_before op) = Some pnl \<and>
         ba_trades b = ba_trades a @
           [\<lparr>ct_symbol = mk_symbol market, ct_entry_time_ms = ot_entry_time_ms op,
             ct_exit_time_ms = ts, ct_entry_price = ot_entry_price op, ct_exit_price = price,
             ct_qty = ot_qty op, ct_gross_quote_pnl = pnl, ct_entry_order_id = None,
             ct_exit_order_id = None\<rparr>])))"
  using assms
  by (cases "ba_open_trade a") (auto simp: bt_exit_def and_then_Inr checked_def split: if_splits)

lemma bt_entry_cases:
  assumes "bt_entry D price ts fee a = Inr b"
  shows "b = a \<or>
    (\<not> dec_lt D (dec_zero D) (ba_qty a) \<and> ba_trades b = ba_trades a \<and>
     ba_open_trade b = Some \<lparr>ot_entry_time_ms = ts, ot_entry_price = price, ot_qty = ba_qty b,
       ot_cash_before = ba_cash a\<rparr>)"
  using assms
  by (auto simp: bt_entry_def and_then_Inr checked_def split: if_splits)

lemma bt_execute_trades:
  "bt_execute_target D market target price ts fee a = Inr b \<Longrightarrow>
   \<exists>new. ba_trades b = ba_trades a @ new \<and> length new \<le> 1"
  by (cases target) (auto simp: bt_execute_target_def dest!: bt_exit_cases bt_entry_cases)

section \<open>Where fills happen\<close>

text \<open>An entry on bar \<open>i\<close>, not the first, at its open; an exit on a later bar at its open; or, once,
  the close-out at the last bar's close.\<close>

definition entry_at :: "'d candle list \<Rightarrow> nat \<Rightarrow> timestamp_ms \<Rightarrow> 'd \<Rightarrow> bool" where
  "entry_at cs i t price \<longleftrightarrow>
     0 < i \<and> i < length cs \<and> t = cd_open_time_ms (cs ! i) \<and> price = cd_open (cs ! i)"

definition open_fill_trade :: "'d candle list \<Rightarrow> 'd closed_trade \<Rightarrow> bool" where
  "open_fill_trade cs t \<longleftrightarrow>
     (\<exists>i j. i < j \<and> entry_at cs i (ct_entry_time_ms t) (ct_entry_price t) \<and>
        entry_at cs j (ct_exit_time_ms t) (ct_exit_price t))"

definition close_out_trade :: "'d candle list \<Rightarrow> 'd closed_trade \<Rightarrow> bool" where
  "close_out_trade cs t \<longleftrightarrow>
     (\<exists>i. entry_at cs i (ct_entry_time_ms t) (ct_entry_price t)) \<and>
     ct_exit_time_ms t = cd_close_time_ms (last cs) \<and> ct_exit_price t = cd_close (last cs)"

text \<open>The account after the first \<open>k\<close> bars.\<close>

definition account_inv :: "'d decimal_ops \<Rightarrow> 'd candle list \<Rightarrow> nat \<Rightarrow> 'd bt_account \<Rightarrow> bool" where
  "account_inv D cs k a \<longleftrightarrow>
     (\<forall>t\<in>set (ba_trades a). open_fill_trade cs t) \<and>
     (\<forall>op. ba_open_trade a = Some op \<longrightarrow>
        (\<exists>i<k. entry_at cs i (ot_entry_time_ms op) (ot_entry_price op))) \<and>
     (dec_lt D (dec_zero D) (ba_qty a) \<longrightarrow>
        (\<exists>op. ba_open_trade a = Some op \<and> ot_qty op = ba_qty a))"

lemma account_inv_mono: "account_inv D cs k a \<Longrightarrow> k \<le> l \<Longrightarrow> account_inv D cs l a"
  unfolding account_inv_def by (meson order_less_le_trans)

lemma account_inv_fill:
  assumes D: "decimal_laws D" and inv: "account_inv D cs k a" and k: "0 < k" "k < length cs"
    and fill: "bt_execute_target D market target (cd_open (cs ! k)) (cd_open_time_ms (cs ! k)) fee a = Inr b"
  shows "account_inv D cs (Suc k) b"
proof (cases "b = a")
  case True
  with inv show ?thesis by (auto intro: account_inv_mono)
next
  case changed: False
  have here: "entry_at cs k (cd_open_time_ms (cs ! k)) (cd_open (cs ! k))"
    using k by (simp add: entry_at_def)
  show ?thesis
  proof (cases target)
    case FlatTarget
    then have "bt_exit D market (cd_open (cs ! k)) (cd_open_time_ms (cs ! k)) fee a = Inr b"
      using fill by (simp add: bt_execute_target_def)
    from bt_exit_cases [OF this] changed have q: "ba_qty b = dec_zero D" "ba_open_trade b = None"
      and t: "ba_trades b = ba_trades a \<or> (\<exists>op. ba_open_trade a = Some op \<and>
         (\<exists>t. ba_trades b = ba_trades a @ [t] \<and> ct_entry_time_ms t = ot_entry_time_ms op \<and>
            ct_entry_price t = ot_entry_price op \<and> ct_exit_time_ms t = cd_open_time_ms (cs ! k) \<and>
            ct_exit_price t = cd_open (cs ! k)))"
      by auto
    have "\<forall>t\<in>set (ba_trades b). open_fill_trade cs t"
      using t inv here unfolding account_inv_def open_fill_trade_def by fastforce
    with q D show ?thesis by (simp add: account_inv_def dec_vals)
  next
    case LongAllIn
    then have "bt_entry D (cd_open (cs ! k)) (cd_open_time_ms (cs ! k)) fee a = Inr b"
      using fill by (simp add: bt_execute_target_def)
    from bt_entry_cases [OF this] changed inv here show ?thesis
      unfolding account_inv_def by (auto intro!: exI [of _ k])
  qed
qed

lemma bt_mark_account:
  "bt_mark_equity D c st = Inr st' \<Longrightarrow>
   bt_account st' = bt_account st \<and> bt_pending st' = bt_pending st \<and> bt_strategy st' = bt_strategy st \<and>
   (bt_drawdown st' = bt_drawdown st \<or> dec_lt D (bt_drawdown st) (bt_drawdown st'))"
  by (auto simp: bt_mark_equity_def and_then_Inr Let_def checked_def split: if_splits)

lemma bt_bar_Inr:
  "bt_bar D market strat fee k c st = Inr st' \<Longrightarrow>
   (bt_account st' = bt_account st \<or>
    0 < k \<and> (\<exists>target. bt_pending st = Some target \<and>
       bt_execute_target D market target (cd_open c) (cd_open_time_ms c) fee (bt_account st) =
         Inr (bt_account st'))) \<and>
   (bt_drawdown st' = bt_drawdown st \<or> dec_lt D (bt_drawdown st) (bt_drawdown st'))"
  by (auto simp: bt_bar_def and_then_Inr dest!: bt_mark_account split: if_splits option.splits prod.splits)

lemma bt_loop_append:
  "bt_loop D market strat fee k (xs @ ys) st =
     and_then (bt_loop D market strat fee k xs st) (bt_loop D market strat fee (k + length xs) ys)"
proof (induction xs arbitrary: k st)
  case (Cons x xs)
  then show ?case by (cases "bt_bar D market strat fee k x st") simp_all
qed simp

lemma bt_loop_trades:
  "bt_loop D market strat fee k cs st = Inr st' \<Longrightarrow>
   \<exists>new. ba_trades (bt_account st') = ba_trades (bt_account st) @ new"
proof (induction cs arbitrary: k st)
  case (Cons c cs)
  then obtain st1 where b: "bt_bar D market strat fee k c st = Inr st1"
    and l: "bt_loop D market strat fee (Suc k) cs st1 = Inr st'"
    by (auto simp: and_then_Inr)
  have "\<exists>new. ba_trades (bt_account st1) = ba_trades (bt_account st) @ new"
    using bt_bar_Inr [OF b] bt_execute_trades by fastforce
  with Cons.IH [OF l] show ?case by force
qed simp

lemma bt_loop_inv:
  assumes D: "decimal_laws D"
  shows "bt_loop D market strat fee k cs st = Inr st' \<Longrightarrow> all = pre @ cs \<Longrightarrow> k = length pre \<Longrightarrow>
    account_inv D all k (bt_account st) \<Longrightarrow> 0 \<le> dec_val D (bt_drawdown st) \<Longrightarrow>
    account_inv D all (k + length cs) (bt_account st') \<and> 0 \<le> dec_val D (bt_drawdown st')"
proof (induction cs arbitrary: k st pre)
  case (Cons c cs)
  then obtain st1 where b: "bt_bar D market strat fee k c st = Inr st1"
    and l: "bt_loop D market strat fee (Suc k) cs st1 = Inr st'"
    by (auto simp: and_then_Inr)
  have c: "all ! k = c" "k < length all" using Cons.prems(2,3) by simp_all
  have inv: "account_inv D all (Suc k) (bt_account st1)"
    using bt_bar_Inr [OF b] account_inv_fill [OF D Cons.prems(4) _ c(2)] c(1)
      account_inv_mono [OF Cons.prems(4), of "Suc k"] by auto
  have "0 \<le> dec_val D (bt_drawdown st1)"
    using bt_bar_Inr [OF b] Cons.prems(5) dec_lt_val [OF D] by force
  with Cons.IH [OF l, of "pre @ [c]"] Cons.prems(2,3) inv show ?case by simp
qed simp

section \<open>Whole runs\<close>

lemma backtest_run_Inr:
  assumes "backtest_run D cfg market cs strat s = Inr (r, s')"
  shows "\<exists>fee s1 st a. bt_validate D cfg cs = Inr fee \<and>
    bt_loop D market strat fee 0 cs ((bt_start D cfg s)\<lparr>bt_strategy := s1\<rparr>) = Inr st \<and>
    on_start strat (bt_context market (cd_open_time_ms (hd cs)) (bt_account (bt_start D cfg s))) s = Inr s1 \<and>
    bt_close_out D cfg market fee (last cs) (bt_account st) = Inr a \<and>
    bt_figures D cfg (last cs) (bt_drawdown st) a = Inr r"
  using assms by (auto simp: backtest_run_def and_then_Inr Let_def)

lemma bt_validate_Inr:
  "decimal_laws D \<Longrightarrow> bt_validate D cfg cs = Inr fee \<longleftrightarrow>
     cs \<noteq> [] \<and> 0 < dec_val D (bc_initial_cash cfg) \<and> 0 \<le> dec_val D (bc_fee_bps cfg) \<and>
     dec_checked_div D (bc_fee_bps cfg) (dec_from_int D 10000) = Some fee"
  by (auto simp: bt_validate_def checked_def dec_vals not_less)

lemma bt_figures_Inr:
  "bt_figures D cfg lst drawdown a = Inr r \<Longrightarrow>
   br_trades r = ba_trades a \<and> br_trade_count r = length (ba_trades a) \<and>
   br_initial_cash r = bc_initial_cash cfg \<and>
   dec_checked_mul D drawdown (dec_from_int D 100) = Some (br_max_drawdown_pct r)"
  by (auto simp: bt_figures_def and_then_Inr checked_def)

lemma account_inv_start: "decimal_laws D \<Longrightarrow> account_inv D cs 0 (bt_account ((bt_start D cfg s)\<lparr>bt_strategy := s1\<rparr>))"
  by (simp add: account_inv_def bt_start_def dec_vals)

lemma bt_run_inv:
  assumes D: "decimal_laws D" and "bt_loop D market strat fee 0 cs ((bt_start D cfg s)\<lparr>bt_strategy := s1\<rparr>) = Inr st"
  shows "account_inv D cs (length cs) (bt_account st) \<and> 0 \<le> dec_val D (bt_drawdown st)"
  using bt_loop_inv [OF D assms(2), of cs "[]"] account_inv_start [OF D]
  by (simp add: bt_start_def dec_zero_val [OF D])

lemma bt_close_out_trades:
  assumes D: "decimal_laws D" and inv: "account_inv D cs (length cs) a"
    and c: "bt_close_out D cfg market fee (last cs) a = Inr b"
  shows "\<exists>new. ba_trades b = ba_trades a @ new \<and> length new \<le> 1 \<and>
    (new \<noteq> [] \<longrightarrow> bc_close_out_at_end cfg) \<and> (\<forall>t\<in>set new. close_out_trade cs t)"
proof (cases "b = a")
  case False
  then have e: "bt_exit D market (cd_close (last cs)) (cd_close_time_ms (last cs)) fee a = Inr b"
    and cfg: "bc_close_out_at_end cfg"
    using c by (auto simp: bt_close_out_def bt_execute_target_def split: if_splits)
  from bt_exit_cases [OF e] False cfg inv show ?thesis
    by (auto simp: account_inv_def close_out_trade_def)
qed auto

section \<open>A sample run\<close>

text \<open>Three one-minute bars, a strategy that goes long on its first bar and flat on its second.\<close>

definition sample_strategy :: "(sdec, nat) strategy" where
  "sample_strategy =
     \<lparr>on_start = (\<lambda>_ n. Inr n),
      on_bar = (\<lambda>_ _ n. Inr (Suc n, if n = 0 then Some LongAllIn else if n = 1 then Some FlatTarget else None)),
      on_finish = (\<lambda>_ n. Inr n)\<rparr>"

definition sample_config :: "sdec backtest_config" where
  "sample_config = \<lparr>bc_initial_cash = s_of 1000 0, bc_fee_bps = s_of 0 0, bc_close_out_at_end = False\<rparr>"

section \<open>Properties\<close>

text \<open>C38: every trade of a completed backtest entered at the open of a bar after the first and left
  at the open of a later bar; the only other exit is one close-out at the last bar's close, and only
  where the configuration asks for it.\<close>

theorem backtest_fills_at_next_open:
  assumes "decimal_laws D" and "backtest_run D cfg market cs strat s = Inr (r, s')"
  shows "\<exists>filled closed. br_trades r = filled @ closed \<and> length closed \<le> 1 \<and>
    (\<forall>t\<in>set filled. open_fill_trade cs t) \<and>
    (\<forall>t\<in>set closed. bc_close_out_at_end cfg \<and> close_out_trade cs t) \<and>
    br_trade_count r = length (br_trades r)"
proof -
  obtain fee s1 st a where
    l: "bt_loop D market strat fee 0 cs ((bt_start D cfg s)\<lparr>bt_strategy := s1\<rparr>) = Inr st"
    and c: "bt_close_out D cfg market fee (last cs) (bt_account st) = Inr a"
    and f: "bt_figures D cfg (last cs) (bt_drawdown st) a = Inr r"
    using backtest_run_Inr [OF assms(2)] by blast
  note inv = bt_run_inv [OF assms(1) l]
  obtain new where "ba_trades a = ba_trades (bt_account st) @ new" "length new \<le> 1"
    "new \<noteq> [] \<longrightarrow> bc_close_out_at_end cfg" "\<forall>t\<in>set new. close_out_trade cs t"
    using bt_close_out_trades [OF assms(1) _ c] inv by blast
  with inv bt_figures_Inr [OF f] show ?thesis
    by (intro exI [of _ "ba_trades (bt_account st)"] exI [of _ new]) (auto simp: account_inv_def)
qed

lemma is_ok_pair: "is_ok r \<Longrightarrow> \<exists>a b. r = Inr (a, b)"
  by (cases r) auto

lemma sample_run_ok: "is_ok (backtest_run sample_dec sample_config sample_market sample_candles sample_strategy 0)"
  by code_simp

theorem backtest_fills_at_next_open_witness:
  "\<exists>r s' filled closed. backtest_run sample_dec sample_config sample_market sample_candles sample_strategy 0 = Inr (r, s') \<and>
     br_trades r = filled @ closed \<and> length closed \<le> 1 \<and>
     (\<forall>t\<in>set filled. open_fill_trade sample_candles t)"
proof -
  obtain r s' where r: "backtest_run sample_dec sample_config sample_market sample_candles sample_strategy 0 = Inr (r, s')"
    using is_ok_pair [OF sample_run_ok] by blast
  from backtest_fills_at_next_open [OF sample_dec_laws r] r show ?thesis by blast
qed

text \<open>C39: no look-ahead. The trades of a run over a prefix of the candles, without its close-out, are
  a prefix of the trades of the run over all of them.\<close>

theorem backtest_no_look_ahead:
  assumes "backtest_run D (cfg\<lparr>bc_close_out_at_end := False\<rparr>) market xs strat s = Inr (r, s1)"
    and "backtest_run D cfg market (xs @ ys) strat s = Inr (r', s2)"
  shows "\<exists>later. br_trades r' = br_trades r @ later"
proof -
  obtain fee t st a where v: "bt_validate D (cfg\<lparr>bc_close_out_at_end := False\<rparr>) xs = Inr fee"
    and l: "bt_loop D market strat fee 0 xs ((bt_start D cfg s)\<lparr>bt_strategy := t\<rparr>) = Inr st"
    and o1: "on_start strat (bt_context market (cd_open_time_ms (hd xs)) (bt_account (bt_start D cfg s))) s = Inr t"
    and f: "br_trades r = ba_trades (bt_account st)"
    using backtest_run_Inr [OF assms(1)] bt_figures_Inr
    by (fastforce simp: bt_close_out_def bt_start_def)
  obtain fee' t' st' a' where v': "bt_validate D cfg (xs @ ys) = Inr fee'"
    and l': "bt_loop D market strat fee' 0 (xs @ ys) ((bt_start D cfg s)\<lparr>bt_strategy := t'\<rparr>) = Inr st'"
    and o2: "on_start strat (bt_context market (cd_open_time_ms (hd (xs @ ys))) (bt_account (bt_start D cfg s))) s = Inr t'"
    and c': "bt_close_out D cfg market fee' (last (xs @ ys)) (bt_account st') = Inr a'"
    and g': "bt_figures D cfg (last (xs @ ys)) (bt_drawdown st') a' = Inr r'"
    using backtest_run_Inr [OF assms(2)] by blast
  have f': "br_trades r' = ba_trades a'" using bt_figures_Inr [OF g'] by simp
  have xs: "xs \<noteq> []" and "fee' = fee"
    using v v' by (auto simp: bt_validate_def checked_def split: if_splits)
  moreover have "t' = t" using o1 o2 xs by simp
  ultimately have "bt_loop D market strat fee (length xs) ys st = Inr st'"
    using l l' by (simp add: bt_loop_append)
  from bt_loop_trades [OF this] obtain new where "ba_trades (bt_account st') = ba_trades (bt_account st) @ new"
    by blast
  moreover have "\<exists>more. ba_trades a' = ba_trades (bt_account st') @ more"
    using c' bt_execute_trades by (fastforce simp: bt_close_out_def split: if_splits)
  ultimately show ?thesis using f f' by force
qed

lemma sample_prefix_ok:
  "is_ok (backtest_run sample_dec (sample_config\<lparr>bc_close_out_at_end := False\<rparr>) sample_market
     (take 2 sample_candles) sample_strategy 0)"
  by code_simp

theorem backtest_no_look_ahead_witness:
  "\<exists>r s1 r' s2 later.
     backtest_run sample_dec (sample_config\<lparr>bc_close_out_at_end := False\<rparr>) sample_market
       (take 2 sample_candles) sample_strategy 0 = Inr (r, s1) \<and>
     backtest_run sample_dec sample_config sample_market (take 2 sample_candles @ drop 2 sample_candles)
       sample_strategy 0 = Inr (r', s2) \<and>
     br_trades r' = br_trades r @ later"
proof -
  obtain r s1 where r: "backtest_run sample_dec (sample_config\<lparr>bc_close_out_at_end := False\<rparr>) sample_market
      (take 2 sample_candles) sample_strategy 0 = Inr (r, s1)"
    using is_ok_pair [OF sample_prefix_ok] by blast
  obtain r' s2 where r': "backtest_run sample_dec sample_config sample_market
      (take 2 sample_candles @ drop 2 sample_candles) sample_strategy 0 = Inr (r', s2)"
    unfolding append_take_drop_id using is_ok_pair [OF sample_run_ok] by blast
  from backtest_no_look_ahead [OF r r'] r r' show ?thesis by blast
qed

text \<open>A backtest starts only with candles, positive cash and a fee that is not negative.\<close>

theorem backtest_guards:
  assumes "decimal_laws D" and "backtest_run D cfg market cs strat s = Inr (r, s')"
  shows "cs \<noteq> [] \<and> 0 < dec_val D (bc_initial_cash cfg) \<and> 0 \<le> dec_val D (bc_fee_bps cfg) \<and>
    br_initial_cash r = bc_initial_cash cfg \<and>
    (\<exists>drawdown. 0 \<le> dec_val D drawdown \<and>
       dec_checked_mul D drawdown (dec_from_int D 100) = Some (br_max_drawdown_pct r))"
proof -
  obtain fee s1 st a where v: "bt_validate D cfg cs = Inr fee"
    and l: "bt_loop D market strat fee 0 cs ((bt_start D cfg s)\<lparr>bt_strategy := s1\<rparr>) = Inr st"
    and f: "bt_figures D cfg (last cs) (bt_drawdown st) a = Inr r"
    using backtest_run_Inr [OF assms(2)] by blast
  from bt_run_inv [OF assms(1) l] bt_figures_Inr [OF f] v show ?thesis
    by (auto simp: bt_validate_Inr [OF assms(1)])
qed

theorem backtest_guards_witness:
  "\<exists>r s'. backtest_run sample_dec sample_config sample_market sample_candles sample_strategy 0 = Inr (r, s') \<and>
     0 < dec_val sample_dec (bc_initial_cash sample_config)"
proof -
  obtain r s' where r: "backtest_run sample_dec sample_config sample_market sample_candles sample_strategy 0 = Inr (r, s')"
    using is_ok_pair [OF sample_run_ok] by blast
  from backtest_guards [OF sample_dec_laws r] r show ?thesis by blast
qed

end
