(* ===== verification/Effects.thy ===== *)
theory Effects
  imports Backtest
begin

text \<open>
  Calls that reach the outside: an operation over a world \<open>'w\<close> that an error can end early, keeping what
  the world became; \<open>io\<close> where the error is the engine's. The traits of \<open>src/ports\<close> that the engines call are records of such
  operations, arguments of the definitions that use them. \<open>io_bind\<close> is \<open>.await?\<close>.
\<close>

type_synonym ('w, 'e, 'a) op = "'w \<Rightarrow> ('e + 'a) \<times> 'w"
type_synonym ('w, 'a) io = "('w, engine_error, 'a) op"

definition io_return :: "'a \<Rightarrow> ('w, 'e, 'a) op" where
  "io_return a w = (Inr a, w)"

definition io_fail :: "'e \<Rightarrow> ('w, 'e, 'a) op" where
  "io_fail e w = (Inl e, w)"

definition io_bind :: "('w, 'e, 'a) op \<Rightarrow> ('a \<Rightarrow> ('w, 'e, 'b) op) \<Rightarrow> ('w, 'e, 'b) op" where
  "io_bind m f w = (case m w of (Inl e, w') \<Rightarrow> (Inl e, w') | (Inr a, w') \<Rightarrow> f a w')"

text \<open>A call that reports its own kind of error, which \<open>From\<close> turns into the engine's.\<close>

definition io_call :: "('e \<Rightarrow> engine_error) \<Rightarrow> ('w \<Rightarrow> ('e + 'a) \<times> 'w) \<Rightarrow> ('w, 'a) io" where
  "io_call wrap m w = (case m w of (r, w') \<Rightarrow> (map_err wrap r, w'))"

lemma io_return_simp [simp, result_simps]: "io_return a w = (Inr a, w)"
  by (simp add: io_return_def)

lemma io_fail_simp [simp, result_simps]: "io_fail e w = (Inl e, w)"
  by (simp add: io_fail_def)

lemma io_bind_simps [simp, result_simps]:
  "m w = (Inl e, w') \<Longrightarrow> io_bind m f w = (Inl e, w')"
  "m w = (Inr a, w') \<Longrightarrow> io_bind m f w = f a w'"
  by (simp_all add: io_bind_def)

lemma io_bind_return [simp]: "io_bind (io_return a) f = f a" and io_bind_fail [simp]: "io_bind (io_fail e) f = io_fail e"
  by (simp_all add: io_bind_def fun_eq_iff)

lemma io_bind_eq:
  "io_bind m f w = (r, w') \<longleftrightarrow>
     (\<exists>e. m w = (Inl e, w') \<and> r = Inl e) \<or> (\<exists>a v. m w = (Inr a, v) \<and> f a v = (r, w'))"
  by (auto simp: io_bind_def split: prod.splits sum.splits)

text \<open>A run of \<open>m\<close> on a larger world that shows the same run on the smaller one. This is how the ports
  with a log are related to the ports without it.\<close>

definition simulates :: "('v \<Rightarrow> 'w) \<Rightarrow> ('v, 'a) io \<Rightarrow> ('w, 'a) io \<Rightarrow> bool" where
  "simulates view m n \<longleftrightarrow> (\<forall>v. n (view v) = (fst (m v), view (snd (m v))))"

lemma simulates_return [intro]: "simulates view (io_return a) (io_return a)"
  by (simp add: simulates_def)

lemma simulates_fail [intro]: "simulates view (io_fail e) (io_fail e)"
  by (simp add: simulates_def)

lemma simulates_bind [intro]:
  assumes "simulates view m n" and "\<And>a. simulates view (f a) (g a)"
  shows "simulates view (io_bind m f) (io_bind n g)"
proof (unfold simulates_def, rule allI)
  fix v
  obtain r v' where m: "m v = (r, v')" by fastforce
  with assms(1) have n: "n (view v) = (r, view v')" by (simp add: simulates_def)
  show "io_bind n g (view v) = (fst (io_bind m f v), view (snd (io_bind m f v)))"
    using assms(2) m n by (cases r) (simp_all add: simulates_def)
qed

lemma simulates_call [intro]:
  assumes "\<And>v. n (view v) = (fst (m v), view (snd (m v)))"
  shows "simulates view (io_call wrap m) (io_call wrap n)"
  using assms by (simp add: simulates_def io_call_def split: prod.splits)

lemma simulates_if [intro]:
  "(b \<Longrightarrow> simulates view m n) \<Longrightarrow> (\<not> b \<Longrightarrow> simulates view m' n') \<Longrightarrow>
   simulates view (if b then m else m') (if b then n else n')"
  by simp

lemma simulatesD: "simulates view m n \<Longrightarrow> m v = (r, v') \<Longrightarrow> n (view v) = (r, view v')"
  by (simp add: simulates_def)

end
