(* ===== verification/Exchange_Order.thy ===== *)
theory Exchange_Order
  imports Money Identity
begin

text \<open>
  What the live engine exchanges with a spot venue: \<open>src/model/order.rs\<close> (order states, fills and
  the order a venue reports), \<open>src/model/rules.rs\<close> (balances and a symbol's trading rules) and the
  market order of \<open>src/model/request.rs\<close>. The raw JSON an order carries along is never read and is
  left out. Operators of \<open>Decimal\<close> panic on overflow; the outer \<open>None\<close> of a result is that panic.
\<close>

section \<open>Order states\<close>

datatype order_status =
  StatusNew | StatusPartiallyFilled | StatusFilled | StatusCanceled | StatusRejected | StatusExpired
| StatusPendingNew | StatusUnknown

definition order_status_from_exchange :: "string \<Rightarrow> order_status" where
  "order_status_from_exchange value =
     (let t = to_ascii_uppercase (trim value)
      in if t = ''NEW'' then StatusNew
         else if t = ''PARTIALLY_FILLED'' then StatusPartiallyFilled
         else if t = ''FILLED'' then StatusFilled
         else if t = ''CANCELED'' then StatusCanceled
         else if t = ''REJECTED'' then StatusRejected
         else if t = ''EXPIRED'' then StatusExpired
         else if t = ''PENDING_NEW'' then StatusPendingNew
         else StatusUnknown)"

fun order_status_as_str :: "order_status \<Rightarrow> string" where
  "order_status_as_str StatusNew = ''NEW''"
| "order_status_as_str StatusPartiallyFilled = ''PARTIALLY_FILLED''"
| "order_status_as_str StatusFilled = ''FILLED''"
| "order_status_as_str StatusCanceled = ''CANCELED''"
| "order_status_as_str StatusRejected = ''REJECTED''"
| "order_status_as_str StatusExpired = ''EXPIRED''"
| "order_status_as_str StatusPendingNew = ''PENDING_NEW''"
| "order_status_as_str StatusUnknown = ''UNKNOWN''"

definition order_status_is_terminal :: "order_status \<Rightarrow> bool" where
  "order_status_is_terminal s \<longleftrightarrow> s \<in> {StatusFilled, StatusCanceled, StatusRejected, StatusExpired}"

lemma order_status_reads_back: "order_status_from_exchange (order_status_as_str s) = s"
  by (induct s) code_simp+

section \<open>Orders\<close>

record 'd fill =
  fl_price :: 'd
  fl_qty :: 'd
  fl_commission :: 'd
  fl_commission_asset :: "string option"
  fl_trade_id :: "venue_trade_id option"

record 'd exchange_order =
  xo_symbol :: symbol
  xo_side :: side
  xo_order_type :: string
  xo_status :: order_status
  xo_order_id :: "venue_order_id option"
  xo_client_order_id :: "string option"
  xo_requested_qty :: "'d option"
  xo_requested_quote_qty :: "'d option"
  xo_executed_qty :: "'d option"
  xo_cumulative_quote_qty :: "'d option"
  xo_avg_price :: "'d option"
  xo_transact_time_ms :: "timestamp_ms option"
  xo_fills :: "'d fill list option"

definition average_price :: "'d decimal_ops \<Rightarrow> 'd exchange_order \<Rightarrow> 'd option option" where
  "average_price D ord =
     (case xo_avg_price ord of
        Some price \<Rightarrow> Some (Some price)
      | None \<Rightarrow>
          (case (xo_executed_qty ord, xo_cumulative_quote_qty ord) of
             (Some executed, Some cumulative) \<Rightarrow>
               if dec_lt D (dec_zero D) executed then map_option Some (dec_checked_div D cumulative executed)
               else Some None
           | _ \<Rightarrow> Some None))"

definition eq_ignore_ascii_case :: "string \<Rightarrow> string \<Rightarrow> bool" where
  "eq_ignore_ascii_case a b \<longleftrightarrow> to_ascii_uppercase a = to_ascii_uppercase b"

fun deduct_base_fees :: "'d decimal_ops \<Rightarrow> string \<Rightarrow> 'd \<Rightarrow> 'd fill list \<Rightarrow> 'd option" where
  "deduct_base_fees D base qty [] = Some qty"
| "deduct_base_fees D base qty (f # fs) =
     (if (case fl_commission_asset f of None \<Rightarrow> False | Some a \<Rightarrow> eq_ignore_ascii_case a base)
      then Option.bind (dec_checked_sub D qty (fl_commission f)) (\<lambda>qty. deduct_base_fees D base qty fs)
      else deduct_base_fees D base qty fs)"

definition net_base_qty_after_base_fees ::
  "'d decimal_ops \<Rightarrow> 'd exchange_order \<Rightarrow> string \<Rightarrow> 'd option option" where
  "net_base_qty_after_base_fees D ord base =
     (case (xo_executed_qty ord, xo_fills ord) of
        (Some executed, Some fills) \<Rightarrow>
          map_option (\<lambda>qty. Some (dec_max D qty (dec_zero D))) (deduct_base_fees D base executed fills)
      | _ \<Rightarrow> Some None)"

section \<open>Rules, balances and requests\<close>

record 'd asset_balance =
  ab_asset :: string
  ab_free :: 'd
  ab_locked :: 'd

definition balance_total :: "'d decimal_ops \<Rightarrow> 'd asset_balance \<Rightarrow> 'd option" where
  "balance_total D b = dec_checked_add D (ab_free b) (ab_locked b)"

record 'd symbol_rules =
  sr_symbol :: symbol
  sr_base_asset :: string
  sr_quote_asset :: string
  sr_min_qty :: "'d option"
  sr_max_qty :: "'d option"
  sr_step_size :: "'d option"
  sr_market_min_qty :: "'d option"
  sr_market_max_qty :: "'d option"
  sr_market_step_size :: "'d option"
  sr_min_notional :: "'d option"
  sr_tick_size :: "'d option"

definition or_else :: "'a option \<Rightarrow> 'a option \<Rightarrow> 'a option" where
  "or_else a b = (case a of None \<Rightarrow> b | Some _ \<Rightarrow> a)"

definition effective_market_step_size :: "'d symbol_rules \<Rightarrow> 'd option" where
  "effective_market_step_size r = or_else (sr_market_step_size r) (sr_step_size r)"

definition effective_market_min_qty :: "'d symbol_rules \<Rightarrow> 'd option" where
  "effective_market_min_qty r = or_else (sr_market_min_qty r) (sr_min_qty r)"

definition effective_market_max_qty :: "'d symbol_rules \<Rightarrow> 'd option" where
  "effective_market_max_qty r = or_else (sr_market_max_qty r) (sr_max_qty r)"

record 'd market_order_request =
  mo_symbol :: symbol
  mo_side :: side
  mo_quantity :: "'d option"
  mo_quote_order_qty :: "'d option"
  mo_new_client_order_id :: "string option"

text \<open>The net quantity never exceeds what was executed by more than rounding, and is never negative.\<close>

lemma net_base_qty_nonneg:
  "decimal_laws D \<Longrightarrow> net_base_qty_after_base_fees D ord base = Some (Some q) \<Longrightarrow> 0 \<le> dec_val D q"
  by (auto simp: net_base_qty_after_base_fees_def dec_vals split: option.splits)

end
