(* ===== verification/Live_Engine.thy ===== *)
theory Live_Engine
  imports Store Effects Exchange_Order
begin

text \<open>
  \<open>src/engine/live/execution.rs\<close> (placing an order for a target and recording what it did) and
  \<open>src/engine/live/state.rs\<close> (creating or resuming a run), with \<open>PositionState\<close> and
  \<open>BotRunState\<close> of \<open>src/model/run.rs\<close> and the configuration of \<open>src/engine/live/mod.rs\<close>. The
  journal, the venue, the clock and the UUID source are ports. The engine's \<open>&mut\<close> arguments are the
  record \<open>live_state\<close>, so what they hold survives an error. Error texts are abridged. An operator of
  \<open>Decimal\<close> that panics is the error \<open>EnginePanic\<close>.
\<close>

section \<open>Run records\<close>

record 'd position_state =
  ps_qty :: 'd
  ps_entry_price :: "'d option"
  ps_entry_time_ms :: "timestamp_ms option"
  ps_entry_order_id :: "venue_order_id option"

definition position_flat :: "'d decimal_ops \<Rightarrow> 'd position_state" where
  "position_flat D =
     \<lparr>ps_qty = dec_zero D, ps_entry_price = None, ps_entry_time_ms = None, ps_entry_order_id = None\<rparr>"

definition position_is_open :: "'d decimal_ops \<Rightarrow> 'd position_state \<Rightarrow> bool" where
  "position_is_open D p \<longleftrightarrow> dec_lt D (dec_zero D) (ps_qty p)"

text \<open>\<open>'j\<close> is the JSON value of a strategy's configuration, only ever compared.\<close>

record ('d, 'j) bot_run_state =
  rn_run_id :: string
  rn_market :: market_id
  rn_strategy_name :: string
  rn_strategy_config :: 'j
  rn_execution_mode :: execution_mode
  rn_status :: run_status
  rn_last_processed_open_time_ms :: "timestamp_ms option"
  rn_started_at_ms :: timestamp_ms
  rn_updated_at_ms :: timestamp_ms
  rn_stopped_at_ms :: "timestamp_ms option"
  rn_last_error :: "string option"
  rn_position :: "'d position_state"

record ('d, 'j) live_config =
  lc_market :: market_id
  lc_strategy :: built_in_strategy
  lc_strategy_config :: 'j
  lc_execution_mode :: execution_mode
  lc_identity :: run_identity
  lc_quote_order_qty :: 'd
  lc_bootstrap_bars :: nat
  lc_bootstrap_enter :: bool
  lc_batch_limit :: u16
  lc_run_id :: "string option"
  lc_max_loops :: "nat option"

record live_summary =
  ls_run_id :: string
  ls_processed_bars :: nat
  ls_submitted_orders :: nat
  ls_closed_trades :: nat
  ls_last_processed_open_time_ms :: "timestamp_ms option"

section \<open>Ports\<close>

record ('w, 'd) signed_connectors =
  sg_submit_market_order :: "'d market_order_request \<Rightarrow> 'w \<Rightarrow> (string + 'd exchange_order) \<times> 'w"
  sg_account_balances :: "'w \<Rightarrow> (string + 'd asset_balance list) \<times> 'w"

record ('w, 'd, 'j) live_ports =
  lp_now_utc_ms :: "'w \<Rightarrow> timestamp_ms \<times> 'w"
  lp_uuid_simple :: "'w \<Rightarrow> string \<times> 'w"
  lp_signed :: "('w, 'd) signed_connectors option"
  lp_create_run :: "('d, 'j) bot_run_state \<Rightarrow> run_identity \<Rightarrow> 'w \<Rightarrow> (string + unit) \<times> 'w"
  lp_load_run_state :: "string \<Rightarrow> 'w \<Rightarrow> (string + ('d, 'j) bot_run_state option) \<times> 'w"
  lp_run_identity :: "string \<Rightarrow> 'w \<Rightarrow> (string + run_identity option) \<times> 'w"
  lp_save_run_state :: "('d, 'j) bot_run_state \<Rightarrow> 'w \<Rightarrow> (string + unit) \<times> 'w"
  lp_append_order_event :: "string \<Rightarrow> 'd exchange_order \<Rightarrow> 'w \<Rightarrow> (string + unit) \<times> 'w"
  lp_append_closed_trade :: "string \<Rightarrow> 'd closed_trade \<Rightarrow> 'w \<Rightarrow> (string + unit) \<times> 'w"

record ('w, 'd, 'j) live_state =
  lv_run :: "('d, 'j) bot_run_state"
  lv_summary :: live_summary
  lv_world :: 'w

type_synonym ('w, 'd, 'j, 'a) live_io = "(('w, 'd, 'j) live_state, 'a) io"

definition lv_call :: "(string \<Rightarrow> engine_error) \<Rightarrow> ('w \<Rightarrow> (string + 'a) \<times> 'w) \<Rightarrow> ('w, 'd, 'j, 'a) live_io" where
  "lv_call wrap m st = (case m (lv_world st) of (r, w) \<Rightarrow> (map_err wrap r, st\<lparr>lv_world := w\<rparr>))"

definition lv_read :: "('w \<Rightarrow> 'a \<times> 'w) \<Rightarrow> ('w, 'd, 'j, 'a) live_io" where
  "lv_read m st = (case m (lv_world st) of (a, w) \<Rightarrow> (Inr a, st\<lparr>lv_world := w\<rparr>))"

text \<open>A call whose error is kept as a value.\<close>

definition lv_try :: "(string \<Rightarrow> engine_error) \<Rightarrow> ('w \<Rightarrow> (string + 'a) \<times> 'w) \<Rightarrow>
  ('w, 'd, 'j, engine_error + 'a) live_io" where
  "lv_try wrap m st = (case m (lv_world st) of (r, w) \<Rightarrow> (Inr (map_err wrap r), st\<lparr>lv_world := w\<rparr>))"

definition lv_update_run :: "(('d, 'j) bot_run_state \<Rightarrow> ('d, 'j) bot_run_state) \<Rightarrow> ('w, 'd, 'j, unit) live_io" where
  "lv_update_run f st = (Inr (), st\<lparr>lv_run := f (lv_run st)\<rparr>)"

definition lv_update_summary :: "(live_summary \<Rightarrow> live_summary) \<Rightarrow> ('w, 'd, 'j, unit) live_io" where
  "lv_update_summary f st = (Inr (), st\<lparr>lv_summary := f (lv_summary st)\<rparr>)"

definition lv_run_state :: "('w, 'd, 'j, ('d, 'j) bot_run_state) live_io" where
  "lv_run_state st = (Inr (lv_run st), st)"

definition or_panic :: "'a option \<Rightarrow> ('w, 'd, 'j, 'a) live_io" where
  "or_panic x = (case x of None \<Rightarrow> io_fail EnginePanic | Some a \<Rightarrow> io_return a)"

definition io_result :: "engine_error + 'a \<Rightarrow> ('w, 'd, 'j, 'a) live_io" where
  "io_result r = (case r of Inl e \<Rightarrow> io_fail e | Inr a \<Rightarrow> io_return a)"

lemmas live_io_defs = lv_call_def lv_read_def lv_try_def lv_update_run_def lv_update_summary_def
  lv_run_state_def or_panic_def io_result_def

section \<open>Exchange rules\<close>

definition maybe_round_qty :: "'d decimal_ops \<Rightarrow> 'd \<Rightarrow> 'd symbol_rules \<Rightarrow> 'd option" where
  "maybe_round_qty D qty rules =
     (case effective_market_step_size rules of
        Some step_size \<Rightarrow> round_down_to_step D qty step_size
      | None \<Rightarrow> Some qty)"

definition ensure_entry_notional :: "'d decimal_ops \<Rightarrow> 'd symbol_rules \<Rightarrow> 'd \<Rightarrow> engine_error + unit" where
  "ensure_entry_notional D rules quote_order_qty =
     (case sr_min_notional rules of
        Some min_notional \<Rightarrow>
          if dec_lt D quote_order_qty min_notional
          then Inl (InvalidConfig (''quote_order_qty '' @ dec_to_string D quote_order_qty @
                 '' is below exchange min_notional '' @ dec_to_string D min_notional))
          else Inr ()
      | None \<Rightarrow> Inr ())"

definition sell_qty_below_market_min :: "'d decimal_ops \<Rightarrow> 'd \<Rightarrow> 'd symbol_rules \<Rightarrow> 'd option" where
  "sell_qty_below_market_min D qty rules =
     (case effective_market_min_qty rules of
        Some m \<Rightarrow> if dec_lt D qty m then Some m else None | None \<Rightarrow> None)"

definition sell_qty_above_market_max :: "'d decimal_ops \<Rightarrow> 'd \<Rightarrow> 'd symbol_rules \<Rightarrow> 'd option" where
  "sell_qty_above_market_max D qty rules =
     (case effective_market_max_qty rules of
        Some m \<Rightarrow> if dec_lt D m qty then Some m else None | None \<Rightarrow> None)"

text \<open>The \<open>None\<close> of the result is the panic of rounding.\<close>

definition is_dust_remnant :: "'d decimal_ops \<Rightarrow> 'd \<Rightarrow> 'd symbol_rules \<Rightarrow> bool option" where
  "is_dust_remnant D qty rules =
     (if dec_le D qty (dec_zero D) then Some False
      else map_option (\<lambda>tradeable. dec_le D tradeable (dec_zero D) \<or>
             sell_qty_below_market_min D tradeable rules \<noteq> None)
           (maybe_round_qty D qty rules))"

section \<open>Client order ids\<close>

definition sanitize_client_order_id_fragment :: "string \<Rightarrow> nat \<Rightarrow> string" where
  "sanitize_client_order_id_fragment input max_len =
     (let out = take max_len
            (filter (\<lambda>c. is_ascii_alphanumeric c \<or> c = CHR ''-'' \<or> c = CHR ''_'') input)
      in if out = [] then ''run'' else out)"

text \<open>The remainder of \<open>i64\<close> takes the sign of its left side.\<close>

definition i64_rem :: "int \<Rightarrow> int \<Rightarrow> int" where
  "i64_rem a b = (if a < 0 then - ((- a) mod b) else a mod b)"

definition client_order_id_text :: "string \<Rightarrow> string \<Rightarrow> string \<Rightarrow> timestamp_ms \<Rightarrow> string" where
  "client_order_id_text tag run_id nonce now =
     ''qf-'' @ sanitize_client_order_id_fragment tag 5 @ ''-'' @
     sanitize_client_order_id_fragment run_id 8 @ ''-'' @ int_string (i64_rem now 100000000) @ ''-'' @
     take 8 nonce"

definition new_client_order_id ::
  "('w, 'd, 'j) live_ports \<Rightarrow> string \<Rightarrow> string \<Rightarrow> ('w, 'd, 'j, string) live_io" where
  "new_client_order_id P tag run_id =
     io_bind (lv_read (lp_uuid_simple P)) (\<lambda>nonce.
     io_bind (lv_read (lp_now_utc_ms P)) (\<lambda>now.
       io_return (client_order_id_text tag run_id nonce now)))"

section \<open>Placing the order\<close>

definition synthetic_order ::
  "('d, 'j) bot_run_state \<Rightarrow> side \<Rightarrow> 'd candle \<Rightarrow> 'd option \<Rightarrow> 'd option \<Rightarrow> 'd \<Rightarrow> 'd \<Rightarrow> string \<Rightarrow> 'd exchange_order"
where
  "synthetic_order run side bar requested requested_quote executed cumulative c =
     \<lparr>xo_symbol = mk_symbol (rn_market run), xo_side = side, xo_order_type = ''MARKET'',
      xo_status = StatusFilled, xo_order_id = None, xo_client_order_id = Some c,
      xo_requested_qty = requested, xo_requested_quote_qty = requested_quote,
      xo_executed_qty = Some executed, xo_cumulative_quote_qty = Some cumulative,
      xo_avg_price = Some (cd_close bar), xo_transact_time_ms = Some (cd_close_time_ms bar),
      xo_fills = Some []\<rparr>"

definition synthetic_market_order ::
  "'d decimal_ops \<Rightarrow> ('w, 'd, 'j) live_ports \<Rightarrow> 'd symbol_rules \<Rightarrow> target_position \<Rightarrow> 'd \<Rightarrow> 'd candle \<Rightarrow>
   ('w, 'd, 'j, 'd exchange_order) live_io" where
  "synthetic_market_order D P rules target quote_order_qty bar =
     io_bind lv_run_state (\<lambda>run.
       case target of
         LongAllIn \<Rightarrow>
           if dec_le D (cd_close bar) (dec_zero D)
           then io_fail (InvalidState ''cannot simulate market buy with non-positive reference price'')
           else io_bind (or_panic (dec_checked_div D quote_order_qty (cd_close bar))) (\<lambda>raw.
             io_bind (or_panic (maybe_round_qty D raw rules)) (\<lambda>qty.
             io_bind (or_panic (dec_checked_mul D qty (cd_close bar))) (\<lambda>cumulative.
             io_bind (new_client_order_id P ''dry'' (rn_run_id run)) (\<lambda>c.
               io_return (synthetic_order run Buy bar None (Some quote_order_qty) qty cumulative c)))))
       | FlatTarget \<Rightarrow>
           io_bind (or_panic (maybe_round_qty D (ps_qty (rn_position run)) rules)) (\<lambda>qty.
             io_bind (or_panic (dec_checked_mul D qty (cd_close bar))) (\<lambda>cumulative.
             io_bind (new_client_order_id P ''dry'' (rn_run_id run)) (\<lambda>c.
               io_return (synthetic_order run Sell bar (Some qty) None qty cumulative c)))))"

text \<open>A live buy is sized in the quote asset; a live sell is what is free, at most the position, on
  the lot step. \<open>None\<close>: the target is ignored because nothing can be sold.\<close>

definition submit_entry ::
  "('w, 'd, 'j) live_ports \<Rightarrow> ('w, 'd) signed_connectors \<Rightarrow> ('d, 'j) live_config \<Rightarrow>
   ('w, 'd, 'j, 'd exchange_order option) live_io" where
  "submit_entry P sg cfg =
     io_bind lv_run_state (\<lambda>run.
     io_bind (new_client_order_id P ''entry'' (rn_run_id run)) (\<lambda>c.
     io_bind (lv_call ExchangeFailed (sg_submit_market_order sg
         \<lparr>mo_symbol = mk_symbol (lc_market cfg), mo_side = Buy, mo_quantity = None,
          mo_quote_order_qty = Some (lc_quote_order_qty cfg), mo_new_client_order_id = Some c\<rparr>)) (\<lambda>ord.
       io_return (Some ord))))"

definition free_base_qty :: "'d decimal_ops \<Rightarrow> 'd symbol_rules \<Rightarrow> 'd asset_balance list \<Rightarrow> 'd" where
  "free_base_qty D rules balances =
     (case find (\<lambda>b. eq_ignore_ascii_case (ab_asset b) (sr_base_asset rules)) balances of
        None \<Rightarrow> dec_zero D | Some b \<Rightarrow> ab_free b)"

definition submit_exit ::
  "'d decimal_ops \<Rightarrow> ('w, 'd, 'j) live_ports \<Rightarrow> ('w, 'd) signed_connectors \<Rightarrow> ('d, 'j) live_config \<Rightarrow>
   'd symbol_rules \<Rightarrow> ('w, 'd, 'j, 'd exchange_order option) live_io" where
  "submit_exit D P sg cfg rules =
     io_bind (lv_call ExchangeFailed (sg_account_balances sg)) (\<lambda>balances.
     io_bind lv_run_state (\<lambda>run.
     io_bind (or_panic (maybe_round_qty D
         (dec_min D (free_base_qty D rules balances) (ps_qty (rn_position run))) rules)) (\<lambda>requested.
       if dec_le D requested (dec_zero D) then io_return None
       else if sell_qty_below_market_min D requested rules \<noteq> None then io_return None
       else (case sell_qty_above_market_max D requested rules of
           Some m \<Rightarrow> io_fail (InvalidState (''sell quantity '' @ dec_to_string D requested @
                '' exceeds exchange maximum '' @ dec_to_string D m))
         | None \<Rightarrow>
             io_bind (new_client_order_id P ''exit'' (rn_run_id run)) (\<lambda>c.
             io_bind (lv_call ExchangeFailed (sg_submit_market_order sg
                 \<lparr>mo_symbol = mk_symbol (lc_market cfg), mo_side = Sell, mo_quantity = Some requested,
                  mo_quote_order_qty = None, mo_new_client_order_id = Some c\<rparr>)) (\<lambda>ord.
               io_return (Some ord)))))))"

definition place_order ::
  "'d decimal_ops \<Rightarrow> ('w, 'd, 'j) live_ports \<Rightarrow> ('d, 'j) live_config \<Rightarrow> 'd symbol_rules \<Rightarrow> target_position \<Rightarrow>
   'd candle \<Rightarrow> ('w, 'd, 'j, 'd exchange_order option) live_io" where
  "place_order D P cfg rules target bar =
     (case lc_execution_mode cfg of
        DryRun \<Rightarrow> io_bind (synthetic_market_order D P rules target (lc_quote_order_qty cfg) bar)
          (\<lambda>ord. io_return (Some ord))
      | Live \<Rightarrow>
          (case lp_signed P of
             None \<Rightarrow> io_fail (InvalidConfig ''live mode requires a trading venue'')
           | Some sg \<Rightarrow>
               (case target of
                  LongAllIn \<Rightarrow> submit_entry P sg cfg
                | FlatTarget \<Rightarrow> submit_exit D P sg cfg rules)))"

section \<open>Recording what it did\<close>

text \<open>The position, then the store, then the journal's own error.\<close>

definition save_position ::
  "('w, 'd, 'j) live_ports \<Rightarrow> 'd position_state \<Rightarrow> engine_error + unit \<Rightarrow> ('w, 'd, 'j, unit) live_io" where
  "save_position P position event =
     io_bind (lv_update_run (rn_position_update (\<lambda>_. position))) (\<lambda>_.
     io_bind (lv_read (lp_now_utc_ms P)) (\<lambda>now.
     io_bind (lv_update_run (\<lambda>run. run\<lparr>rn_updated_at_ms := now, rn_status := Running, rn_last_error := None\<rparr>)) (\<lambda>_.
     io_bind lv_run_state (\<lambda>run.
     io_bind (lv_call StorageFailed (lp_save_run_state P run)) (\<lambda>_.
       io_result event)))))"

definition record_entry ::
  "'d decimal_ops \<Rightarrow> ('w, 'd, 'j) live_ports \<Rightarrow> 'd symbol_rules \<Rightarrow> 'd candle \<Rightarrow> 'd exchange_order \<Rightarrow>
   'd option \<Rightarrow> engine_error + unit \<Rightarrow> ('w, 'd, 'j, unit) live_io" where
  "record_entry D P rules bar ord avg event =
     (case xo_executed_qty ord of
        None \<Rightarrow> io_fail (InvalidState ''exchange did not report an executed quantity for entry order'')
      | Some executed \<Rightarrow>
          if dec_le D executed (dec_zero D) then io_result event
          else io_bind (or_panic (net_base_qty_after_base_fees D ord (sr_base_asset rules))) (\<lambda>net.
            let qty = (case net of Some q \<Rightarrow> q | None \<Rightarrow> executed)
            in if dec_le D qty (dec_zero D) then io_result event
               else save_position P
                 \<lparr>ps_qty = qty, ps_entry_price = avg,
                  ps_entry_time_ms = or_else (xo_transact_time_ms ord) (Some (cd_close_time_ms bar)),
                  ps_entry_order_id = xo_order_id ord\<rparr> event))"

definition position_after_exit ::
  "'d decimal_ops \<Rightarrow> 'd symbol_rules \<Rightarrow> 'd position_state \<Rightarrow> 'd \<Rightarrow> 'd position_state option" where
  "position_after_exit D rules before closed_qty =
     Option.bind (dec_checked_sub D (ps_qty before) closed_qty) (\<lambda>difference.
       let remaining = dec_max D difference (dec_zero D)
       in if dec_lt D (dec_zero D) remaining
          then map_option (\<lambda>dust. if \<not> dust then before\<lparr>ps_qty := remaining\<rparr> else position_flat D)
                 (is_dust_remnant D remaining rules)
          else Some (position_flat D))"

definition exit_trade ::
  "('d, 'j) live_config \<Rightarrow> 'd candle \<Rightarrow> 'd exchange_order \<Rightarrow> 'd position_state \<Rightarrow> 'd \<Rightarrow> 'd \<Rightarrow> 'd \<Rightarrow> 'd \<Rightarrow> 'd closed_trade"
where
  "exit_trade cfg bar ord before entry_price exit_price closed_qty pnl =
     \<lparr>ct_symbol = mk_symbol (lc_market cfg),
      ct_entry_time_ms = (case ps_entry_time_ms before of None \<Rightarrow> cd_open_time_ms bar | Some t \<Rightarrow> t),
      ct_exit_time_ms = (case xo_transact_time_ms ord of None \<Rightarrow> cd_close_time_ms bar | Some t \<Rightarrow> t),
      ct_entry_price = entry_price, ct_exit_price = exit_price, ct_qty = closed_qty,
      ct_gross_quote_pnl = pnl, ct_entry_order_id = ps_entry_order_id before,
      ct_exit_order_id = xo_order_id ord\<rparr>"

definition append_trade ::
  "'d decimal_ops \<Rightarrow> ('w, 'd, 'j) live_ports \<Rightarrow> ('d, 'j) live_config \<Rightarrow> 'd candle \<Rightarrow> 'd exchange_order \<Rightarrow>
   'd option \<Rightarrow> 'd position_state \<Rightarrow> 'd \<Rightarrow> ('w, 'd, 'j, unit) live_io" where
  "append_trade D P cfg bar ord avg before closed_qty =
     (case ps_entry_price before of
        None \<Rightarrow> io_fail (InvalidState ''position had no recorded entry price'')
      | Some entry_price \<Rightarrow>
          (case avg of
             None \<Rightarrow> io_fail (InvalidState ''exchange did not report a fill price for exit order'')
           | Some exit_price \<Rightarrow>
               io_bind (or_panic (Option.bind (dec_checked_sub D exit_price entry_price)
                   (\<lambda>difference. dec_checked_mul D difference closed_qty))) (\<lambda>pnl.
               io_bind lv_run_state (\<lambda>run.
               io_bind (lv_call StorageFailed (lp_append_closed_trade P (rn_run_id run)
                   (exit_trade cfg bar ord before entry_price exit_price closed_qty pnl))) (\<lambda>_.
                 lv_update_summary (\<lambda>s. s\<lparr>ls_closed_trades := Suc (ls_closed_trades s)\<rparr>))))))"

definition record_exit ::
  "'d decimal_ops \<Rightarrow> ('w, 'd, 'j) live_ports \<Rightarrow> ('d, 'j) live_config \<Rightarrow> 'd symbol_rules \<Rightarrow> 'd candle \<Rightarrow>
   'd exchange_order \<Rightarrow> 'd option \<Rightarrow> engine_error + unit \<Rightarrow> ('w, 'd, 'j, unit) live_io" where
  "record_exit D P cfg rules bar ord avg event =
     (case xo_executed_qty ord of
        None \<Rightarrow> io_fail (InvalidState ''exchange did not report an executed quantity for exit order'')
      | Some executed \<Rightarrow>
          io_bind lv_run_state (\<lambda>run.
            let before = rn_position run; closed_qty = dec_min D executed (ps_qty before)
            in if dec_le D closed_qty (dec_zero D) then io_result event
               else io_bind (or_panic (position_after_exit D rules before closed_qty)) (\<lambda>after.
                 io_bind (save_position P after event) (\<lambda>_.
                   append_trade D P cfg bar ord avg before closed_qty))))"

text \<open>After the order was placed. The log line that follows it reads its average price; the journal's
  error waits until the position has been saved.\<close>

definition journal_failed :: "string \<Rightarrow> engine_error" where
  "journal_failed e = InvalidState (''order executed but journaling the order event failed: '' @ e)"

definition record_order ::
  "'d decimal_ops \<Rightarrow> ('w, 'd, 'j) live_ports \<Rightarrow> ('d, 'j) live_config \<Rightarrow> 'd symbol_rules \<Rightarrow> target_position \<Rightarrow>
   'd candle \<Rightarrow> 'd exchange_order \<Rightarrow> ('w, 'd, 'j, unit) live_io" where
  "record_order D P cfg rules target bar ord =
     io_bind (or_panic (average_price D ord)) (\<lambda>avg.
     io_bind lv_run_state (\<lambda>run.
     io_bind (lv_try journal_failed (lp_append_order_event P (rn_run_id run) ord)) (\<lambda>event.
     io_bind (lv_update_summary (\<lambda>s. s\<lparr>ls_submitted_orders := Suc (ls_submitted_orders s)\<rparr>)) (\<lambda>_.
       case target of
         LongAllIn \<Rightarrow> record_entry D P rules bar ord avg event
       | FlatTarget \<Rightarrow> record_exit D P cfg rules bar ord avg event))))"

text \<open>The whole handler.\<close>

definition execute_target ::
  "'d decimal_ops \<Rightarrow> ('w, 'd, 'j) live_ports \<Rightarrow> ('d, 'j) live_config \<Rightarrow> 'd symbol_rules \<Rightarrow> target_position \<Rightarrow>
   'd candle \<Rightarrow> ('w, 'd, 'j, unit) live_io" where
  "execute_target D P cfg rules target bar =
     io_bind (if target = LongAllIn then io_result (ensure_entry_notional D rules (lc_quote_order_qty cfg))
              else io_return ()) (\<lambda>_.
     io_bind (place_order D P cfg rules target bar) (\<lambda>placed.
       case placed of
         None \<Rightarrow> io_return ()
       | Some ord \<Rightarrow> record_order D P cfg rules target bar ord))"

section \<open>Creating or resuming a run\<close>

definition require_account_for_live :: "('d, 'j) live_config \<Rightarrow> engine_error + unit" where
  "require_account_for_live cfg =
     (if lc_execution_mode cfg = Live \<and> ri_account (lc_identity cfg) = None
      then Inl (InvalidConfig ''a live run records the account behind its credentials'')
      else Inr ())"

definition apply_identity_check :: "run_identity \<Rightarrow> run_identity \<Rightarrow> engine_error + unit" where
  "apply_identity_check recorded current =
     map_err (\<lambda>err. InvalidConfig ''the run was recorded under another identity; refusing to resume'')
       (identity_matches recorded current)"

definition apply_resume_checks :: "('d, 'j) bot_run_state \<Rightarrow> ('d, 'j) live_config \<Rightarrow> engine_error + unit" where
  "apply_resume_checks existing cfg =
     (if rn_market existing \<noteq> lc_market cfg
      then Inl (InvalidConfig ''the run was recorded for another market; refusing to resume'')
      else if rn_strategy_name existing \<noteq> strategy_name (lc_strategy cfg)
      then Inl (InvalidConfig ''the run was recorded with another strategy; refusing to resume'')
      else if rn_strategy_config existing \<noteq> lc_strategy_config cfg
      then Inl (InvalidConfig ''the run was recorded with another strategy config; refusing to resume'')
      else if rn_execution_mode existing \<noteq> lc_execution_mode cfg
      then Inl (InvalidConfig ''the run was recorded in another mode; refusing to resume'')
      else Inr ())"

definition of_result :: "engine_error + 'a \<Rightarrow> ('w, 'a) io" where
  "of_result r w = (r, w)"

definition create_run_state ::
  "'d decimal_ops \<Rightarrow> ('w, 'd, 'j) live_ports \<Rightarrow> ('d, 'j) live_config \<Rightarrow> ('w, ('d, 'j) bot_run_state) io" where
  "create_run_state D P cfg w =
     (case lp_now_utc_ms P w of (now, w1) \<Rightarrow>
       (case (case lc_run_id cfg of
            Some i \<Rightarrow> (i, w1)
          | None \<Rightarrow> (case lp_uuid_simple P w1 of (u, w2) \<Rightarrow> (''qf-'' @ u, w2))) of (run_id, w3) \<Rightarrow>
         let state = \<lparr>rn_run_id = run_id, rn_market = lc_market cfg, rn_strategy_name = strategy_name (lc_strategy cfg),
               rn_strategy_config = lc_strategy_config cfg, rn_execution_mode = lc_execution_mode cfg,
               rn_status = Starting, rn_last_processed_open_time_ms = None, rn_started_at_ms = now,
               rn_updated_at_ms = now, rn_stopped_at_ms = None, rn_last_error = None,
               rn_position = position_flat D\<rparr>
         in io_bind (io_call StorageFailed (lp_create_run P state (lc_identity cfg)))
              (\<lambda>_. io_return state) w3))"

definition resume_run_state ::
  "('w, 'd, 'j) live_ports \<Rightarrow> ('d, 'j) live_config \<Rightarrow> string \<Rightarrow> ('w, ('d, 'j) bot_run_state option) io" where
  "resume_run_state P cfg run_id =
     io_bind (io_call StorageFailed (lp_load_run_state P run_id)) (\<lambda>found.
       case found of
         None \<Rightarrow> io_return None
       | Some existing \<Rightarrow>
           io_bind (of_result (apply_resume_checks existing cfg)) (\<lambda>_.
           io_bind (io_call StorageFailed (lp_run_identity P run_id)) (\<lambda>recorded.
             case recorded of
               None \<Rightarrow> io_fail (InvalidState ''the run has no identity record; refusing to resume'')
             | Some recorded \<Rightarrow>
                 io_bind (of_result (apply_identity_check recorded (lc_identity cfg))) (\<lambda>_.
                   io_return (Some existing)))))"

definition load_or_create_run_state ::
  "'d decimal_ops \<Rightarrow> ('w, 'd, 'j) live_ports \<Rightarrow> ('d, 'j) live_config \<Rightarrow> ('w, ('d, 'j) bot_run_state) io" where
  "load_or_create_run_state D P cfg =
     io_bind (of_result (require_account_for_live cfg)) (\<lambda>_.
     io_bind (case lc_run_id cfg of None \<Rightarrow> io_return None | Some run_id \<Rightarrow> resume_run_state P cfg run_id) (\<lambda>resumed.
       case resumed of
         Some existing \<Rightarrow> io_return existing
       | None \<Rightarrow> create_run_state D P cfg))"

definition current_target :: "'d decimal_ops \<Rightarrow> 'd position_state \<Rightarrow> target_position" where
  "current_target D position = (if position_is_open D position then LongAllIn else FlatTarget)"

section \<open>What a handler does\<close>

lemma lv_simps [simp]:
  "lv_run_state st = (Inr (lv_run st), st)"
  "lv_update_run f st = (Inr (), st\<lparr>lv_run := f (lv_run st)\<rparr>)"
  "lv_update_summary g st = (Inr (), st\<lparr>lv_summary := g (lv_summary st)\<rparr>)"
  by (simp_all add: live_io_defs)

lemma or_panic_simps [simp]: "or_panic None = io_fail EnginePanic" "or_panic (Some a) = io_return a"
  by (simp_all add: or_panic_def)

lemma io_result_simps [simp]: "io_result (Inl e) = io_fail e" "io_result (Inr a) = io_return a"
  by (simp_all add: io_result_def)

lemma io_result_eq: "io_result r st = (q, st') \<longleftrightarrow> q = r \<and> st' = st"
  by (cases r) auto

lemma new_client_order_id_bind:
  assumes "lp_uuid_simple P (lv_world st) = (nonce, w1)" and "lp_now_utc_ms P w1 = (now, w2)"
  shows "io_bind (new_client_order_id P tag run_id) f st =
    f (client_order_id_text tag run_id nonce now) (st\<lparr>lv_world := w2\<rparr>)"
  using assms by (simp add: new_client_order_id_def io_bind_def lv_read_def)

lemma save_position_result:
  assumes "save_position P position event st = (r, st')"
  shows "\<exists>w1 saved. lp_save_run_state P (lv_run st') w1 = (saved, lv_world st') \<and>
    rn_position (lv_run st') = position \<and> rn_run_id (lv_run st') = rn_run_id (lv_run st) \<and>
    (if saved = Inr () then r = event else \<exists>e. r = Inl (StorageFailed e))"
proof -
  obtain now w1 where now: "lp_now_utc_ms P (lv_world st) = (now, w1)" by (metis surj_pair)
  let ?run = "(lv_run st)\<lparr>rn_position := position, rn_updated_at_ms := now, rn_status := Running, rn_last_error := None\<rparr>"
  obtain saved w2 where saved: "lp_save_run_state P ?run w1 = (saved, w2)" by (metis surj_pair)
  have "lv_run st' = ?run \<and> lv_world st' = w2 \<and> r = (case saved of Inl e \<Rightarrow> Inl (StorageFailed e) | Inr _ \<Rightarrow> event)"
    using assms saved
    by (cases saved) (auto simp: save_position_def io_bind_def lv_read_def lv_call_def now io_result_eq)
  with saved show ?thesis
    by (intro exI [of _ w1] exI [of _ saved]) (cases saved; simp)
qed

lemma append_trade_result:
  assumes "append_trade D P cfg bar ord avg before closed_qty st = (r, st')"
  shows "lv_run st' = lv_run st \<and>
    (lv_world st' = lv_world st \<or>
     (\<exists>entry exit difference pnl res.
        lp_append_closed_trade P (rn_run_id (lv_run st))
          (exit_trade cfg bar ord before entry exit closed_qty pnl) (lv_world st) = (res, lv_world st') \<and>
        ps_entry_price before = Some entry \<and> avg = Some exit \<and>
        dec_checked_sub D exit entry = Some difference \<and> dec_checked_mul D difference closed_qty = Some pnl))"
proof (cases "\<exists>entry exit difference pnl. ps_entry_price before = Some entry \<and> avg = Some exit \<and>
    dec_checked_sub D exit entry = Some difference \<and> dec_checked_mul D difference closed_qty = Some pnl")
  case True
  then obtain entry exit difference pnl where known: "ps_entry_price before = Some entry" "avg = Some exit"
    "dec_checked_sub D exit entry = Some difference" "dec_checked_mul D difference closed_qty = Some pnl" by blast
  obtain res w where call: "lp_append_closed_trade P (rn_run_id (lv_run st))
      (exit_trade cfg bar ord before entry exit closed_qty pnl) (lv_world st) = (res, w)" by (metis surj_pair)
  have "lv_run st' = lv_run st \<and> lv_world st' = w"
    using assms known call by (cases res) (auto simp: append_trade_def io_bind_def lv_call_def)
  with known call show ?thesis by blast
next
  case False
  with assms have "st' = st"
    by (cases "ps_entry_price before"; cases avg)
      (auto simp: append_trade_def io_bind_def or_panic_def bind_eq_Some_conv split: option.splits prod.splits sum.splits)
  then show ?thesis by simp
qed

text \<open>What a handler leaves as it was: \<open>f\<close> reads a part of the state, and placing an order leaves the run
  state alone.\<close>

definition keeps :: "(('w, 'd, 'j) live_state \<Rightarrow> 'x) \<Rightarrow> ('w, 'd, 'j, 'a) live_io \<Rightarrow> bool" where
  "keeps f m \<longleftrightarrow> (\<forall>st. f (snd (m st)) = f st)"

lemma keeps_pure [intro, simp]:
  "keeps f (io_return a)" "keeps f (io_fail e)" "keeps f lv_run_state" "keeps f (or_panic x)" "keeps f (io_result r)"
  by (simp_all add: keeps_def or_panic_def io_result_def split: option.splits sum.splits)

lemma keeps_world [intro]:
  assumes "\<And>st w. f (st\<lparr>lv_world := w\<rparr>) = f st"
  shows "keeps f (lv_call wrap call)" "keeps f (lv_read read)" "keeps f (lv_try wrap' call')"
  using assms by (simp_all add: keeps_def live_io_defs split: prod.splits)

lemma keeps_update [intro]:
  "(\<And>st. f (st\<lparr>lv_run := g (lv_run st)\<rparr>) = f st) \<Longrightarrow> keeps f (lv_update_run g)"
  "(\<And>st. f (st\<lparr>lv_summary := h (lv_summary st)\<rparr>) = f st) \<Longrightarrow> keeps f (lv_update_summary h)"
  by (simp_all add: keeps_def)

lemma keeps_bind [intro]:
  "keeps f m \<Longrightarrow> (\<And>a. keeps f (k a)) \<Longrightarrow> keeps f (io_bind m k)"
  by (auto simp: keeps_def io_bind_def split: prod.splits sum.splits) (metis snd_conv)+

lemma keeps_cases [intro]:
  "(b \<Longrightarrow> keeps f m) \<Longrightarrow> (\<not> b \<Longrightarrow> keeps f n) \<Longrightarrow> keeps f (if b then m else n)"
  "(x = None \<Longrightarrow> keeps f m) \<Longrightarrow> (\<And>a. x = Some a \<Longrightarrow> keeps f (k a)) \<Longrightarrow>
   keeps f (case x of None \<Rightarrow> m | Some a \<Rightarrow> k a)"
  "(t = FlatTarget \<Longrightarrow> keeps f m) \<Longrightarrow> (t = LongAllIn \<Longrightarrow> keeps f n) \<Longrightarrow>
   keeps f (case t of FlatTarget \<Rightarrow> m | LongAllIn \<Rightarrow> n)"
  "(mode = DryRun \<Longrightarrow> keeps f m) \<Longrightarrow> (mode = Live \<Longrightarrow> keeps f n) \<Longrightarrow>
   keeps f (case mode of DryRun \<Rightarrow> m | Live \<Rightarrow> n)"
  by (auto split: option.splits target_position.splits execution_mode.splits)

lemma keepsD: "keeps f m \<Longrightarrow> m st = (r, st') \<Longrightarrow> f st' = f st"
  unfolding keeps_def by (metis snd_conv)

lemma keeps_place_order:
  assumes "\<And>st w. f (st\<lparr>lv_world := w\<rparr>) = f st"
  shows "keeps f (place_order D P cfg rules target bar)"
  unfolding place_order_def synthetic_market_order_def submit_entry_def submit_exit_def new_client_order_id_def
  by (intro keeps_bind keeps_pure keeps_cases keeps_world assms)

lemma keeps_record_order:
  assumes "\<And>st w. f (st\<lparr>lv_world := w\<rparr>) = f st"
    and "\<And>st g. f (st\<lparr>lv_run := rn_position_update g (lv_run st)\<rparr>) = f st"
    and "\<And>st t. f (st\<lparr>lv_run := (lv_run st)\<lparr>rn_updated_at_ms := t, rn_status := Running, rn_last_error := None\<rparr>\<rparr>) = f st"
    and "\<And>st n. f (st\<lparr>lv_summary := (lv_summary st)\<lparr>ls_submitted_orders := n\<rparr>\<rparr>) = f st"
    and "\<And>st n. f (st\<lparr>lv_summary := (lv_summary st)\<lparr>ls_closed_trades := n\<rparr>\<rparr>) = f st"
  shows "keeps f (record_order D P cfg rules target bar ord)"
  unfolding record_order_def record_entry_def record_exit_def save_position_def append_trade_def Let_def
  by (intro keeps_bind keeps_pure keeps_cases keeps_world keeps_update assms)

text \<open>What the recording of an order leaves behind.\<close>

definition stored :: "('w, 'd, 'j) live_ports \<Rightarrow> ('w, 'd, 'j) live_state \<Rightarrow> ('w, 'd, 'j) live_state \<Rightarrow> bool" where
  "stored P st st' \<longleftrightarrow>
     rn_run_id (lv_run st') = rn_run_id (lv_run st) \<and>
     (\<exists>w1 saved. lp_save_run_state P (lv_run st') w1 = (saved, lv_world st'))"

lemma record_entry_result:
  assumes "record_entry D P rules bar ord avg event st = (r, st')"
  shows "st' = st \<or> stored P st st'"
  using assms
  by (auto simp: record_entry_def Let_def io_bind_def or_panic_def io_result_eq stored_def
      dest!: save_position_result split: option.splits if_splits)

lemma record_exit_result:
  assumes "record_exit D P cfg rules bar ord avg event st = (r, st')"
  shows "st' = st \<or>
    (\<exists>v. stored P st v \<and> lv_run st' = lv_run v \<and>
       (lv_world st' = lv_world v \<or>
        (\<exists>entry exit difference pnl res closed_qty.
           lp_append_closed_trade P (rn_run_id (lv_run st))
             (exit_trade cfg bar ord (rn_position (lv_run st)) entry exit closed_qty pnl) (lv_world v) =
             (res, lv_world st') \<and>
           ps_entry_price (rn_position (lv_run st)) = Some entry \<and> avg = Some exit \<and>
           dec_checked_sub D exit entry = Some difference \<and> dec_checked_mul D difference closed_qty = Some pnl)))"
proof (cases "xo_executed_qty ord")
  case None
  with assms show ?thesis by (simp add: record_exit_def)
next
  case (Some executed)
  let ?before = "rn_position (lv_run st)"
  let ?closed = "dec_min D executed (ps_qty ?before)"
  show ?thesis
  proof (cases "dec_le D ?closed (dec_zero D) \<or> position_after_exit D rules ?before ?closed = None")
    case True
    with assms Some show ?thesis
      by (auto simp: record_exit_def io_bind_def Let_def io_result_eq split: if_splits)
  next
    case False
    then obtain after where after: "position_after_exit D rules ?before ?closed = Some after" by blast
    obtain q v where v: "save_position P after event st = (q, v)" by (metis surj_pair)
    from save_position_result [OF v] have stored: "stored P st v" by (auto simp: stored_def)
    show ?thesis
    proof (cases q)
      case (Inl e)
      with assms Some False after v have "st' = v" by (simp add: record_exit_def io_bind_def Let_def)
      with stored show ?thesis by blast
    next
      case (Inr u)
      with assms Some False after v have a: "append_trade D P cfg bar ord avg ?before ?closed v = (r, st')"
        by (simp add: record_exit_def io_bind_def Let_def)
      from append_trade_result [OF a] stored show ?thesis unfolding stored_def by metis
    qed
  qed
qed

lemma record_order_result:
  assumes "record_order D P cfg rules target bar ord st = (r, st')" and avg: "average_price D ord = Some avg"
  shows "lv_run st' = lv_run st \<or>
    (\<exists>w1 saved w2. lp_save_run_state P (lv_run st') w1 = (saved, w2) \<and>
       (lv_world st' = w2 \<or>
        (\<exists>entry exit closed_qty difference pnl res.
           lp_append_closed_trade P (rn_run_id (lv_run st))
             (exit_trade cfg bar ord (rn_position (lv_run st)) entry exit closed_qty pnl) w2 = (res, lv_world st') \<and>
           target = FlatTarget \<and> ps_entry_price (rn_position (lv_run st)) = Some entry \<and>
           average_price D ord = Some (Some exit) \<and> dec_checked_sub D exit entry = Some difference \<and>
           dec_checked_mul D difference closed_qty = Some pnl)))"
proof -
  obtain event w where event: "lp_append_order_event P (rn_run_id (lv_run st)) ord (lv_world st) = (event, w)"
    by (metis surj_pair)
  let ?event = "map_err journal_failed event"
  let ?v = "st\<lparr>lv_world := w, lv_summary := (lv_summary st)\<lparr>ls_submitted_orders := Suc (ls_submitted_orders (lv_summary st))\<rparr>\<rparr>"
  have run: "lv_run ?v = lv_run st" by simp
  have stored: "stored P ?v u \<Longrightarrow> stored P st u" for u by (simp add: stored_def)
  have rest: "(case target of LongAllIn \<Rightarrow> record_entry D P rules bar ord avg ?event
      | FlatTarget \<Rightarrow> record_exit D P cfg rules bar ord avg ?event) ?v = (r, st')"
    using assms event by (simp add: record_order_def io_bind_def lv_try_def)
  show ?thesis
  proof (cases target)
    case LongAllIn
    with rest have "record_entry D P rules bar ord avg ?event ?v = (r, st')" by simp
    from record_entry_result [OF this] run show ?thesis unfolding stored_def by blast
  next
    case FlatTarget
    with rest have "record_exit D P cfg rules bar ord avg ?event ?v = (r, st')" by simp
    from record_exit_result [OF this] consider "st' = ?v"
      | u where "stored P ?v u" "lv_run st' = lv_run u" "lv_world st' = lv_world u"
      | u entry exit difference pnl res closed_qty where "stored P ?v u" "lv_run st' = lv_run u"
        "lp_append_closed_trade P (rn_run_id (lv_run st))
           (exit_trade cfg bar ord (rn_position (lv_run st)) entry exit closed_qty pnl) (lv_world u) =
         (res, lv_world st')"
        "ps_entry_price (rn_position (lv_run st)) = Some entry" "avg = Some exit"
        "dec_checked_sub D exit entry = Some difference" "dec_checked_mul D difference closed_qty = Some pnl"
      unfolding run by blast
    then show ?thesis
    proof cases
      case 2
      then show ?thesis unfolding stored_def by metis
    next
      case 3
      then obtain w1 saved where "lp_save_run_state P (lv_run st') w1 = (saved, lv_world u)"
        unfolding stored_def by metis
      with 3 FlatTarget avg show ?thesis by blast
    qed simp
  qed
qed

text \<open>The orders that may reach a venue.\<close>

definition order_allowed ::
  "'d decimal_ops \<Rightarrow> ('d, 'j) live_config \<Rightarrow> 'd symbol_rules \<Rightarrow> 'd market_order_request \<Rightarrow> bool" where
  "order_allowed D cfg rules req \<longleftrightarrow>
     mo_symbol req = mk_symbol (lc_market cfg) \<and>
     (case mo_new_client_order_id req of None \<Rightarrow> False | Some c \<Rightarrow> length c \<le> 36) \<and>
     (case mo_side req of
        Buy \<Rightarrow> mo_quantity req = None \<and> mo_quote_order_qty req = Some (lc_quote_order_qty cfg) \<and>
          (case sr_min_notional rules of None \<Rightarrow> True | Some m \<Rightarrow> dec_val D m \<le> dec_val D (lc_quote_order_qty cfg))
      | Sell \<Rightarrow> mo_quote_order_qty req = None \<and>
          (case mo_quantity req of
             None \<Rightarrow> False
           | Some q \<Rightarrow> 0 < dec_val D q \<and>
               (case effective_market_min_qty rules of None \<Rightarrow> True | Some m \<Rightarrow> dec_val D m \<le> dec_val D q) \<and>
               (case effective_market_max_qty rules of None \<Rightarrow> True | Some m \<Rightarrow> dec_val D q \<le> dec_val D m)))"

definition guarded ::
  "'d decimal_ops \<Rightarrow> ('d, 'j) live_config \<Rightarrow> 'd symbol_rules \<Rightarrow> ('w, 'd) signed_connectors \<Rightarrow>
   ('w, 'd) signed_connectors" where
  "guarded D cfg rules sg = sg\<lparr>sg_submit_market_order :=
     \<lambda>req w. if order_allowed D cfg rules req then sg_submit_market_order sg req w else (Inl ''not allowed'', w)\<rparr>"

lemma nat_string_length: "n < 10 ^ k \<Longrightarrow> 0 < k \<Longrightarrow> length (nat_string n) \<le> k"
proof (induction n arbitrary: k rule: nat_string.induct)
  case (1 n)
  show ?case
  proof (cases "n < 10")
    case True
    with "1.prems" show ?thesis by (simp add: nat_string.simps)
  next
    case False
    obtain j where k: "k = Suc j" using "1.prems" by (cases k) auto
    with "1.prems" False have "0 < j" by (cases j) auto
    moreover have "n div 10 < 10 ^ j" using "1.prems" k by (simp add: less_mult_imp_div_less mult.commute)
    ultimately show ?thesis using "1.IH" [OF False, of j] False k by (subst nat_string.simps) simp
  qed
qed

lemma int_string_length: "\<bar>n\<bar> < 10 ^ k \<Longrightarrow> 0 < k \<Longrightarrow> length (int_string n) \<le> Suc k"
proof -
  assume n: "\<bar>n\<bar> < 10 ^ k" "0 < k"
  then have "int (nat \<bar>n\<bar>) < int (10 ^ k)" by simp
  then have "nat \<bar>n\<bar> < 10 ^ k" by (simp only: of_nat_less_iff)
  from nat_string_length [OF this n(2)] show ?thesis by (auto simp: int_string_def abs_if split: if_splits)
qed

lemma sanitize_length: "3 \<le> k \<Longrightarrow> length (sanitize_client_order_id_fragment t k) \<le> k"
  by (simp add: sanitize_client_order_id_fragment_def Let_def)

lemma client_order_id_text_length: "length (client_order_id_text tag i nonce now) \<le> 36"
proof -
  have "\<bar>i64_rem now 100000000\<bar> < 10 ^ 8" by (auto simp: i64_rem_def)
  from int_string_length [OF this] have "length (int_string (i64_rem now 100000000)) \<le> 9" by simp
  moreover have "length (sanitize_client_order_id_fragment tag 5) \<le> 5"
    and "length (sanitize_client_order_id_fragment i 8) \<le> 8" by (rule sanitize_length; simp)+
  ultimately show ?thesis by (simp add: client_order_id_text_def)
qed

lemma guarded_entry:
  assumes "decimal_laws D" and "ensure_entry_notional D rules (lc_quote_order_qty cfg) = Inr ()"
  shows "submit_entry P (guarded D cfg rules sg) cfg st = submit_entry P sg cfg st"
proof -
  obtain nonce w1 where n: "lp_uuid_simple P (lv_world st) = (nonce, w1)" by (metis surj_pair)
  obtain now w2 where t: "lp_now_utc_ms P w1 = (now, w2)" by (metis surj_pair)
  have "case sr_min_notional rules of None \<Rightarrow> True | Some m \<Rightarrow> dec_val D m \<le> dec_val D (lc_quote_order_qty cfg)"
    using assms by (auto simp: ensure_entry_notional_def dec_vals split: option.splits if_splits)
  then have allowed: "order_allowed D cfg rules
      \<lparr>mo_symbol = mk_symbol (lc_market cfg), mo_side = Buy, mo_quantity = None,
       mo_quote_order_qty = Some (lc_quote_order_qty cfg),
       mo_new_client_order_id = Some (client_order_id_text ''entry'' (rn_run_id (lv_run st)) nonce now)\<rparr>"
    by (simp add: order_allowed_def client_order_id_text_length)
  show ?thesis
    unfolding submit_entry_def
    by (simp add: io_bind_def lv_call_def new_client_order_id_def lv_read_def n t guarded_def allowed)
qed

lemma guarded_exit:
  assumes "decimal_laws D"
  shows "submit_exit D P (guarded D cfg rules sg) cfg rules st = submit_exit D P sg cfg rules st"
proof -
  obtain b w where b: "sg_account_balances sg (lv_world st) = (b, w)" by (metis surj_pair)
  obtain nonce w1 where n: "lp_uuid_simple P w = (nonce, w1)" by (metis surj_pair)
  obtain now w2 where t: "lp_now_utc_ms P w1 = (now, w2)" by (metis surj_pair)
  have allowed: "order_allowed D cfg rules
      \<lparr>mo_symbol = mk_symbol (lc_market cfg), mo_side = Sell, mo_quantity = Some q,
       mo_quote_order_qty = None,
       mo_new_client_order_id = Some (client_order_id_text ''exit'' (rn_run_id (lv_run st)) nonce now)\<rparr>"
    if "\<not> dec_le D q (dec_zero D)" "sell_qty_below_market_min D q rules = None"
      "sell_qty_above_market_max D q rules = None" for q
    using that assms
    by (auto simp: order_allowed_def client_order_id_text_length sell_qty_below_market_min_def
        sell_qty_above_market_max_def dec_vals split: option.splits if_splits)
  have balances: "sg_account_balances (guarded D cfg rules sg) = sg_account_balances sg"
    by (simp add: guarded_def)
  show ?thesis
  proof (cases b)
    case (Inr balances)
    then show ?thesis
      unfolding submit_exit_def
      by (cases "maybe_round_qty D (dec_min D (free_base_qty D rules balances) (ps_qty (rn_position (lv_run st)))) rules")
        (auto simp: io_bind_def lv_call_def new_client_order_id_def lv_read_def b n t balances guarded_def
          allowed split: option.splits)
  qed (simp add: submit_exit_def io_bind_def lv_call_def b balances)
qed

text \<open>Nothing but the placing of a live order looks at the venue.\<close>

lemma signed_fields:
  "lp_uuid_simple (P\<lparr>lp_signed := x\<rparr>) = lp_uuid_simple P" "lp_now_utc_ms (P\<lparr>lp_signed := x\<rparr>) = lp_now_utc_ms P"
  "lp_save_run_state (P\<lparr>lp_signed := x\<rparr>) = lp_save_run_state P"
  "lp_append_closed_trade (P\<lparr>lp_signed := x\<rparr>) = lp_append_closed_trade P"
  "lp_append_order_event (P\<lparr>lp_signed := x\<rparr>) = lp_append_order_event P"
  by simp_all

lemma signed_ids [simp]: "new_client_order_id (P\<lparr>lp_signed := x\<rparr>) = new_client_order_id P"
  by (intro ext) (unfold new_client_order_id_def signed_fields, rule refl)

lemma signed_entry [simp]: "submit_entry (P\<lparr>lp_signed := x\<rparr>) = submit_entry P"
  by (intro ext) (unfold submit_entry_def signed_ids, rule refl)

lemma signed_exit [simp]: "submit_exit D (P\<lparr>lp_signed := x\<rparr>) = submit_exit D P"
  by (intro ext) (unfold submit_exit_def signed_ids, rule refl)

lemma signed_dry [simp]: "synthetic_market_order D (P\<lparr>lp_signed := x\<rparr>) = synthetic_market_order D P"
  by (intro ext) (unfold synthetic_market_order_def signed_ids, rule refl)

lemma signed_record_entry [simp]: "record_entry D (P\<lparr>lp_signed := x\<rparr>) = record_entry D P"
  by (intro ext) (unfold record_entry_def save_position_def signed_fields, rule refl)

lemma signed_record_exit [simp]: "record_exit D (P\<lparr>lp_signed := x\<rparr>) = record_exit D P"
  by (intro ext) (unfold record_exit_def save_position_def append_trade_def signed_fields, rule refl)

lemma signed_record_order [simp]: "record_order D (P\<lparr>lp_signed := x\<rparr>) = record_order D P"
  by (intro ext) (unfold record_order_def signed_record_entry signed_record_exit signed_fields, rule refl)

text \<open>So two venues that place the same orders give the same handler.\<close>

lemma execute_target_venue:
  assumes "\<And>v. (target = LongAllIn \<Longrightarrow> ensure_entry_notional D rules (lc_quote_order_qty cfg) = Inr ()) \<Longrightarrow>
    place_order D (P\<lparr>lp_signed := x\<rparr>) cfg rules target bar v = place_order D P cfg rules target bar v"
  shows "execute_target D (P\<lparr>lp_signed := x\<rparr>) cfg rules target bar = execute_target D P cfg rules target bar"
proof
  fix st
  have "io_bind (place_order D (P\<lparr>lp_signed := x\<rparr>) cfg rules target bar) f v =
      io_bind (place_order D P cfg rules target bar) f v"
    if "target = LongAllIn \<Longrightarrow> ensure_entry_notional D rules (lc_quote_order_qty cfg) = Inr ()" for f v
    using assms [OF that] by (simp add: io_bind_def)
  then show "execute_target D (P\<lparr>lp_signed := x\<rparr>) cfg rules target bar st = execute_target D P cfg rules target bar st"
    unfolding execute_target_def signed_record_order
    by (cases "target = LongAllIn"; cases "ensure_entry_notional D rules (lc_quote_order_qty cfg)") simp_all
qed

section \<open>Properties\<close>

text \<open>C1: the orders that reach the venue respect its rules: a venue that refused every order of another
  symbol, with a client id over 36 bytes, a buy below the minimum notional or of another amount, or a
  sell that is not positive or outside the market-order limits, would never notice a difference. In a
  dry run any venue at all, or none, makes no difference.\<close>

theorem orders_respect_the_rules:
  assumes "decimal_laws D"
  shows "execute_target D (P\<lparr>lp_signed := map_option (guarded D cfg rules) (lp_signed P)\<rparr>) cfg rules target bar =
      execute_target D P cfg rules target bar \<and>
    execute_target D (P\<lparr>lp_signed := x\<rparr>) (cfg\<lparr>lc_execution_mode := DryRun\<rparr>) rules target bar =
      execute_target D P (cfg\<lparr>lc_execution_mode := DryRun\<rparr>) rules target bar"
proof
  show "execute_target D (P\<lparr>lp_signed := map_option (guarded D cfg rules) (lp_signed P)\<rparr>) cfg rules target bar =
      execute_target D P cfg rules target bar"
  proof (rule execute_target_venue)
    fix v
    assume notional: "target = LongAllIn \<Longrightarrow> ensure_entry_notional D rules (lc_quote_order_qty cfg) = Inr ()"
    show "place_order D (P\<lparr>lp_signed := map_option (guarded D cfg rules) (lp_signed P)\<rparr>) cfg rules target bar v =
        place_order D P cfg rules target bar v"
      using notional guarded_entry [OF assms] guarded_exit [OF assms]
      by (cases target; cases "lp_signed P"; cases "lc_execution_mode cfg") (simp_all add: place_order_def)
  qed
  show "execute_target D (P\<lparr>lp_signed := x\<rparr>) (cfg\<lparr>lc_execution_mode := DryRun\<rparr>) rules target bar =
      execute_target D P (cfg\<lparr>lc_execution_mode := DryRun\<rparr>) rules target bar"
    by (rule execute_target_venue) (simp add: place_order_def)
qed

text \<open>A venue that fills what it is asked for at 100, a journal whose order events always fail, and a store
  that counts its writes.\<close>

definition sample_venue :: "(nat, sdec) signed_connectors" where
  "sample_venue =
     \<lparr>sg_submit_market_order = (\<lambda>req w. (Inr
        \<lparr>xo_symbol = mo_symbol req, xo_side = mo_side req, xo_order_type = ''MARKET'', xo_status = StatusFilled,
         xo_order_id = Some (VenueOrderId ''1''), xo_client_order_id = mo_new_client_order_id req,
         xo_requested_qty = None, xo_requested_quote_qty = mo_quote_order_qty req,
         xo_executed_qty = Some (s_of 2 0), xo_cumulative_quote_qty = Some (s_of 200 0), xo_avg_price = None,
         xo_transact_time_ms = Some 7, xo_fills = Some []\<rparr>, w)),
      sg_account_balances = (\<lambda>w. (Inr [], w))\<rparr>"

definition sample_live :: "(nat, sdec, unit) live_ports" where
  "sample_live =
     \<lparr>lp_now_utc_ms = (\<lambda>w. (5, w)), lp_uuid_simple = (\<lambda>w. (''0123456789abcdef'', w)),
      lp_signed = Some sample_venue, lp_create_run = (\<lambda>_ _ w. (Inr (), Suc w)),
      lp_load_run_state = (\<lambda>_ w. (Inr None, w)), lp_run_identity = (\<lambda>_ w. (Inr None, w)),
      lp_save_run_state = (\<lambda>_ w. (Inr (), Suc w)), lp_append_order_event = (\<lambda>_ _ w. (Inl ''disk full'', w)),
      lp_append_closed_trade = (\<lambda>_ _ w. (Inr (), Suc w))\<rparr>"

definition sample_live_config :: "(sdec, unit) live_config" where
  "sample_live_config =
     \<lparr>lc_market = sample_market, lc_strategy = SmaCross 1 2, lc_strategy_config = (),
      lc_execution_mode = Live,
      lc_identity = run_identity_recorded (Some Testnet) (Some (VenueIssued (IssuedAccountId ''42''))),
      lc_quote_order_qty = s_of 200 0, lc_bootstrap_bars = 2, lc_bootstrap_enter = False,
      lc_batch_limit = 500, lc_run_id = Some ''r'', lc_max_loops = Some 1\<rparr>"

definition sample_rules :: "sdec symbol_rules" where
  "sample_rules =
     \<lparr>sr_symbol = Symbol ''BTCUSDT'', sr_base_asset = ''BTC'', sr_quote_asset = ''USDT'', sr_min_qty = None,
      sr_max_qty = None, sr_step_size = Some (s_of 1 0), sr_market_min_qty = None, sr_market_max_qty = None,
      sr_market_step_size = None, sr_min_notional = Some (s_of 10 0), sr_tick_size = None\<rparr>"

definition sample_run :: "(sdec, unit) bot_run_state" where
  "sample_run =
     \<lparr>rn_run_id = ''r'', rn_market = sample_market, rn_strategy_name = ''sma_cross'', rn_strategy_config = (),
      rn_execution_mode = Live, rn_status = Starting, rn_last_processed_open_time_ms = None,
      rn_started_at_ms = 5, rn_updated_at_ms = 5, rn_stopped_at_ms = None, rn_last_error = None,
      rn_position = position_flat sample_dec\<rparr>"

definition sample_live_state :: "(nat, sdec, unit) live_state" where
  "sample_live_state =
     \<lparr>lv_run = sample_run,
      lv_summary = \<lparr>ls_run_id = [], ls_processed_bars = 0, ls_submitted_orders = 0, ls_closed_trades = 0,
        ls_last_processed_open_time_ms = None\<rparr>,
      lv_world = 0\<rparr>"

theorem orders_respect_the_rules_witness:
  "execute_target sample_dec (sample_live\<lparr>lp_signed := map_option (guarded sample_dec sample_live_config sample_rules)
       (lp_signed sample_live)\<rparr>) sample_live_config sample_rules LongAllIn (sample_candle 0 100 100) =
   execute_target sample_dec sample_live sample_live_config sample_rules LongAllIn (sample_candle 0 100 100)"
  using orders_respect_the_rules [OF sample_dec_laws] by blast



lemma sample_buy:
  "execute_target sample_dec sample_live sample_live_config sample_rules LongAllIn (sample_candle 0 100 100) sample_live_state =
    (Inl (journal_failed ''disk full''),
     sample_live_state\<lparr>lv_run := sample_run\<lparr>rn_status := Running, rn_position :=
         \<lparr>ps_qty = s_of 2 0, ps_entry_price = Some (s_of 100 0), ps_entry_time_ms = Some 7,
          ps_entry_order_id = Some (VenueOrderId ''1'')\<rparr>\<rparr>,
       lv_summary := (lv_summary sample_live_state)\<lparr>ls_submitted_orders := 1\<rparr>, lv_world := 1\<rparr>)"
  by code_simp


text \<open>C5: a buy the exchange executed is in the store even when its journaling failed: once the order's
  executed quantity leaves something after the fees charged in the base asset, the position recorded is
  exactly that, at the order's price and id, it is the last thing given to the store, and only then is
  the journal's failure reported.\<close>

theorem executed_buys_are_recorded:
  assumes "place_order D P cfg rules LongAllIn bar st = (Inr (Some ord), v)"
    and "ensure_entry_notional D rules (lc_quote_order_qty cfg) = Inr ()"
    and "average_price D ord = Some avg" and "xo_executed_qty ord = Some executed"
    and "net_base_qty_after_base_fees D ord (sr_base_asset rules) = Some net"
    and "qty = (case net of Some q \<Rightarrow> q | None \<Rightarrow> executed)"
    and "\<not> dec_le D executed (dec_zero D)" and "\<not> dec_le D qty (dec_zero D)"
    and "\<And>run w. fst (lp_save_run_state P run w) = Inr ()"
    and "lp_append_order_event P (rn_run_id (lv_run st)) ord (lv_world v) = (event, w)"
  shows "\<exists>st' w1. execute_target D P cfg rules LongAllIn bar st = (map_err journal_failed event, st') \<and>
    rn_position (lv_run st') = \<lparr>ps_qty = qty, ps_entry_price = avg,
      ps_entry_time_ms = or_else (xo_transact_time_ms ord) (Some (cd_close_time_ms bar)),
      ps_entry_order_id = xo_order_id ord\<rparr> \<and>
    lp_save_run_state P (lv_run st') w1 = (Inr (), lv_world st')"
proof -
  let ?event = "map_err journal_failed event"
  let ?position = "\<lparr>ps_qty = qty, ps_entry_price = avg,
      ps_entry_time_ms = or_else (xo_transact_time_ms ord) (Some (cd_close_time_ms bar)),
      ps_entry_order_id = xo_order_id ord\<rparr>"
  let ?v = "v\<lparr>lv_world := w, lv_summary := (lv_summary v)\<lparr>ls_submitted_orders := Suc (ls_submitted_orders (lv_summary v))\<rparr>\<rparr>"
  have run_v: "lv_run v = lv_run st" by (rule keepsD [OF keeps_place_order assms(1)]) simp
  obtain r st' where saved: "save_position P ?position ?event ?v = (r, st')" by (metis surj_pair)
  have "execute_target D P cfg rules LongAllIn bar st = (r, st')"
    using assms saved run_v
    by (simp add: execute_target_def record_order_def record_entry_def io_bind_def lv_try_def Let_def)
  with save_position_result [OF saved] assms(9) show ?thesis by (metis fst_conv)
qed

theorem executed_buys_are_recorded_witness:
  "\<exists>st'. execute_target sample_dec sample_live sample_live_config sample_rules LongAllIn
       (sample_candle 0 100 100) sample_live_state = (Inl (journal_failed ''disk full''), st') \<and>
     ps_qty (rn_position (lv_run st')) = s_of 2 0"
proof -
  let ?placed = "place_order sample_dec sample_live sample_live_config sample_rules LongAllIn
    (sample_candle 0 100 100) sample_live_state"
  obtain ord v where placed: "?placed = (Inr (Some ord), v)"
    and ord: "average_price sample_dec ord = Some (Some (s_of 100 0))" "xo_executed_qty ord = Some (s_of 2 0)"
      "net_base_qty_after_base_fees sample_dec ord (sr_base_asset sample_rules) = Some (Some (s_of 2 0))"
  proof -
    have "case fst ?placed of Inr (Some ord) \<Rightarrow> average_price sample_dec ord = Some (Some (s_of 100 0)) \<and>
        xo_executed_qty ord = Some (s_of 2 0) \<and>
        net_base_qty_after_base_fees sample_dec ord (sr_base_asset sample_rules) = Some (Some (s_of 2 0)) | _ \<Rightarrow> False"
      by code_simp
    then show ?thesis
      using that by (cases ?placed) (auto split: sum.splits option.splits)
  qed
  have "ensure_entry_notional sample_dec sample_rules (lc_quote_order_qty sample_live_config) = Inr ()"
    "\<not> dec_le sample_dec (s_of 2 0) (dec_zero sample_dec)" by code_simp+
  note given = placed this(1) ord _ this(2) this(2)
  from executed_buys_are_recorded [OF given(1-5) _ given(7,8)]
  have "\<exists>st' w1. execute_target sample_dec sample_live sample_live_config sample_rules LongAllIn
      (sample_candle 0 100 100) sample_live_state = (map_err journal_failed (Inl ''disk full''), st') \<and>
     ps_qty (rn_position (lv_run st')) = s_of 2 0"
    by (fastforce simp: sample_live_def)
  then show ?thesis by auto
qed

text \<open>C6: a run is driven only by the configuration that recorded it. What starting a run returns has the
  market, strategy, strategy parameters and mode of the invocation, a live one always names an account,
  and it is either the stored run of the id asked for, whose recorded identity matches the invocation's, or
  a new flat run, starting, which the store has been given under the invocation's identity.\<close>

theorem runs_resume_only_as_recorded:
  assumes "load_or_create_run_state D P cfg w = (Inr run, w')"
  shows "(lc_execution_mode cfg = DryRun \<or> ri_account (lc_identity cfg) \<noteq> None) \<and>
    rn_market run = lc_market cfg \<and> rn_strategy_name run = strategy_name (lc_strategy cfg) \<and>
    rn_strategy_config run = lc_strategy_config cfg \<and> rn_execution_mode run = lc_execution_mode cfg \<and>
    ((\<exists>i recorded v v1 v2. lc_run_id cfg = Some i \<and> lp_load_run_state P i v = (Inr (Some run), v1) \<and>
        lp_run_identity P i v1 = (Inr (Some recorded), v2) \<and>
        identity_matches recorded (lc_identity cfg) = Inr ()) \<or>
     (rn_status run = Starting \<and> rn_position run = position_flat D \<and>
        (\<exists>v. lp_create_run P run (lc_identity cfg) v = (Inr (), w'))))"
proof -
  have account: "lc_execution_mode cfg = DryRun \<or> ri_account (lc_identity cfg) \<noteq> None"
    using assms
    by (cases "lc_execution_mode cfg")
      (auto simp: load_or_create_run_state_def io_bind_eq of_result_def require_account_for_live_def split: if_splits)
  from assms obtain resumed v where resumed: "(case lc_run_id cfg of None \<Rightarrow> io_return None
        | Some run_id \<Rightarrow> resume_run_state P cfg run_id) w = (Inr resumed, v)"
    and rest: "(case resumed of Some existing \<Rightarrow> io_return existing | None \<Rightarrow> create_run_state D P cfg) v = (Inr run, w')"
    by (auto simp: load_or_create_run_state_def io_bind_eq of_result_def)
  show ?thesis
  proof (cases resumed)
    case None
    with rest have created: "create_run_state D P cfg v = (Inr run, w')" by simp
    then show ?thesis
      using account
      by (auto simp: create_run_state_def Let_def io_bind_eq io_call_def map_err_def split: prod.splits sum.splits)
  next
    case (Some existing)
    with resumed obtain i where i: "lc_run_id cfg = Some i" "resume_run_state P cfg i w = (Inr (Some existing), v)"
      by (auto split: option.splits)
    moreover from Some rest have "existing = run" by simp
    ultimately obtain recorded v1 v2 where "lp_load_run_state P i w = (Inr (Some run), v1)"
      "apply_resume_checks run cfg = Inr ()" "lp_run_identity P i v1 = (Inr (Some recorded), v2)"
      "identity_matches recorded (lc_identity cfg) = Inr ()"
      by (auto simp: resume_run_state_def io_bind_eq of_result_def io_call_def apply_identity_check_def map_err_def
          split: prod.splits sum.splits option.splits)
    moreover from this(2) have "rn_market run = lc_market cfg" "rn_strategy_name run = strategy_name (lc_strategy cfg)"
      "rn_strategy_config run = lc_strategy_config cfg" "rn_execution_mode run = lc_execution_mode cfg"
      by (auto simp: apply_resume_checks_def split: if_splits)
    ultimately show ?thesis using i(1) account by blast
  qed
qed

theorem runs_resume_only_as_recorded_witness:
  "\<exists>run w'. load_or_create_run_state sample_dec sample_live sample_live_config 0 = (Inr run, w') \<and>
     rn_status run = Starting \<and> rn_market run = sample_market"
proof -
  have "is_ok (fst (load_or_create_run_state sample_dec sample_live sample_live_config 0))" by code_simp
  then obtain run w' where run: "load_or_create_run_state sample_dec sample_live sample_live_config 0 = (Inr run, w')"
    by (metis is_ok_iff prod.collapse)
  from runs_resume_only_as_recorded [OF run] run show ?thesis
    by (auto simp: sample_live_def sample_live_config_def)
qed

end
