(* ===== verification/Data_Sync.thy ===== *)
theory Data_Sync
  imports Effects
begin

text \<open>
  \<open>src/engine/data_sync/range.rs\<close> (fetching one range, settled candles only) and
  \<open>src/engine/data_sync/mod.rs\<close> (the sync loop). The clock, the exchange's market data, the candle
  store, the segment store and the wait for the next poll are the ports of \<open>sync_ports\<close>. The paging
  loop is a total function; the outer loop may follow the market forever and is a
  \<open>partial_function (option)\<close>, whose \<open>None\<close> is not returning. \<open>logged\<close> are the same ports with a
  record of what was read and written, on which the trace properties are stated.
\<close>

section \<open>One range\<close>

definition settle_ms :: timestamp_ms where "settle_ms = 1000"

record kline_request =
  kr_symbol :: symbol
  kr_interval :: interval
  kr_start_time_ms :: "timestamp_ms option"
  kr_end_time_ms :: "timestamp_ms option"
  kr_limit :: "u16 option"

record ('w, 'd) sync_ports =
  sp_now_utc_ms :: "'w \<Rightarrow> timestamp_ms \<times> 'w"
  sp_fetch_klines :: "kline_request \<Rightarrow> 'w \<Rightarrow> (string + 'd candle list) \<times> 'w"
  sp_upsert_candles :: "market_id \<Rightarrow> 'd candle list \<Rightarrow> 'w \<Rightarrow> (string + nat) \<times> 'w"
  sp_max_open_time_ms :: "market_id \<Rightarrow> 'w \<Rightarrow> (string + timestamp_ms option) \<times> 'w"
  sp_refresh_segments :: "(market_id \<Rightarrow> 'w \<Rightarrow> (string + nat) \<times> 'w) option"
  sp_sleep_or_shutdown :: "'w \<Rightarrow> bool \<times> 'w"

record sync_outcome =
  so_written :: nat
  so_first_open_time_ms :: "timestamp_ms option"
  so_last_open_time_ms :: "timestamp_ms option"
  so_unsettled_from_ms :: "timestamp_ms option"

definition sync_outcome_default :: sync_outcome where
  "sync_outcome_default =
     \<lparr>so_written = 0, so_first_open_time_ms = None, so_last_open_time_ms = None, so_unsettled_from_ms = None\<rparr>"

definition is_settled :: "timestamp_ms \<Rightarrow> 'd candle \<Rightarrow> bool" where
  "is_settled cutoff c =
     (case i64_checked_add (cd_close_time_ms c) settle_ms of None \<Rightarrow> False | Some settled \<Rightarrow> settled < cutoff)"

definition settled_len :: "'d candle list \<Rightarrow> timestamp_ms \<Rightarrow> nat" where
  "settled_len batch cutoff = length (takeWhile (is_settled cutoff) batch)"

definition io_now :: "('w, 'd) sync_ports \<Rightarrow> ('w, timestamp_ms) io" where
  "io_now P w = (case sp_now_utc_ms P w of (t, w') \<Rightarrow> (Inr t, w'))"

definition page_request :: "market_id \<Rightarrow> timestamp_ms \<Rightarrow> u16 \<Rightarrow> timestamp_ms \<Rightarrow> kline_request" where
  "page_request market end_ms batch_limit cursor =
     \<lparr>kr_symbol = mk_symbol market, kr_interval = mk_interval market, kr_start_time_ms = Some cursor,
      kr_end_time_ms = Some end_ms, kr_limit = Some (min batch_limit 1000)\<rparr>"

definition store_settled ::
  "('w, 'd) sync_ports \<Rightarrow> market_id \<Rightarrow> 'd candle list \<Rightarrow> sync_outcome \<Rightarrow> ('w, sync_outcome) io" where
  "store_settled P market settled out =
     (if settled = [] then io_return out
      else io_bind (io_call StorageFailed (sp_upsert_candles P market settled)) (\<lambda>n.
        io_return (out\<lparr>so_written := so_written out + n,
          so_first_open_time_ms :=
            (case so_first_open_time_ms out of None \<Rightarrow> Some (cd_open_time_ms (hd settled)) | Some t \<Rightarrow> Some t),
          so_last_open_time_ms := Some (cd_open_time_ms (last settled))\<rparr>)))"

text \<open>One turn of the loop: the outcome so far, and the next cursor unless paging stops here. The
  cursor is an \<open>i64\<close> sum, which wraps in a release build.\<close>

definition sync_page ::
  "('w, 'd) sync_ports \<Rightarrow> market_id \<Rightarrow> timestamp_ms \<Rightarrow> u16 \<Rightarrow> timestamp_ms \<Rightarrow> sync_outcome \<Rightarrow>
   ('w, sync_outcome \<times> timestamp_ms option) io" where
  "sync_page P market end_ms batch_limit cursor out =
     io_bind (io_now P) (\<lambda>cutoff.
     io_bind (io_call ExchangeFailed (sp_fetch_klines P (page_request market end_ms batch_limit cursor))) (\<lambda>batch.
       if batch = [] then io_return (out, None)
       else let n = settled_len batch cutoff in
         io_bind (store_settled P market (take n batch) out) (\<lambda>out.
           if drop n batch \<noteq> []
           then io_return (out\<lparr>so_unsettled_from_ms := Some (cd_open_time_ms (hd (drop n batch)))\<rparr>, None)
           else io_return
             (out, Some (i64_wrapping_add (cd_open_time_ms (last batch)) (step_ms (mk_interval market)))))))"

function sync_loop ::
  "('w, 'd) sync_ports \<Rightarrow> market_id \<Rightarrow> timestamp_ms \<Rightarrow> u16 \<Rightarrow> timestamp_ms \<Rightarrow> sync_outcome \<Rightarrow>
   ('w, sync_outcome) io" where
  "sync_loop P market end_ms batch_limit cursor out w =
     (if end_ms < cursor then (Inr out, w)
      else (case sync_page P market end_ms batch_limit cursor out w of
          (Inl e, w') \<Rightarrow> (Inl e, w')
        | (Inr (out', None), w') \<Rightarrow> (Inr out', w')
        | (Inr (out', Some next_cursor), w') \<Rightarrow>
            if next_cursor \<le> cursor then (Inr out', w')
            else sync_loop P market end_ms batch_limit next_cursor out' w'))"
  by pat_completeness auto
termination
  by (relation "measure (\<lambda>(P, market, end_ms, batch_limit, cursor, out, w). nat (end_ms + 1 - cursor))") auto

declare sync_loop.simps [simp del]

definition sync_market_range ::
  "('w, 'd) sync_ports \<Rightarrow> market_id \<Rightarrow> timestamp_ms \<Rightarrow> timestamp_ms \<Rightarrow> u16 \<Rightarrow> ('w, sync_outcome) io" where
  "sync_market_range P market start_ms end_ms batch_limit =
     (if end_ms < start_ms then io_return sync_outcome_default
      else sync_loop P market end_ms batch_limit start_ms sync_outcome_default)"

section \<open>The sync loop\<close>

record sync_config =
  dc_market :: market_id
  dc_start_time_ms :: "timestamp_ms option"
  dc_end_time_ms :: "timestamp_ms option"
  dc_batch_limit :: u16
  dc_follow :: bool
  dc_max_loops :: "nat option"

record sync_summary =
  sy_iterations :: nat
  sy_written :: nat
  sy_first_synced_open_time_ms :: "timestamp_ms option"
  sy_last_open_time_ms :: "timestamp_ms option"
  sy_segments_built :: nat

definition sync_summary_default :: sync_summary where
  "sync_summary_default =
     \<lparr>sy_iterations = 0, sy_written = 0, sy_first_synced_open_time_ms = None, sy_last_open_time_ms = None,
      sy_segments_built = 0\<rparr>"

text \<open>The variables of the loop.\<close>

record sync_state =
  ss_summary :: sync_summary
  ss_loops :: nat
  ss_next_start_time_ms :: timestamp_ms
  ss_last_effective_end_ms :: timestamp_ms
  ss_unsettled_from_ms :: "timestamp_ms option"
  ss_refreshed :: bool

definition initial_start_time_ms :: "sync_config \<Rightarrow> timestamp_ms \<Rightarrow> timestamp_ms" where
  "initial_start_time_ms cfg now = (case dc_start_time_ms cfg of None \<Rightarrow> now | Some t \<Rightarrow> t)"

definition effective_end_time_ms :: "sync_config \<Rightarrow> timestamp_ms \<Rightarrow> timestamp_ms" where
  "effective_end_time_ms cfg now = (case dc_end_time_ms cfg of None \<Rightarrow> now | Some t \<Rightarrow> min t now)"

definition is_uncovered ::
  "sync_config \<Rightarrow> timestamp_ms \<Rightarrow> timestamp_ms \<Rightarrow> timestamp_ms option \<Rightarrow> bool" where
  "is_uncovered cfg next_start last_end unsettled \<longleftrightarrow>
     dc_end_time_ms cfg \<noteq> None \<and> next_start \<le> last_end \<and> unsettled \<noteq> Some next_start"

definition should_continue :: "sync_config \<Rightarrow> timestamp_ms \<Rightarrow> nat \<Rightarrow> bool" where
  "should_continue cfg next_start loops =
     (if (case dc_max_loops cfg of None \<Rightarrow> False | Some m \<Rightarrow> m \<le> loops) then False
      else (case dc_end_time_ms cfg of None \<Rightarrow> True | Some t \<Rightarrow> dc_follow cfg \<and> next_start \<le> t))"

text \<open>Packing the segments; a failure leaves them for a later pass.\<close>

definition refresh_pass ::
  "('w, 'd) sync_ports \<Rightarrow> sync_config \<Rightarrow> nat \<Rightarrow> sync_state \<Rightarrow> ('w, sync_state) io" where
  "refresh_pass P cfg written st w =
     (case sp_refresh_segments P of
        None \<Rightarrow> (Inr st, w)
      | Some refresh \<Rightarrow>
          if 0 < written \<or> \<not> ss_refreshed st
          then (case refresh (dc_market cfg) w of
              (Inr built, w') \<Rightarrow>
                (Inr (st\<lparr>ss_refreshed := True, ss_summary := (ss_summary st)
                   \<lparr>sy_segments_built := sy_segments_built (ss_summary st) + built\<rparr>\<rparr>), w')
            | (Inl e, w') \<Rightarrow> (Inr (st\<lparr>ss_refreshed := False\<rparr>), w'))
          else (Inr st, w))"

definition sync_pass :: "('w, 'd) sync_ports \<Rightarrow> sync_config \<Rightarrow> sync_state \<Rightarrow> ('w, sync_state) io" where
  "sync_pass P cfg st =
     io_bind (io_now P) (\<lambda>now.
       let end_ms = effective_end_time_ms cfg now;
           st = st\<lparr>ss_last_effective_end_ms := end_ms\<rparr>
       in io_bind
         (if ss_next_start_time_ms st \<le> end_ms
          then io_bind (sync_market_range P (dc_market cfg) (ss_next_start_time_ms st) end_ms (dc_batch_limit cfg)) (\<lambda>out.
            io_bind (io_call StorageFailed (sp_max_open_time_ms P (dc_market cfg))) (\<lambda>latest.
              let sy = ss_summary st;
                  st = st\<lparr>ss_summary := sy\<lparr>sy_written := sy_written sy + so_written out,
                           sy_first_synced_open_time_ms :=
                             (case sy_first_synced_open_time_ms sy of
                                None \<Rightarrow> so_first_open_time_ms out | Some t \<Rightarrow> Some t),
                           sy_last_open_time_ms := latest\<rparr>,
                         ss_unsettled_from_ms := so_unsettled_from_ms out\<rparr>
              in io_bind (refresh_pass P cfg (so_written out) st) (\<lambda>st.
                io_return (case latest of
                    None \<Rightarrow> st
                  | Some t \<Rightarrow> st\<lparr>ss_next_start_time_ms :=
                      max (ss_next_start_time_ms st)
                        (i64_wrapping_add t (step_ms (mk_interval (dc_market cfg))))\<rparr>))))
          else io_return st)
         (\<lambda>st. io_return (st\<lparr>ss_loops := Suc (ss_loops st),
                 ss_summary := (ss_summary st)\<lparr>sy_iterations := Suc (ss_loops st)\<rparr>\<rparr>)))"

partial_function (option) data_sync_loop ::
  "('w, 'd) sync_ports \<Rightarrow> sync_config \<Rightarrow> sync_state \<Rightarrow> 'w \<Rightarrow> ((engine_error + sync_state) \<times> 'w) option" where
  "data_sync_loop P cfg st w =
     (case sync_pass P cfg st w of
        (Inl e, w') \<Rightarrow> Some (Inl e, w')
      | (Inr st', w') \<Rightarrow>
          if \<not> should_continue cfg (ss_next_start_time_ms st') (ss_loops st') then Some (Inr st', w')
          else (case sp_sleep_or_shutdown P w' of
              (shutdown, w2) \<Rightarrow>
                if shutdown then Some (Inr st', w2) else data_sync_loop P cfg st' w2))"

definition data_sync_start :: "sync_config \<Rightarrow> timestamp_ms \<Rightarrow> sync_state" where
  "data_sync_start cfg now =
     \<lparr>ss_summary = sync_summary_default, ss_loops = 0,
      ss_next_start_time_ms = initial_start_time_ms cfg now, ss_last_effective_end_ms = 0,
      ss_unsettled_from_ms = None, ss_refreshed = False\<rparr>"

text \<open>\<open>run\<close>; the flag is the warning it logs for a range left uncovered.\<close>

definition data_sync_run ::
  "('w, 'd) sync_ports \<Rightarrow> sync_config \<Rightarrow> 'w \<Rightarrow> ((engine_error + sync_summary \<times> bool) \<times> 'w) option" where
  "data_sync_run P cfg w =
     (case sp_now_utc_ms P w of (now, w1) \<Rightarrow>
        map_option (\<lambda>(r, w2).
            (and_then r (\<lambda>st. Inr (ss_summary st,
               is_uncovered cfg (ss_next_start_time_ms st) (ss_last_effective_end_ms st) (ss_unsettled_from_ms st))), w2))
          (data_sync_loop P cfg (data_sync_start cfg now) w1))"

section \<open>What one range reads and writes\<close>

text \<open>The ports with a log of the clock readings, the pages fetched and the candles written.\<close>

datatype 'd sync_event =
    ClockRead timestamp_ms
  | Fetched kline_request "'d candle list"
  | Written market_id "'d candle list"

definition logged :: "('w, 'd) sync_ports \<Rightarrow> ('w \<times> 'd sync_event list, 'd) sync_ports" where
  "logged P =
     \<lparr>sp_now_utc_ms = (\<lambda>(w, lg). case sp_now_utc_ms P w of (t, w') \<Rightarrow> (t, w', lg @ [ClockRead t])),
      sp_fetch_klines = (\<lambda>req (w, lg). case sp_fetch_klines P req w of
          (Inl e, w') \<Rightarrow> (Inl e, w', lg)
        | (Inr batch, w') \<Rightarrow> (Inr batch, w', lg @ [Fetched req batch])),
      sp_upsert_candles = (\<lambda>m cs (w, lg). case sp_upsert_candles P m cs w of
          (r, w') \<Rightarrow> (r, w', lg @ [Written m cs])),
      sp_max_open_time_ms = (\<lambda>m (w, lg). case sp_max_open_time_ms P m w of (r, w') \<Rightarrow> (r, w', lg)),
      sp_refresh_segments = map_option (\<lambda>f m (w, lg). case f m w of (r, w') \<Rightarrow> (r, w', lg))
        (sp_refresh_segments P),
      sp_sleep_or_shutdown = (\<lambda>(w, lg). case sp_sleep_or_shutdown P w of (b, w') \<Rightarrow> (b, w', lg))\<rparr>"

lemma simulates_now: "simulates fst (io_now (logged P)) (io_now P)"
  by (auto simp: simulates_def io_now_def logged_def split: prod.splits)

lemma simulates_fetch:
  "simulates fst (io_call wrap (sp_fetch_klines (logged P) req)) (io_call wrap (sp_fetch_klines P req))"
  by (rule simulates_call) (auto simp: logged_def split: prod.splits sum.splits)

lemma simulates_upsert:
  "simulates fst (io_call wrap (sp_upsert_candles (logged P) m cs)) (io_call wrap (sp_upsert_candles P m cs))"
  by (rule simulates_call) (auto simp: logged_def split: prod.splits)

lemma simulates_store:
  "simulates fst (store_settled (logged P) m cs out) (store_settled P m cs out)"
  unfolding store_settled_def
  by (intro simulates_if simulates_bind simulates_upsert simulates_return)

lemma simulates_page:
  "simulates fst (sync_page (logged P) m e l c out) (sync_page P m e l c out)"
  unfolding sync_page_def Let_def
  by (intro simulates_bind simulates_if simulates_now simulates_fetch simulates_store simulates_return)

lemma simulates_loop:
  "sync_loop P m e l c out (fst v) = (fst (sync_loop (logged P) m e l c out v), fst (snd (sync_loop (logged P) m e l c out v)))"
proof (induction "nat (e + 1 - c)" arbitrary: c out v rule: less_induct)
  case less
  obtain r v' where p: "sync_page (logged P) m e l c out v = (r, v')" by (metis surj_pair)
  from simulatesD [OF simulates_page p] have q: "sync_page P m e l c out (fst v) = (r, fst v')" .
  have rec: "sync_loop P m e l n o' (fst v') =
      (fst (sync_loop (logged P) m e l n o' v'), fst (snd (sync_loop (logged P) m e l n o' v')))"
    if "\<not> n \<le> c" "\<not> e < c" for n o'
    using that by (intro less) auto
  show ?case
    unfolding sync_loop.simps [of P m e l c out "fst v"] sync_loop.simps [of "logged P" m e l c out v] p q
    using rec by (auto split: sum.splits option.splits prod.splits)
qed

lemma simulates_range:
  "simulates fst (sync_market_range (logged P) m s e l) (sync_market_range P m s e l)"
  unfolding sync_market_range_def
  by (intro simulates_if simulates_return) (simp add: simulates_def simulates_loop [symmetric])

text \<open>The specification of a range's trace: pages follow one another without a gap, each asked for
  after a clock reading; the candles of a page that had settled by that reading are written, oldest
  first, and paging goes on only after a page that had settled to its end.\<close>

inductive sync_trace ::
  "market_id \<Rightarrow> timestamp_ms \<Rightarrow> u16 \<Rightarrow> timestamp_ms \<Rightarrow> 'd sync_event list \<Rightarrow> bool" for m e l where
  stopped: "sync_trace m e l c []"
| failed: "c \<le> e \<Longrightarrow> sync_trace m e l c [ClockRead t]"
| nothing: "c \<le> e \<Longrightarrow> sync_trace m e l c [ClockRead t, Fetched (page_request m e l c) []]"
| page: "c \<le> e \<Longrightarrow> batch \<noteq> [] \<Longrightarrow> settled = takeWhile (is_settled t) batch \<Longrightarrow>
    written = (if settled = [] then [] else [Written m settled]) \<Longrightarrow>
    later = [] \<or> (settled = batch \<and> c < n \<and>
      n = i64_wrapping_add (cd_open_time_ms (last batch)) (step_ms (mk_interval m)) \<and>
      sync_trace m e l n later) \<Longrightarrow>
    sync_trace m e l c ([ClockRead t, Fetched (page_request m e l c) batch] @ written @ later)"

lemma settled_take: "take (settled_len batch t) batch = takeWhile (is_settled t) batch"
  by (simp add: settled_len_def takeWhile_eq_take [symmetric])

lemma settled_drop: "drop (settled_len batch t) batch = dropWhile (is_settled t) batch"
  by (simp add: settled_len_def dropWhile_eq_drop [symmetric])

lemma settled_to_the_end: "length batch \<le> settled_len batch t \<longleftrightarrow> dropWhile (is_settled t) batch = []"
  using settled_drop [of batch t] by (metis drop_eq_Nil)

lemma settled_all: "dropWhile (is_settled t) batch = [] \<Longrightarrow> takeWhile (is_settled t) batch = batch"
  by (metis append_Nil2 takeWhile_dropWhile_id)

lemma logged_now [simp]: "sp_now_utc_ms P w = (t, w1) \<Longrightarrow> io_now (logged P) (w, lg) = (Inr t, (w1, lg @ [ClockRead t]))"
  by (simp add: io_now_def logged_def)

lemma logged_fetch [simp]:
  "sp_fetch_klines P req w = (Inl x, w1) \<Longrightarrow>
   io_call wrap (sp_fetch_klines (logged P) req) (w, lg) = (Inl (wrap x), (w1, lg))"
  "sp_fetch_klines P req w = (Inr batch, w1) \<Longrightarrow>
   io_call wrap (sp_fetch_klines (logged P) req) (w, lg) = (Inr batch, (w1, lg @ [Fetched req batch]))"
  by (simp_all add: io_call_def logged_def)

lemma store_settled_log:
  assumes "store_settled (logged P) m settled out (w, lg) = (r, (w', lg'))"
  shows "lg' = lg @ (if settled = [] then [] else [Written m settled])"
  using assms by (auto simp: store_settled_def io_bind_eq io_call_def logged_def split: if_splits prod.splits)

lemma sync_page_log:
  assumes p: "sync_page (logged P) m e l c out (w, lg) = (r, (w', lg'))" and c: "c \<le> e"
  shows "\<exists>new. lg' = lg @ new \<and> sync_trace m e l c new \<and>
    (\<forall>out' n later. r = Inr (out', Some n) \<longrightarrow> c < n \<longrightarrow> sync_trace m e l n later \<longrightarrow>
       sync_trace m e l c (new @ later))"
proof -
  obtain t w1 where clock: "sp_now_utc_ms P w = (t, w1)" by fastforce
  let ?lg1 = "lg @ [ClockRead t]"
  obtain f w2 where fetch: "sp_fetch_klines P (page_request m e l c) w1 = (f, w2)" by (metis surj_pair)
  show ?thesis
  proof (cases f)
    case (Inl x)
    with p clock fetch have "lg' = ?lg1" and "r = Inl (ExchangeFailed x)"
      by (auto simp: sync_page_def io_bind_eq)
    with sync_trace.failed [OF c] show ?thesis by auto
  next
    case (Inr batch)
    let ?lg2 = "lg @ [ClockRead t, Fetched (page_request m e l c) batch]"
    let ?settled = "takeWhile (is_settled t) batch"
    let ?written = "if ?settled = [] then [] else [Written m ?settled]"
    show ?thesis
    proof (cases "batch = []")
      case True
      with p clock fetch Inr have "lg' = ?lg2" and "r = Inr (out, None)"
        by (auto simp: sync_page_def io_bind_eq)
      with sync_trace.nothing [OF c] True show ?thesis by auto
    next
      case False
      obtain s v where st: "store_settled (logged P) m ?settled out (w2, ?lg2) = (s, v)" by (metis surj_pair)
      then have v: "snd v = ?lg2 @ ?written" by (cases v) (auto dest: store_settled_log)
      have res: "lg' = snd v \<and> (\<forall>out' n. r = Inr (out', Some n) \<longrightarrow> dropWhile (is_settled t) batch = [] \<and>
          n = i64_wrapping_add (cd_open_time_ms (last batch)) (step_ms (mk_interval m)))"
        using p clock fetch Inr False st
        by (auto simp: sync_page_def io_bind_eq Let_def settled_take settled_to_the_end split: if_splits)
      have "sync_trace m e l c ([ClockRead t, Fetched (page_request m e l c) batch] @ ?written @ [])"
        by (rule sync_trace.page [OF c False refl refl]) simp
      moreover have "sync_trace m e l c ([ClockRead t, Fetched (page_request m e l c) batch] @ ?written @ later)"
        if "r = Inr (out', Some n)" "c < n" "sync_trace m e l n later" for out' n later
        by (rule sync_trace.page [OF c False refl refl]) (use that res settled_all in auto)
      ultimately show ?thesis using res v by auto
    qed
  qed
qed

lemma sync_loop_log:
  "sync_loop (logged P) m e l c out (w, lg) = (r, (w', lg')) \<Longrightarrow>
   \<exists>new. lg' = lg @ new \<and> sync_trace m e l c new"
proof (induction "nat (e + 1 - c)" arbitrary: c out w lg rule: less_induct)
  case less
  show ?case
  proof (cases "e < c")
    case True
    with less.prems show ?thesis by (auto simp: sync_loop.simps intro: sync_trace.stopped)
  next
    case False
    obtain q w1 lg1 where p: "sync_page (logged P) m e l c out (w, lg) = (q, (w1, lg1))" by (metis surj_pair)
    from sync_page_log [OF p] False obtain new where new: "lg1 = lg @ new" "sync_trace m e l c new"
      and more: "\<And>out' n later. q = Inr (out', Some n) \<Longrightarrow> c < n \<Longrightarrow> sync_trace m e l n later \<Longrightarrow>
        sync_trace m e l c (new @ later)" by auto
    show ?thesis
    proof (cases "\<exists>out' n. q = Inr (out', Some n) \<and> c < n")
      case True
      then obtain out' n where q: "q = Inr (out', Some n)" "c < n" by blast
      then have "sync_loop (logged P) m e l n out' (w1, lg1) = (r, (w', lg'))"
        using less.prems False p by (subst (asm) sync_loop.simps) simp
      from less.hyps [OF _ this] q False obtain later where "lg' = lg1 @ later" "sync_trace m e l n later"
        by auto
      with more [OF q] new show ?thesis by auto
    next
      case False
      then have "lg' = lg1"
        using less.prems \<open>\<not> e < c\<close> p by (subst (asm) sync_loop.simps) (auto split: sum.splits option.splits if_splits prod.splits)
      with new show ?thesis by auto
    qed
  qed
qed

section \<open>Passes\<close>

lemma refresh_pass_loops:
  "refresh_pass P cfg n st w = (Inr st', w') \<Longrightarrow> ss_loops st' = ss_loops st"
  by (auto simp: refresh_pass_def split: option.splits if_splits prod.splits sum.splits)

lemma sync_pass_loops:
  assumes "sync_pass P cfg st w = (Inr st', w')"
  shows "ss_loops st' = Suc (ss_loops st) \<and> sy_iterations (ss_summary st') = ss_loops st'"
  using assms
  by (auto simp: sync_pass_def io_bind_eq Let_def dest!: refresh_pass_loops split: if_splits option.splits)

definition bounded_sync :: "sync_config \<Rightarrow> bool" where
  "bounded_sync cfg \<longleftrightarrow> dc_max_loops cfg \<noteq> None \<or> (dc_end_time_ms cfg \<noteq> None \<and> \<not> dc_follow cfg)"

definition pass_limit :: "sync_config \<Rightarrow> nat" where
  "pass_limit cfg =
     (if dc_end_time_ms cfg \<noteq> None \<and> \<not> dc_follow cfg then 1
      else (case dc_max_loops cfg of None \<Rightarrow> 1 | Some n \<Rightarrow> max 1 n))"

lemma should_continue_limit:
  "bounded_sync cfg \<Longrightarrow> should_continue cfg next_start loops \<Longrightarrow> loops < pass_limit cfg"
  by (auto simp: bounded_sync_def should_continue_def pass_limit_def split: option.splits if_splits)

lemma data_sync_loop_returns:
  assumes "bounded_sync cfg" and "ss_loops st < pass_limit cfg"
  shows "\<exists>r w'. data_sync_loop P cfg st w = Some (r, w') \<and>
    (\<forall>st'. r = Inr st' \<longrightarrow> sy_iterations (ss_summary st') \<in> {Suc (ss_loops st)..pass_limit cfg})"
  using assms(2)
proof (induction "pass_limit cfg - ss_loops st" arbitrary: st w rule: less_induct)
  case less
  obtain q w1 where p: "sync_pass P cfg st w = (q, w1)" by (metis surj_pair)
  show ?case
  proof (cases q)
    case (Inl x)
    with p show ?thesis by (simp add: data_sync_loop.simps)
  next
    case (Inr st1)
    note loops = sync_pass_loops [OF p [unfolded Inr]]
    obtain stop w2 where wait: "sp_sleep_or_shutdown P w1 = (stop, w2)" by (metis surj_pair)
    show ?thesis
    proof (cases "should_continue cfg (ss_next_start_time_ms st1) (ss_loops st1) \<and> \<not> stop")
      case True
      with should_continue_limit [OF assms(1)] have lt: "ss_loops st1 < pass_limit cfg" by blast
      have "pass_limit cfg - ss_loops st1 < pass_limit cfg - ss_loops st"
        using loops less.prems by simp
      from less.hyps [OF this lt, of w2] obtain r w' where "data_sync_loop P cfg st1 w2 = Some (r, w')"
        "\<forall>st'. r = Inr st' \<longrightarrow> sy_iterations (ss_summary st') \<in> {Suc (ss_loops st1)..pass_limit cfg}"
        by blast
      with p Inr wait True loops show ?thesis by (subst data_sync_loop.simps) auto
    next
      case False
      with p Inr wait loops less.prems show ?thesis
        by (subst data_sync_loop.simps) (auto split: prod.splits)
    qed
  qed
qed

section \<open>Properties\<close>

text \<open>The starts of the pages a trace asked for.\<close>

fun page_starts :: "'d sync_event list \<Rightarrow> timestamp_ms list" where
  "page_starts [] = []"
| "page_starts (Fetched req batch # lg) =
     (case kr_start_time_ms req of None \<Rightarrow> page_starts lg | Some t \<Rightarrow> t # page_starts lg)"
| "page_starts (_ # lg) = page_starts lg"

lemma page_starts_append [simp]: "page_starts (a @ b) = page_starts a @ page_starts b"
  by (induction a rule: page_starts.induct) (auto split: option.splits)

lemma trace_starts:
  "sync_trace m e l c lg \<Longrightarrow> sorted_wrt (<) (page_starts lg) \<and> set (page_starts lg) \<subseteq> {c..e}"
proof (induction rule: sync_trace.induct)
  case (page c batch settled t written later n)
  then show ?case by (auto simp: page_request_def)
qed (auto simp: page_request_def)

lemma trace_written:
  "sync_trace m e l c lg \<Longrightarrow> Written m' cs \<in> set lg \<Longrightarrow>
   m' = m \<and> (\<exists>t req batch. ClockRead t \<in> set lg \<and> Fetched req batch \<in> set lg \<and>
     cs = takeWhile (is_settled t) batch)"
proof (induction rule: sync_trace.induct)
  case (page c batch settled t written later n)
  then show ?case by (auto split: if_splits)
qed auto

text \<open>C37: a range is fetched in pages whose starts only grow and stay inside the range, so paging always
  ends; every candle written had closed more than a second before a clock reading taken before its page
  was asked for, and the log of reads and writes does not change what the range does.\<close>

theorem only_settled_candles_are_written:
  assumes "sync_market_range (logged P) m s e l (w, []) = (r, (w', lg))"
  shows "sync_market_range P m s e l w = (r, w') \<and> sync_trace m e l s lg \<and>
    sorted_wrt (<) (page_starts lg) \<and> length (page_starts lg) \<le> nat (e + 1 - s) \<and>
    (\<forall>m' cs. Written m' cs \<in> set lg \<longrightarrow> m' = m \<and>
       (\<exists>t. ClockRead t \<in> set lg \<and> (\<forall>c\<in>set cs. cd_close_time_ms c + 1000 < t)))"
proof -
  have tr: "sync_trace m e l s lg"
    using assms sync_loop_log [of P m e l s sync_outcome_default w "[]"]
    by (auto simp: sync_market_range_def intro: sync_trace.stopped split: if_splits)
  note st = trace_starts [OF tr]
  have "distinct (page_starts lg)" using st by (simp add: strict_sorted_iff)
  then have "length (page_starts lg) = card (set (page_starts lg))" by (simp add: distinct_card)
  also have "\<dots> \<le> card {s..e}" using st by (intro card_mono) auto
  finally have len: "length (page_starts lg) \<le> nat (e + 1 - s)" by simp
  have "\<exists>t. ClockRead t \<in> set lg \<and> (\<forall>c\<in>set cs. cd_close_time_ms c + 1000 < t)" if written: "Written m' cs \<in> set lg" for m' cs
  proof -
    obtain t req batch where t: "ClockRead t \<in> set lg" and cs: "cs = takeWhile (is_settled t) batch"
      using trace_written [OF tr written] by blast
    have "cd_close_time_ms c + 1000 < t" if "c \<in> set cs" for c
      using that unfolding cs
      by (auto dest!: set_takeWhileD simp: is_settled_def settle_ms_def split: option.splits)
    with t show ?thesis by blast
  qed
  moreover have "m' = m" if "Written m' cs \<in> set lg" for m' cs
    using trace_written [OF tr that] by blast
  moreover have "sync_market_range P m s e l w = (r, w')"
    using simulatesD [OF simulates_range assms] by simp
  ultimately show ?thesis using tr st len by blast
qed

text \<open>An exchange with the three sample candles, a clock at which the last has not settled, and a store
  that counts what it is given.\<close>

definition sample_sync :: "(nat, sdec) sync_ports" where
  "sample_sync =
     \<lparr>sp_now_utc_ms = (\<lambda>w. (180500, w)),
      sp_fetch_klines = (\<lambda>req w. (Inr (filter (\<lambda>c. the (kr_start_time_ms req) \<le> cd_open_time_ms c) sample_candles), w)),
      sp_upsert_candles = (\<lambda>m cs w. (Inr (length cs), w + length cs)),
      sp_max_open_time_ms = (\<lambda>m w. (Inr None, w)), sp_refresh_segments = None,
      sp_sleep_or_shutdown = (\<lambda>w. (False, w))\<rparr>"

theorem only_settled_candles_are_written_witness:
  "\<exists>out. sync_market_range sample_sync sample_market 0 170000 1000 0 = (Inr out, 2) \<and>
     so_written out = 2 \<and> so_unsettled_from_ms out = Some 120000"
proof -
  obtain r w lg where run: "sync_market_range (logged sample_sync) sample_market 0 170000 1000 (0, []) = (r, (w, lg))"
    by (metis surj_pair)
  note plain = only_settled_candles_are_written [OF run, THEN conjunct1]
  have "case sync_market_range sample_sync sample_market 0 170000 1000 0 of
      (Inr out, w) \<Rightarrow> w = 2 \<and> so_written out = 2 \<and> so_unsettled_from_ms out = Some 120000 | _ \<Rightarrow> False"
    by code_simp
  with plain show ?thesis by (cases r) auto
qed

text \<open>A sync with a pass limit, or with an end and no following, always returns; it made at least one
  pass and no more than its limit, exactly one where it does not follow.\<close>

theorem bounded_sync_returns:
  assumes "dc_max_loops cfg \<noteq> None \<or> (dc_end_time_ms cfg \<noteq> None \<and> \<not> dc_follow cfg)"
  shows "\<exists>r w'. data_sync_run P cfg w = Some (r, w') \<and>
    (\<forall>sy uncovered. r = Inr (sy, uncovered) \<longrightarrow>
       1 \<le> sy_iterations sy \<and>
       sy_iterations sy \<le>
         (if dc_end_time_ms cfg \<noteq> None \<and> \<not> dc_follow cfg then 1
          else (case dc_max_loops cfg of None \<Rightarrow> 1 | Some n \<Rightarrow> max 1 n)))"
proof -
  obtain now w1 where now: "sp_now_utc_ms P w = (now, w1)" by (metis surj_pair)
  have b: "bounded_sync cfg" using assms by (simp add: bounded_sync_def)
  have "ss_loops (data_sync_start cfg now) < pass_limit cfg"
    by (auto simp: data_sync_start_def pass_limit_def split: option.splits)
  from data_sync_loop_returns [OF b this, of P w1] obtain r w' where
    "data_sync_loop P cfg (data_sync_start cfg now) w1 = Some (r, w')"
    and "\<forall>st'. r = Inr st' \<longrightarrow> sy_iterations (ss_summary st') \<in> {1..pass_limit cfg}"
    by (auto simp: data_sync_start_def)
  then show ?thesis
    unfolding pass_limit_def [symmetric] by (auto simp: data_sync_run_def now and_then_Inr)
qed

theorem bounded_sync_returns_witness:
  "\<exists>r w. data_sync_run sample_sync
     \<lparr>dc_market = sample_market, dc_start_time_ms = Some 0, dc_end_time_ms = Some 170000,
      dc_batch_limit = 500, dc_follow = False, dc_max_loops = None\<rparr> 0 = Some (r, w)"
  using bounded_sync_returns [of "\<lparr>dc_market = sample_market, dc_start_time_ms = Some 0,
      dc_end_time_ms = Some 170000, dc_batch_limit = 500, dc_follow = False, dc_max_loops = None\<rparr>" sample_sync 0]
  by auto

end
