(* ===== verification/Storage.thy ===== *)
theory Storage
  imports Effects
begin

text \<open>
  The storage ports' one failure channel (\<open>src/ports/storage.rs\<close>) and the retry of a transaction that lost to
  another (\<open>src/storage/retry.rs\<close>). Durations and instants are nanoseconds. The clock, the sleep and the
  transaction act on a world: the loop may run forever where the budget is longer than the clock can hold,
  and is a \<open>partial_function (option)\<close>.
\<close>

section \<open>Failures\<close>

datatype storage_error =
    SeOther string
  | SeInvalidArgument string
  | SeSchemaUnsupported u32 u32
  | SeUnavailable string
  | SeContention string
  | SeConflict string
  | SeOutcomeUnknown string
  | SeDurabilityUnmet string

datatype error_kind =
    KindUnavailable | KindContention | KindConflict | KindOutcomeUnknown | KindDurabilityUnmet
  | KindInvalidArgument | KindSchemaUnsupported | KindOther

fun storage_error_kind :: "storage_error \<Rightarrow> error_kind" where
  "storage_error_kind (SeOther _) = KindOther"
| "storage_error_kind (SeInvalidArgument _) = KindInvalidArgument"
| "storage_error_kind (SeSchemaUnsupported _ _) = KindSchemaUnsupported"
| "storage_error_kind (SeUnavailable _) = KindUnavailable"
| "storage_error_kind (SeContention _) = KindContention"
| "storage_error_kind (SeConflict _) = KindConflict"
| "storage_error_kind (SeOutcomeUnknown _) = KindOutcomeUnknown"
| "storage_error_kind (SeDurabilityUnmet _) = KindDurabilityUnmet"

fun storage_error_kind_as_str :: "error_kind \<Rightarrow> string" where
  "storage_error_kind_as_str KindUnavailable = ''unavailable''"
| "storage_error_kind_as_str KindContention = ''contention''"
| "storage_error_kind_as_str KindConflict = ''conflict''"
| "storage_error_kind_as_str KindOutcomeUnknown = ''outcome_unknown''"
| "storage_error_kind_as_str KindDurabilityUnmet = ''durability_unmet''"
| "storage_error_kind_as_str KindInvalidArgument = ''invalid_argument''"
| "storage_error_kind_as_str KindSchemaUnsupported = ''schema_unsupported''"
| "storage_error_kind_as_str KindOther = ''other''"

text \<open>Which candles a read asks for.\<close>

record candle_query =
  cq_start_time_ms :: "timestamp_ms option"
  cq_end_time_ms :: "timestamp_ms option"
  cq_limit :: "nat option"

section \<open>Retrying conflicts\<close>

type_synonym duration = nat
type_synonym ('w, 'a) transaction = "duration \<Rightarrow> ('w, storage_error, 'a) op"

definition first_pause :: duration where "first_pause = 10 * 1000000"
definition longest_pause :: duration where "longest_pause = 200 * 1000000"

text \<open>The clock, with the last instant it can hold, and the sleep.\<close>

record 'w retry_ports =
  rp_now :: "'w \<Rightarrow> duration \<times> 'w"
  rp_last_instant :: duration
  rp_sleep :: "duration \<Rightarrow> 'w \<Rightarrow> 'w"

definition time_left :: "'w retry_ports \<Rightarrow> duration option \<Rightarrow> duration \<Rightarrow> 'w \<Rightarrow> duration \<times> 'w" where
  "time_left R deadline budget w =
     (case deadline of None \<Rightarrow> (budget, w) | Some d \<Rightarrow> (case rp_now R w of (now, w') \<Rightarrow> (d - now, w')))"

partial_function (option) retry_loop ::
  "'w retry_ports \<Rightarrow> duration option \<Rightarrow> duration \<Rightarrow> ('w, 'a) transaction \<Rightarrow> duration \<Rightarrow> duration \<Rightarrow> 'w \<Rightarrow>
   ((storage_error + 'a) \<times> 'w) option"
where
  "retry_loop R deadline budget transaction left pause w =
     (case transaction left w of
        (Inr answer, w1) \<Rightarrow> Some (Inr answer, w1)
      | (Inl e, w1) \<Rightarrow>
          if storage_error_kind e \<noteq> KindConflict then Some (Inl e, w1)
          else (case time_left R deadline budget w1 of (remaining, w2) \<Rightarrow>
            if remaining \<le> pause then Some (Inl e, w2)
            else (case time_left R deadline budget (rp_sleep R pause w2) of (left', w3) \<Rightarrow>
              if left' = 0 then Some (Inl e, w3)
              else retry_loop R deadline budget transaction left' (min (pause * 2) longest_pause) w3)))"

definition retry_conflicts ::
  "'w retry_ports \<Rightarrow> duration \<Rightarrow> ('w, 'a) transaction \<Rightarrow> 'w \<Rightarrow> ((storage_error + 'a) \<times> 'w) option"
where
  "retry_conflicts R budget transaction w =
     (case rp_now R w of (now, w') \<Rightarrow>
        retry_loop R (if now + budget \<le> rp_last_instant R then Some (now + budget) else None) budget
          transaction budget first_pause w')"

section \<open>What a retry does\<close>

text \<open>The same retry with a record of every attempt: what it was handed and what it answered.\<close>

type_synonym 'a attempt = "duration \<times> (storage_error + 'a)"

definition recorded :: "('w, 'a) transaction \<Rightarrow> ('w \<times> 'a attempt list, 'a) transaction" where
  "recorded transaction left = (\<lambda>(w, made).
     (case transaction left w of (r, w') \<Rightarrow> (r, (w', made @ [(left, r)]))))"

definition recorded_ports :: "'w retry_ports \<Rightarrow> ('w \<times> 'a attempt list) retry_ports" where
  "recorded_ports R =
     \<lparr>rp_now = (\<lambda>(w, made). (case rp_now R w of (now, w') \<Rightarrow> (now, (w', made)))),
      rp_last_instant = rp_last_instant R, rp_sleep = (\<lambda>pause (w, made). (rp_sleep R pause w, made))\<rparr>"

text \<open>What the code relies on: time, as the clock reads it, does not run backwards, and a sleep takes at least
  as long as it was asked for.\<close>

definition clock_laws :: "('w \<Rightarrow> duration) \<Rightarrow> 'w retry_ports \<Rightarrow> ('w, 'a) transaction \<Rightarrow> bool" where
  "clock_laws time R transaction \<longleftrightarrow>
     (\<forall>w. fst (rp_now R w) = time w \<and> time w \<le> time (snd (rp_now R w))) \<and>
     (\<forall>pause w. time w + pause \<le> time (rp_sleep R pause w)) \<and>
     (\<forall>left w. time w \<le> time (snd (transaction left w)))"

definition conflict :: "storage_error + 'a \<Rightarrow> bool" where
  "conflict r \<longleftrightarrow> (case r of Inl e \<Rightarrow> storage_error_kind e = KindConflict | Inr _ \<Rightarrow> False)"

text \<open>One attempt, and what the loop does next.\<close>

lemma retry_loop_cases:
  assumes "transaction left w = (r, w1)"
  obtains (ended) w' where "retry_loop R d b transaction left pause w = Some (r, w')"
      "\<not> conflict r \<longrightarrow> w' = w1"
      "conflict r \<longrightarrow> w' = snd (time_left R d b w1) \<or>
         w' = snd (time_left R d b (rp_sleep R pause (snd (time_left R d b w1))))"
  | (again) w2 left' w3 where "conflict r" "time_left R d b w1 = (fst (time_left R d b w1), w2)"
      "pause < fst (time_left R d b w1)" "time_left R d b (rp_sleep R pause w2) = (left', w3)" "0 < left'"
      "retry_loop R d b transaction left pause w =
         retry_loop R d b transaction left' (min (pause * 2) longest_pause) w3"
proof (cases "conflict r")
  case False
  then have "retry_loop R d b transaction left pause w = Some (r, w1)"
    using assms by (subst retry_loop.simps) (auto simp: conflict_def split: sum.splits)
  with False ended show ?thesis by blast
next
  case True
  then obtain e where r: "r = Inl e" "storage_error_kind e = KindConflict"
    by (auto simp: conflict_def split: sum.splits)
  obtain remaining w2 where t1: "time_left R d b w1 = (remaining, w2)" by fastforce
  obtain left' w3 where t2: "time_left R d b (rp_sleep R pause w2) = (left', w3)" by fastforce
  have loop: "retry_loop R d b transaction left pause w =
      (if remaining \<le> pause then Some (r, w2) else if left' = 0 then Some (r, w3)
       else retry_loop R d b transaction left' (min (pause * 2) longest_pause) w3)"
    using assms r t1 t2 by (subst retry_loop.simps) simp
  show ?thesis
  proof (cases "remaining \<le> pause \<or> left' = 0")
    case True
    then show ?thesis using ended [of "if remaining \<le> pause then w2 else w3"] loop t1 t2 \<open>conflict r\<close> by auto
  next
    case False
    with loop t1 t2 again \<open>conflict r\<close> show ?thesis by auto
  qed
qed

lemma recorded_simps:
  "transaction left w = (r, w') \<Longrightarrow> recorded transaction left (w, made) = (r, (w', made @ [(left, r)]))"
  "rp_sleep (recorded_ports R) pause (w, made) = (rp_sleep R pause w, made)"
  "rp_now (recorded_ports R) (w, made) = (fst (rp_now R w), (snd (rp_now R w), made))"
  "time_left (recorded_ports R) d b (w, made) = (fst (time_left R d b w), (snd (time_left R d b w), made))"
  by (simp_all add: recorded_def recorded_ports_def time_left_def split: prod.splits option.splits)

definition retried :: "duration \<Rightarrow> 'a attempt list \<Rightarrow> storage_error + 'a \<Rightarrow> bool" where
  "retried left made r \<longleftrightarrow>
     made \<noteq> [] \<and> fst (hd made) = left \<and> snd (last made) = r \<and> (\<forall>a\<in>set (butlast made). conflict (snd a))"

lemma retried_Cons: "conflict r0 \<Longrightarrow> retried left' made r \<Longrightarrow> retried left ((left, r0) # made) r"
  by (auto simp: retried_def)

definition records :: "'w retry_ports \<Rightarrow> ('w, 'a) transaction \<Rightarrow> ('w \<times> 'a attempt list) retry_ports \<Rightarrow>
  ('w \<times> 'a attempt list, 'a) transaction \<Rightarrow> duration \<Rightarrow> 'w \<times> 'a attempt list \<Rightarrow>
  (storage_error + 'a) \<times> ('w \<times> 'a attempt list) \<Rightarrow> bool" where
  "records R T R' T' left w y \<longleftrightarrow>
     R' = recorded_ports R \<longrightarrow> T' = recorded T \<longrightarrow> (\<exists>made. snd (snd y) = snd w @ made \<and> retried left made (fst y))"

lemma retry_loop_records:
  assumes "retry_loop R' d b T' left pause w = Some y"
  shows "records R T R' T' left w y"
proof (rule retry_loop.raw_induct [OF _ assms, where P = "\<lambda>R' d b T' left pause w y. records R T R' T' left w y"])
  fix loop R' d b T' left pause w y
  assume IH: "\<And>R' d b T' left pause w y. loop R' d b T' left pause w = Some y \<Longrightarrow> records R T R' T' left w y"
    and step: "(case T' left w of (Inl e, w1) \<Rightarrow>
        if storage_error_kind e \<noteq> KindConflict then Some (Inl e, w1)
        else (case time_left R' d b w1 of (remaining, w2) \<Rightarrow>
          if remaining \<le> pause then Some (Inl e, w2)
          else (case time_left R' d b (rp_sleep R' pause w2) of (left', w3) \<Rightarrow>
            if left' = 0 then Some (Inl e, w3) else loop R' d b T' left' (min (pause * 2) longest_pause) w3))
      | (Inr answer, w1) \<Rightarrow> Some (Inr answer, w1)) = Some y"
  show "records R T R' T' left w y"
    unfolding records_def
  proof (intro impI)
    assume R: "R' = recorded_ports R" and T: "T' = recorded T"
    obtain v made where w: "w = (v, made)" by (cases w)
    obtain r0 v1 where t: "T left v = (r0, v1)" by fastforce
    have made: "recorded T left (v, made) = (r0, (v1, made @ [(left, r0)]))" by (simp add: recorded_def t)
    note step = step [unfolded w R T made]
    show "\<exists>made. snd (snd y) = snd w @ made \<and> retried left made (fst y)"
    proof (cases "fst y = r0 \<and> snd (snd y) = made @ [(left, r0)]")
      case True
      then show ?thesis by (simp add: w retried_def)
    next
      case False
      with step obtain left' p' v3 where c: "conflict r0"
        and again: "loop (recorded_ports R) d b (recorded T) left' p' (v3, made @ [(left, r0)]) = Some y"
        by (auto simp: conflict_def recorded_simps split: sum.splits prod.splits if_splits)
      from IH [OF again] obtain later where "snd (snd y) = made @ (left, r0) # later" "retried left' later (fst y)"
        unfolding records_def by auto
      with retried_Cons [OF c] show ?thesis by (auto simp: w)
    qed
  qed
qed

text \<open>Only a conflict is run again: every attempt but the last answered one, and what the last answered is
  what the caller gets. A write whose outcome is unknown is never made twice.\<close>

theorem only_conflicts_are_retried:
  assumes "retry_conflicts (recorded_ports R) budget (recorded transaction) (w, []) = Some (r, (w', made))"
  shows "made \<noteq> [] \<and> fst (hd made) = budget \<and> snd (last made) = r \<and>
    (\<forall>a\<in>set (butlast made). \<exists>text. snd a = Inl (SeConflict text))"
proof -
  have "conflict x \<Longrightarrow> \<exists>text. x = Inl (SeConflict text)" for x :: "storage_error + 'a"
    by (auto simp: conflict_def split: sum.splits elim: storage_error_kind.elims)
  moreover have "retried budget made r"
  proof -
    from assms obtain d where "retry_loop (recorded_ports R) d budget (recorded transaction) budget first_pause
        (snd (rp_now R w), []) = Some (r, (w', made))"
      by (simp add: retry_conflicts_def recorded_simps)
    from retry_loop_records [OF this, of R transaction] show ?thesis by (simp add: records_def)
  qed
  ultimately show ?thesis by (auto simp: retried_def)
qed

text \<open>With a deadline, what is left falls by the pause at least.\<close>

definition spaced :: "'a attempt list \<Rightarrow> bool" where
  "spaced made \<longleftrightarrow> sorted_wrt (\<lambda>a b. fst b + first_pause \<le> fst a) made"

lemma clock_left:
  assumes "clock_laws time R T"
  shows "time_left R (Some d) b w = (left', w') \<Longrightarrow> left' = d - time w \<and> time w \<le> time w'"
    and "time w + pause \<le> time (rp_sleep R pause w)" and "T left w = (r, w1) \<Longrightarrow> time w \<le> time w1"
  using assms unfolding clock_laws_def time_left_def by (auto split: prod.splits) (metis fst_conv snd_conv)+

lemma retry_loop_returns:
  assumes laws: "clock_laws time R T"
  shows "d \<le> left + time w \<Longrightarrow> first_pause \<le> pause \<Longrightarrow>
    \<exists>r w' later. retry_loop (recorded_ports R) (Some d) b (recorded T) left pause (w, made) = Some (r, (w', made @ later)) \<and>
      later \<noteq> [] \<and> (\<forall>a\<in>set later. fst a \<le> left) \<and> spaced later \<and> (length later - 1) * first_pause \<le> left"
proof (induction left arbitrary: w made pause rule: less_induct)
  case (less left)
  obtain r0 w1 where t: "T left w = (r0, w1)" by fastforce
  then have r: "recorded T left (w, made) = (r0, (w1, made @ [(left, r0)]))" by (simp add: recorded_def)
  show ?case
  proof (cases rule: retry_loop_cases [of "recorded T" left "(w, made)" r0 "(w1, made @ [(left, r0)])"
        "recorded_ports R" "Some d" b pause, OF r])
    case (1 w')
    then obtain w2 where "w' = (w2, made @ [(left, r0)])" by (auto simp: recorded_simps)
    with 1 show ?thesis by (intro exI [of _ r0] exI [of _ w2] exI [of _ "[(left, r0)]"]) (simp add: spaced_def)
  next
    case (2 w2 left' w3)
    let ?made = "made @ [(left, r0)]"
    define v2 where "v2 = snd (time_left R (Some d) b w1)"
    define v3 where "v3 = snd (time_left R (Some d) b (rp_sleep R pause v2))"
    have w2: "w2 = (v2, ?made)" using 2(2) unfolding recorded_simps v2_def by simp
    have t1: "time_left R (Some d) b w1 = (fst (time_left R (Some d) b w1), v2)" by (simp add: v2_def)
    have t2: "time_left R (Some d) b (rp_sleep R pause v2) = (left', v3)" and w3: "w3 = (v3, ?made)"
      using 2(4) unfolding w2 recorded_simps v3_def by auto
    have later_than: "pause < fst (time_left R (Some d) b w1)" using 2(3) by (simp add: recorded_simps)
    note clock = clock_left [OF laws]
    have slept: "time v2 + pause \<le> time (rp_sleep R pause v2)" "d - time w1 \<le> left"
      using clock(3) [OF t] less.prems(1) clock(2) [of v2 pause] by simp_all
    then have left': "left' + pause \<le> left" "d \<le> left' + time v3"
      using later_than clock(1) [OF t1] clock(1) [OF t2] \<open>0 < left'\<close> by linarith+
    have p: "first_pause \<le> min (pause * 2) longest_pause" "0 < first_pause"
      using less.prems(2) by (simp_all add: first_pause_def longest_pause_def)
    with left' less.prems(2) have "left' < left" by simp
    from less.IH [OF this left'(2) p(1), of "made @ [(left, r0)]"] obtain r w' later where later:
        "retry_loop (recorded_ports R) (Some d) b (recorded T) left pause (w, made) =
           Some (r, (w', made @ (left, r0) # later))" "later \<noteq> []"
        "\<forall>a\<in>set later. fst a \<le> left'" "spaced later" "(length later - 1) * first_pause \<le> left'"
      using 2(6) by (auto simp: w3)
    have "\<forall>a\<in>set later. fst a + first_pause \<le> left" "length later * first_pause \<le> left"
      using later left'(1) less.prems(2) by (cases later; force)+
    with later show ?thesis
      by (intro exI [of _ r] exI [of _ w'] exI [of _ "(left, r0) # later"]) (auto simp: spaced_def)
  qed
qed

text \<open>A retry under a budget the clock can hold returns: every attempt is handed less than the one before
  it, by the first pause at least, so at most one attempt for each such pause in the budget follows the first.\<close>

theorem retries_stay_in_the_budget:
  assumes "clock_laws time R transaction" and "time w + budget \<le> rp_last_instant R"
  shows "\<exists>r w' made. retry_conflicts (recorded_ports R) budget (recorded transaction) (w, []) = Some (r, (w', made)) \<and>
    spaced made \<and> (length made - 1) * first_pause \<le> budget"
proof -
  let ?w = "snd (rp_now R w)"
  have now: "fst (rp_now R w) = time w" "time w \<le> time ?w" using assms(1) by (simp_all add: clock_laws_def)
  have start: "retry_conflicts (recorded_ports R) budget (recorded transaction) (w, []) =
      retry_loop (recorded_ports R) (Some (time w + budget)) budget (recorded transaction) budget first_pause (?w, [])"
    using assms(2) now(1) by (simp add: retry_conflicts_def recorded_simps) (simp add: recorded_ports_def)
  have "time w + budget \<le> budget + time ?w" using now(2) by simp
  from retry_loop_returns [OF assms(1) this order_refl, of budget "[]"] show ?thesis
    unfolding start by (metis append_Nil)
qed

section \<open>A retry\<close>

text \<open>A clock that ticks at every reading, and a transaction that loses to another until the 25th millisecond.\<close>

definition sample_retry_ports :: "nat retry_ports" where
  "sample_retry_ports =
     \<lparr>rp_now = (\<lambda>w. (w, w + 1)), rp_last_instant = 10 ^ 18, rp_sleep = (\<lambda>pause w. w + pause)\<rparr>"

definition sample_transaction :: "(nat, nat) transaction" where
  "sample_transaction left w = (if w < 25 * 1000000 then Inl (SeConflict ''lost'') else Inr w, w + 1)"

lemma sample_clock: "clock_laws (\<lambda>w. w) sample_retry_ports sample_transaction"
  by (simp add: clock_laws_def sample_retry_ports_def sample_transaction_def)

theorem only_conflicts_are_retried_witness:
  "\<exists>w made. retry_conflicts (recorded_ports sample_retry_ports) (10 ^ 9) (recorded sample_transaction) (0, []) =
       Some (Inr 30000007, (w, made)) \<and> length made = 3 \<and>
     fst (hd made) = 10 ^ 9 \<and> snd (last made) = Inr 30000007 \<and> snd (hd made) = Inl (SeConflict ''lost'')"
proof -
  obtain w made where r: "retry_conflicts (recorded_ports sample_retry_ports) (10 ^ 9) (recorded sample_transaction)
      (0, []) = Some (Inr 30000007, (w, made))" and made: "length made = 3" "snd (hd made) = Inl (SeConflict ''lost'')"
    by (simp add: retry_conflicts_def recorded_simps sample_retry_ports_def recorded_ports_def recorded_def
        retry_loop.simps sample_transaction_def time_left_def first_pause_def longest_pause_def)
  from only_conflicts_are_retried [OF r] r made show ?thesis by blast
qed

theorem retries_stay_in_the_budget_witness:
  "\<exists>r w made. retry_conflicts (recorded_ports sample_retry_ports) (10 ^ 9) (recorded sample_transaction) (0, []) =
       Some (r, (w, made)) \<and> length made \<le> 101"
proof -
  have "0 + 10 ^ 9 \<le> rp_last_instant sample_retry_ports" by (simp add: sample_retry_ports_def)
  from retries_stay_in_the_budget [OF sample_clock this] obtain r w made where
      "retry_conflicts (recorded_ports sample_retry_ports) (10 ^ 9) (recorded sample_transaction) (0, []) =
         Some (r, (w, made))" and "(length made - 1) * first_pause \<le> 10 ^ 9" by blast
  moreover from this(2) have "length made \<le> 101" by (simp add: first_pause_def)
  ultimately show ?thesis by blast
qed

end
