(* ===== verification/Live_Runner.thy ===== *)
theory Live_Runner
  imports Live_Engine Data_Sync Storage
begin

text \<open>
  The loop of the live engine (\<open>src/engine/live/runner.rs\<close>, \<open>run\<close> of \<open>mod.rs\<close>): a bootstrap that replays
  stored candles through the strategy, then polls that fetch new candles, show each closed one to the
  strategy and hand a changed target to \<open>execute_target\<close>. A run always ends with its state saved, stopped
  or failed.
\<close>

section \<open>Ports\<close>

record ('w, 'd, 'j) runner_ports =
  rp_live :: "('w, 'd, 'j) live_ports"
  rp_sync :: "('w, 'd) sync_ports"
  rp_fetch_symbol_rules :: "symbol \<Rightarrow> 'w \<Rightarrow> (string + 'd symbol_rules) \<times> 'w"
  rp_load_recent_candles :: "market_id \<Rightarrow> nat \<Rightarrow> 'w \<Rightarrow> (string + 'd candle list) \<times> 'w"
  rp_load_candles :: "market_id \<Rightarrow> candle_query \<Rightarrow> 'w \<Rightarrow> (string + 'd candle list) \<times> 'w"

definition lv_now :: "('w, 'd, 'j) runner_ports \<Rightarrow> ('w, 'd, 'j, timestamp_ms) live_io" where
  "lv_now P = lv_read (lp_now_utc_ms (rp_live P))"

text \<open>An operation on the world alone.\<close>

definition lv_outside :: "('w, 'a) io \<Rightarrow> ('w, 'd, 'j, 'a) live_io" where
  "lv_outside m st = (case m (lv_world st) of (r, w) \<Rightarrow> (r, st\<lparr>lv_world := w\<rparr>))"

definition lv_strategy :: "strategy_error + 'a \<Rightarrow> ('w, 'd, 'j, 'a) live_io" where
  "lv_strategy r = io_result (map_err StrategyFailed r)"

definition lv_save_run :: "('w, 'd, 'j) runner_ports \<Rightarrow> ('w, 'd, 'j, unit) live_io" where
  "lv_save_run P = io_bind lv_run_state (\<lambda>run. lv_call StorageFailed (lp_save_run_state (rp_live P) run))"

definition lv_sync :: "('w, 'd, 'j) runner_ports \<Rightarrow> ('d, 'j) live_config \<Rightarrow> timestamp_ms \<Rightarrow> timestamp_ms \<Rightarrow>
  ('w, 'd, 'j, sync_outcome) live_io" where
  "lv_sync P cfg start_ms end_ms =
     lv_outside (sync_market_range (rp_sync P) (lc_market cfg) start_ms end_ms (lc_batch_limit cfg))"

section \<open>The bootstrap\<close>

text \<open>The step past a processed bar.\<close>

definition next_open :: "('d, 'j) live_config \<Rightarrow> timestamp_ms \<Rightarrow> timestamp_ms" where
  "next_open cfg t = i64_wrapping_add t (step_ms (mk_interval (lc_market cfg)))"

definition bootstrap_start ::
  "('d, 'j) live_config \<Rightarrow> timestamp_ms option \<Rightarrow> timestamp_ms \<Rightarrow> engine_error + timestamp_ms" where
  "bootstrap_start cfg last_processed now =
     (case last_processed of
        Some value \<Rightarrow> Inr (next_open cfg value)
      | None \<Rightarrow>
          let interval = mk_interval (lc_market cfg); bars = lc_bootstrap_bars cfg
          in if \<not> is_i64 (int bars)
             then Inl (InvalidConfig (''bootstrap_bars '' @ nat_string bars @
                    '' does not fit into the timestamp range''))
             else ok_or (InvalidConfig (''bootstrap window overflows: '' @ nat_string bars @ '' bars of '' @
                    interval_as_str interval))
                  (Option.bind (i64_checked_mul (step_ms interval) (int bars))
                    (\<lambda>window_ms. i64_checked (now - window_ms))))"

definition filter_closed_candles ::
  "('w, 'd, 'j) runner_ports \<Rightarrow> 'd candle list \<Rightarrow> ('w, 'd, 'j, 'd candle list) live_io" where
  "filter_closed_candles P candles =
     io_bind (lv_now P) (\<lambda>now. io_return (filter (\<lambda>c. cd_close_time_ms c \<le> now) candles))"

definition at_bar :: "'d candle \<Rightarrow> ('d, 'j) bot_run_state \<Rightarrow> 'd strategy_context \<Rightarrow> 'd strategy_context" where
  "at_bar c run ctx = ctx\<lparr>sx_now_ms := cd_close_time_ms c, sx_position_qty := ps_qty (rn_position run)\<rparr>"

text \<open>The replay runs no target; it only remembers the last one.\<close>

fun replay ::
  "('d, 's) strategy \<Rightarrow> 'd candle list \<Rightarrow> 'd strategy_context \<Rightarrow> 's \<Rightarrow> target_position \<Rightarrow>
   ('w, 'd, 'j, 'd strategy_context \<times> 's \<times> target_position) live_io" where
  "replay strat [] ctx s target = io_return (ctx, s, target)"
| "replay strat (c # cs) ctx s target =
     io_bind lv_run_state (\<lambda>run. let ctx = at_bar c run ctx in
     io_bind (lv_strategy (on_bar strat ctx c s)) (\<lambda>(s, desired).
       replay strat cs ctx s (case desired of None \<Rightarrow> target | Some t \<Rightarrow> t)))"

definition finish_bootstrap ::
  "'d decimal_ops \<Rightarrow> ('w, 'd, 'j) runner_ports \<Rightarrow> ('d, 'j) live_config \<Rightarrow> 'd symbol_rules \<Rightarrow> 'd candle list \<Rightarrow>
   target_position \<Rightarrow> ('w, 'd, 'j, unit) live_io" where
  "finish_bootstrap D P cfg rules closed_bars target =
     io_bind lv_run_state (\<lambda>run.
       if rn_last_processed_open_time_ms run \<noteq> None then io_return ()
       else
         io_bind (lv_update_run (\<lambda>run. run\<lparr>rn_last_processed_open_time_ms :=
             (if closed_bars = [] then None else Some (cd_open_time_ms (last closed_bars))),
           rn_status := Running\<rparr>)) (\<lambda>_.
         io_bind (lv_now P) (\<lambda>now.
         io_bind (lv_update_run (\<lambda>run. run\<lparr>rn_updated_at_ms := now\<rparr>)) (\<lambda>_.
         io_bind (if lc_bootstrap_enter cfg \<and> target \<noteq> current_target D (rn_position run) \<and> closed_bars \<noteq> []
                  then execute_target D (rp_live P) cfg rules target (last closed_bars)
                  else io_return ()) (\<lambda>_.
           lv_save_run P)))))"

text \<open>Everything before the loop: the strategy's context and state as it enters.\<close>

definition run_start ::
  "'d decimal_ops \<Rightarrow> ('w, 'd, 'j) runner_ports \<Rightarrow> ('d, 'j) live_config \<Rightarrow> 'd symbol_rules \<Rightarrow> ('d, 's) strategy \<Rightarrow>
   's \<Rightarrow> ('w, 'd, 'j, 'd strategy_context \<times> 's) live_io" where
  "run_start D P cfg rules strat s =
     io_bind (lv_save_run P) (\<lambda>_.
     io_bind (lv_now P) (\<lambda>now.
     io_bind lv_run_state (\<lambda>run.
     io_bind (io_result (bootstrap_start cfg (rn_last_processed_open_time_ms run) now)) (\<lambda>start_ms.
     io_bind (lv_sync P cfg start_ms now) (\<lambda>_.
     io_bind (lv_now P) (\<lambda>now.
     let ctx = \<lparr>sx_market = lc_market cfg, sx_now_ms = now, sx_cash = dec_zero D,
                sx_position_qty = ps_qty (rn_position run)\<rparr> in
     io_bind (lv_strategy (on_start strat ctx s)) (\<lambda>s.
     io_bind (lv_call StorageFailed (rp_load_recent_candles P (lc_market cfg) (lc_bootstrap_bars cfg))) (\<lambda>recent.
     io_bind (filter_closed_candles P recent) (\<lambda>closed_bars.
     io_bind (replay strat closed_bars ctx s (current_target D (rn_position run))) (\<lambda>(ctx, s, target).
     io_bind (finish_bootstrap D P cfg rules closed_bars target) (\<lambda>_.
       io_return (ctx, s))))))))))))"

section \<open>The loop\<close>

definition mark_processed :: "('w, 'd, 'j) runner_ports \<Rightarrow> 'd candle \<Rightarrow> ('w, 'd, 'j, unit) live_io" where
  "mark_processed P c =
     io_bind (lv_update_run (\<lambda>run. run\<lparr>rn_last_processed_open_time_ms := Some (cd_open_time_ms c),
       rn_status := Running\<rparr>)) (\<lambda>_.
     io_bind (lv_now P) (\<lambda>now.
     io_bind (lv_update_run (\<lambda>run. run\<lparr>rn_updated_at_ms := now\<rparr>)) (\<lambda>_.
     io_bind (lv_save_run P) (\<lambda>_.
       lv_update_summary (\<lambda>sm. sm\<lparr>ls_processed_bars := Suc (ls_processed_bars sm),
         ls_last_processed_open_time_ms := Some (cd_open_time_ms c)\<rparr>)))))"

definition process_bar ::
  "'d decimal_ops \<Rightarrow> ('w, 'd, 'j) runner_ports \<Rightarrow> ('d, 'j) live_config \<Rightarrow> 'd symbol_rules \<Rightarrow> ('d, 's) strategy \<Rightarrow>
   'd candle \<Rightarrow> 'd strategy_context \<times> 's \<Rightarrow> ('w, 'd, 'j, 'd strategy_context \<times> 's) live_io" where
  "process_bar D P cfg rules strat c = (\<lambda>(ctx, s).
     io_bind lv_run_state (\<lambda>run.
       if (case rn_last_processed_open_time_ms run of None \<Rightarrow> False | Some value \<Rightarrow> cd_open_time_ms c \<le> value)
       then io_return (ctx, s)
       else let ctx = at_bar c run ctx; held = current_target D (rn_position run) in
         io_bind (lv_strategy (on_bar strat ctx c s)) (\<lambda>(s, desired).
         let desired = (case desired of None \<Rightarrow> held | Some t \<Rightarrow> t) in
         io_bind (if desired \<noteq> held then execute_target D (rp_live P) cfg rules desired c else io_return ()) (\<lambda>_.
         io_bind (mark_processed P c) (\<lambda>_.
           io_return (ctx, s))))))"

fun process_bars ::
  "'d decimal_ops \<Rightarrow> ('w, 'd, 'j) runner_ports \<Rightarrow> ('d, 'j) live_config \<Rightarrow> 'd symbol_rules \<Rightarrow> ('d, 's) strategy \<Rightarrow>
   'd candle list \<Rightarrow> 'd strategy_context \<times> 's \<Rightarrow> ('w, 'd, 'j, 'd strategy_context \<times> 's) live_io" where
  "process_bars D P cfg rules strat [] x = io_return x"
| "process_bars D P cfg rules strat (c # cs) x =
     io_bind (process_bar D P cfg rules strat c x) (process_bars D P cfg rules strat cs)"

definition poll_fetch ::
  "('w, 'd, 'j) runner_ports \<Rightarrow> ('d, 'j) live_config \<Rightarrow> timestamp_ms \<Rightarrow> timestamp_ms \<Rightarrow> ('w, 'd, 'j, unit) live_io" where
  "poll_fetch P cfg start_ms end_ms =
     (if start_ms \<le> end_ms then io_bind (lv_sync P cfg start_ms end_ms) (\<lambda>_. io_return ()) else io_return ())"

definition poll_once ::
  "'d decimal_ops \<Rightarrow> ('w, 'd, 'j) runner_ports \<Rightarrow> ('d, 'j) live_config \<Rightarrow> 'd symbol_rules \<Rightarrow> ('d, 's) strategy \<Rightarrow>
   'd strategy_context \<times> 's \<Rightarrow> ('w, 'd, 'j, 'd strategy_context \<times> 's) live_io" where
  "poll_once D P cfg rules strat x =
     io_bind (lv_now P) (\<lambda>end_ms.
     io_bind lv_run_state (\<lambda>run.
     let last_processed = rn_last_processed_open_time_ms run;
         start_ms = (case last_processed of
             Some value \<Rightarrow> next_open cfg value
           | None \<Rightarrow> i64_wrapping_add end_ms (- step_ms (mk_interval (lc_market cfg)))) in
     io_bind (poll_fetch P cfg start_ms end_ms) (\<lambda>_.
     io_bind (lv_call StorageFailed (rp_load_candles P (lc_market cfg)
         \<lparr>cq_start_time_ms = map_option (next_open cfg) last_processed, cq_end_time_ms = None, cq_limit = None\<rparr>))
       (\<lambda>candles.
     io_bind (filter_closed_candles P candles) (\<lambda>closed_bars.
       process_bars D P cfg rules strat closed_bars x)))))"

text \<open>The loop may run for ever, which is \<open>None\<close>. The number counts the polls done.\<close>

partial_function (option) poll_loop ::
  "'d decimal_ops \<Rightarrow> ('w, 'd, 'j) runner_ports \<Rightarrow> ('d, 'j) live_config \<Rightarrow> 'd symbol_rules \<Rightarrow> ('d, 's) strategy \<Rightarrow>
   nat \<Rightarrow> 'd strategy_context \<times> 's \<Rightarrow> ('w, 'd, 'j) live_state \<Rightarrow>
   ((engine_error + 'd strategy_context \<times> 's) \<times> ('w, 'd, 'j) live_state) option" where
  "poll_loop D P cfg rules strat loops x st =
     (case poll_once D P cfg rules strat x st of
        (Inl e, st') \<Rightarrow> Some (Inl e, st')
      | (Inr x', st') \<Rightarrow>
          if (case lc_max_loops cfg of None \<Rightarrow> False | Some m \<Rightarrow> m \<le> Suc loops) then Some (Inr x', st')
          else (case sp_sleep_or_shutdown (rp_sync P) (lv_world st') of
              (shutdown, w) \<Rightarrow>
                if shutdown then Some (Inr x', st'\<lparr>lv_world := w\<rparr>)
                else poll_loop D P cfg rules strat (Suc loops) x' (st'\<lparr>lv_world := w\<rparr>)))"

declare poll_loop.simps [code]

definition run_inner ::
  "'d decimal_ops \<Rightarrow> ('w, 'd, 'j) runner_ports \<Rightarrow> ('d, 'j) live_config \<Rightarrow> 'd symbol_rules \<Rightarrow> ('d, 's) strategy \<Rightarrow>
   's \<Rightarrow> ('w, 'd, 'j) live_state \<Rightarrow> ((engine_error + 's) \<times> ('w, 'd, 'j) live_state) option" where
  "run_inner D P cfg rules strat s st =
     (case run_start D P cfg rules strat s st of
        (Inl e, st') \<Rightarrow> Some (Inl e, st')
      | (Inr x, st') \<Rightarrow>
          map_option (\<lambda>(r, st''). (and_then r (\<lambda>(ctx, s). map_err StrategyFailed (on_finish strat ctx s)), st''))
            (poll_loop D P cfg rules strat 0 x st'))"

section \<open>A whole run\<close>

fun engine_error_display :: "engine_error \<Rightarrow> string" where
  "engine_error_display NoCandles = ''no candles provided''"
| "engine_error_display (InvalidConfig m) = ''invalid configuration: '' @ m"
| "engine_error_display (InvalidState m) = ''invalid state: '' @ m"
| "engine_error_display (Overflow m) = ''decimal overflow computing '' @ m"
| "engine_error_display (StrategyFailed (StrategyMsg m)) = m"
| "engine_error_display (StrategyFailed StrategyPanic) = []"
| "engine_error_display (ExchangeFailed m) = m"
| "engine_error_display (StorageFailed m) = m"
| "engine_error_display EnginePanic = []"

text \<open>A panic unwinds past \<open>run\<close>; it is no error value.\<close>

definition is_panic :: "engine_error \<Rightarrow> bool" where
  "is_panic e \<longleftrightarrow> e = EnginePanic \<or> e = StrategyFailed StrategyPanic"

definition live_summary_default :: live_summary where
  "live_summary_default =
     \<lparr>ls_run_id = [], ls_processed_bars = 0, ls_submitted_orders = 0, ls_closed_trades = 0,
      ls_last_processed_open_time_ms = None\<rparr>"

definition closing_save ::
  "('w, 'd, 'j) runner_ports \<Rightarrow> run_status \<Rightarrow> (string option \<Rightarrow> string option) \<Rightarrow> ('w, 'd, 'j, unit) live_io" where
  "closing_save P status last_error =
     io_bind (lv_now P) (\<lambda>now.
     io_bind (lv_update_run (\<lambda>run. run\<lparr>rn_status := status, rn_updated_at_ms := now,
       rn_last_error := last_error (rn_last_error run), rn_stopped_at_ms := Some now\<rparr>)) (\<lambda>_.
       lv_save_run P))"

definition finish_run ::
  "('w, 'd, 'j) runner_ports \<Rightarrow> engine_error + 's \<Rightarrow> ('w, 'd, 'j, live_summary) live_io" where
  "finish_run P r =
     (case r of
        Inr _ \<Rightarrow>
          io_bind (closing_save P Stopped (\<lambda>e. e)) (\<lambda>_.
          io_bind lv_run_state (\<lambda>run.
          io_bind (lv_update_summary (\<lambda>sm. sm\<lparr>ls_run_id := rn_run_id run,
            ls_last_processed_open_time_ms := rn_last_processed_open_time_ms run\<rparr>)) (\<lambda>_ st.
            (Inr (lv_summary st), st))))
      | Inl e \<Rightarrow>
          if is_panic e then io_fail e
          else io_bind (closing_save P Failed (\<lambda>_. Some (engine_error_display e))) (\<lambda>_. io_fail e))"

definition live_run ::
  "'d decimal_ops \<Rightarrow> ('w, 'd, 'j) runner_ports \<Rightarrow> ('d, 'j) live_config \<Rightarrow> 'w \<Rightarrow>
   ((engine_error + live_summary) \<times> 'w) option" where
  "live_run D P cfg w =
     (case load_or_create_run_state D (rp_live P) cfg w of
        (Inl e, w1) \<Rightarrow> Some (Inl e, w1)
      | (Inr run, w1) \<Rightarrow>
          (case rp_fetch_symbol_rules P (mk_symbol (lc_market cfg)) w1 of
             (Inl e, w2) \<Rightarrow> Some (Inl (ExchangeFailed e), w2)
           | (Inr rules, w2) \<Rightarrow>
               (case strategy_build D (lc_strategy cfg) of
                  Inl e \<Rightarrow> Some (Inl (StrategyFailed e), w2)
                | Inr s \<Rightarrow>
                    map_option (\<lambda>(r, st). case finish_run P r st of (q, st') \<Rightarrow> (q, lv_world st'))
                      (run_inner D P cfg rules (sma_cross_strategy D) s
                        \<lparr>lv_run = run, lv_summary = live_summary_default, lv_world = w2\<rparr>))))"

section \<open>Which bars the loop shows\<close>

text \<open>A strategy that keeps, beside its state, the bars it was shown.\<close>

definition recording :: "('d, 's) strategy \<Rightarrow> ('d, 's \<times> 'd candle list) strategy" where
  "recording strat =
     \<lparr>on_start = (\<lambda>ctx (s, seen). and_then (on_start strat ctx s) (\<lambda>s. Inr (s, seen))),
      on_bar = (\<lambda>ctx c (s, seen). and_then (on_bar strat ctx c s) (\<lambda>(s, t). Inr ((s, seen @ [c]), t))),
      on_finish = (\<lambda>ctx (s, seen). and_then (on_finish strat ctx s) (\<lambda>s. Inr (s, seen)))\<rparr>"

definition lv_last :: "('w, 'd, 'j) live_state \<Rightarrow> timestamp_ms option" where
  "lv_last st = rn_last_processed_open_time_ms (lv_run st)"

text \<open>The specification: the bars shown between two states are new, each after the one before, and had
  closed by some reading of the clock; the run remembers the last one, and the summary counts them.\<close>

definition had_closed :: "('w, 'd, 'j) runner_ports \<Rightarrow> 'd candle \<Rightarrow> bool" where
  "had_closed P c \<longleftrightarrow> (\<exists>w t w'. lp_now_utc_ms (rp_live P) w = (t, w') \<and> cd_close_time_ms c \<le> t)"

definition in_order ::
  "('w, 'd, 'j) runner_ports \<Rightarrow> timestamp_ms option \<Rightarrow> 'd candle list \<Rightarrow> timestamp_ms option \<Rightarrow> bool" where
  "in_order P before cs after \<longleftrightarrow>
     sorted_wrt (<) (map cd_open_time_ms cs) \<and>
     list_all (\<lambda>c. case before of None \<Rightarrow> True | Some v \<Rightarrow> v < cd_open_time_ms c) cs \<and>
     list_all (had_closed P) cs \<and>
     after = (if cs = [] then before else Some (cd_open_time_ms (last cs)))"

definition shown ::
  "('w, 'd, 'j) runner_ports \<Rightarrow> ('w, 'd, 'j) live_state \<Rightarrow> 'd candle list \<Rightarrow> ('w, 'd, 'j) live_state \<Rightarrow> bool" where
  "shown P st cs st' \<longleftrightarrow> in_order P (lv_last st) cs (lv_last st') \<and>
     ls_processed_bars (lv_summary st') = ls_processed_bars (lv_summary st) + length cs"

text \<open>How far a run has come.\<close>

definition progress :: "('w, 'd, 'j) live_state \<Rightarrow> timestamp_ms option \<times> nat" where
  "progress st = (lv_last st, ls_processed_bars (lv_summary st))"

lemmas progress_defs = progress_def lv_last_def

lemma progress_execute_target: "keeps progress (execute_target D P cfg rules target bar)"
  unfolding execute_target_def
  by (intro keeps_bind keeps_cases keeps_pure keeps_place_order keeps_record_order) (simp_all add: progress_defs)

lemma progress_outside [intro]: "keeps progress (lv_outside m)"
  by (simp add: keeps_def lv_outside_def progress_defs split: prod.splits)

lemma progress_world [intro]:
  "keeps progress (lv_call wrap call)" "keeps progress (lv_now P)" "keeps progress (lv_strategy q)"
  "keeps progress (lv_save_run P)" "keeps progress (lv_sync P cfg start_ms end_ms)"
  "keeps progress (filter_closed_candles P cs)"
  unfolding lv_now_def lv_strategy_def lv_save_run_def lv_sync_def filter_closed_candles_def
  by (intro keeps_bind keeps_pure keeps_world progress_outside; simp add: progress_defs)+

lemma shown_Nil: "progress st' = progress st \<Longrightarrow> shown P st [] st'"
  by (simp add: shown_def in_order_def progress_def)

lemma shown_cong: "shown P st cs st' \<Longrightarrow> progress v = progress st \<Longrightarrow> progress v' = progress st' \<Longrightarrow> shown P v cs v'"
  by (simp add: shown_def in_order_def progress_def)

lemma in_order_append:
  assumes "in_order P t cs u" and "in_order P u ds v"
  shows "in_order P t (cs @ ds) v"
proof (cases "cs = [] \<or> ds = []")
  case True
  then show ?thesis using assms by (auto simp: in_order_def)
next
  case False
  with assms have l: "u = Some (cd_open_time_ms (last cs))"
    and cs: "sorted_wrt (<) (map cd_open_time_ms cs)" and ds: "sorted_wrt (<) (map cd_open_time_ms ds)"
    by (auto simp: in_order_def)
  have below: "cd_open_time_ms c \<le> cd_open_time_ms (last cs)" if "c \<in> set cs" for c
  proof -
    from cs have "sorted (map cd_open_time_ms cs)" by (simp add: strict_sorted_imp_sorted)
    from sorted_nth_mono [OF this, of _ "length cs - 1"] that False show ?thesis
      by (auto simp: in_set_conv_nth last_conv_nth)
  qed
  have above: "cd_open_time_ms (last cs) < cd_open_time_ms d" if "d \<in> set ds" for d
    using assms(2) l that by (auto simp: in_order_def list_all_iff)
  have start: "t0 < cd_open_time_ms d" if "d \<in> set ds" "t = Some t0" for d t0
  proof -
    have "t0 < cd_open_time_ms (last cs)"
      using assms(1) that(2) False by (auto simp: in_order_def list_all_iff)
    with above [OF that(1)] show ?thesis by simp
  qed
  have "cd_open_time_ms c < cd_open_time_ms d" if "c \<in> set cs" "d \<in> set ds" for c d
    using below [OF that(1)] above [OF that(2)] by simp
  then have "sorted_wrt (<) (map cd_open_time_ms (cs @ ds))"
    using cs ds by (auto simp: sorted_wrt_append)
  moreover have "list_all (\<lambda>c. case t of None \<Rightarrow> True | Some v \<Rightarrow> v < cd_open_time_ms c) (cs @ ds)"
    using assms(1) start by (auto simp: in_order_def list_all_iff split: option.splits)
  ultimately show ?thesis using assms False by (simp add: in_order_def)
qed

lemma shown_append: "shown P st cs v \<Longrightarrow> shown P v ds st' \<Longrightarrow> shown P st (cs @ ds) st'"
  by (auto simp: shown_def intro: in_order_append)

lemma recording_on_bar:
  "on_bar (recording strat) ctx c (s, seen) = Inr ((s', seen'), t) \<longleftrightarrow>
     on_bar strat ctx c s = Inr (s', t) \<and> seen' = seen @ [c]"
  by (auto simp: recording_def and_then_Inr)

lemma lv_strategy_Inr: "lv_strategy r st = (Inr a, st') \<longleftrightarrow> r = Inr a \<and> st' = st"
  by (cases r) (auto simp: lv_strategy_def)

lemma process_bar_shown:
  assumes run: "process_bar D P cfg rules (recording strat) c (ctx, s, seen) st = (Inr (ctx', s', seen'), st')"
    and closed_bar: "had_closed P c"
  shows "\<exists>new. seen' = seen @ new \<and> set new \<subseteq> {c} \<and> shown P st new st'"
proof (cases "case lv_last st of None \<Rightarrow> False | Some value \<Rightarrow> cd_open_time_ms c \<le> value")
  case True
  with run have "st' = st" "seen' = seen" by (auto simp: process_bar_def io_bind_def lv_last_def)
  then show ?thesis by (intro exI [of _ "[]"]) (simp add: shown_Nil)
next
  case False
  let ?held = "current_target D (rn_position (lv_run st))"
  let ?go = "\<lambda>desired. if desired \<noteq> ?held then execute_target D (rp_live P) cfg rules desired c else io_return ()"
  from run False obtain t v where seen: "seen' = seen @ [c]"
    and go: "?go (case t of None \<Rightarrow> ?held | Some t \<Rightarrow> t) st = (Inr (), v)"
    and mark: "mark_processed P c v = (Inr (), st')"
    by (fastforce simp: process_bar_def io_bind_eq Let_def lv_strategy_Inr recording_on_bar lv_last_def)
  have "keeps progress (?go desired)" for desired by (intro keeps_cases keeps_pure progress_execute_target)
  from keepsD [OF this go] have v: "progress v = progress st" .
  have "lv_last st' = Some (cd_open_time_ms c)"
    and "ls_processed_bars (lv_summary st') = Suc (ls_processed_bars (lv_summary v))"
    using mark
    by (auto simp: mark_processed_def io_bind_eq lv_now_def lv_read_def lv_save_run_def lv_call_def lv_last_def
        split: prod.splits)
  with v False closed_bar have "shown P st [c] st'"
    by (auto simp: shown_def in_order_def progress_def split: option.splits)
  with seen show ?thesis by (intro exI [of _ "[c]"]) simp
qed

lemma process_bars_shown:
  assumes "process_bars D P cfg rules (recording strat) cs (ctx, s, seen) st = (Inr (ctx', s', seen'), st')"
    and "list_all (had_closed P) cs"
  shows "\<exists>new. seen' = seen @ new \<and> set new \<subseteq> set cs \<and> shown P st new st'"
  using assms
proof (induction cs arbitrary: ctx s seen st)
  case Nil
  then show ?case by (intro exI [of _ "[]"]) (simp add: shown_Nil)
next
  case (Cons c cs)
  then obtain ctx1 s1 seen1 v where first: "process_bar D P cfg rules (recording strat) c (ctx, s, seen) st = (Inr (ctx1, s1, seen1), v)"
    and rest: "process_bars D P cfg rules (recording strat) cs (ctx1, s1, seen1) v = (Inr (ctx', s', seen'), st')"
    by (auto simp: io_bind_eq)
  from process_bar_shown [OF first] Cons.prems obtain n where "seen1 = seen @ n" "set n \<subseteq> {c}" "shown P st n v" by auto
  moreover from Cons.IH [OF rest] Cons.prems obtain m where "seen' = seen1 @ m" "set m \<subseteq> set cs" "shown P v m st'" by auto
  ultimately show ?case using shown_append by (intro exI [of _ "n @ m"]) auto
qed

lemma filter_closed_result:
  assumes "filter_closed_candles P cs st = (Inr bars, st')"
  shows "list_all (had_closed P) bars \<and> (\<exists>t. bars = filter (\<lambda>c. cd_close_time_ms c \<le> t) cs)"
proof -
  obtain t w where now: "lp_now_utc_ms (rp_live P) (lv_world st) = (t, w)" by (metis surj_pair)
  with assms have bars: "bars = filter (\<lambda>c. cd_close_time_ms c \<le> t) cs"
    by (auto simp: filter_closed_candles_def io_bind_eq lv_now_def lv_read_def)
  moreover have "had_closed P c" if "cd_close_time_ms c \<le> t" for c
    using that now unfolding had_closed_def by blast
  ultimately show ?thesis by (auto simp: list_all_iff)
qed

lemma poll_once_shown:
  assumes "poll_once D P cfg rules (recording strat) (ctx, s, seen) st = (Inr (ctx', s', seen'), st')"
  shows "\<exists>new. seen' = seen @ new \<and> shown P st new st'"
proof -
  from assms obtain start_ms end_ms q v1 v2 v3 v4 cs bars where
    steps: "lv_now P st = (Inr end_ms, v1)" "poll_fetch P cfg start_ms end_ms v1 = (Inr (), v2)"
    "lv_call StorageFailed (rp_load_candles P (lc_market cfg) q) v2 = (Inr cs, v3)"
    and closed_bars: "filter_closed_candles P cs v3 = (Inr bars, v4)"
    and bars: "process_bars D P cfg rules (recording strat) bars (ctx, s, seen) v4 = (Inr (ctx', s', seen'), st')"
    by (auto simp: poll_once_def Let_def io_bind_eq)
  have "keeps progress (poll_fetch P cfg start_ms end_ms)"
    unfolding poll_fetch_def by (intro keeps_cases keeps_bind keeps_pure progress_world)
  from keepsD [OF this steps(2)] keepsD [OF progress_world(2) steps(1)] keepsD [OF progress_world(1) steps(3)]
    keepsD [OF progress_world(6) closed_bars]
  have "progress v4 = progress st" by simp
  with process_bars_shown [OF bars] filter_closed_result [OF closed_bars] show ?thesis
    by (metis shown_cong)
qed

lemma progress_of_world [simp]: "progress (st\<lparr>lv_world := w\<rparr>) = progress st"
  by (simp add: progress_defs)

text \<open>Induction over the polls of a loop that returned.\<close>

lemma poll_loop_induct [consumes 1, case_names failed stopped polled]:
  assumes "poll_loop D P cfg rules strat loops x st = Some r"
    and failed: "\<And>x st e st'. poll_once D P cfg rules strat x st = (Inl e, st') \<Longrightarrow> Q x st (Inl e, st')"
    and stopped: "\<And>x st x' st' w. poll_once D P cfg rules strat x st = (Inr x', st') \<Longrightarrow>
      Q x st (Inr x', st'\<lparr>lv_world := w\<rparr>)"
    and polled: "\<And>x st x' st' w r. poll_once D P cfg rules strat x st = (Inr x', st') \<Longrightarrow>
      Q x' (st'\<lparr>lv_world := w\<rparr>) r \<Longrightarrow> Q x st r"
  shows "Q x st r"
proof -
  let ?Q = "\<lambda>(((((((D0, P0), cfg0), rules0), strat0), loops), x), st) r.
    D0 = D \<longrightarrow> P0 = P \<longrightarrow> cfg0 = cfg \<longrightarrow> rules0 = rules \<longrightarrow> strat0 = strat \<longrightarrow> Q x st r"
  have stopped': "poll_once D P cfg rules strat x st = (Inr x', st') \<Longrightarrow> Q x st (Inr x', st')" for x st x' st'
    using stopped [of x st x' st' "lv_world st'"] by simp
  have "?Q (((((((D, P), cfg), rules), strat), loops), x), st) r"
    by (rule poll_loop.raw_induct [where Pa = ?Q], clarsimp split: prod.splits sum.splits if_splits)
      (use assms(1) in \<open>auto intro: failed stopped stopped' split: prod.splits sum.splits if_splits\<close>,
       rule polled, assumption, blast)
  then show ?thesis by simp
qed

lemma poll_loop_shown:
  assumes "poll_loop D P cfg rules (recording strat) loops (ctx, s, seen) st = Some (Inr (ctx', s', seen'), st')"
  shows "\<exists>new. seen' = seen @ new \<and> shown P st new st'"
proof -
  have "\<forall>ctx s seen ctx' s' seen' st'. x = (ctx, s, seen) \<longrightarrow> r = (Inr (ctx', s', seen'), st') \<longrightarrow>
        (\<exists>new. seen' = seen @ new \<and> shown P st new st')"
    if "poll_loop D P cfg rules (recording strat) loops x st = Some r" for x st r
    using that
  proof (induction rule: poll_loop_induct)
    case (stopped x st x' st' w)
    show ?case
    proof (intro allI impI)
      fix ctx s seen ctx1 s1 seen1 st1
      assume x: "x = (ctx, s, seen)" and r: "(Inr x', st'\<lparr>lv_world := w\<rparr>) = (Inr (ctx1, s1, seen1), st1)"
      then have once: "poll_once D P cfg rules (recording strat) (ctx, s, seen) st = (Inr (ctx1, s1, seen1), st')"
        using stopped by simp
      from poll_once_shown [OF this] obtain n where "seen1 = seen @ n" "shown P st n st'" by blast
      moreover from this(2) have "shown P st n st1" using r by (auto intro: shown_cong)
      ultimately show "\<exists>new. seen1 = seen @ new \<and> shown P st new st1" by blast
    qed
  next
    case (polled x st x' st' w r)
    show ?case
    proof (intro allI impI)
      fix ctx s seen ctx2 s2 seen2 st2
      assume x: "x = (ctx, s, seen)" and r: "r = (Inr (ctx2, s2, seen2), st2)"
      obtain ctx1 s1 seen1 where x': "x' = (ctx1, s1, seen1)" by (cases x') auto
      from poll_once_shown [OF polled.hyps [unfolded x x']] obtain n where n: "seen1 = seen @ n" "shown P st n st'" by blast
      from polled.IH x' r obtain m where m: "seen2 = seen1 @ m" "shown P (st'\<lparr>lv_world := w\<rparr>) m st2" by blast
      have "shown P st' m st2" by (rule shown_cong [OF m(2)]) simp_all
      with n m show "\<exists>new. seen2 = seen @ new \<and> shown P st new st2"
        using shown_append by (metis append.assoc)
    qed
  qed simp
  with assms show ?thesis by blast
qed

lemma replay_shown:
  "replay (recording strat) cs ctx (s, seen) t st = (Inr (ctx', (s', seen'), t'), st') \<Longrightarrow>
     seen' = seen @ cs \<and> st' = st"
proof (induction cs arbitrary: ctx s seen t)
  case (Cons c cs)
  then show ?case
    by (fastforce simp: io_bind_eq Let_def lv_strategy_Inr recording_on_bar)
qed simp

lemma finish_bootstrap_last:
  assumes "finish_bootstrap D P cfg rules bars target st = (Inr (), st')"
  shows "lv_last st' =
    (if lv_last st = None then (if bars = [] then None else Some (cd_open_time_ms (last bars))) else lv_last st)"
proof (cases "lv_last st")
  case (Some t)
  with assms have "st' = st" by (auto simp: finish_bootstrap_def io_bind_def lv_last_def)
  with Some show ?thesis by simp
next
  case None
  let ?go = "if lc_bootstrap_enter cfg \<and> target \<noteq> current_target D (rn_position (lv_run st)) \<and> bars \<noteq> []
    then execute_target D (rp_live P) cfg rules target (last bars) else io_return ()"
  let ?st = "st\<lparr>lv_run := (lv_run st)\<lparr>rn_last_processed_open_time_ms :=
    (if bars = [] then None else Some (cd_open_time_ms (last bars))), rn_status := Running\<rparr>\<rparr>"
  from assms None obtain now v v1 where now: "lv_now P ?st = (Inr now, v)"
    and go: "?go (v\<lparr>lv_run := (lv_run v)\<lparr>rn_updated_at_ms := now\<rparr>\<rparr>) = (Inr (), v1)"
    and save: "lv_save_run P v1 = (Inr (), st')"
    by (auto simp: finish_bootstrap_def io_bind_eq lv_last_def)
  have "keeps progress ?go" by (intro keeps_cases keeps_pure progress_execute_target)
  from keepsD [OF this go] have "progress v1 = progress v" by (simp add: progress_defs)
  with keepsD [OF progress_world(4) save] keepsD [OF progress_world(2) now] None show ?thesis
    by (simp add: progress_defs)
qed

lemma recording_on_start:
  "on_start (recording strat) ctx (s, seen) = Inr x \<Longrightarrow> snd x = seen"
  by (auto simp: recording_def and_then_Inr)

lemma run_start_shown:
  assumes "run_start D P cfg rules (recording strat) (s, []) st = (Inr (ctx, s', seen), st')"
  shows "\<exists>recent n v v'. rp_load_recent_candles P (lc_market cfg) n v = (Inr recent, v') \<and>
    (\<exists>t. seen = filter (\<lambda>c. cd_close_time_ms c \<le> t) recent) \<and> list_all (had_closed P) seen \<and>
    lv_last st' = (if lv_last st = None then (if seen = [] then None else Some (cd_open_time_ms (last seen)))
                   else lv_last st)"
proof -
  from assms obtain now v1 v2 start_ms v3 out v4 now' v5 ctx0 x recent v6 bars v7 target t v8 where
    steps: "lv_save_run P st = (Inr (), v1)" "lv_now P v1 = (Inr now, v2)"
      "lv_sync P cfg start_ms now v2 = (Inr out, v4)" "lv_now P v4 = (Inr now', v5)"
    and start: "on_start (recording strat) ctx0 (s, []) = Inr x"
    and recent: "lv_call StorageFailed (rp_load_recent_candles P (lc_market cfg) (lc_bootstrap_bars cfg)) v5 = (Inr recent, v6)"
    and bars: "filter_closed_candles P recent v6 = (Inr bars, v7)"
    and replay: "replay (recording strat) bars ctx0 x target v7 = (Inr (ctx, (s', seen), t), v8)"
    and finish: "finish_bootstrap D P cfg rules bars t v8 = (Inr (), st')"
    by (auto simp: run_start_def io_bind_eq Let_def lv_strategy_Inr io_result_eq)
  from start obtain s0 where x: "x = (s0, [])" using recording_on_start by (cases x) force
  from replay_shown [OF replay [unfolded x]] have seen: "seen = bars" "v8 = v7" by simp_all
  from keepsD [OF progress_world(4) steps(1)] keepsD [OF progress_world(2) steps(2)]
    keepsD [OF progress_world(5) steps(3)] keepsD [OF progress_world(2) steps(4)]
    keepsD [OF progress_world(1) recent] keepsD [OF progress_world(6) bars]
  have "lv_last v7 = lv_last st" by (simp add: progress_def)
  moreover obtain w w' where "rp_load_recent_candles P (lc_market cfg) (lc_bootstrap_bars cfg) w = (Inr recent, w')"
    using recent by (auto simp: lv_call_def split: prod.splits)
  ultimately show ?thesis
    using finish_bootstrap_last [OF finish] filter_closed_result [OF bars] unfolding seen by metis
qed

section \<open>Properties\<close>

text \<open>C4: a run that starts from nothing shows its strategy each closed bar once, oldest first, over the
  replay of the stored candles and every poll together, whatever the polls fetch and load: no bar is shown
  before some reading of the clock had reached its close, none twice, and none after a later one; and the
  run remembers the last one shown. The replay relies on the store to list recent candles oldest first.\<close>

theorem fresh_runs_show_bars_in_order:
  assumes "run_inner D P cfg rules (recording strat) (s, []) st = Some (Inr (s', seen), st')"
    and "rn_last_processed_open_time_ms (lv_run st) = None"
    and "\<And>m n w cs w'. rp_load_recent_candles P m n w = (Inr cs, w') \<Longrightarrow> sorted_wrt (<) (map cd_open_time_ms cs)"
  shows "sorted_wrt (<) (map cd_open_time_ms seen) \<and>
    list_all (\<lambda>c. \<exists>w t w'. lp_now_utc_ms (rp_live P) w = (t, w') \<and> cd_close_time_ms c \<le> t) seen \<and>
    rn_last_processed_open_time_ms (lv_run st') =
      (if seen = [] then None else Some (cd_open_time_ms (last seen)))"
proof -
  from assms(1) obtain ctx s1 seen1 v ctx' s2 seen2 where
    start: "run_start D P cfg rules (recording strat) (s, []) st = (Inr (ctx, s1, seen1), v)"
    and loop: "poll_loop D P cfg rules (recording strat) 0 (ctx, s1, seen1) v = Some (Inr (ctx', s2, seen2), st')"
    and finish: "on_finish (recording strat) ctx' (s2, seen2) = Inr (s', seen)"
    by (auto simp: run_inner_def and_then_Inr split: prod.splits sum.splits)
  from run_start_shown [OF start] obtain recent n w w' t where "rp_load_recent_candles P (lc_market cfg) n w = (Inr recent, w')"
    "seen1 = filter (\<lambda>c. cd_close_time_ms c \<le> t) recent" "list_all (had_closed P) seen1"
    "lv_last v = (if seen1 = [] then None else Some (cd_open_time_ms (last seen1)))"
    using assms(2) by (auto simp: lv_last_def)
  with assms(3) have "in_order P None seen1 (lv_last v)"
    by (fastforce simp: in_order_def sorted_wrt_map sorted_wrt_filter list_all_iff)
  moreover from poll_loop_shown [OF loop] obtain new where "seen2 = seen1 @ new" "shown P v new st'" by blast
  ultimately have "in_order P None seen2 (lv_last st')" by (auto simp: shown_def intro: in_order_append)
  moreover from finish have "seen = seen2" by (auto simp: recording_def and_then_Inr)
  ultimately show ?thesis unfolding in_order_def had_closed_def [abs_def] lv_last_def by simp
qed

text \<open>A store of three candles, the last of which has not closed, read by a clock that stands still.\<close>

definition sample_runner :: "(nat, sdec, unit) runner_ports" where
  "sample_runner =
     \<lparr>rp_live = sample_live\<lparr>lp_now_utc_ms := (\<lambda>w. (150000, w))\<rparr>,
      rp_sync = sample_sync\<lparr>sp_fetch_klines := (\<lambda>req w. (Inr [], w))\<rparr>,
      rp_fetch_symbol_rules = (\<lambda>s w. (Inr sample_rules, w)),
      rp_load_recent_candles = (\<lambda>m n w. (Inr (take n sample_candles), w)),
      rp_load_candles = (\<lambda>m q w. (Inr (filter (\<lambda>c. case cq_start_time_ms q of None \<Rightarrow> True
         | Some t \<Rightarrow> t \<le> cd_open_time_ms c) sample_candles), w))\<rparr>"

definition idle_strategy :: "(sdec, nat) strategy" where
  "idle_strategy = \<lparr>on_start = (\<lambda>_ n. Inr n), on_bar = (\<lambda>_ _ n. Inr (Suc n, None)), on_finish = (\<lambda>_ n. Inr n)\<rparr>"

text \<open>The bars a run of this store shows, by the last bar it had processed.\<close>

definition sample_bars_shown :: "timestamp_ms option \<Rightarrow> sdec candle list option" where
  "sample_bars_shown last_processed =
     (case run_inner sample_dec sample_runner sample_live_config sample_rules (recording idle_strategy) (0, [])
         (sample_live_state\<lparr>lv_run := sample_run\<lparr>rn_last_processed_open_time_ms := last_processed\<rparr>\<rparr>) of
        Some (Inr (s, seen), st) \<Rightarrow> Some seen
      | _ \<Rightarrow> None)"

lemma sample_bars:
  "sample_bars_shown None = Some (take 2 sample_candles)"
  "sample_bars_shown (Some 0) = Some (take 2 sample_candles @ [sample_candles ! 1])"
  by code_simp+

lemma sample_bars_run:
  assumes "sample_bars_shown t = Some seen"
  shows "\<exists>s st. run_inner sample_dec sample_runner sample_live_config sample_rules (recording idle_strategy) (0, [])
    (sample_live_state\<lparr>lv_run := sample_run\<lparr>rn_last_processed_open_time_ms := t\<rparr>\<rparr>) = Some (Inr (s, seen), st)"
  using assms by (auto simp: sample_bars_shown_def split: option.splits sum.splits prod.splits)

theorem fresh_runs_show_bars_in_order_witness:
  "sample_bars_shown None = Some (take 2 sample_candles) \<and>
   sorted_wrt (<) (map cd_open_time_ms (take 2 sample_candles))"
proof -
  from sample_bars_run [OF sample_bars(1)] obtain s st where run: "run_inner sample_dec sample_runner sample_live_config
      sample_rules (recording idle_strategy) (0, [])
      (sample_live_state\<lparr>lv_run := sample_run\<lparr>rn_last_processed_open_time_ms := None\<rparr>\<rparr>) =
    Some (Inr (s, take 2 sample_candles), st)" by blast
  have store: "sorted_wrt (<) (map cd_open_time_ms cs)"
    if "rp_load_recent_candles sample_runner m n w = (Inr cs, w')" for m n w cs w'
  proof -
    have "sorted_wrt (<) (map cd_open_time_ms sample_candles)" by (simp add: sample_candles_def sample_candle_def)
    moreover from that have "cs = take n sample_candles" by (simp add: sample_runner_def)
    ultimately show ?thesis by (simp add: sorted_wrt_take take_map [symmetric])
  qed
  from fresh_runs_show_bars_in_order [OF run _ store] sample_bars(1) show ?thesis by simp
qed



lemma closing_save_result:
  assumes "closing_save P status last_error st = (r, st')"
  shows "\<exists>now v saved. lp_save_run_state (rp_live P) (lv_run st') v = (saved, lv_world st') \<and>
    lv_run st' = (lv_run st)\<lparr>rn_status := status, rn_updated_at_ms := now,
      rn_last_error := last_error (rn_last_error (lv_run st)), rn_stopped_at_ms := Some now\<rparr> \<and>
    lv_summary st' = lv_summary st \<and> r = map_err StorageFailed saved"
proof -
  obtain now w where now: "lp_now_utc_ms (rp_live P) (lv_world st) = (now, w)" by (metis surj_pair)
  let ?run = "(lv_run st)\<lparr>rn_status := status, rn_updated_at_ms := now,
      rn_last_error := last_error (rn_last_error (lv_run st)), rn_stopped_at_ms := Some now\<rparr>"
  obtain saved w' where saved: "lp_save_run_state (rp_live P) ?run w = (saved, w')" by (metis surj_pair)
  from assms have "st' = st\<lparr>lv_run := ?run, lv_world := w'\<rparr> \<and> r = map_err StorageFailed saved"
    by (simp add: closing_save_def io_bind_def lv_now_def lv_read_def lv_save_run_def lv_call_def now saved)
  with saved show ?thesis by auto
qed


definition sample_live_start :: "((engine_error + sdec sma_cross) \<times> (nat, sdec, unit) live_state) option" where
  "sample_live_start =
     (case load_or_create_run_state sample_dec (rp_live sample_runner) sample_live_config 0 of
        (Inr run, w) \<Rightarrow> (case strategy_build sample_dec (lc_strategy sample_live_config) of
          Inr s \<Rightarrow> run_inner sample_dec sample_runner sample_live_config sample_rules (sma_cross_strategy sample_dec) s
            \<lparr>lv_run = run, lv_summary = live_summary_default, lv_world = w\<rparr>))"

lemma sample_live_starts:
  "is_ok (fst (load_or_create_run_state sample_dec (rp_live sample_runner) sample_live_config 0)) \<and>
   is_ok (strategy_build sample_dec (lc_strategy sample_live_config)) \<and>
   (case sample_live_start of Some (Inr _, _) \<Rightarrow> True | _ \<Rightarrow> False)"
  by code_simp


lemma poll_loop_returns:
  assumes "lc_max_loops cfg = Some m"
  shows "poll_loop D P cfg rules strat loops x st \<noteq> None"
proof (induction "m - loops" arbitrary: loops x st rule: less_induct)
  case less
  show ?case
  proof (cases "m \<le> Suc loops")
    case True
    with assms show ?thesis by (subst poll_loop.simps) (auto split: prod.splits sum.splits)
  next
    case False
    with less [of "Suc loops"] assms show ?thesis
      by (subst poll_loop.simps) (auto split: prod.splits sum.splits)
  qed
qed

lemma run_inner_returns: "lc_max_loops cfg = Some m \<Longrightarrow> run_inner D P cfg rules strat s st \<noteq> None"
  by (simp add: run_inner_def poll_loop_returns del: not_None_eq split: prod.splits sum.splits)

text \<open>C9: a run with a limit on its polls returns, whatever the exchange, the store and the clock answer.\<close>

theorem bounded_runs_return:
  assumes "lc_max_loops cfg = Some m"
  shows "\<exists>r w'. live_run D P cfg w = Some (r, w')"
proof -
  have "live_run D P cfg w \<noteq> None"
    by (simp add: live_run_def run_inner_returns [OF assms] del: not_None_eq split: prod.splits sum.splits)
  then show ?thesis by (cases "live_run D P cfg w") auto
qed

theorem bounded_runs_return_witness:
  "\<exists>r w'. live_run sample_dec sample_runner sample_live_config 0 = Some (r, w')"
  using bounded_runs_return [of sample_live_config 1] by (simp add: sample_live_config_def)

end
