(* ===== verification/Segments.thy ===== *)
theory Segments
  imports Candles Units
begin

text \<open>
  Segment format 1 (\<open>src/storage/segments\<close>): a window's candles as a payload of bytes, columns one after
  the other, integers little-endian and decimals as their exact text. A payload is its own name's
  content, so encoding and decoding must be inverse to each other byte for byte: the lemmas characterise
  each step of the reader by the bytes it accepts, and both round trips follow from them.

  SHA-256 and zstd are libraries: a record of functions, an argument of \<open>segment_open\<close>. Text whose bytes
  are not ASCII is never exact, so the reader's UTF-8 check shows only in the error it reports, which keeps
  the bytes here.
\<close>

section \<open>Bytes\<close>

type_synonym u8 = "8 word"

fun le_bytes :: "nat \<Rightarrow> nat \<Rightarrow> u8 list" where
  "le_bytes 0 x = []"
| "le_bytes (Suc n) x = of_nat (x mod 256) # le_bytes n (x div 256)"

fun from_le :: "u8 list \<Rightarrow> nat" where
  "from_le [] = 0"
| "from_le (b # bs) = unat b + 256 * from_le bs"

definition u32_to_le :: "u32 \<Rightarrow> u8 list" where "u32_to_le w = le_bytes 4 (unat w)"
definition u32_from_le :: "u8 list \<Rightarrow> u32" where "u32_from_le bs = of_nat (from_le bs)"
definition u64_to_le :: "u64 \<Rightarrow> u8 list" where "u64_to_le w = le_bytes 8 (unat w)"
definition u64_from_le :: "u8 list \<Rightarrow> u64" where "u64_from_le bs = of_nat (from_le bs)"
definition i64_to_le :: "timestamp_ms \<Rightarrow> u8 list" where "i64_to_le t = u64_to_le (word_of_int t)"
definition i64_from_le :: "u8 list \<Rightarrow> timestamp_ms" where "i64_from_le bs = sint (u64_from_le bs)"

lemma word_bounds: "unat (b :: u8) < 256" "unat (u :: u32) < 256 ^ 4" "unat (v :: u64) < 256 ^ 8"
  by (rule order_less_le_trans [OF unsigned_less], simp)+

lemma length_le_bytes [simp]: "length (le_bytes n x) = n"
  by (induction n arbitrary: x) simp_all

lemma from_le_bytes: "from_le (le_bytes n x) = x mod 256 ^ n"
proof (induction n arbitrary: x)
  case (Suc n)
  have "unat (of_nat (x mod 256) :: u8) = x mod 256" by (simp add: unat_of_nat)
  with Suc show ?case by (simp add: mod_mult2_eq)
qed simp

lemma from_le_less: "from_le bs < 256 ^ length bs"
proof (induction bs)
  case (Cons b bs)
  note word_bounds(1) [of b]
  moreover note Cons
  ultimately show ?case by simp
qed simp

lemma le_bytes_from: "le_bytes (length bs) (from_le bs) = bs"
proof (induction bs)
  case (Cons b bs)
  note word_bounds(1) [of b]
  moreover note Cons
  ultimately show ?case by (simp add: unat_of_nat)
qed simp

text \<open>An integer of a fixed width: what is written reads back, and every run of that many bytes is read
  as the one value that is written so.\<close>

locale fixed_width =
  fixes width :: nat and put :: "'e \<Rightarrow> u8 list" and get :: "u8 list \<Rightarrow> 'e" and ok :: "'e \<Rightarrow> bool"
  assumes width: "0 < width" and length_put: "length (put e) = width"
    and get_put: "ok e \<Longrightarrow> get (put e) = e"
    and put_get: "length bs = width \<Longrightarrow> put (get bs) = bs" and get_ok: "length bs = width \<Longrightarrow> ok (get bs)"

section \<open>The reader\<close>

datatype segment_hash = SegmentHash (hash_digest: "u8 list")

datatype segment_error =
    BarCount nat
  | SegmentOutOfOrder timestamp_ms timestamp_ms
  | SegmentInvalidDecimal string timestamp_ms "u8 list"
  | Malformed string
  | UnsupportedSegmentFormat u32
  | NotOneFrame
  | TooLarge
  | Zstd
  | HashMismatch segment_hash segment_hash

definition reader_take :: "nat \<Rightarrow> u8 list \<Rightarrow> segment_error + (u8 list \<times> u8 list)" where
  "reader_take n rest =
     (if n \<le> length rest then Inr (take n rest, drop n rest) else Inl (Malformed ''it ends early''))"

definition reader_u32 :: "u8 list \<Rightarrow> segment_error + (u32 \<times> u8 list)" where
  "reader_u32 rest = and_then (reader_take 4 rest) (\<lambda>(word, rest). Inr (u32_from_le word, rest))"

fun chunks_exact :: "nat \<Rightarrow> 'a list \<Rightarrow> 'a list list" where
  "chunks_exact n xs = (if n = 0 \<or> length xs < n then [] else take n xs # chunks_exact n (drop n xs))"

declare chunks_exact.simps [simp del]

definition reader_words :: "nat \<Rightarrow> (u8 list \<Rightarrow> 'e) \<Rightarrow> nat \<Rightarrow> u8 list \<Rightarrow> segment_error + ('e list \<times> u8 list)" where
  "reader_words n get count rest =
     and_then (reader_take (count * n) rest) (\<lambda>(bytes, rest). Inr (map get (chunks_exact n bytes), rest))"

lemma reader_take_Inr:
  "reader_take n bs = Inr (h, rest) \<longleftrightarrow> bs = h @ rest \<and> length h = n"
  by (auto simp: reader_take_def split: if_splits)

lemma chunks_exact_step:
  "0 < n \<Longrightarrow> n \<le> length xs \<Longrightarrow> chunks_exact n xs = take n xs # chunks_exact n (drop n xs)"
  by (subst chunks_exact.simps) simp

lemma chunks_exact_short: "length xs < n \<Longrightarrow> chunks_exact n xs = []"
  by (simp add: chunks_exact.simps)

lemma chunks_exact_append: "0 < n \<Longrightarrow> length x = n \<Longrightarrow> chunks_exact n (x @ xs) = x # chunks_exact n xs"
  by (simp add: chunks_exact_step)

lemma chunks_exact_concat:
  assumes "0 < n" and "length xs = count * n"
  shows "concat (chunks_exact n xs) = xs \<and> length (chunks_exact n xs) = count \<and>
    (\<forall>c\<in>set (chunks_exact n xs). length c = n)"
  using assms(2)
proof (induction count arbitrary: xs)
  case 0
  with assms(1) show ?case by (simp add: chunks_exact_short)
next
  case (Suc count)
  then have n: "n \<le> length xs" and "length (drop n xs) = count * n" by simp_all
  obtain cs where cs: "chunks_exact n (drop n xs) = cs" by blast
  from Suc.IH [OF \<open>length (drop n xs) = count * n\<close>] have "concat cs = drop n xs" "length cs = count"
    "\<forall>c\<in>set cs. length c = n" unfolding cs by blast+
  then show ?case using n unfolding chunks_exact_step [OF assms(1) n] cs by simp
qed

context fixed_width begin

lemma reader_words_Inr:
  "reader_words width get count bs = Inr (es, rest) \<longleftrightarrow>
     length es = count \<and> list_all ok es \<and> bs = concat (map put es) @ rest"
proof
  assume "reader_words width get count bs = Inr (es, rest)"
  then obtain h where h: "bs = h @ rest" "length h = count * width" and es: "es = map get (chunks_exact width h)"
    by (auto simp: reader_words_def and_then_Inr reader_take_Inr)
  from chunks_exact_concat [OF width h(2)]
  have c: "concat (chunks_exact width h) = h" "length (chunks_exact width h) = count"
    and each: "\<forall>c\<in>set (chunks_exact width h). length c = width" by auto
  from each have "map put es = chunks_exact width h" unfolding es by (simp add: map_idI put_get)
  with c each h es show "length es = count \<and> list_all ok es \<and> bs = concat (map put es) @ rest"
    by (auto simp: list_all_iff get_ok)
next
  assume r: "length es = count \<and> list_all ok es \<and> bs = concat (map put es) @ rest"
  have "chunks_exact width (concat (map put es)) = map put es" for es
    using width by (induction es) (simp_all add: chunks_exact_append chunks_exact_short length_put)
  moreover have "length (concat (map put es)) = length es * width" for es
    by (induction es) (simp_all add: length_put)
  ultimately show "reader_words width get count bs = Inr (es, rest)"
    using r by (auto simp: reader_words_def reader_take_def list_all_iff get_put map_idI)
qed

end

interpretation u64_le: fixed_width 8 u64_to_le u64_from_le "\<lambda>_. True"
proof
  show "u64_from_le (u64_to_le w) = w" for w
    using word_bounds(3) [of w] by (simp add: u64_from_le_def u64_to_le_def from_le_bytes)
  show "u64_to_le (u64_from_le bs) = bs" if "length bs = 8" for bs
    using that le_bytes_from [of bs] from_le_less [of bs]
    by (simp add: u64_from_le_def u64_to_le_def unat_of_nat)
qed (simp_all add: u64_to_le_def)

interpretation i64_le: fixed_width 8 i64_to_le i64_from_le is_i64
proof
  show "i64_from_le (i64_to_le t) = t" if "is_i64 t" for t
    using that by (simp add: i64_from_le_def i64_to_le_def u64_le.get_put is_i64_def i64_defs signed_of_int signed_take_bit_int_eq_self)
  show "i64_to_le (i64_from_le bs) = bs" if "length bs = 8" for bs
    using that by (simp add: i64_from_le_def i64_to_le_def u64_le.put_get)
  show "is_i64 (i64_from_le bs)" for bs
    using sint_greater_eq [of "u64_from_le bs"] sint_less [of "u64_from_le bs"] by (simp add: i64_from_le_def i64_defs)
qed (simp_all add: i64_to_le_def u64_to_le_def)

interpretation u32_le: fixed_width 4 u32_to_le u32_from_le "\<lambda>_. True"
proof
  show "u32_from_le (u32_to_le w) = w" for w
    using word_bounds(2) [of w] by (simp add: u32_from_le_def u32_to_le_def from_le_bytes)
  show "u32_to_le (u32_from_le bs) = bs" if "length bs = 4" for bs
    using that le_bytes_from [of bs] from_le_less [of bs]
    by (simp add: u32_from_le_def u32_to_le_def unat_of_nat)
qed (simp_all add: u32_to_le_def)

lemma reader_u32_Inr: "reader_u32 bs = Inr (w, rest) \<longleftrightarrow> bs = u32_to_le w @ rest"
proof
  assume "reader_u32 bs = Inr (w, rest)"
  then obtain h where "bs = h @ rest" "length h = 4" "w = u32_from_le h"
    by (auto simp: reader_u32_def and_then_Inr reader_take_Inr)
  then show "bs = u32_to_le w @ rest" by (simp add: u32_le.put_get)
qed (simp add: reader_u32_def reader_take_def u32_le.length_put u32_le.get_put)

section \<open>Text\<close>

text \<open>The UTF-8 bytes of a text, and the text of bytes that are all ASCII.\<close>

definition char_bytes :: "char \<Rightarrow> u8 list" where
  "char_bytes c =
     (if code c < 128 then [of_nat (code c)] else [of_nat (192 + code c div 64), of_nat (128 + code c mod 64)])"

definition text_bytes :: "string \<Rightarrow> u8 list" where
  "text_bytes s = concat (map char_bytes s)"

definition ascii_text :: "u8 list \<Rightarrow> string option" where
  "ascii_text bs = (if list_all (\<lambda>b. unat b < 128) bs then Some (map (\<lambda>b. char_of (unat b)) bs) else None)"

definition max_decimal_len :: nat where "max_decimal_len = 31"

definition is_exact_form :: "string \<Rightarrow> bool" where
  "is_exact_form text =
     (let (negative, unsigned_text) = (case strip_prefix ''-'' text of
            Some rest \<Rightarrow> (True, rest) | None \<Rightarrow> (False, text));
          (integer, fraction) = (case split_once CHR ''.'' unsigned_text of
            Some (i, f) \<Rightarrow> (i, Some f) | None \<Rightarrow> (unsigned_text, None));
          well_formed = (numeral_part integer \<and> (integer = ''0'' \<or> \<not> starts_with CHR ''0'' integer) \<and>
            (case fraction of None \<Rightarrow> True | Some f \<Rightarrow> numeral_part f));
          zero = list_all (\<lambda>b. b = CHR ''0'' \<or> b = CHR ''.'') unsigned_text
      in well_formed \<and> \<not> (negative \<and> zero))"

definition is_exact :: "'d decimal_ops \<Rightarrow> string \<Rightarrow> bool" where
  "is_exact D text \<longleftrightarrow>
     utf8_len text \<le> max_decimal_len \<and> is_exact_form text \<and>
     (case dec_from_str_exact D text of None \<Rightarrow> False | Some v \<Rightarrow> dec_to_string D v = text)"

lemma length_text_bytes [simp]: "length (text_bytes s) = utf8_len s"
  by (induction s) (simp_all add: text_bytes_def char_bytes_def)

lemma ascii_text_Some: "ascii_text bs = Some t \<longleftrightarrow> (\<forall>c\<in>set t. code c < 128) \<and> bs = text_bytes t"
proof
  assume "ascii_text bs = Some t"
  then have b: "\<forall>b\<in>set bs. unat b < 128" and t: "t = map (\<lambda>b. char_of (unat b)) bs"
    by (auto simp: ascii_text_def list_all_iff split: if_splits)
  have "code (char_of (unat b)) = unat b" if "unat b < 128" for b :: u8
    using that by (simp add: code_def of_char_of)
  with b show "(\<forall>c\<in>set t. code c < 128) \<and> bs = text_bytes t"
    unfolding t by (induction bs) (auto simp: text_bytes_def char_bytes_def)
next
  assume t: "(\<forall>c\<in>set t. code c < 128) \<and> bs = text_bytes t"
  then have "bs = map (\<lambda>c. of_nat (code c)) t"
    by (induction t arbitrary: bs) (auto simp: text_bytes_def char_bytes_def)
  moreover have "unat (of_nat (code c) :: u8) = code c" if "c \<in> set t" for c
  proof -
    from t that have "code c < 256" by force
    then show ?thesis by (simp add: unat_of_nat)
  qed
  ultimately show "ascii_text bs = Some t"
    using t by (auto simp: ascii_text_def list_all_iff map_idI code_def char_of_nat)
qed

lemma is_exact_ascii:
  assumes "is_exact D t" shows "\<forall>c\<in>set t. code c < 128"
proof -
  have digit: "list_all is_ascii_digit u \<Longrightarrow> c \<in> set u \<Longrightarrow> code c < 128" for u c
    by (auto simp: list_all_iff is_ascii_digit_def)
  have u: "\<forall>c\<in>set u. code c < 128"
    if "case split_once CHR ''.'' u of Some (i, f) \<Rightarrow> numeral_part i \<and> numeral_part f | None \<Rightarrow> numeral_part u" for u
    using that digit
    by (auto simp: numeral_part_def code_def split: option.splits dest!: split_once_Some)
  from assms have "is_exact_form t" by (simp add: is_exact_def)
  then show ?thesis
    using u [of t] u [of "drop 1 t"]
    by (auto simp: is_exact_form_def Let_def code_def split: option.splits prod.splits)
qed

section \<open>The payload\<close>

definition segment_format :: u32 where "segment_format = 1"
definition window_bars :: nat where "window_bars = 1440"
definition segment_magic :: "u8 list" where "segment_magic = text_bytes ''QFSEGMNT''"
definition decimal_columns :: "string list" where
  "decimal_columns = [''open'', ''high'', ''low'', ''close'', ''volume'']"

record text_candle =
  tc_open_time_ms :: timestamp_ms
  tc_close_time_ms :: timestamp_ms
  tc_decimals :: "string list"
  tc_trades :: "u64 option"

definition written :: "'d decimal_ops \<Rightarrow> 'd \<Rightarrow> string" where
  "written D value = dec_to_string D (if dec_is_zero D value then dec_set_sign_positive D value else value)"

definition text_candle_of :: "('d \<Rightarrow> string) \<Rightarrow> 'd candle \<Rightarrow> text_candle" where
  "text_candle_of text c =
     \<lparr>tc_open_time_ms = cd_open_time_ms c, tc_close_time_ms = cd_close_time_ms c,
      tc_decimals = map text [cd_open c, cd_high c, cd_low c, cd_close c, cd_volume c], tc_trades = cd_trades c\<rparr>"

fun check_order :: "timestamp_ms list \<Rightarrow> segment_error + unit" where
  "check_order (previous # later # ts) =
     (if later \<le> previous then Inl (SegmentOutOfOrder previous later) else check_order (later # ts))"
| "check_order _ = Inr ()"

fun encode_column :: "'d decimal_ops \<Rightarrow> string \<Rightarrow> (timestamp_ms \<times> string) list \<Rightarrow> segment_error + (u8 list \<times> u8 list)" where
  "encode_column D column [] = Inr ([], [])"
| "encode_column D column ((t, text) # rows) =
     (if utf8_len text < 256 \<and> is_exact D text
      then and_then (encode_column D column rows)
             (\<lambda>(lengths, texts). Inr (of_nat (utf8_len text) # lengths, text_bytes text @ texts))
      else Inl (SegmentInvalidDecimal column t (text_bytes text)))"

definition column_rows :: "nat \<Rightarrow> text_candle list \<Rightarrow> (timestamp_ms \<times> string) list" where
  "column_rows index = map (\<lambda>c. (tc_open_time_ms c,
     if index < length (tc_decimals c) then tc_decimals c ! index else []))"

fun encode_columns :: "'d decimal_ops \<Rightarrow> nat \<Rightarrow> string list \<Rightarrow> text_candle list \<Rightarrow> segment_error + u8 list" where
  "encode_columns D index [] candles = Inr []"
| "encode_columns D index (column # columns) candles =
     and_then (encode_column D column (column_rows index candles)) (\<lambda>(lengths, texts).
     and_then (encode_columns D (Suc index) columns candles) (\<lambda>rest. Inr (lengths @ texts @ rest)))"

definition trade_count :: "u64 option \<Rightarrow> u64" where
  "trade_count trades = (case trades of None \<Rightarrow> 0 | Some n \<Rightarrow> n)"

definition trade_flag :: "u64 option \<Rightarrow> u8" where
  "trade_flag trades = (if trades = None then 0 else 1)"

definition payload_head :: "text_candle list \<Rightarrow> u8 list" where
  "payload_head candles =
     segment_magic @ u32_to_le segment_format @ u32_to_le (of_nat (length candles)) @
     concat (map (i64_to_le \<circ> tc_open_time_ms) candles) @
     concat (map (i64_to_le \<circ> tc_close_time_ms) candles) @
     concat (map (u64_to_le \<circ> trade_count \<circ> tc_trades) candles) @
     map (trade_flag \<circ> tc_trades) candles"

definition encode_text :: "'d decimal_ops \<Rightarrow> text_candle list \<Rightarrow> segment_error + u8 list" where
  "encode_text D candles =
     (if length candles < 1 \<or> window_bars < length candles then Inl (BarCount (length candles))
      else and_then (check_order (map tc_open_time_ms candles)) (\<lambda>_.
           and_then (encode_columns D 0 decimal_columns candles) (\<lambda>columns.
             Inr (payload_head candles @ columns))))"

definition encode :: "'d decimal_ops \<Rightarrow> 'd candle list \<Rightarrow> segment_error + u8 list" where
  "encode D candles = encode_text D (map (text_candle_of (written D)) candles)"

fun read_trades :: "u8 list \<Rightarrow> u64 list \<Rightarrow> segment_error + u64 option list" where
  "read_trades (known # ks) (trades # ts) =
     (if known = 1 then and_then (read_trades ks ts) (\<lambda>rest. Inr (Some trades # rest))
      else if known = 0 \<and> trades = 0 then and_then (read_trades ks ts) (\<lambda>rest. Inr (None # rest))
      else if known = 0 then Inl (Malformed ''a trade count is set where it is marked unknown'')
      else Inl (Malformed ''a trade count's flag is neither 0 nor 1''))"
| "read_trades _ _ = Inr []"

definition read_decimal :: "'d decimal_ops \<Rightarrow> u8 list \<Rightarrow> 'd option" where
  "read_decimal D bytes =
     Option.bind (ascii_text bytes) (\<lambda>text. if is_exact D text then dec_from_str_exact D text else None)"

fun read_column :: "'d decimal_ops \<Rightarrow> string \<Rightarrow> (u8 \<times> timestamp_ms) list \<Rightarrow> u8 list \<Rightarrow>
  segment_error + ('d list \<times> u8 list)" where
  "read_column D column [] rest = Inr ([], rest)"
| "read_column D column ((len, t) # rows) rest =
     and_then (reader_take (unat len) rest) (\<lambda>(text, rest).
       (case read_decimal D text of
          None \<Rightarrow> Inl (SegmentInvalidDecimal column t text)
        | Some v \<Rightarrow> and_then (read_column D column rows rest) (\<lambda>(vs, rest). Inr (v # vs, rest))))"

fun read_columns :: "'d decimal_ops \<Rightarrow> string list \<Rightarrow> timestamp_ms list \<Rightarrow> u8 list \<Rightarrow>
  segment_error + ('d list list \<times> u8 list)" where
  "read_columns D [] opens rest = Inr ([], rest)"
| "read_columns D (column # columns) opens rest =
     and_then (reader_take (length opens) rest) (\<lambda>(lengths, rest).
     and_then (read_column D column (zip lengths opens) rest) (\<lambda>(vs, rest).
     and_then (read_columns D columns opens rest) (\<lambda>(vss, rest). Inr (vs # vss, rest))))"

definition rows_of :: "timestamp_ms list \<Rightarrow> timestamp_ms list \<Rightarrow> u64 option list \<Rightarrow> 'd list list \<Rightarrow>
  segment_error + 'd candle list" where
  "rows_of opens closes trades columns =
     map_err (\<lambda>_. Malformed ''its columns differ in length'')
       (and_then (from_columns
          \<lparr>cc_open_time_ms = opens, cc_close_time_ms = closes, cc_open = columns ! 0, cc_high = columns ! 1,
           cc_low = columns ! 2, cc_close = columns ! 3, cc_volume = columns ! 4, cc_trades = trades\<rparr>)
          (\<lambda>batch. Inr (to_candles batch)))"

definition decode_rows :: "'d decimal_ops \<Rightarrow> nat \<Rightarrow> u8 list \<Rightarrow> segment_error + 'd candle list" where
  "decode_rows D count rest =
     and_then (reader_words 8 i64_from_le count rest) (\<lambda>(opens, rest).
     and_then (check_order opens) (\<lambda>_.
     and_then (reader_words 8 i64_from_le count rest) (\<lambda>(closes, rest).
     and_then (reader_words 8 u64_from_le count rest) (\<lambda>(counts, rest).
     and_then (reader_take count rest) (\<lambda>(flags, rest).
     and_then (read_trades flags counts) (\<lambda>trades.
     and_then (read_columns D decimal_columns opens rest) (\<lambda>(columns, rest).
       if rest \<noteq> [] then Inl (Malformed ''bytes follow the last column'')
       else rows_of opens closes trades columns)))))))"

definition decode :: "'d decimal_ops \<Rightarrow> u8 list \<Rightarrow> segment_error + 'd candle list" where
  "decode D payload =
     and_then (reader_take (length segment_magic) payload) (\<lambda>(magic, rest).
       if magic \<noteq> segment_magic then Inl (Malformed ''it does not start with QFSEGMNT'')
       else and_then (reader_u32 rest) (\<lambda>(format, rest).
       if format \<noteq> segment_format then Inl (UnsupportedSegmentFormat format)
       else and_then (reader_u32 rest) (\<lambda>(count, rest).
       if unat count < 1 \<or> window_bars < unat count then Inl (BarCount (unat count))
       else decode_rows D (unat count) rest)))"

section \<open>What the reader accepts\<close>

lemma read_trades_Inr:
  "length ks = length ts \<Longrightarrow>
   read_trades ks ts = Inr us \<longleftrightarrow> ks = map trade_flag us \<and> ts = map trade_count us"
proof (induction ks ts arbitrary: us rule: list_induct2)
  case (Cons k ks t ts)
  then show ?case
    by (cases us) (auto simp: and_then_Inr trade_flag_def trade_count_def split: option.splits if_splits)
qed auto

definition exact_dec :: "'d decimal_ops \<Rightarrow> 'd \<Rightarrow> bool" where
  "exact_dec D v \<longleftrightarrow> is_exact D (dec_to_string D v) \<and> dec_from_str_exact D (dec_to_string D v) = Some v"

definition dec_bytes :: "'d decimal_ops \<Rightarrow> 'd \<Rightarrow> u8 list" where
  "dec_bytes D v = text_bytes (dec_to_string D v)"

definition column_bytes :: "'d decimal_ops \<Rightarrow> 'd list \<Rightarrow> u8 list" where
  "column_bytes D vs = map (of_nat \<circ> length \<circ> dec_bytes D) vs @ concat (map (dec_bytes D) vs)"

lemma is_exact_dec: "is_exact D t \<longleftrightarrow> (\<exists>v. exact_dec D v \<and> dec_to_string D v = t)"
  by (auto simp: exact_dec_def is_exact_def split: option.splits)

lemma exact_dec_bytes: "exact_dec D v \<Longrightarrow> unat (of_nat (length (dec_bytes D v)) :: u8) = length (dec_bytes D v)"
  by (simp add: exact_dec_def is_exact_def max_decimal_len_def dec_bytes_def unat_of_nat)

lemma read_decimal_Some: "read_decimal D bs = Some v \<longleftrightarrow> exact_dec D v \<and> bs = dec_bytes D v"
proof
  assume "read_decimal D bs = Some v"
  then show "exact_dec D v \<and> bs = dec_bytes D v"
    by (auto simp: read_decimal_def bind_eq_Some_conv ascii_text_Some exact_dec_def is_exact_def dec_bytes_def
        split: if_splits)
next
  assume "exact_dec D v \<and> bs = dec_bytes D v"
  then show "read_decimal D bs = Some v"
    using is_exact_ascii [of D "dec_to_string D v"]
    by (auto simp: read_decimal_def bind_eq_Some_conv ascii_text_Some exact_dec_def dec_bytes_def)
qed

lemma case_option_Inr:
  "(case r of None \<Rightarrow> Inl e | Some v \<Rightarrow> f v) = Inr x \<longleftrightarrow> (\<exists>v. r = Some v \<and> f v = Inr x)"
  by (cases r) simp_all

lemma read_column_step:
  "read_column D column ((len, t) # rows) bs = Inr (vs, rest) \<longleftrightarrow>
     (\<exists>v ws bs'. vs = v # ws \<and> exact_dec D v \<and> len = of_nat (length (dec_bytes D v)) \<and>
        bs = dec_bytes D v @ bs' \<and> read_column D column rows bs' = Inr (ws, rest))"
proof -
  have len: "length (dec_bytes D v) = unat len \<longleftrightarrow> len = of_nat (length (dec_bytes D v))"
    if "exact_dec D v" for v
    by (auto simp: word_unat_eq_iff exact_dec_bytes [OF that])
  have "read_column D column ((len, t) # rows) bs = Inr (vs, rest) \<longleftrightarrow>
      (\<exists>h bs' v ws. bs = h @ bs' \<and> length h = unat len \<and> read_decimal D h = Some v \<and>
        read_column D column rows bs' = Inr (ws, rest) \<and> vs = v # ws)"
    by (simp add: and_then_Inr reader_take_Inr case_option_Inr) blast
  also have "\<dots> \<longleftrightarrow> (\<exists>v ws bs'. vs = v # ws \<and> (exact_dec D v \<and> length (dec_bytes D v) = unat len) \<and>
        bs = dec_bytes D v @ bs' \<and> read_column D column rows bs' = Inr (ws, rest))"
    unfolding read_decimal_Some by blast
  finally show ?thesis using len by auto
qed

lemma read_column_Inr:
  "read_column D column rows bs = Inr (vs, rest) \<longleftrightarrow>
     list_all (exact_dec D) vs \<and> map fst rows = map (of_nat \<circ> length \<circ> dec_bytes D) vs \<and>
     bs = concat (map (dec_bytes D) vs) @ rest"
proof (induction rows arbitrary: bs vs)
  case (Cons row rows)
  obtain len t where row: "row = (len, t)" by (cases row)
  show ?case unfolding row read_column_step Cons.IH by (cases vs) auto
qed auto

lemma read_columns_Inr:
  "read_columns D columns opens bs = Inr (vss, rest) \<longleftrightarrow>
     length vss = length columns \<and> (\<forall>vs\<in>set vss. length vs = length opens \<and> list_all (exact_dec D) vs) \<and>
     bs = concat (map (column_bytes D) vss) @ rest"
proof (induction columns arbitrary: bs vss)
  case (Cons column columns)
  have "read_columns D (column # columns) opens bs = Inr (vss, rest) \<longleftrightarrow>
      (\<exists>vs wss bs'. vss = vs # wss \<and> length vs = length opens \<and> list_all (exact_dec D) vs \<and>
        bs = column_bytes D vs @ bs' \<and> read_columns D columns opens bs' = Inr (wss, rest))" (is "_ = ?r")
  proof
    assume "read_columns D (column # columns) opens bs = Inr (vss, rest)"
    then obtain lens b1 vs b2 wss where b: "bs = lens @ b1" "length lens = length opens"
      and c: "read_column D column (zip lens opens) b1 = Inr (vs, b2)"
      and rec: "read_columns D columns opens b2 = Inr (wss, rest)" "vss = vs # wss"
      by (auto simp: and_then_Inr reader_take_Inr)
    from c b have "lens = map (of_nat \<circ> length \<circ> dec_bytes D) vs" by (simp add: read_column_Inr)
    with b c rec show ?r by (auto simp: read_column_Inr column_bytes_def)
  next
    assume ?r
    then obtain vs wss bs' where r: "vss = vs # wss" "length vs = length opens" "list_all (exact_dec D) vs"
        "bs = column_bytes D vs @ bs'" "read_columns D columns opens bs' = Inr (wss, rest)" by blast
    let ?lens = "map (of_nat \<circ> length \<circ> dec_bytes D) vs :: u8 list"
    have "reader_take (length opens) bs = Inr (?lens, concat (map (dec_bytes D) vs) @ bs')"
      using r by (simp add: reader_take_Inr column_bytes_def)
    moreover have "read_column D column (zip ?lens opens) (concat (map (dec_bytes D) vs) @ bs') = Inr (vs, bs')"
      using r by (simp add: read_column_Inr)
    ultimately show "read_columns D (column # columns) opens bs = Inr (vss, rest)"
      using r by simp
  qed
  then show ?case by (cases vss) (auto simp: Cons.IH)
qed auto

section \<open>Payloads\<close>

text \<open>The payload of a set of candles as one expression, and the candles that have one.\<close>

definition candle_decimals :: "'d candle \<Rightarrow> 'd list" where
  "candle_decimals c = [cd_open c, cd_high c, cd_low c, cd_close c, cd_volume c]"

definition decimals_bytes :: "'d decimal_ops \<Rightarrow> 'd candle list \<Rightarrow> u8 list" where
  "decimals_bytes D cs = concat (map (column_bytes D)
     [map cd_open cs, map cd_high cs, map cd_low cs, map cd_close cs, map cd_volume cs])"

abbreviation text_rows :: "'d decimal_ops \<Rightarrow> 'd candle list \<Rightarrow> text_candle list" where
  "text_rows D \<equiv> map (text_candle_of (dec_to_string D))"

definition exact_candle :: "'d decimal_ops \<Rightarrow> 'd candle \<Rightarrow> bool" where
  "exact_candle D c \<longleftrightarrow> list_all (exact_dec D) (candle_decimals c)"

definition i64_times :: "'d candle \<Rightarrow> bool" where
  "i64_times c \<longleftrightarrow> is_i64 (cd_open_time_ms c) \<and> is_i64 (cd_close_time_ms c)"

definition windowed :: "'d candle list \<Rightarrow> bool" where
  "windowed cs \<longleftrightarrow> 1 \<le> length cs \<and> length cs \<le> window_bars \<and> check_order (map cd_open_time_ms cs) = Inr ()"

definition payload_of :: "'d decimal_ops \<Rightarrow> 'd candle list \<Rightarrow> u8 list" where
  "payload_of D cs = payload_head (text_rows D cs) @ decimals_bytes D cs"

lemma length_five: "length xs = 5 \<Longrightarrow> xs = [xs ! 0, xs ! 1, xs ! 2, xs ! 3, xs ! 4]"
  by (auto simp: numeral_eq_Suc length_Suc_conv)

lemma rows_of_Inr:
  assumes "length columns = 5"
  shows "rows_of opens closes trades columns = Inr cs \<longleftrightarrow>
    opens = map cd_open_time_ms cs \<and> closes = map cd_close_time_ms cs \<and> trades = map cd_trades cs \<and>
    columns = [map cd_open cs, map cd_high cs, map cd_low cs, map cd_close cs, map cd_volume cs]"
    (is "_ \<longleftrightarrow> ?r")
proof
  let ?c = "\<lparr>cc_open_time_ms = opens, cc_close_time_ms = closes, cc_open = columns ! 0, cc_high = columns ! 1,
    cc_low = columns ! 2, cc_close = columns ! 3, cc_volume = columns ! 4, cc_trades = trades\<rparr>"
  assume "rows_of opens closes trades columns = Inr cs"
  then have "columns_ok ?c" and cs: "cs = to_candles (CandleBatch ?c)"
    by (auto simp: rows_of_def map_err_def and_then_def from_columns_Inr split: sum.splits)
  then have "from_candles cs = CandleBatch ?c" by (simp add: from_to_candles)
  then show ?r using length_five [OF assms] by (simp add: from_candles_def)
next
  have "from_columns (batch_columns (from_candles cs)) = Inr (from_candles cs)"
    by (simp add: from_columns_Inr from_candles_def columns_ok_def column_lengths_def)
  moreover assume ?r
  ultimately show "rows_of opens closes trades columns = Inr cs"
    using to_from_candles [of cs] by (simp add: rows_of_def map_err_def from_candles_def)
qed

definition rows_bytes :: "'d decimal_ops \<Rightarrow> 'd candle list \<Rightarrow> u8 list" where
  "rows_bytes D cs =
     concat (map i64_to_le (map cd_open_time_ms cs)) @ concat (map i64_to_le (map cd_close_time_ms cs)) @
     concat (map u64_to_le (map trade_count (map cd_trades cs))) @ map trade_flag (map cd_trades cs) @
     decimals_bytes D cs"

lemma payload_of_rows:
  "payload_of D cs = segment_magic @ u32_to_le segment_format @ u32_to_le (of_nat (length cs)) @ rows_bytes D cs"
  by (simp add: payload_of_def payload_head_def rows_bytes_def text_candle_of_def comp_def)

lemma exact_columns:
  "(\<forall>vs\<in>set [map cd_open cs, map cd_high cs, map cd_low cs, map cd_close cs, map cd_volume cs].
      length vs = length cs \<and> list_all (exact_dec D) vs) \<longleftrightarrow> list_all (exact_candle D) cs"
  by (induction cs) (auto simp: exact_candle_def candle_decimals_def)

lemma decode_rows_Inr:
  "decode_rows D n bs = Inr cs \<longleftrightarrow>
     length cs = n \<and> check_order (map cd_open_time_ms cs) = Inr () \<and> list_all i64_times cs \<and>
     list_all (exact_candle D) cs \<and> bs = rows_bytes D cs" (is "_ \<longleftrightarrow> ?r")
proof
  assume "decode_rows D n bs = Inr cs"
  then obtain opens b1 closes b2 counts b3 flags b4 trades columns where
      o: "reader_words 8 i64_from_le n bs = Inr (opens, b1)" and ord: "check_order opens = Inr ()"
    and c: "reader_words 8 i64_from_le n b1 = Inr (closes, b2)"
    and k: "reader_words 8 u64_from_le n b2 = Inr (counts, b3)" and f: "reader_take n b3 = Inr (flags, b4)"
    and t: "read_trades flags counts = Inr trades"
    and d: "read_columns D decimal_columns opens b4 = Inr (columns, [])"
    and r: "rows_of opens closes trades columns = Inr cs"
    by (auto simp: decode_rows_def and_then_Inr split: if_splits)
  note words = i64_le.reader_words_Inr u64_le.reader_words_Inr reader_take_Inr
  from k f t have "flags = map trade_flag trades" "counts = map trade_count trades"
    by (auto simp: words read_trades_Inr)
  moreover from d have "length columns = 5" unfolding read_columns_Inr by (simp add: decimal_columns_def)
  with r have cs: "opens = map cd_open_time_ms cs" "closes = map cd_close_time_ms cs" "trades = map cd_trades cs"
      "columns = [map cd_open cs, map cd_high cs, map cd_low cs, map cd_close cs, map cd_volume cs]"
    by (simp_all add: rows_of_Inr)
  moreover from d have "list_all (exact_candle D) cs" "b4 = decimals_bytes D cs"
    using exact_columns [of cs D] unfolding cs read_columns_Inr decimals_bytes_def by simp_all
  ultimately show ?r
    using o ord c k f by (auto simp: words rows_bytes_def i64_times_def list_all_iff)
next
  assume r: ?r
  let ?columns = "[map cd_open cs, map cd_high cs, map cd_low cs, map cd_close cs, map cd_volume cs]"
  have d: "read_columns D decimal_columns (map cd_open_time_ms cs) (decimals_bytes D cs) = Inr (?columns, [])"
    unfolding read_columns_Inr using r exact_columns [of cs D]
    by (simp add: decimal_columns_def decimals_bytes_def)
  have "read_trades (map trade_flag (map cd_trades cs)) (map trade_count (map cd_trades cs)) = Inr (map cd_trades cs)"
    by (simp only: read_trades_Inr length_map)
  moreover have "rows_of (map cd_open_time_ms cs) (map cd_close_time_ms cs) (map cd_trades cs) ?columns = Inr cs"
    by (simp add: rows_of_Inr)
  moreover have "reader_words 8 i64_from_le n (concat (map i64_to_le ts) @ rest) = Inr (ts, rest)"
    if "length ts = n" "list_all is_i64 ts" for ts rest using that by (simp add: i64_le.reader_words_Inr)
  moreover have "reader_words 8 u64_from_le n (concat (map u64_to_le ts) @ rest) = Inr (ts, rest)"
    if "length ts = n" for ts rest using that by (simp add: u64_le.reader_words_Inr list_all_iff)
  moreover have "reader_take n (fs @ rest) = Inr (fs, rest)" if "length fs = n" for fs rest
    using that by (simp add: reader_take_Inr)
  ultimately show "decode_rows D n bs = Inr cs"
    using r d by (simp add: decode_rows_def rows_bytes_def i64_times_def list_all_iff del: map_map)
qed

lemma decode_Inr:
  "decode D p = Inr cs \<longleftrightarrow>
     windowed cs \<and> list_all i64_times cs \<and> list_all (exact_candle D) cs \<and> p = payload_of D cs" (is "_ \<longleftrightarrow> ?r")
proof
  assume "decode D p = Inr cs"
  then obtain b1 b2 count b3 where p: "p = segment_magic @ b1" "b1 = u32_to_le segment_format @ b2"
      "b2 = u32_to_le count @ b3" and n: "1 \<le> unat count" "unat count \<le> window_bars"
    and rows: "decode_rows D (unat count) b3 = Inr cs"
    by (auto simp: decode_def and_then_Inr reader_take_Inr reader_u32_Inr split: if_splits)
  from rows have r: "length cs = unat count" by (simp add: decode_rows_Inr)
  then have "of_nat (length cs) = count" by simp
  with p n rows r show ?r by (simp add: decode_rows_Inr payload_of_rows windowed_def)
next
  assume r: ?r
  then have n: "unat (of_nat (length cs) :: u32) = length cs"
    by (simp add: windowed_def window_bars_def unat_of_nat)
  have "reader_u32 (u32_to_le w @ rest) = Inr (w, rest)" for w rest by (simp add: reader_u32_Inr)
  moreover have "reader_take (length segment_magic) (segment_magic @ rest) = Inr (segment_magic, rest)" for rest
    by (simp add: reader_take_Inr)
  moreover have "decode_rows D (length cs) (rows_bytes D cs) = Inr cs"
    using r by (simp add: decode_rows_Inr windowed_def)
  ultimately show "decode D p = Inr cs"
    using r n by (auto simp: decode_def payload_of_rows windowed_def)
qed

text \<open>What the writer makes of text.\<close>

definition column_cell :: "nat \<Rightarrow> text_candle \<Rightarrow> string" where
  "column_cell j tc = (if j < length (tc_decimals tc) then tc_decimals tc ! j else [])"

definition column_text :: "string list \<Rightarrow> u8 list" where
  "column_text texts = map (of_nat \<circ> utf8_len) texts @ concat (map text_bytes texts)"

lemma is_exact_short: "is_exact D text \<Longrightarrow> utf8_len text < 256"
  by (simp add: is_exact_def max_decimal_len_def)

lemma encode_column_Inr:
  "encode_column D column rows = Inr r \<longleftrightarrow>
     (\<forall>row\<in>set rows. is_exact D (snd row)) \<and>
     r = (map (of_nat \<circ> utf8_len) (map snd rows), concat (map text_bytes (map snd rows)))"
proof (induction rows arbitrary: r)
  case (Cons row rows)
  show ?case by (cases row; cases r) (auto simp: and_then_Inr Cons.IH is_exact_short)
qed auto

lemma encode_columns_Inr:
  "encode_columns D i columns tcs = Inr p \<longleftrightarrow>
     (\<forall>j\<in>set [i..<i + length columns]. \<forall>tc\<in>set tcs. is_exact D (column_cell j tc)) \<and>
     p = concat (map (\<lambda>j. column_text (map (column_cell j) tcs)) [i..<i + length columns])"
proof (induction columns arbitrary: i p)
  case (Cons column columns)
  have cells: "map snd (column_rows i tcs) = map (column_cell i) tcs"
    by (simp add: column_rows_def column_cell_def comp_def)
  obtain later where later: "[Suc i..<Suc i + length columns] = later" by blast
  have upt: "[i..<i + length (column # columns)] = i # later"
    unfolding later [symmetric] by (subst upt_rec) simp
  have "(\<forall>row\<in>set (column_rows i tcs). is_exact D (snd row)) \<longleftrightarrow> (\<forall>tc\<in>set tcs. is_exact D (column_cell i tc))"
    by (simp add: column_rows_def column_cell_def)
  then show ?case
    unfolding upt encode_columns.simps
    by (auto simp: and_then_Inr encode_column_Inr Cons.IH [of "Suc i", unfolded later] cells column_text_def
        simp del: map_map)
qed auto

lemma column_bytes_text: "column_bytes D vs = column_text (map (dec_to_string D) vs)"
  by (simp add: column_bytes_def column_text_def dec_bytes_def [abs_def] comp_def)

lemma cells_of_rows:
  "map (column_cell 0) (text_rows D cs) = map (dec_to_string D) (map cd_open cs)"
  "map (column_cell 1) (text_rows D cs) = map (dec_to_string D) (map cd_high cs)"
  "map (column_cell 2) (text_rows D cs) = map (dec_to_string D) (map cd_low cs)"
  "map (column_cell 3) (text_rows D cs) = map (dec_to_string D) (map cd_close cs)"
  "map (column_cell 4) (text_rows D cs) = map (dec_to_string D) (map cd_volume cs)"
  by (simp_all add: column_cell_def text_candle_of_def)

lemma five: "[0..<length decimal_columns] = [0, 1, 2, 3, 4]"
  by (simp add: decimal_columns_def upt_rec)

lemma encode_text_exact:
  assumes "list_all (exact_candle D) cs"
  shows "encode_text D (text_rows D cs) = Inr p \<longleftrightarrow> windowed cs \<and> p = payload_of D cs"
proof -
  have "is_exact D (column_cell j tc)" if "tc \<in> set (text_rows D cs)" and "j \<in> {0, 1, 2, 3, 4}" for tc j
    using that assms
    by (auto simp: list_all_iff exact_candle_def candle_decimals_def column_cell_def text_candle_of_def exact_dec_def)
  then have columns: "encode_columns D 0 decimal_columns (text_rows D cs) = Inr q \<longleftrightarrow> q = decimals_bytes D cs" for q
    unfolding encode_columns_Inr add_0 five
    by (simp add: cells_of_rows decimals_bytes_def column_bytes_text del: One_nat_def map_map)
  have opens: "map tc_open_time_ms (text_rows D cs) = map cd_open_time_ms cs"
    by (simp add: text_candle_of_def)
  show ?thesis
    unfolding encode_text_def opens length_map
    by (auto simp: columns windowed_def payload_of_def and_then_Inr not_le Suc_le_eq simp del: map_map)
qed

definition candle_of_text :: "'d decimal_ops \<Rightarrow> text_candle \<Rightarrow> 'd candle" where
  "candle_of_text D tc =
     (let v = (\<lambda>j. the (dec_from_str_exact D (column_cell j tc)))
      in \<lparr>cd_open_time_ms = tc_open_time_ms tc, cd_close_time_ms = tc_close_time_ms tc, cd_open = v 0, cd_high = v 1,
          cd_low = v 2, cd_close = v 3, cd_volume = v 4, cd_trades = tc_trades tc\<rparr>)"

lemma exact_text_value:
  "is_exact D t \<Longrightarrow> dec_to_string D (the (dec_from_str_exact D t)) = t \<and> exact_dec D (the (dec_from_str_exact D t))"
  by (auto simp: is_exact_def exact_dec_def split: option.splits)

lemma candle_of_exact_text:
  assumes "length (tc_decimals tc) = 5" and "\<forall>j\<in>{0, 1, 2, 3, 4}. is_exact D (column_cell j tc)"
  shows "text_candle_of (dec_to_string D) (candle_of_text D tc) = tc" and "exact_candle D (candle_of_text D tc)"
proof -
  have "tc_decimals tc = map (\<lambda>j. column_cell j tc) [0, 1, 2, 3, 4]"
    using length_five [OF assms(1)] by (simp add: column_cell_def assms(1))
  with assms(2) show "text_candle_of (dec_to_string D) (candle_of_text D tc) = tc"
    by (cases tc) (simp add: text_candle_of_def candle_of_text_def Let_def exact_text_value)
  show "exact_candle D (candle_of_text D tc)"
    using assms(2) by (simp add: exact_candle_def candle_decimals_def candle_of_text_def Let_def exact_text_value)
qed

section \<open>Windows\<close>

definition span_ms :: "interval \<Rightarrow> int" where
  "span_ms interval = step_ms interval * int window_bars"

definition window :: "interval \<Rightarrow> timestamp_ms \<Rightarrow> (timestamp_ms \<times> timestamp_ms) option" where
  "window interval open_time =
     (let span = span_ms interval
      in Option.bind (i64_checked_mul (open_time div span) span) (\<lambda>start.
         map_option (\<lambda>stop. (start, stop)) (i64_checked_add start span)))"

lemma span_pos [simp]: "0 < span_ms interval"
  by (cases interval) (simp_all add: span_ms_def window_bars_def)

lemma window_Some:
  "window interval t = Some (s, e) \<longleftrightarrow>
     s = t div span_ms interval * span_ms interval \<and> e = s + span_ms interval \<and> is_i64 s \<and> is_i64 e"
  unfolding window_def Let_def i64_checked_mul_def i64_checked_def i64_checked_add_def
  by (cases "is_i64 (t div span_ms interval * span_ms interval)";
      cases "is_i64 (t div span_ms interval * span_ms interval + span_ms interval)") auto

lemma window_mult: "t div span_ms iv * span_ms iv \<le> t" "t < t div span_ms iv * span_ms iv + span_ms iv"
  using div_mult_mod_eq [of t "span_ms iv"] pos_mod_bound [OF span_pos, of t iv] pos_mod_sign [OF span_pos, of t iv]
  by linarith+

text \<open>The open times of a window are those whose window it is.\<close>

lemma window_holds:
  assumes "window iv t = Some (s, e)"
  shows "s \<le> t' \<and> t' < e \<longleftrightarrow> window iv t' = Some (s, e)"
proof -
  have w: "s = t div span_ms iv * span_ms iv" "e = s + span_ms iv" "is_i64 s" "is_i64 e"
    using assms unfolding window_Some by blast+
  have "s \<le> t' \<and> t' < e \<longleftrightarrow> t' div span_ms iv = t div span_ms iv"
  proof
    assume "s \<le> t' \<and> t' < e"
    then have "t' = t div span_ms iv * span_ms iv + (t' - s)" "0 \<le> t' - s" "t' - s < span_ms iv"
      using w by simp_all
    then show "t' div span_ms iv = t div span_ms iv"
      by (metis div_pos_pos_trivial div_mult_self3 add.commute add_0 less_imp_neq span_pos)
  next
    assume "t' div span_ms iv = t div span_ms iv"
    then show "s \<le> t' \<and> t' < e" using window_mult [of t' iv] w by simp
  qed
  then show ?thesis using w span_pos [of iv] by (auto simp: window_Some)
qed

section \<open>Segments\<close>

text \<open>The SHA-256 digest and the zstd functions, a library's: compression at the level the build fixes, the
  length of the frame that starts the bytes, the content size its header states, and decompression into at
  most so many bytes.\<close>

record segment_codec =
  sc_sha256 :: "u8 list \<Rightarrow> u8 list"
  sc_compress :: "u8 list \<Rightarrow> u8 list option"
  sc_frame_len :: "u8 list \<Rightarrow> nat option"
  sc_content_len :: "u8 list \<Rightarrow> nat option"
  sc_decompress :: "u8 list \<Rightarrow> nat \<Rightarrow> u8 list option"

definition codec_laws :: "segment_codec \<Rightarrow> bool" where
  "codec_laws K \<longleftrightarrow>
     (\<forall>p bytes. sc_compress K p = Some bytes \<longrightarrow>
        sc_frame_len K bytes = Some (length bytes) \<and> sc_content_len K bytes = Some (length p) \<and>
        (\<forall>cap\<ge>length p. sc_decompress K bytes cap = Some p))"

definition max_payload_bytes :: nat where
  "max_payload_bytes = 16 + window_bars * (8 + 8 + 8 + 1 + 5 * (1 + max_decimal_len))"

definition segment_hash_of :: "segment_codec \<Rightarrow> u8 list \<Rightarrow> segment_hash" where
  "segment_hash_of K payload = SegmentHash (sc_sha256 K payload)"

definition segment_compress :: "segment_codec \<Rightarrow> u8 list \<Rightarrow> segment_error + u8 list" where
  "segment_compress K payload = ok_or Zstd (sc_compress K payload)"

definition segment_decompress :: "segment_codec \<Rightarrow> u8 list \<Rightarrow> segment_error + u8 list" where
  "segment_decompress K bytes =
     and_then (ok_or NotOneFrame (sc_frame_len K bytes)) (\<lambda>frame_len.
       if frame_len \<noteq> length bytes then Inl NotOneFrame
       else if (case sc_content_len K bytes of Some n \<Rightarrow> max_payload_bytes < n | None \<Rightarrow> False) then Inl TooLarge
       else ok_or Zstd (sc_decompress K bytes max_payload_bytes))"

definition segment_open :: "'d decimal_ops \<Rightarrow> segment_codec \<Rightarrow> u8 list \<Rightarrow> segment_hash \<Rightarrow>
  segment_error + 'd candle list" where
  "segment_open D K bytes expected =
     and_then (segment_decompress K bytes) (\<lambda>payload.
       let found = segment_hash_of K payload
       in if found \<noteq> expected then Inl (HashMismatch expected found) else decode D payload)"

lemma column_bytes_length:
  "list_all (exact_dec D) vs \<Longrightarrow> length (column_bytes D vs) \<le> length vs * (1 + max_decimal_len)"
proof (induction vs)
  case (Cons v vs)
  then have "length (dec_bytes D v) \<le> max_decimal_len"
    by (simp add: exact_dec_def is_exact_def dec_bytes_def)
  with Cons show ?case by (simp add: column_bytes_def)
qed (simp add: column_bytes_def)

lemma concat_words_length: "length (concat (map (\<lambda>x. le_bytes n (f x)) xs)) = length xs * n"
  by (induction xs) simp_all

lemma length_magic [simp]: "length segment_magic = 8"
  by code_simp

lemma payload_fits:
  assumes "windowed cs" and "list_all (exact_candle D) cs"
  shows "length (payload_of D cs) \<le> max_payload_bytes"
proof -
  let ?columns = "[map cd_open cs, map cd_high cs, map cd_low cs, map cd_close cs, map cd_volume cs]"
  have each: "length (column_bytes D vs) \<le> length cs * (1 + max_decimal_len)" if "vs \<in> set ?columns" for vs
    using that column_bytes_length [of D vs] exact_columns [of cs D] assms(2) by auto
  have "length (decimals_bytes D cs) \<le> 5 * (length cs * (1 + max_decimal_len))"
    using each [of "map cd_open cs"] each [of "map cd_high cs"] each [of "map cd_low cs"] each [of "map cd_close cs"]
      each [of "map cd_volume cs"] by (simp add: decimals_bytes_def)
  then have "length (rows_bytes D cs) \<le> length cs * (8 + 8 + 8 + 1 + 5 * (1 + max_decimal_len))"
    by (simp add: rows_bytes_def i64_to_le_def u64_to_le_def concat_words_length comp_def algebra_simps)
  also have "\<dots> \<le> window_bars * (8 + 8 + 8 + 1 + 5 * (1 + max_decimal_len))"
    using assms(1) by (intro mult_right_mono) (simp_all add: windowed_def)
  finally show ?thesis
    by (simp add: payload_of_rows max_payload_bytes_def u32_to_le_def)
qed

lemma segment_open_payload:
  assumes "codec_laws K" and "segment_compress K p = Inr bytes" and "length p \<le> max_payload_bytes"
  shows "segment_open D K bytes (segment_hash_of K p) = decode D p"
proof -
  from assms(2) have "sc_compress K p = Some bytes" by (simp add: segment_compress_def ok_or_def split: option.splits)
  with assms(1,3) have "segment_decompress K bytes = Inr p"
    unfolding codec_laws_def by (auto simp: segment_decompress_def ok_or_def)
  then show ?thesis by (simp add: segment_open_def)
qed

section \<open>Properties\<close>

definition five_decimals :: "text_candle \<Rightarrow> bool" where
  "five_decimals tc \<longleftrightarrow> length (tc_decimals tc) = 5 \<and> is_i64 (tc_open_time_ms tc) \<and> is_i64 (tc_close_time_ms tc)"

lemma encode_text_decodes:
  assumes "\<forall>tc\<in>set tcs. five_decimals tc" and "encode_text D tcs = Inr p"
  shows "\<exists>cs. decode D p = Inr cs \<and> text_rows D cs = tcs \<and> length p \<le> max_payload_bytes"
proof -
  let ?cs = "map (candle_of_text D) tcs"
  from assms(2) have "\<forall>j\<in>{0, 1, 2, 3, 4}. is_exact D (column_cell j tc)" if "tc \<in> set tcs" for tc
    using that by (auto simp: encode_text_def and_then_Inr encode_columns_Inr five split: if_splits)
  note cell = candle_of_exact_text [OF _ this]
  have tcs: "text_rows D ?cs = tcs"
    using assms(1) cell by (auto simp: five_decimals_def intro!: map_idI)
  moreover have exact: "list_all (exact_candle D) ?cs"
    using assms(1) cell by (auto simp: list_all_iff five_decimals_def)
  moreover have "list_all i64_times ?cs"
    using assms(1) by (simp add: list_all_iff i64_times_def five_decimals_def candle_of_text_def Let_def)
  moreover have "windowed ?cs \<and> p = payload_of D ?cs"
    using encode_text_exact [OF exact, of p] assms(2) tcs by simp
  ultimately show ?thesis using payload_fits [of ?cs D] unfolding decode_Inr by blast
qed

text \<open>C35: a segment opens, under its own name, as the candles it was packed from, each decimal at the scale its
  text has: the payload fits what a reader allocates, passes the hash check and decodes to the same rows.\<close>

theorem segments_open_as_packed:
  assumes "codec_laws K" and "\<forall>tc\<in>set tcs. five_decimals tc" and "encode_text D tcs = Inr p"
    and "segment_compress K p = Inr bytes"
  shows "\<exists>cs. segment_open D K bytes (segment_hash_of K p) = Inr cs \<and> text_rows D cs = tcs"
  using encode_text_decodes [OF assms(2,3)] segment_open_payload [OF assms(1,4)] by metis

definition sample_codec :: segment_codec where
  "sample_codec =
     \<lparr>sc_sha256 = (\<lambda>p. p), sc_compress = Some, sc_frame_len = (\<lambda>bytes. Some (length bytes)),
      sc_content_len = (\<lambda>bytes. Some (length bytes)),
      sc_decompress = (\<lambda>bytes cap. if length bytes \<le> cap then Some bytes else None)\<rparr>"

lemma sample_codec_laws: "codec_laws sample_codec"
  by (simp add: codec_laws_def sample_codec_def)

lemma sample_payload: "\<exists>p. encode_text sample_dec (text_rows sample_dec sample_candles) = Inr p"
proof -
  have "is_ok (encode_text sample_dec (text_rows sample_dec sample_candles))" by code_simp
  then show ?thesis by (auto simp: is_ok_def split: sum.splits)
qed

lemma sample_rows_five: "\<forall>tc\<in>set (text_rows sample_dec sample_candles). five_decimals tc"
  by (simp add: sample_candles_def sample_candle_def text_candle_of_def five_decimals_def i64_defs)

theorem segments_open_as_packed_witness:
  "\<exists>p bytes cs. encode_text sample_dec (text_rows sample_dec sample_candles) = Inr p \<and>
     segment_compress sample_codec p = Inr bytes \<and>
     segment_open sample_dec sample_codec bytes (segment_hash_of sample_codec p) = Inr cs \<and>
     text_rows sample_dec cs = text_rows sample_dec sample_candles"
proof -
  obtain p where p: "encode_text sample_dec (text_rows sample_dec sample_candles) = Inr p"
    using sample_payload by blast
  have "segment_compress sample_codec p = Inr p" by (simp add: segment_compress_def sample_codec_def ok_or_def)
  with p segments_open_as_packed [OF sample_codec_laws sample_rows_five p this] show ?thesis by blast
qed

text \<open>Zero's text starts with a minus exactly where the sign does.\<close>

definition zero_text_law :: "'d decimal_ops \<Rightarrow> bool" where
  "zero_text_law D \<longleftrightarrow>
     decimal_laws D \<and>
     (\<forall>v. dec_is_zero D v \<longrightarrow> dec_is_sign_negative D v \<longrightarrow>
        (\<exists>t. dec_to_string D v = CHR ''-'' # t \<and> list_all (\<lambda>b. b = CHR ''0'' \<or> b = CHR ''.'') t))"

lemma written_exact:
  assumes "zero_text_law D" and "exact_dec D v"
  shows "written D v = dec_to_string D v"
proof (cases "dec_is_zero D v \<and> dec_is_sign_negative D v")
  case True
  with assms(1) obtain t where "dec_to_string D v = CHR ''-'' # t" "list_all (\<lambda>b. b = CHR ''0'' \<or> b = CHR ''.'') t"
    by (auto simp: zero_text_law_def)
  then have "\<not> is_exact_form (dec_to_string D v)"
    by (simp add: is_exact_form_def strip_prefix_def Let_def split: prod.splits)
  with assms(2) show ?thesis by (simp add: exact_dec_def is_exact_def)
next
  case False
  with assms(1) show ?thesis by (auto simp: written_def zero_text_law_def dec_set_positive_id)
qed

text \<open>C36: bytes are a payload only of the candles they read as: the writer makes those very bytes of them, so
  that every set of candles has one payload and one name.\<close>

theorem payloads_are_canonical:
  assumes "zero_text_law D" and "decode D p = Inr cs"
  shows "encode D cs = Inr p"
proof -
  from assms(2) have d: "windowed cs" "list_all (exact_candle D) cs" "p = payload_of D cs"
    by (simp_all add: decode_Inr)
  have "text_candle_of (written D) c = text_candle_of (dec_to_string D) c" if "c \<in> set cs" for c
    using that d(2) written_exact [OF assms(1)]
    by (simp add: text_candle_of_def list_all_iff exact_candle_def candle_decimals_def)
  then have rows: "map (text_candle_of (written D)) cs = text_rows D cs" by simp
  show ?thesis unfolding encode_def rows using d by (simp add: encode_text_exact)
qed


lemma sample_zero_text: "zero_text_law sample_dec"
proof -
  have "digit_char 0 = CHR ''0''" by code_simp
  then have zeros: "list_all (\<lambda>b. b = CHR ''0'' \<or> b = CHR ''.'') (s_text (SDec False 0 n))" for n
    by (auto simp: s_text_def Let_def list_all_iff nat_string.simps dest!: in_set_takeD in_set_dropD)
  have "s_text (SDec True 0 n) = CHR ''-'' # s_text (SDec False 0 n)" for n
    by (simp add: s_text_def Let_def)
  with zeros have "\<exists>t. s_text v = CHR ''-'' # t \<and> list_all (\<lambda>b. b = CHR ''0'' \<or> b = CHR ''.'') t"
    if "s_mag v = 0" "s_neg v" for v using that by (cases v) auto
  then show ?thesis using sample_dec_laws by (simp add: zero_text_law_def sample_dec_def)
qed

theorem payloads_are_canonical_witness:
  "\<exists>p cs. decode sample_dec p = Inr cs \<and> encode sample_dec cs = Inr p"
proof -
  obtain p cs where "decode sample_dec p = Inr cs"
    using sample_payload encode_text_decodes [OF sample_rows_five] by blast
  with payloads_are_canonical [OF sample_zero_text this] show ?thesis by blast
qed

end
