(* ===== verification/Segment_Store.thy ===== *)
theory Segment_Store
  imports Segments Storage
begin

text \<open>
  A market's candles in the SQLite store and the segments beside them: \<open>src/storage/sqlite/candles.rs\<close> (the
  upsert that marks what it changed), \<open>src/storage/sqlite/segments\<close> (marks, index, plans),
  \<open>src/storage/refresh.rs\<close> (packing dirty windows) and the records of \<open>src/model/segment.rs\<close>.

  A table is the list of its rows in the order of its key; a transaction is one step, since SQLite runs
  each as if alone, and a statement that fails rolls its transaction back. Between a refresh's snapshot and
  its write-back anything may happen: \<open>reachable_store\<close> interleaves writers and any number of refreshes.
\<close>

section \<open>Tables\<close>

text \<open>A row is found, put and deleted by its key.\<close>

fun put_row :: "('r \<Rightarrow> int) \<Rightarrow> 'r \<Rightarrow> 'r list \<Rightarrow> 'r list" where
  "put_row key r [] = [r]"
| "put_row key r (x # xs) =
     (if key r < key x then r # x # xs else if key r = key x then r # xs else x # put_row key r xs)"

definition find_row :: "('r \<Rightarrow> int) \<Rightarrow> int \<Rightarrow> 'r list \<Rightarrow> 'r option" where
  "find_row key k rows = find (\<lambda>r. key r = k) rows"

definition delete_row :: "('r \<Rightarrow> int) \<Rightarrow> int \<Rightarrow> 'r list \<Rightarrow> 'r list" where
  "delete_row key k rows = filter (\<lambda>r. key r \<noteq> k) rows"

definition sql_min :: "int list \<Rightarrow> int option" where
  "sql_min ks = (if ks = [] then None else Some (Min (set ks)))"

definition sql_max :: "int list \<Rightarrow> int option" where
  "sql_max ks = (if ks = [] then None else Some (Max (set ks)))"

definition keyed :: "('r \<Rightarrow> int) \<Rightarrow> 'r list \<Rightarrow> bool" where
  "keyed key rows \<longleftrightarrow> sorted_wrt (<) (map key rows)"

lemma keyed_simps [simp]:
  "keyed key []" "keyed key (x # xs) \<longleftrightarrow> (\<forall>y\<in>set xs. key x < key y) \<and> keyed key xs"
  by (simp_all add: keyed_def)

lemma keyed_append: "keyed key (xs @ ys) \<longleftrightarrow> keyed key xs \<and> keyed key ys \<and> (\<forall>x\<in>set xs. \<forall>y\<in>set ys. key x < key y)"
  by (auto simp: keyed_def sorted_wrt_append)

lemma keyed_filter: "keyed key xs \<Longrightarrow> keyed key (filter P xs)"
  by (induction xs) auto

lemma keyed_inj: "keyed key xs \<Longrightarrow> x \<in> set xs \<Longrightarrow> y \<in> set xs \<Longrightarrow> key x = key y \<Longrightarrow> x = y"
  by (induction xs) auto

lemma set_put_row: "keyed key xs \<Longrightarrow> set (put_row key r xs) = insert r {x \<in> set xs. key x \<noteq> key r}"
  by (induction key r xs rule: put_row.induct) auto

lemma keyed_put_row: "keyed key xs \<Longrightarrow> keyed key (put_row key r xs)"
  by (induction key r xs rule: put_row.induct) (auto simp: set_put_row)

lemma find_row_Some: "keyed key xs \<Longrightarrow> find_row key k xs = Some r \<longleftrightarrow> r \<in> set xs \<and> key r = k"
  unfolding find_row_def by (induction xs) auto

lemma find_row_None: "find_row key k xs = None \<longleftrightarrow> k \<notin> key ` set xs"
  by (auto simp: find_row_def find_None_iff)

lemma find_put_row: "find_row key k (put_row key r xs) = (if key r = k then Some r else find_row key k xs)"
  unfolding find_row_def by (induction key r xs rule: put_row.induct) auto

lemma find_filter_row:
  "keyed key xs \<Longrightarrow> find_row key k (filter P xs) = Some r \<longleftrightarrow> find_row key k xs = Some r \<and> P r"
  by (auto simp: find_row_Some keyed_filter)

lemma find_delete_row: "find_row key k (delete_row key j xs) = (if k = j then None else find_row key k xs)"
  unfolding find_row_def delete_row_def by (induction xs) auto

lemma filter_put_row:
  "keyed key xs \<Longrightarrow> (\<And>x. key x = key r \<Longrightarrow> \<not> P x) \<Longrightarrow> filter P (put_row key r xs) = filter P xs"
  by (induction key r xs rule: put_row.induct) auto

lemma keyed_unique: "keyed key xs \<Longrightarrow> keyed key ys \<Longrightarrow> set xs = set ys \<Longrightarrow> xs = ys"
proof -
  assume "keyed key xs" "keyed key ys" and eq: "set xs = set ys"
  then have "map key xs = map key ys"
    using strict_sorted_equal [of "map key xs" "map key ys"] by (simp add: keyed_def)
  then show "xs = ys"
    using \<open>keyed key xs\<close> eq keyed_inj [of key xs] by (auto intro: map_inj_on simp: inj_on_def)
qed

section \<open>The store\<close>

record segment_ref =
  sr_window_start_ms :: timestamp_ms
  sr_first_open_ms :: timestamp_ms
  sr_last_open_ms :: timestamp_ms
  sr_bar_count :: nat
  sr_hash :: segment_hash
  sr_payload_len :: nat
  sr_stored_len :: nat

record segment_tip =
  tp_first_open_ms :: timestamp_ms
  tp_last_open_ms :: timestamp_ms

record segment_plan =
  pl_segments :: "segment_ref list"
  pl_tip :: "segment_tip option"

record segment_refresh =
  rf_built :: nat
  rf_unchanged :: nat
  rf_blocked :: nat

record segment_row =
  sg_hash :: segment_hash
  sg_format :: u32
  sg_payload_len :: nat
  sg_data :: "u8 list"

record index_row =
  ix_window_start_ms :: timestamp_ms
  ix_first_open_ms :: timestamp_ms
  ix_last_open_ms :: timestamp_ms
  ix_bar_count :: nat
  ix_hash :: segment_hash

record dirty_row =
  dw_id :: int
  dw_window_start_ms :: timestamp_ms

text \<open>The rows of one market, and the database: the rows of every market, the segments of all of them, and the
  next id a mark takes (\<open>AUTOINCREMENT\<close> never hands one out twice).\<close>

record market_rows =
  mr_candles :: "text_candle list"
  mr_index :: "index_row list"
  mr_dirty :: "dirty_row list"

record segment_db =
  db_market :: "market_id \<Rightarrow> market_rows"
  db_segments :: "segment_row list"
  db_next_id :: int

definition empty_db :: segment_db where
  "empty_db = \<lparr>db_market = (\<lambda>_. \<lparr>mr_candles = [], mr_index = [], mr_dirty = []\<rparr>), db_segments = [], db_next_id = 1\<rparr>"

abbreviation find_dirty :: "timestamp_ms \<Rightarrow> market_rows \<Rightarrow> dirty_row option" where
  "find_dirty s rows \<equiv> find_row dw_window_start_ms s (mr_dirty rows)"

abbreviation find_index :: "timestamp_ms \<Rightarrow> market_rows \<Rightarrow> index_row option" where
  "find_index s rows \<equiv> find_row ix_window_start_ms s (mr_index rows)"

text \<open>\<open>SELECT ... WHERE open_time_ms >= start AND open_time_ms < end ORDER BY open_time_ms\<close>.\<close>

definition select_candles :: "timestamp_ms \<Rightarrow> timestamp_ms \<Rightarrow> text_candle list \<Rightarrow> text_candle list" where
  "select_candles start stop rows = filter (\<lambda>c. start \<le> tc_open_time_ms c \<and> tc_open_time_ms c < stop) rows"

section \<open>Writing candles\<close>

definition out_of_range :: "timestamp_ms \<Rightarrow> storage_error" where
  "out_of_range t = SeInvalidArgument (''candle open time '' @ int_string t @
     '' lies too close to the end of the timestamp range to belong to a segment window'')"

definition window_start :: "interval \<Rightarrow> timestamp_ms \<Rightarrow> storage_error + timestamp_ms" where
  "window_start interval t = ok_or (out_of_range t) (map_option fst (window interval t))"

fun window_starts :: "interval \<Rightarrow> timestamp_ms list \<Rightarrow> storage_error + timestamp_ms list" where
  "window_starts interval [] = Inr []"
| "window_starts interval (t # ts) =
     and_then (window_start interval t) (\<lambda>s. and_then (window_starts interval ts) (\<lambda>rest. Inr (s # rest)))"

text \<open>The upsert runs row by row: a row already there is updated only where a column differs. \<open>changed\<close> is the
  set of windows of the rows that changed, in order.\<close>

fun upsert_rows ::
  "(text_candle \<times> timestamp_ms) list \<Rightarrow> text_candle list \<Rightarrow> timestamp_ms list \<Rightarrow> text_candle list \<times> timestamp_ms list"
where
  "upsert_rows [] rows changed = (rows, changed)"
| "upsert_rows ((c, start) # new) rows changed =
     (if find_row tc_open_time_ms (tc_open_time_ms c) rows = Some c then upsert_rows new rows changed
      else upsert_rows new (put_row tc_open_time_ms c rows) (put_row (\<lambda>s. s) start changed))"

text \<open>\<open>INSERT OR REPLACE\<close>: a mark already there is replaced, and takes a new id.\<close>

fun mark_dirty :: "timestamp_ms list \<Rightarrow> dirty_row list \<Rightarrow> int \<Rightarrow> dirty_row list \<times> int" where
  "mark_dirty [] dirty next_id = (dirty, next_id)"
| "mark_dirty (s # ss) dirty next_id =
     mark_dirty ss (put_row dw_window_start_ms \<lparr>dw_id = next_id, dw_window_start_ms = s\<rparr> dirty) (next_id + 1)"

definition upsert_candles :: "'d decimal_ops \<Rightarrow> market_id \<Rightarrow> 'd candle list \<Rightarrow> (segment_db, storage_error, nat) op" where
  "upsert_candles D market candles db =
     (if candles = [] then (Inr 0, db)
      else case window_starts (mk_interval market) (map cd_open_time_ms candles) of
        Inl e \<Rightarrow> (Inl e, db)
      | Inr starts \<Rightarrow>
          let rows = db_market db market;
              (stored, changed) = upsert_rows (zip (text_rows D candles) starts) (mr_candles rows) [];
              (dirty, next_id) = mark_dirty changed (mr_dirty rows) (db_next_id db)
          in (Inr (length candles),
              db\<lparr>db_market := (db_market db)(market := rows\<lparr>mr_candles := stored, mr_dirty := dirty\<rparr>),
                 db_next_id := next_id\<rparr>))"

section \<open>Reading candles\<close>

text \<open>A stored decimal no \<open>Decimal\<close> holds exactly is refused, never rounded.\<close>

definition read_stored_decimal :: "'d decimal_ops \<Rightarrow> string \<Rightarrow> storage_error + 'd" where
  "read_stored_decimal D text =
     ok_or (SeInvalidArgument (''stored decimal '' @ text @ '' cannot be read exactly'')) (dec_from_str_exact D text)"

definition parse_candle_row :: "'d decimal_ops \<Rightarrow> text_candle \<Rightarrow> storage_error + 'd candle" where
  "parse_candle_row D row =
     and_then (read_stored_decimal D (tc_decimals row ! 0)) (\<lambda>a.
     and_then (read_stored_decimal D (tc_decimals row ! 1)) (\<lambda>h.
     and_then (read_stored_decimal D (tc_decimals row ! 2)) (\<lambda>l.
     and_then (read_stored_decimal D (tc_decimals row ! 3)) (\<lambda>c.
     and_then (read_stored_decimal D (tc_decimals row ! 4)) (\<lambda>v.
       Inr \<lparr>cd_open_time_ms = tc_open_time_ms row, cd_close_time_ms = tc_close_time_ms row, cd_open = a, cd_high = h,
            cd_low = l, cd_close = c, cd_volume = v, cd_trades = tc_trades row\<rparr>)))))"

fun parse_rows :: "'d decimal_ops \<Rightarrow> text_candle list \<Rightarrow> storage_error + 'd candle list" where
  "parse_rows D [] = Inr []"
| "parse_rows D (row # rows) =
     and_then (parse_candle_row D row) (\<lambda>c. and_then (parse_rows D rows) (\<lambda>cs. Inr (c # cs)))"

definition query_holds :: "candle_query \<Rightarrow> timestamp_ms \<Rightarrow> bool" where
  "query_holds q t \<longleftrightarrow>
     (case cq_start_time_ms q of None \<Rightarrow> True | Some s \<Rightarrow> s \<le> t) \<and>
     (case cq_end_time_ms q of None \<Rightarrow> True | Some e \<Rightarrow> t \<le> e)"

definition limited :: "nat option \<Rightarrow> 'r list \<Rightarrow> 'r list" where
  "limited limit rows = (case limit of None \<Rightarrow> rows | Some n \<Rightarrow> take n rows)"

definition load_candles :: "'d decimal_ops \<Rightarrow> market_id \<Rightarrow> candle_query \<Rightarrow> segment_db \<Rightarrow> storage_error + 'd candle list" where
  "load_candles D market q db =
     parse_rows D (limited (cq_limit q)
       (filter (\<lambda>c. query_holds q (tc_open_time_ms c)) (mr_candles (db_market db market))))"

text \<open>\<open>ORDER BY open_time_ms DESC LIMIT n\<close>, then reversed.\<close>

definition load_recent_candles :: "'d decimal_ops \<Rightarrow> market_id \<Rightarrow> nat \<Rightarrow> segment_db \<Rightarrow> storage_error + 'd candle list" where
  "load_recent_candles D market n db =
     and_then (parse_rows D (take n (rev (mr_candles (db_market db market))))) (\<lambda>cs. Inr (rev cs))"

definition max_open_time_ms :: "market_id \<Rightarrow> segment_db \<Rightarrow> timestamp_ms option" where
  "max_open_time_ms market db = sql_max (map tc_open_time_ms (mr_candles (db_market db market)))"

lemma parse_rows_text:
  assumes "\<forall>c\<in>set cs. \<forall>v\<in>set (candle_decimals c). dec_from_str_exact D (dec_to_string D v) = Some v"
  shows "parse_rows D (text_rows D cs) = Inr cs"
  using assms
proof (induction cs)
  case (Cons c cs)
  then have "parse_candle_row D (text_candle_of (dec_to_string D) c) = Inr c"
    by (simp add: parse_candle_row_def read_stored_decimal_def text_candle_of_def ok_or_def candle_decimals_def)
  with Cons show ?case by simp
qed simp

text \<open>Where every decimal's text reads back as itself, reads give the stored candles: those the query asks for,
  from the oldest, up to its limit; and the most recent ones in order, however many there are.\<close>

theorem reads_give_the_stored_candles:
  assumes "mr_candles (db_market db market) = text_rows D cs"
    and "\<forall>c\<in>set cs. \<forall>v\<in>set (candle_decimals c). dec_from_str_exact D (dec_to_string D v) = Some v"
  shows "load_candles D market q db = Inr (limited (cq_limit q) (filter (\<lambda>c. query_holds q (cd_open_time_ms c)) cs)) \<and>
    load_recent_candles D market n db = Inr (drop (length cs - n) cs)"
proof -
  have parse: "parse_rows D (text_rows D cs') = Inr cs'" if "set cs' \<subseteq> set cs" for cs'
    using parse_rows_text [of cs' D] assms(2) that by blast
  have "filter (\<lambda>c. query_holds q (tc_open_time_ms c)) (text_rows D cs) =
      text_rows D (filter (\<lambda>c. query_holds q (cd_open_time_ms c)) cs)"
    by (induction cs) (simp_all add: text_candle_of_def)
  moreover have "limited l (text_rows D cs') = text_rows D (limited l cs')" for l cs'
    by (simp add: limited_def take_map split: option.splits)
  moreover have "set (limited l (filter P cs)) \<subseteq> set cs" for l P
    by (auto simp: limited_def dest: in_set_takeD split: option.splits)
  ultimately have "load_candles D market q db = Inr (limited (cq_limit q) (filter (\<lambda>c. query_holds q (cd_open_time_ms c)) cs))"
    by (simp add: load_candles_def assms(1) parse)
  moreover have "take n (rev (text_rows D cs)) = text_rows D (take n (rev cs))" by (simp add: take_map rev_map)
  then have "load_recent_candles D market n db = Inr (rev (take n (rev cs)))"
  proof -
    have "set (take n (rev cs)) \<subseteq> set cs" by (auto dest: in_set_takeD)
    from parse [OF this] show ?thesis by (simp add: load_recent_candles_def assms(1) \<open>take n _ = _\<close>)
  qed
  ultimately show ?thesis by (simp add: rev_take)
qed

section \<open>A refresh's side of the store\<close>

record snapshot =
  sn_id :: int
  sn_candles :: "text_candle list"
  sn_indexed :: "segment_hash option"

datatype packed =
    Write segment_hash nat "u8 list" timestamp_ms timestamp_ms nat
  | Keep
  | Clear

datatype written_back = Done | WrittenElsewhere | Marked

definition tip_window :: "market_id \<Rightarrow> segment_db \<Rightarrow> storage_error + timestamp_ms option" where
  "tip_window market db =
     (case sql_max (map tc_open_time_ms (mr_candles (db_market db market))) of
        None \<Rightarrow> Inr None
      | Some newest \<Rightarrow> and_then (window_start (mk_interval market) newest) (\<lambda>s. Inr (Some s)))"

definition next_dirty :: "market_id \<Rightarrow> timestamp_ms option \<Rightarrow> timestamp_ms \<Rightarrow> segment_db \<Rightarrow> timestamp_ms option" where
  "next_dirty market after tip db =
     sql_min (filter (\<lambda>s. s < tip \<and> (case after of None \<Rightarrow> True | Some a \<Rightarrow> a < s))
       (map dw_window_start_ms (mr_dirty (db_market db market))))"

definition read_window :: "market_id \<Rightarrow> timestamp_ms \<times> timestamp_ms \<Rightarrow> segment_db \<Rightarrow> snapshot option" where
  "read_window market w db =
     (let rows = db_market db market
      in map_option (\<lambda>mark. \<lparr>sn_id = dw_id mark, sn_candles = select_candles (fst w) (snd w) (mr_candles rows),
             sn_indexed = map_option ix_hash (find_index (fst w) rows)\<rparr>)
           (find_dirty (fst w) rows))"

definition apply_packed :: "timestamp_ms \<Rightarrow> packed \<Rightarrow> market_rows \<Rightarrow> segment_row list \<Rightarrow> market_rows \<times> segment_row list" where
  "apply_packed start packed rows segments =
     (case packed of
        Write h payload_len stored first_open last_open bar_count \<Rightarrow>
          (rows\<lparr>mr_index := put_row ix_window_start_ms
             \<lparr>ix_window_start_ms = start, ix_first_open_ms = first_open, ix_last_open_ms = last_open,
              ix_bar_count = bar_count, ix_hash = h\<rparr> (mr_index rows)\<rparr>,
           if \<exists>row\<in>set segments. sg_hash row = h then segments
           else segments @ [\<lparr>sg_hash = h, sg_format = segment_format, sg_payload_len = payload_len, sg_data = stored\<rparr>])
      | Keep \<Rightarrow> (rows, segments)
      | Clear \<Rightarrow> (rows\<lparr>mr_index := delete_row ix_window_start_ms start (mr_index rows)\<rparr>, segments))"

definition write_window :: "market_id \<Rightarrow> timestamp_ms \<Rightarrow> int \<Rightarrow> packed \<Rightarrow> segment_db \<Rightarrow> written_back \<times> segment_db" where
  "write_window market start mark_id packed db =
     (case find_dirty start (db_market db market) of
        None \<Rightarrow> (WrittenElsewhere, db)
      | Some current \<Rightarrow>
          if dw_id current \<noteq> mark_id then (Marked, db)
          else let (rows, segments) = apply_packed start packed (db_market db market) (db_segments db);
                   unmark = (\<lambda>rows. rows\<lparr>mr_dirty := delete_row dw_id mark_id (mr_dirty rows)\<rparr>)
               in (Done, db\<lparr>db_market := (\<lambda>m. unmark (((db_market db)(market := rows)) m)), db_segments := segments\<rparr>))"

text \<open>Packing, with no transaction open.\<close>

definition pack :: "'d decimal_ops \<Rightarrow> segment_codec \<Rightarrow> snapshot \<Rightarrow> segment_error + packed" where
  "pack D K snapshot =
     (case sn_candles snapshot of
        [] \<Rightarrow> Inr Clear
      | c # cs \<Rightarrow>
          and_then (encode_text D (c # cs)) (\<lambda>payload.
            let h = segment_hash_of K payload
            in if sn_indexed snapshot = Some h then Inr Keep
               else and_then (segment_compress K payload) (\<lambda>stored.
                 Inr (Write h (length payload) stored (tc_open_time_ms c) (tc_open_time_ms (last (c # cs)))
                   (length (c # cs))))))"

text \<open>The trait \<open>DirtyWindows\<close>, and SQLite's side of it.\<close>

record 'w dirty_windows =
  dp_tip_window :: "market_id \<Rightarrow> ('w, storage_error, timestamp_ms option) op"
  dp_next_dirty :: "market_id \<Rightarrow> timestamp_ms option \<Rightarrow> timestamp_ms \<Rightarrow> ('w, storage_error, timestamp_ms option) op"
  dp_read_window :: "market_id \<Rightarrow> timestamp_ms \<times> timestamp_ms \<Rightarrow> ('w, storage_error, snapshot option) op"
  dp_write_window :: "market_id \<Rightarrow> timestamp_ms \<Rightarrow> int \<Rightarrow> packed \<Rightarrow> ('w, storage_error, written_back) op"

definition sqlite_windows :: "segment_db dirty_windows" where
  "sqlite_windows =
     \<lparr>dp_tip_window = (\<lambda>m db. (tip_window m db, db)),
      dp_next_dirty = (\<lambda>m after tip db. (Inr (next_dirty m after tip db), db)),
      dp_read_window = (\<lambda>m w db. (Inr (read_window m w db), db)),
      dp_write_window = (\<lambda>m s mark_id packed db. (case write_window m s mark_id packed db of (r, db') \<Rightarrow> (Inr r, db')))\<rparr>"

section \<open>Refresh\<close>

datatype built = New | Same | Blocked segment_error | Elsewhere | Busy

definition attempts :: nat where "attempts = 3"

fun build_attempts ::
  "'d decimal_ops \<Rightarrow> segment_codec \<Rightarrow> 'w dirty_windows \<Rightarrow> market_id \<Rightarrow> timestamp_ms \<times> timestamp_ms \<Rightarrow> nat \<Rightarrow>
   ('w, storage_error, built) op"
where
  "build_attempts D K P market w 0 = io_return Busy"
| "build_attempts D K P market w (Suc n) =
     io_bind (dp_read_window P market w) (\<lambda>found.
       case found of
         None \<Rightarrow> io_return Elsewhere
       | Some snapshot \<Rightarrow>
           (case pack D K snapshot of
              Inl e \<Rightarrow> io_return (Blocked e)
            | Inr packed \<Rightarrow>
                io_bind (dp_write_window P market (fst w) (sn_id snapshot) packed) (\<lambda>result.
                  case result of
                    Done \<Rightarrow> io_return (if packed = Keep then Same else New)
                  | WrittenElsewhere \<Rightarrow> io_return Elsewhere
                  | Marked \<Rightarrow> build_attempts D K P market w n)))"

definition build_window ::
  "'d decimal_ops \<Rightarrow> segment_codec \<Rightarrow> 'w dirty_windows \<Rightarrow> market_id \<Rightarrow> timestamp_ms \<Rightarrow> ('w, storage_error, built) op"
where
  "build_window D K P market start =
     (case window (mk_interval market) start of
        None \<Rightarrow> io_fail (out_of_range start)
      | Some w \<Rightarrow> build_attempts D K P market w attempts)"

definition count_built :: "built \<Rightarrow> segment_refresh \<Rightarrow> segment_refresh" where
  "count_built b r =
     (case b of
        New \<Rightarrow> r\<lparr>rf_built := Suc (rf_built r)\<rparr>
      | Same \<Rightarrow> r\<lparr>rf_unchanged := Suc (rf_unchanged r)\<rparr>
      | Blocked e \<Rightarrow> r\<lparr>rf_blocked := Suc (rf_blocked r)\<rparr>
      | Elsewhere \<Rightarrow> r
      | Busy \<Rightarrow> r)"

partial_function (option) refresh_loop ::
  "'d decimal_ops \<Rightarrow> segment_codec \<Rightarrow> 'w dirty_windows \<Rightarrow> market_id \<Rightarrow> timestamp_ms \<Rightarrow> timestamp_ms option \<Rightarrow>
   segment_refresh \<Rightarrow> 'w \<Rightarrow> ((storage_error + segment_refresh) \<times> 'w) option"
where
  "refresh_loop D K P market tip after r w =
     (case dp_next_dirty P market after tip w of
        (Inl e, w1) \<Rightarrow> Some (Inl e, w1)
      | (Inr None, w1) \<Rightarrow> Some (Inr r, w1)
      | (Inr (Some start), w1) \<Rightarrow>
          (case build_window D K P market start w1 of
             (Inl e, w2) \<Rightarrow> Some (Inl e, w2)
           | (Inr b, w2) \<Rightarrow> refresh_loop D K P market tip (Some start) (count_built b r) w2))"

definition refresh_default :: segment_refresh where
  "refresh_default = \<lparr>rf_built = 0, rf_unchanged = 0, rf_blocked = 0\<rparr>"

definition refresh ::
  "'d decimal_ops \<Rightarrow> segment_codec \<Rightarrow> 'w dirty_windows \<Rightarrow> market_id \<Rightarrow> 'w \<Rightarrow>
   ((storage_error + segment_refresh) \<times> 'w) option"
where
  "refresh D K P market w =
     (case dp_tip_window P market w of
        (Inl e, w1) \<Rightarrow> Some (Inl e, w1)
      | (Inr None, w1) \<Rightarrow> Some (Inr refresh_default, w1)
      | (Inr (Some tip), w1) \<Rightarrow> refresh_loop D K P market tip None refresh_default w1)"

section \<open>Plans\<close>

definition check_range :: "timestamp_ms \<Rightarrow> timestamp_ms \<Rightarrow> storage_error + unit" where
  "check_range first_open last_open =
     (if last_open < first_open
      then Inl (SeInvalidArgument (''the first open time '' @ int_string first_open @ '' is after the last, '' @
                  int_string last_open))
      else Inr ())"

definition all_tip :: "timestamp_ms \<Rightarrow> timestamp_ms \<Rightarrow> segment_plan" where
  "all_tip first_open last_open =
     \<lparr>pl_segments = [], pl_tip = Some \<lparr>tp_first_open_ms = first_open, tp_last_open_ms = last_open\<rparr>\<rparr>"

definition tip_start :: "timestamp_ms \<Rightarrow> timestamp_ms option \<Rightarrow> timestamp_ms" where
  "tip_start tip lowest_dirty = (case lowest_dirty of None \<Rightarrow> tip | Some dirty \<Rightarrow> min dirty tip)"

definition plan_of :: "segment_ref list \<Rightarrow> timestamp_ms \<Rightarrow> timestamp_ms \<Rightarrow> timestamp_ms \<Rightarrow> segment_plan" where
  "plan_of segments start first_open last_open =
     \<lparr>pl_segments = segments,
      pl_tip = (if start \<le> last_open
        then Some \<lparr>tp_first_open_ms = max first_open start, tp_last_open_ms = last_open\<rparr> else None)\<rparr>"

definition find_segment :: "segment_hash \<Rightarrow> segment_db \<Rightarrow> segment_row option" where
  "find_segment h db = find (\<lambda>row. sg_hash row = h) (db_segments db)"

definition segment_refs :: "segment_db \<Rightarrow> index_row list \<Rightarrow> segment_ref list" where
  "segment_refs db rows =
     List.map_filter (\<lambda>i. map_option (\<lambda>s. \<lparr>sr_window_start_ms = ix_window_start_ms i, sr_first_open_ms = ix_first_open_ms i,
        sr_last_open_ms = ix_last_open_ms i, sr_bar_count = ix_bar_count i, sr_hash = ix_hash i,
        sr_payload_len = sg_payload_len s, sr_stored_len = length (sg_data s)\<rparr>) (find_segment (ix_hash i) db)) rows"

definition resolve_segments ::
  "market_id \<Rightarrow> timestamp_ms \<Rightarrow> timestamp_ms \<Rightarrow> segment_db \<Rightarrow> storage_error + segment_plan"
where
  "resolve_segments market first_open last_open db =
     and_then (check_range first_open last_open) (\<lambda>_.
     and_then (tip_window market db) (\<lambda>tip.
       case tip of
         None \<Rightarrow> Inr (all_tip first_open last_open)
       | Some tip \<Rightarrow>
           let start = tip_start tip (sql_min (map dw_window_start_ms (mr_dirty (db_market db market))));
               rows = filter (\<lambda>i. ix_window_start_ms i < start \<and> first_open \<le> ix_last_open_ms i \<and>
                        ix_first_open_ms i \<le> last_open) (mr_index (db_market db market))
           in Inr (plan_of (segment_refs db rows) start first_open last_open)))"

definition load_segment :: "segment_hash \<Rightarrow> segment_db \<Rightarrow> u8 list option" where
  "load_segment h db = map_option sg_data (find_segment h db)"

section \<open>Every store writers and refreshes can make\<close>

text \<open>A snapshot a refresh holds: the market and window it was read for.\<close>

type_synonym in_flight = "(market_id \<times> timestamp_ms \<times> snapshot) list"

inductive reachable_store :: "'d decimal_ops \<Rightarrow> segment_codec \<Rightarrow> segment_db \<Rightarrow> in_flight \<Rightarrow> bool"
  for D K where
  fresh: "reachable_store D K empty_db []"
| written: "reachable_store D K db held \<Longrightarrow> list_all i64_times candles \<Longrightarrow>
    upsert_candles D market candles db = (r, db') \<Longrightarrow> reachable_store D K db' held"
| snapshot_read: "reachable_store D K db held \<Longrightarrow> window (mk_interval market) t = Some (s, e) \<Longrightarrow>
    read_window market (s, e) db = Some snapshot \<Longrightarrow> reachable_store D K db ((market, s, snapshot) # held)"
| written_back: "reachable_store D K db held \<Longrightarrow> (market, s, snapshot) \<in> set held \<Longrightarrow>
    pack D K snapshot = Inr packed \<Longrightarrow> write_window market s (sn_id snapshot) packed db = (r, db') \<Longrightarrow>
    reachable_store D K db' held"

section \<open>The invariant\<close>

text \<open>No two payloads share a digest.\<close>

definition collision_free :: "segment_codec \<Rightarrow> bool" where
  "collision_free K \<longleftrightarrow> inj (sc_sha256 K)"

definition is_start :: "market_id \<Rightarrow> timestamp_ms \<Rightarrow> bool" where
  "is_start market s \<longleftrightarrow> window (mk_interval market) s = Some (s, s + span_ms (mk_interval market))"

definition window_rows :: "market_id \<Rightarrow> timestamp_ms \<Rightarrow> market_rows \<Rightarrow> text_candle list" where
  "window_rows market s rows = select_candles s (s + span_ms (mk_interval market)) (mr_candles rows)"

text \<open>The index entry of the window that holds exactly these candles.\<close>

definition indexed_as :: "'d decimal_ops \<Rightarrow> segment_codec \<Rightarrow> text_candle list \<Rightarrow> index_row \<Rightarrow> bool" where
  "indexed_as D K cs i \<longleftrightarrow>
     cs \<noteq> [] \<and> (\<forall>c\<in>set cs. five_decimals c) \<and> ix_first_open_ms i = tc_open_time_ms (hd cs) \<and>
     ix_last_open_ms i = tc_open_time_ms (last cs) \<and> ix_bar_count i = length cs \<and>
     (\<exists>p. encode_text D cs = Inr p \<and> ix_hash i = segment_hash_of K p)"

definition exactly_indexed :: "'d decimal_ops \<Rightarrow> segment_codec \<Rightarrow> market_id \<Rightarrow> timestamp_ms \<Rightarrow> market_rows \<Rightarrow> bool" where
  "exactly_indexed D K market s rows \<longleftrightarrow>
     (case find_index s rows of
        None \<Rightarrow> window_rows market s rows = []
      | Some i \<Rightarrow> indexed_as D K (window_rows market s rows) i)"

definition market_ok :: "'d decimal_ops \<Rightarrow> segment_codec \<Rightarrow> market_id \<Rightarrow> market_rows \<Rightarrow> bool" where
  "market_ok D K market rows \<longleftrightarrow>
     keyed tc_open_time_ms (mr_candles rows) \<and> keyed ix_window_start_ms (mr_index rows) \<and>
     keyed dw_window_start_ms (mr_dirty rows) \<and>
     (\<forall>c\<in>set (mr_candles rows). five_decimals c \<and> window (mk_interval market) (tc_open_time_ms c) \<noteq> None) \<and>
     (\<forall>i\<in>set (mr_index rows). is_start market (ix_window_start_ms i) \<and> (\<exists>cs. indexed_as D K cs i)) \<and>
     (\<forall>d\<in>set (mr_dirty rows). is_start market (dw_window_start_ms d)) \<and>
     (\<forall>s. is_start market s \<longrightarrow> find_dirty s rows = None \<longrightarrow> exactly_indexed D K market s rows)"

definition ids_ok :: "segment_db \<Rightarrow> bool" where
  "ids_ok db \<longleftrightarrow>
     (\<forall>m. \<forall>d\<in>set (mr_dirty (db_market db m)). dw_id d < db_next_id db) \<and>
     (\<forall>m. inj_on dw_id (set (mr_dirty (db_market db m)))) \<and>
     (\<forall>m m' d d'. d \<in> set (mr_dirty (db_market db m)) \<longrightarrow> d' \<in> set (mr_dirty (db_market db m')) \<longrightarrow>
        dw_id d = dw_id d' \<longrightarrow> m = m')"

definition segment_row_ok :: "'d decimal_ops \<Rightarrow> segment_codec \<Rightarrow> segment_row \<Rightarrow> bool" where
  "segment_row_ok D K row \<longleftrightarrow>
     (\<exists>cs p. (\<forall>c\<in>set cs. five_decimals c) \<and> encode_text D cs = Inr p \<and> sg_hash row = segment_hash_of K p \<and>
        sg_payload_len row = length p \<and> segment_compress K p = Inr (sg_data row))"

definition segments_ok :: "'d decimal_ops \<Rightarrow> segment_codec \<Rightarrow> segment_db \<Rightarrow> bool" where
  "segments_ok D K db \<longleftrightarrow>
     (\<forall>row\<in>set (db_segments db). segment_row_ok D K row) \<and>
     (\<forall>m. \<forall>i\<in>set (mr_index (db_market db m)). ix_hash i \<in> sg_hash ` set (db_segments db))"

definition held_ok :: "segment_db \<Rightarrow> market_id \<times> timestamp_ms \<times> snapshot \<Rightarrow> bool" where
  "held_ok db = (\<lambda>(market, s, snapshot).
     is_start market s \<and> sn_id snapshot < db_next_id db \<and>
     (\<forall>m. \<forall>d\<in>set (mr_dirty (db_market db m)). dw_id d = sn_id snapshot \<longrightarrow>
        m = market \<and> dw_window_start_ms d = s \<and>
        sn_candles snapshot = window_rows market s (db_market db market) \<and>
        sn_indexed snapshot = map_option ix_hash (find_index s (db_market db market))))"

definition store_inv :: "'d decimal_ops \<Rightarrow> segment_codec \<Rightarrow> segment_db \<Rightarrow> in_flight \<Rightarrow> bool" where
  "store_inv D K db held \<longleftrightarrow>
     (\<forall>m. market_ok D K m (db_market db m)) \<and> ids_ok db \<and> segments_ok D K db \<and> (\<forall>h\<in>set held. held_ok db h)"

lemma rows_updates [simp]:
  "window_rows m s (rows\<lparr>mr_dirty := d\<rparr>) = window_rows m s rows"
  "window_rows m s (rows\<lparr>mr_index := i\<rparr>) = window_rows m s rows"
  "exactly_indexed D K m s (rows\<lparr>mr_dirty := d\<rparr>) = exactly_indexed D K m s rows"
  by (simp_all add: window_rows_def exactly_indexed_def cong: option.case_cong)

lemma window_start_is_start: "window (mk_interval m) t = Some (s, e) \<Longrightarrow> is_start m s \<and> e = s + span_ms (mk_interval m)"
  using window_holds [of "mk_interval m" t s e s] by (auto simp: is_start_def window_Some)

lemma is_start_window:
  "is_start m s \<Longrightarrow> window (mk_interval m) t = Some (s', e') \<Longrightarrow> s \<le> t \<Longrightarrow> t < s + span_ms (mk_interval m) \<Longrightarrow> s' = s"
  using window_holds [of "mk_interval m" s s "s + span_ms (mk_interval m)" t] by (simp add: is_start_def)

subsection \<open>Writers keep it\<close>

lemma window_starts_Inr:
  "window_starts iv ts = Inr starts \<Longrightarrow>
     length starts = length ts \<and> (\<forall>(t, s)\<in>set (zip ts starts). \<exists>e. window iv t = Some (s, e))"
proof (induction ts arbitrary: starts)
  case (Cons t ts)
  then show ?case by (auto simp: and_then_Inr window_start_def ok_or_def split: option.splits)
qed simp

lemma upsert_rows_spec:
  assumes "upsert_rows new rows changed = (rows', changed')"
    and "keyed tc_open_time_ms rows" and "keyed (\<lambda>s. s) changed"
    and "\<forall>(c, s)\<in>set new. \<exists>e. window (mk_interval m) (tc_open_time_ms c) = Some (s, e)"
  shows "keyed tc_open_time_ms rows' \<and> keyed (\<lambda>s. s) changed' \<and> set rows' \<subseteq> set rows \<union> fst ` set new \<and>
    set changed \<subseteq> set changed' \<and> set changed' \<subseteq> set changed \<union> snd ` set new \<and>
    (\<forall>s. is_start m s \<longrightarrow> s \<notin> set changed' \<longrightarrow>
       select_candles s (s + span_ms (mk_interval m)) rows' = select_candles s (s + span_ms (mk_interval m)) rows)"
  using assms
proof (induction new rows changed rule: upsert_rows.induct)
  case (2 c start new rows changed)
  show ?case
  proof (cases "find_row tc_open_time_ms (tc_open_time_ms c) rows = Some c")
    case True
    with 2 show ?thesis by auto
  next
    case False
    let ?rows = "put_row tc_open_time_ms c rows" and ?changed = "put_row (\<lambda>s. s) start changed"
    from "2.prems"(4) obtain e where w: "window (mk_interval m) (tc_open_time_ms c) = Some (start, e)" by auto
    have sets: "set ?rows \<subseteq> insert c (set rows)" "set ?changed = insert start (set changed)"
      by (auto simp: set_put_row "2.prems"(2,3))
    from False "2.prems"(1) have "upsert_rows new ?rows ?changed = (rows', changed')" by simp
    from "2.IH"(2) [OF False this keyed_put_row [OF "2.prems"(2)] keyed_put_row [OF "2.prems"(3)]] "2.prems"(4)
    have IH: "keyed tc_open_time_ms rows'" "keyed (\<lambda>s. s) changed'" "set rows' \<subseteq> set ?rows \<union> fst ` set new"
      "set ?changed \<subseteq> set changed'" "set changed' \<subseteq> set ?changed \<union> snd ` set new"
      "\<forall>s. is_start m s \<longrightarrow> s \<notin> set changed' \<longrightarrow> select_candles s (s + span_ms (mk_interval m)) rows' =
         select_candles s (s + span_ms (mk_interval m)) ?rows" by auto
    have "select_candles s (s + span_ms (mk_interval m)) ?rows = select_candles s (s + span_ms (mk_interval m)) rows"
      if "is_start m s" "s \<notin> set changed'" for s
    proof -
      from that(2) IH(4) sets(2) have "start \<noteq> s" by auto
      with is_start_window [OF that(1) w]
      have "\<not> (s \<le> tc_open_time_ms c \<and> tc_open_time_ms c < s + span_ms (mk_interval m))" by auto
      then show ?thesis unfolding select_candles_def by (intro filter_put_row "2.prems"(2)) simp
    qed
    with IH sets show ?thesis by auto
  qed
qed simp

lemma mark_dirty_spec:
  assumes "mark_dirty ss dirty n = (dirty', n')" and "keyed dw_window_start_ms dirty"
    and "\<forall>d\<in>set dirty. dw_id d < n" and "inj_on dw_id (set dirty)"
  shows "keyed dw_window_start_ms dirty' \<and> n \<le> n' \<and> inj_on dw_id (set dirty') \<and> (\<forall>d\<in>set dirty'. dw_id d < n') \<and>
    (\<forall>d\<in>set dirty'. dw_id d < n \<longrightarrow> d \<in> set dirty \<and> dw_window_start_ms d \<notin> set ss) \<and>
    dw_window_start_ms ` set dirty' = dw_window_start_ms ` set dirty \<union> set ss"
  using assms
proof (induction ss dirty n rule: mark_dirty.induct)
  case (2 s ss dirty n)
  let ?d = "\<lparr>dw_id = n, dw_window_start_ms = s\<rparr>"
  let ?dirty = "put_row dw_window_start_ms ?d dirty"
  have set: "set ?dirty = insert ?d {d \<in> set dirty. dw_window_start_ms d \<noteq> s}"
    using set_put_row [OF "2.prems"(2), of ?d] by simp
  have "inj_on dw_id (set ?dirty)" "\<forall>d\<in>set ?dirty. dw_id d < n + 1"
    using "2.prems"(3,4) unfolding set inj_on_def by auto
  with "2.IH" [OF _ keyed_put_row [OF "2.prems"(2)]] "2.prems"(1)
  have IH: "keyed dw_window_start_ms dirty'" "n + 1 \<le> n'" "inj_on dw_id (set dirty')" "\<forall>d\<in>set dirty'. dw_id d < n'"
    "\<forall>d\<in>set dirty'. dw_id d < n + 1 \<longrightarrow> d \<in> set ?dirty \<and> dw_window_start_ms d \<notin> set ss"
    "dw_window_start_ms ` set dirty' = dw_window_start_ms ` set ?dirty \<union> set ss" by auto
  have "dw_window_start_ms ` set ?dirty = insert s (dw_window_start_ms ` set dirty)" unfolding set by auto
  moreover have "d \<in> set dirty \<and> dw_window_start_ms d \<notin> set (s # ss)" if "d \<in> set dirty'" "dw_id d < n" for d
  proof -
    from IH(5) that have "d = ?d \<or> d \<in> set dirty \<and> dw_window_start_ms d \<noteq> s" "dw_window_start_ms d \<notin> set ss"
      unfolding set by auto
    with that(2) show ?thesis by auto
  qed
  ultimately show ?case using IH by auto
qed simp

lemma text_rows_five: "list_all i64_times cs \<Longrightarrow> c \<in> set (text_rows D cs) \<Longrightarrow> five_decimals c"
  by (auto simp: list_all_iff i64_times_def five_decimals_def text_candle_of_def)

lemma segments_ok_markets:
  "segments_ok D K db \<Longrightarrow> db_segments db' = db_segments db \<Longrightarrow>
   (\<And>m. set (mr_index (db_market db' m)) \<subseteq> set (mr_index (db_market db m))) \<Longrightarrow> segments_ok D K db'"
  unfolding segments_ok_def by (metis subsetD)

text \<open>What a transaction that writes candles may commit: rows that change only in windows it marks, each under an
  id no mark and no snapshot has.\<close>

definition fresh_id :: "segment_db \<Rightarrow> in_flight \<Rightarrow> int \<Rightarrow> bool" where
  "fresh_id db held k \<longleftrightarrow>
     (\<forall>m. k \<notin> dw_id ` set (mr_dirty (db_market db m))) \<and> (\<forall>(m, s, snapshot)\<in>set held. k \<noteq> sn_id snapshot)"

definition candles_changed :: "market_id \<Rightarrow> timestamp_ms list \<Rightarrow> text_candle list \<Rightarrow> text_candle list \<Rightarrow> bool" where
  "candles_changed m windows rows rows' \<longleftrightarrow>
     keyed tc_open_time_ms rows' \<and>
     (\<forall>c\<in>set rows'. c \<in> set rows \<or> five_decimals c \<and> window (mk_interval m) (tc_open_time_ms c) \<noteq> None) \<and>
     (\<forall>s\<in>set windows. is_start m s) \<and>
     (\<forall>s. is_start m s \<longrightarrow> s \<notin> set windows \<longrightarrow>
        select_candles s (s + span_ms (mk_interval m)) rows' = select_candles s (s + span_ms (mk_interval m)) rows)"

definition marks_replaced :: "segment_db \<Rightarrow> in_flight \<Rightarrow> timestamp_ms list \<Rightarrow> dirty_row list \<Rightarrow> dirty_row list \<Rightarrow> int \<Rightarrow> bool" where
  "marks_replaced db held windows dirty dirty' n' \<longleftrightarrow>
     keyed dw_window_start_ms dirty' \<and> db_next_id db \<le> n' \<and> inj_on dw_id (set dirty') \<and>
     dw_window_start_ms ` set dirty' = dw_window_start_ms ` set dirty \<union> set windows \<and>
     (\<forall>d\<in>set dirty'. d \<in> set dirty \<and> dw_window_start_ms d \<notin> set windows \<or> dw_id d < n' \<and> fresh_id db held (dw_id d))"

lemma commit_inv:
  assumes inv: "store_inv D K db held"
    and up: "candles_changed market windows (mr_candles (db_market db market)) stored"
    and mk: "marks_replaced db held windows (mr_dirty (db_market db market)) dirty n"
  shows "store_inv D K (db\<lparr>db_market := (db_market db)(market := (db_market db market)
      \<lparr>mr_candles := stored, mr_dirty := dirty\<rparr>), db_next_id := n\<rparr>) held"
    (is "store_inv D K ?db held")
proof -
  let ?rows = "db_market db market"
  from inv have ok: "market_ok D K m (db_market db m)" "ids_ok db" "segments_ok D K db" for m
    by (simp_all add: store_inv_def)
  note up = up [unfolded candles_changed_def] and mk = mk [unfolded marks_replaced_def]
  have stored: "five_decimals c \<and> window (mk_interval market) (tc_open_time_ms c) \<noteq> None" if "c \<in> set stored" for c
    using up that ok(1) [of market] by (auto simp: market_ok_def)
  have unmarked: "s \<notin> set windows \<and> find_dirty s ?rows = None"
    if "find_row dw_window_start_ms s dirty = None" for s
    using that mk by (auto simp: find_row_None)
  have same: "window_rows market s (?rows\<lparr>mr_candles := stored, mr_dirty := dirty\<rparr>) = window_rows market s ?rows"
    if "is_start market s" "s \<notin> set windows" for s
    using that up by (simp add: window_rows_def)
  have marked: "is_start market (dw_window_start_ms d)" if "d \<in> set dirty" for d
  proof -
    from that mk have "dw_window_start_ms d \<in> dw_window_start_ms ` set (mr_dirty ?rows) \<union> set windows" by blast
    then show ?thesis using ok(1) [of market] up by (auto simp: market_ok_def)
  qed
  have "exactly_indexed D K market s (?rows\<lparr>mr_candles := stored, mr_dirty := dirty\<rparr>)"
    if "is_start market s" "find_row dw_window_start_ms s dirty = None" for s
    using ok(1) [of market] unmarked [OF that(2)] same [OF that(1)] that(1)
    by (simp add: market_ok_def exactly_indexed_def cong: option.case_cong)
  then have "market_ok D K market (?rows\<lparr>mr_candles := stored, mr_dirty := dirty\<rparr>)"
    using ok(1) [of market] up mk stored marked by (simp add: market_ok_def)
  then have "market_ok D K m (db_market ?db m)" for m using ok(1) by simp
  moreover have "ids_ok ?db"
  proof -
    have old: "dw_id d < n" if "d \<in> set (mr_dirty (db_market db m))" for m d
      using ok(2) that mk by (fastforce simp: ids_ok_def)
    have "m = market" if "d \<in> set dirty" "d' \<in> set (mr_dirty (db_market db m))" "dw_id d = dw_id d'" for m d d'
    proof -
      from mk that(1) consider "d \<in> set (mr_dirty ?rows)" | "fresh_id db held (dw_id d)" by blast
      then show ?thesis
      proof cases
        case 1
        with ok(2) that show ?thesis unfolding ids_ok_def by blast
      next
        case 2
        with that(2,3) show ?thesis by (auto simp: fresh_id_def)
      qed
    qed
    moreover have "\<forall>d\<in>set dirty. dw_id d < n" using mk old by blast
    ultimately show ?thesis using ok(2) mk old unfolding ids_ok_def by auto
  qed
  moreover have "segments_ok D K ?db"
    by (rule segments_ok_markets [OF ok(3)]) simp_all
  moreover have "held_ok ?db h" if "h \<in> set held" for h
  proof -
    obtain m s snapshot where h: "h = (m, s, snapshot)" by (cases h)
    from inv that have old: "held_ok db (m, s, snapshot)" by (simp add: store_inv_def h)
    then have small: "sn_id snapshot < db_next_id db" by (simp add: held_ok_def)
    have "m' = m \<and> dw_window_start_ms d = s \<and> sn_candles snapshot = window_rows m s (db_market ?db m) \<and>
        sn_indexed snapshot = map_option ix_hash (find_index s (db_market ?db m))"
      if "d \<in> set (mr_dirty (db_market ?db m'))" "dw_id d = sn_id snapshot" for m' d
    proof -
      have "\<not> fresh_id db held (dw_id d)" using that(2) \<open>h \<in> set held\<close> by (auto simp: fresh_id_def h)
      with that(1) mk have d: "d \<in> set (mr_dirty (db_market db m'))" "m' = market \<Longrightarrow> dw_window_start_ms d \<notin> set windows"
        by (auto split: if_splits)
      with old that(2) have "m' = m" "dw_window_start_ms d = s"
        "sn_candles snapshot = window_rows m s (db_market db m)"
        "sn_indexed snapshot = map_option ix_hash (find_index s (db_market db m))" "is_start m s"
        by (auto simp: held_ok_def)
      with same d(2) show ?thesis by auto
    qed
    with old mk small show ?thesis by (auto simp: held_ok_def h)
  qed
  ultimately show ?thesis by (simp add: store_inv_def)
qed

lemma large_ids_fresh: "store_inv D K db held \<Longrightarrow> db_next_id db \<le> k \<Longrightarrow> fresh_id db held k"
  by (fastforce simp: store_inv_def ids_ok_def held_ok_def fresh_id_def)

lemma upsert_rows_changed:
  assumes "upsert_rows new rows [] = (rows', changed)" and "keyed tc_open_time_ms rows"
    and "\<forall>(c, s)\<in>set new. five_decimals c \<and> (\<exists>e. window (mk_interval m) (tc_open_time_ms c) = Some (s, e))"
  shows "candles_changed m changed rows rows'"
proof -
  from assms(3) have w: "\<forall>(c, s)\<in>set new. \<exists>e. window (mk_interval m) (tc_open_time_ms c) = Some (s, e)" by auto
  note spec = upsert_rows_spec [OF assms(1,2) _ w, simplified]
  have "is_start m s" if "s \<in> set changed" for s
  proof -
    from that spec obtain c where "(c, s) \<in> set new" by auto
    with w show ?thesis using window_start_is_start by blast
  qed
  moreover have "c \<in> set rows \<or> five_decimals c \<and> window (mk_interval m) (tc_open_time_ms c) \<noteq> None" if "c \<in> set rows'" for c
  proof (cases "c \<in> set rows")
    case False
    with that spec obtain s where "(c, s) \<in> set new" by auto
    with assms(3) show ?thesis by auto
  qed simp
  ultimately show ?thesis using spec by (simp add: candles_changed_def)
qed

lemma mark_dirty_replaces:
  assumes inv: "store_inv D K db held"
    and mk: "mark_dirty windows (mr_dirty (db_market db m)) (db_next_id db) = (dirty, n)"
  shows "marks_replaced db held windows (mr_dirty (db_market db m)) dirty n"
proof -
  from inv have "keyed dw_window_start_ms (mr_dirty (db_market db m))"
      "\<forall>d\<in>set (mr_dirty (db_market db m)). dw_id d < db_next_id db" "inj_on dw_id (set (mr_dirty (db_market db m)))"
    by (simp_all add: store_inv_def market_ok_def ids_ok_def)
  note mark_dirty_spec [OF mk this]
  then show ?thesis using large_ids_fresh [OF inv] by (auto simp: marks_replaced_def not_less)
qed

lemma upsert_inv:
  assumes inv: "store_inv D K db held" and times: "list_all i64_times candles"
    and run: "upsert_candles D market candles db = (r, db')"
  shows "store_inv D K db' held"
proof (cases "db' = db")
  case False
  let ?rows = "db_market db market" and ?new = "text_rows D candles"
  from run False obtain starts stored changed dirty next_id where
      st: "window_starts (mk_interval market) (map cd_open_time_ms candles) = Inr starts"
    and up: "upsert_rows (zip ?new starts) (mr_candles ?rows) [] = (stored, changed)"
    and mk: "mark_dirty changed (mr_dirty ?rows) (db_next_id db) = (dirty, next_id)"
    and db': "db' = db\<lparr>db_market := (db_market db)(market := ?rows\<lparr>mr_candles := stored, mr_dirty := dirty\<rparr>),
                 db_next_id := next_id\<rparr>"
    by (auto simp: upsert_candles_def Let_def split: if_splits sum.splits prod.splits)
  have "\<forall>(c, s)\<in>set (zip ?new starts). five_decimals c \<and> (\<exists>e. window (mk_interval market) (tc_open_time_ms c) = Some (s, e))"
    using window_starts_Inr [OF st] text_rows_five [OF times, of _ D]
    by (fastforce simp: zip_map1 zip_map2 text_candle_of_def dest: set_zip_leftD)
  with up inv have "candles_changed market changed (mr_candles ?rows) stored"
    by (intro upsert_rows_changed) (simp_all add: store_inv_def market_ok_def)
  from commit_inv [OF inv this mark_dirty_replaces [OF inv mk]] show ?thesis by (simp add: db')
qed (use inv in simp)

subsection \<open>Refreshes keep it\<close>

lemma read_inv:
  assumes inv: "store_inv D K db held" and w: "window (mk_interval market) t = Some (s, e)"
    and read: "read_window market (s, e) db = Some snapshot"
  shows "store_inv D K db ((market, s, snapshot) # held)"
proof -
  from w have start: "is_start market s" "e = s + span_ms (mk_interval market)" using window_start_is_start by blast+
  have k: "keyed dw_window_start_ms (mr_dirty (db_market db market))" and ids: "ids_ok db"
    using inv by (simp_all add: store_inv_def market_ok_def)
  from read obtain mark where mark: "mark \<in> set (mr_dirty (db_market db market))" "dw_window_start_ms mark = s"
      "sn_id snapshot = dw_id mark"
    and seen: "sn_candles snapshot = window_rows market s (db_market db market)"
      "sn_indexed snapshot = map_option ix_hash (find_index s (db_market db market))"
    using start by (auto simp: read_window_def Let_def window_rows_def find_row_Some [OF k])
  have "m = market \<and> dw_window_start_ms d = s"
    if d: "d \<in> set (mr_dirty (db_market db m))" "dw_id d = sn_id snapshot" for m d
  proof -
    have "dw_id d = dw_id mark" using d(2) mark(3) by simp
    moreover from this have "m = market" using ids d(1) mark(1) unfolding ids_ok_def by blast
    ultimately have "d = mark" using ids d(1) mark(1) unfolding ids_ok_def inj_on_def by blast
    with \<open>m = market\<close> mark(2) show ?thesis by simp
  qed
  moreover have "sn_id snapshot < db_next_id db" using ids mark by (auto simp: ids_ok_def)
  ultimately have "held_ok db (market, s, snapshot)" using start seen by (auto simp: held_ok_def)
  with inv show ?thesis by (simp add: store_inv_def)
qed

lemma pack_Inr:
  "pack D K snapshot = Inr packed \<longleftrightarrow>
     sn_candles snapshot = [] \<and> packed = Clear \<or>
     sn_candles snapshot \<noteq> [] \<and> (\<exists>p. encode_text D (sn_candles snapshot) = Inr p \<and>
       (sn_indexed snapshot = Some (segment_hash_of K p) \<and> packed = Keep \<or>
        sn_indexed snapshot \<noteq> Some (segment_hash_of K p) \<and>
        (\<exists>stored. segment_compress K p = Inr stored \<and> packed = Write (segment_hash_of K p) (length p) stored
          (tc_open_time_ms (hd (sn_candles snapshot))) (tc_open_time_ms (last (sn_candles snapshot)))
          (length (sn_candles snapshot)))))"
  by (cases "sn_candles snapshot") (auto simp: pack_def and_then_Inr Let_def split: if_splits)

lemma encode_text_inj:
  assumes "\<forall>c\<in>set cs. five_decimals c" "\<forall>c\<in>set cs'. five_decimals c"
    and "encode_text D cs = Inr p" "encode_text D cs' = Inr p"
  shows "cs = cs'"
  using encode_text_decodes [OF assms(1,3)] encode_text_decodes [OF assms(2,4)] by auto

lemma segment_hash_inj: "collision_free K \<Longrightarrow> segment_hash_of K p = segment_hash_of K p' \<longleftrightarrow> p = p'"
  by (auto simp: collision_free_def segment_hash_of_def inj_eq)

lemma apply_packed_ok:
  assumes free: "collision_free K" and ok: "market_ok D K market rows" and start: "is_start market s"
    and packing: "pack D K snapshot = Inr packed" and seen: "sn_candles snapshot = window_rows market s rows"
      "sn_indexed snapshot = map_option ix_hash (find_index s rows)"
    and applied: "apply_packed s packed rows segments = (rows', segments')"
    and segs: "\<forall>row\<in>set segments. segment_row_ok D K row"
      "\<forall>i\<in>set (mr_index rows). ix_hash i \<in> sg_hash ` set segments"
  shows "mr_candles rows' = mr_candles rows \<and> mr_dirty rows' = mr_dirty rows \<and>
    keyed ix_window_start_ms (mr_index rows') \<and> (\<forall>s'. s' \<noteq> s \<longrightarrow> find_index s' rows' = find_index s' rows) \<and>
    (\<forall>i\<in>set (mr_index rows'). is_start market (ix_window_start_ms i) \<and> (\<exists>cs. indexed_as D K cs i)) \<and>
    exactly_indexed D K market s rows' \<and>
    set segments \<subseteq> set segments' \<and> (\<forall>row\<in>set segments'. segment_row_ok D K row) \<and>
    (\<forall>i\<in>set (mr_index rows'). ix_hash i \<in> sg_hash ` set segments')"
proof -
  let ?cs = "window_rows market s rows"
  have k: "keyed ix_window_start_ms (mr_index rows)"
    and index: "\<forall>i\<in>set (mr_index rows). is_start market (ix_window_start_ms i) \<and> (\<exists>cs. indexed_as D K cs i)"
    and five: "\<forall>c\<in>set ?cs. five_decimals c"
    using ok by (auto simp: market_ok_def window_rows_def select_candles_def)
  consider (clear) "packed = Clear" "?cs = []"
    | (keep) p where "packed = Keep" "?cs \<noteq> []" "encode_text D ?cs = Inr p"
        "sn_indexed snapshot = Some (segment_hash_of K p)"
    | (pack) p stored where "?cs \<noteq> []" "encode_text D ?cs = Inr p" "segment_compress K p = Inr stored"
        "packed = Write (segment_hash_of K p) (length p) stored (tc_open_time_ms (hd ?cs))
           (tc_open_time_ms (last ?cs)) (length ?cs)"
    using packing [unfolded pack_Inr seen(1)] by blast
  then show ?thesis
  proof cases
    case clear
    with applied have "rows' = rows\<lparr>mr_index := delete_row ix_window_start_ms s (mr_index rows)\<rparr>" "segments' = segments"
      by (simp_all add: apply_packed_def)
    moreover have "exactly_indexed D K market s (rows\<lparr>mr_index := delete_row ix_window_start_ms s (mr_index rows)\<rparr>)"
      using clear by (simp add: exactly_indexed_def find_delete_row window_rows_def)
    ultimately show ?thesis
      using k index segs by (auto simp: find_delete_row) (auto simp: delete_row_def keyed_filter)
  next
    case keep
    then obtain i where i: "find_index s rows = Some i" "ix_hash i = segment_hash_of K p" using seen(2) by auto
    with index k obtain cs where cs: "indexed_as D K cs i" by (auto simp: find_row_Some)
    with i(2) free obtain "encode_text D cs = Inr p" "\<forall>c\<in>set cs. five_decimals c"
      by (auto simp: indexed_as_def segment_hash_inj)
    with keep five have "cs = ?cs" using encode_text_inj by blast
    with i cs have "exactly_indexed D K market s rows" by (simp add: exactly_indexed_def)
    with keep applied k index segs show ?thesis by (simp add: apply_packed_def)
  next
    case pack
    let ?i = "\<lparr>ix_window_start_ms = s, ix_first_open_ms = tc_open_time_ms (hd ?cs),
      ix_last_open_ms = tc_open_time_ms (last ?cs), ix_bar_count = length ?cs, ix_hash = segment_hash_of K p\<rparr>"
    let ?row = "\<lparr>sg_hash = segment_hash_of K p, sg_format = segment_format, sg_payload_len = length p, sg_data = stored\<rparr>"
    have hashes: "(\<exists>row\<in>set segments. sg_hash row = h) \<longleftrightarrow> h \<in> sg_hash ` set segments" for h by force
    have rows': "rows' = rows\<lparr>mr_index := put_row ix_window_start_ms ?i (mr_index rows)\<rparr>"
      and segments': "segments' = (if segment_hash_of K p \<in> sg_hash ` set segments then segments else segments @ [?row])"
      using applied unfolding pack(4) apply_packed_def packed.case hashes by simp_all
    have i: "indexed_as D K ?cs ?i" using pack five by (simp add: indexed_as_def)
    have "segment_row_ok D K ?row" using pack five by (auto simp: segment_row_ok_def)
    then have "set segments \<subseteq> set segments' \<and> (\<forall>row\<in>set segments'. segment_row_ok D K row) \<and>
        segment_hash_of K p \<in> sg_hash ` set segments'"
      using segs by (auto simp: segments')
    moreover have "set (mr_index rows') \<subseteq> insert ?i (set (mr_index rows))"
      unfolding rows' by (auto simp: set_put_row [OF k])
    moreover have "exactly_indexed D K market s rows'"
      using i by (simp add: rows' exactly_indexed_def find_put_row)
    moreover have "\<forall>s'. s' \<noteq> s \<longrightarrow> find_index s' rows' = find_index s' rows" by (simp add: rows' find_put_row)
    moreover from calculation have "is_start market (ix_window_start_ms j) \<and> (\<exists>cs. indexed_as D K cs j) \<and>
        ix_hash j \<in> sg_hash ` set segments'" if "j \<in> set (mr_index rows')" for j
    proof (cases "j = ?i")
      case True
      then show ?thesis using calculation(1) start i by auto
    next
      case False
      with that calculation(2) have "j \<in> set (mr_index rows)" by blast
      then show ?thesis using index segs(2) calculation(1) by blast
    qed
    moreover have "mr_candles rows' = mr_candles rows \<and> mr_dirty rows' = mr_dirty rows \<and>
        keyed ix_window_start_ms (mr_index rows')"
      by (simp add: rows' keyed_put_row [OF k])
    ultimately show ?thesis by blast
  qed
qed

lemma write_inv:
  assumes free: "collision_free K" and inv: "store_inv D K db held" and mem: "(market, s, snapshot) \<in> set held"
    and packing: "pack D K snapshot = Inr packed"
    and run: "write_window market s (sn_id snapshot) packed db = (r, db')"
  shows "store_inv D K db' held"
proof (cases "db' = db")
  case False
  let ?rows = "db_market db market" and ?n = "sn_id snapshot"
  from inv have ok: "market_ok D K m (db_market db m)" "ids_ok db" "segments_ok D K db" for m
    by (simp_all add: store_inv_def)
  from inv mem have held: "held_ok db (market, s, snapshot)" by (auto simp: store_inv_def)
  then have start: "is_start market s" by (simp add: held_ok_def)
  from run False obtain mark rows' segments' where
      mark: "find_dirty s ?rows = Some mark" "dw_id mark = ?n"
    and applied: "apply_packed s packed ?rows (db_segments db) = (rows', segments')"
    and db': "db' = db\<lparr>db_market := (\<lambda>m. (((db_market db)(market := rows')) m)
        \<lparr>mr_dirty := delete_row dw_id ?n (mr_dirty (((db_market db)(market := rows')) m))\<rparr>), db_segments := segments'\<rparr>"
    by (auto simp: write_window_def Let_def split: option.splits if_splits prod.splits)
  have k: "keyed dw_window_start_ms (mr_dirty ?rows)" using ok(1) [of market] by (simp add: market_ok_def)
  have mark': "mark \<in> set (mr_dirty ?rows)" "dw_window_start_ms mark = s" using mark(1) by (simp_all add: find_row_Some [OF k])
  have seen: "sn_candles snapshot = window_rows market s ?rows"
      "sn_indexed snapshot = map_option ix_hash (find_index s ?rows)"
    using held mark'(1) mark(2) unfolding held_ok_def split_conv by blast+
  have segs: "\<forall>row\<in>set (db_segments db). segment_row_ok D K row"
      "\<forall>i\<in>set (mr_index ?rows). ix_hash i \<in> sg_hash ` set (db_segments db)"
    using ok(3) by (auto simp: segments_ok_def)
  note step = apply_packed_ok [OF free ok(1) start packing seen applied segs]
  have only: "d = mark \<and> m = market" if "d \<in> set (mr_dirty (db_market db m))" "dw_id d = ?n" for m d
  proof -
    have "m = market" using ok(2) that mark' mark(2) unfolding ids_ok_def by metis
    with ok(2) that mark' mark(2) show ?thesis unfolding ids_ok_def inj_on_def by metis
  qed
  have others: "db_market db' m = db_market db m" if "m \<noteq> market" for m
  proof -
    have "delete_row dw_id ?n (mr_dirty (db_market db m)) = mr_dirty (db_market db m)"
      using only [of _ m] that by (auto simp: delete_row_def filter_id_conv)
    with that show ?thesis by (simp add: db')
  qed
  have mine: "db_market db' market = rows'\<lparr>mr_dirty := delete_row dw_id ?n (mr_dirty ?rows)\<rparr>"
    using step by (simp add: db')
  have dirty: "set (mr_dirty (db_market db' m)) = {d \<in> set (mr_dirty (db_market db m)). dw_id d \<noteq> ?n}" for m
  proof (cases "m = market")
    case True
    then show ?thesis by (simp add: mine) (auto simp: delete_row_def)
  qed (use others only in auto)
  have rows_same: "window_rows m s' (db_market db' m) = window_rows m s' (db_market db m)" for m s'
    using others [of m] mine step by (cases "m = market") (auto simp: window_rows_def)
  have "exactly_indexed D K market s' (db_market db' market)"
    if s': "is_start market s'" and unmarked: "find_dirty s' (db_market db' market) = None" for s'
  proof (cases "s' = s")
    case True
    then show ?thesis using step by (simp add: mine)
  next
    case False
    have "find_dirty s' ?rows = None"
    proof (rule ccontr)
      assume "find_dirty s' ?rows \<noteq> None"
      then obtain d where d: "d \<in> set (mr_dirty ?rows)" "dw_window_start_ms d = s'" by (auto simp: find_row_Some [OF k])
      with False mark' only [OF d(1)] have "dw_id d \<noteq> ?n" by auto
      with d dirty [of market] have "s' \<in> dw_window_start_ms ` set (mr_dirty (db_market db' market))" by auto
      with unmarked show False by (simp add: find_row_None)
    qed
    with ok(1) [of market] s' have "exactly_indexed D K market s' ?rows" by (simp add: market_ok_def)
    moreover have "window_rows market s' rows' = window_rows market s' ?rows" using step by (simp add: window_rows_def)
    ultimately show ?thesis using step False by (simp add: mine) (simp add: exactly_indexed_def cong: option.case_cong)
  qed
  then have "market_ok D K market (db_market db' market)"
    using ok(1) [of market] step dirty [of market] by (auto simp: market_ok_def mine) (auto simp: delete_row_def keyed_filter)
  then have "market_ok D K m (db_market db' m)" for m using ok(1) others by (cases "m = market") simp_all
  moreover have "ids_ok db'"
    using ok(2) unfolding ids_ok_def dirty by (auto simp: db' intro: inj_on_subset)
  moreover have "segments_ok D K db'"
  proof -
    have "db_segments db' = segments'" by (simp add: db')
    moreover have "ix_hash i \<in> sg_hash ` set segments'" if "i \<in> set (mr_index (db_market db' m))" for m i
    proof (cases "m = market")
      case True
      with that step show ?thesis by (simp add: mine)
    next
      case False
      with that others ok(3) have "ix_hash i \<in> sg_hash ` set (db_segments db)" by (simp add: segments_ok_def)
      with step show ?thesis by blast
    qed
    ultimately show ?thesis using step by (simp add: segments_ok_def)
  qed
  moreover have "held_ok db' h" if "h \<in> set held" for h
  proof -
    obtain m s' sn where h: "h = (m, s', sn)" by (cases h)
    from inv that have old: "held_ok db (m, s', sn)" by (simp add: store_inv_def h)
    have index: "find_index s' (db_market db' m) = find_index s' (db_market db m)"
      if "d \<in> set (mr_dirty (db_market db' m))" "dw_window_start_ms d = s'" for d
    proof (cases "m = market")
      case True
      with that dirty have d: "d \<in> set (mr_dirty ?rows)" "dw_id d \<noteq> ?n" by auto
      have "s' \<noteq> s"
      proof
        assume "s' = s"
        with d(1) that(2) mark' have "d = mark" using keyed_inj [OF k] by simp
        with d(2) mark(2) show False by simp
      qed
      with True step show ?thesis by (simp add: mine)
    qed (use others in simp)
    have "m' = m \<and> dw_window_start_ms d = s' \<and> sn_candles sn = window_rows m s' (db_market db' m) \<and>
        sn_indexed sn = map_option ix_hash (find_index s' (db_market db' m))"
      if d: "d \<in> set (mr_dirty (db_market db' m'))" "dw_id d = sn_id sn" for m' d
    proof -
      from d(1) have "d \<in> set (mr_dirty (db_market db m'))" unfolding dirty by simp
      with old d(2) have "m' = m" "dw_window_start_ms d = s'" "sn_candles sn = window_rows m s' (db_market db m)"
        "sn_indexed sn = map_option ix_hash (find_index s' (db_market db m))"
        unfolding held_ok_def split_conv by blast+
      with index [of d] d(1) rows_same show ?thesis by simp
    qed
    moreover have "db_next_id db' = db_next_id db" by (simp add: db')
    ultimately show ?thesis using old unfolding h held_ok_def split_conv by simp
  qed
  ultimately show ?thesis by (simp add: store_inv_def)
qed (use inv in simp)

theorem reachable_store_inv:
  assumes "collision_free K" and "reachable_store D K db held"
  shows "store_inv D K db held"
  using assms(2)
proof induction
  case fresh
  show ?case
    by (auto simp: store_inv_def empty_db_def market_ok_def ids_ok_def segments_ok_def exactly_indexed_def
        find_row_def window_rows_def select_candles_def)
next
  case (written db held candles market r db')
  then show ?case using upsert_inv by blast
next
  case (snapshot_read db held market t s e snapshot)
  then show ?case using read_inv by blast
next
  case (written_back db held market s snapshot packed r db')
  then show ?case using write_inv [OF assms(1)] by blast
qed

section \<open>What a plan yields\<close>

definition in_range :: "timestamp_ms \<Rightarrow> timestamp_ms \<Rightarrow> text_candle list \<Rightarrow> text_candle list" where
  "in_range first_open last_open = filter (\<lambda>c. first_open \<le> tc_open_time_ms c \<and> tc_open_time_ms c \<le> last_open)"

definition tip_rows :: "segment_tip option \<Rightarrow> text_candle list \<Rightarrow> text_candle list" where
  "tip_rows tip rows = (case tip of None \<Rightarrow> [] | Some t \<Rightarrow> in_range (tp_first_open_ms t) (tp_last_open_ms t) rows)"

lemma keyed_ends: "keyed key xs \<Longrightarrow> x \<in> set xs \<Longrightarrow> key (hd xs) \<le> key x \<and> key x \<le> key (last xs)"
  by (induction xs) (auto simp: less_imp_le dest: bspec)

lemma starts_apart:
  assumes "is_start m s" "is_start m s'" "s < s'" shows "s + span_ms (mk_interval m) \<le> s'"
proof (rule ccontr)
  assume "\<not> s + span_ms (mk_interval m) \<le> s'"
  with assms have "s' = s" by (intro is_start_window [of m s s' s' "s' + span_ms (mk_interval m)"]) (auto simp: is_start_def)
  with assms(3) show False by simp
qed

lemma keyed_split:
  assumes "keyed key xs"
  shows "filter P xs = filter (\<lambda>x. P x \<and> key x < k) xs @ filter (\<lambda>x. P x \<and> k \<le> key x) xs"
  using assms
proof (induction xs)
  case (Cons x xs)
  show ?case
  proof (cases "key x < k")
    case False
    with Cons.prems have "filter (\<lambda>x. P x \<and> key x < k) xs = []" by (auto simp: filter_empty_conv)
    with Cons False show ?thesis by simp
  qed (use Cons in simp)
qed simp

lemma in_range_split:
  assumes "keyed tc_open_time_ms rows"
  shows "in_range first_open last_open rows =
    in_range first_open last_open (filter (\<lambda>c. tc_open_time_ms c < start) rows) @
    tip_rows (pl_tip (plan_of segments start first_open last_open)) rows"
proof -
  let ?in = "\<lambda>c. first_open \<le> tc_open_time_ms c \<and> tc_open_time_ms c \<le> last_open"
  have "tip_rows (pl_tip (plan_of segments start first_open last_open)) rows =
      filter (\<lambda>c. ?in c \<and> start \<le> tc_open_time_ms c) rows"
  proof (cases "start \<le> last_open")
    case True
    then show ?thesis by (auto simp: tip_rows_def plan_of_def in_range_def intro: filter_cong)
  next
    case False
    then show ?thesis by (auto simp: tip_rows_def plan_of_def filter_empty_conv)
  qed
  moreover have "filter (\<lambda>c. ?in c \<and> tc_open_time_ms c < start) rows =
      filter ?in (filter (\<lambda>c. tc_open_time_ms c < start) rows)"
    unfolding filter_filter by (rule filter_cong) auto
  ultimately show ?thesis
    unfolding in_range_def using keyed_split [OF assms, of ?in start] by simp
qed

lemma window_rows_in: "c \<in> set (window_rows m s rows) \<longleftrightarrow>
  c \<in> set (mr_candles rows) \<and> s \<le> tc_open_time_ms c \<and> tc_open_time_ms c < s + span_ms (mk_interval m)"
  by (auto simp: window_rows_def select_candles_def)

lemma keyed_windows:
  assumes "keyed tc_open_time_ms (mr_candles rows)"
  shows "keyed ix_window_start_ms is \<Longrightarrow> \<forall>i\<in>set is. is_start m (ix_window_start_ms i) \<Longrightarrow>
    keyed tc_open_time_ms (concat (map (\<lambda>i. window_rows m (ix_window_start_ms i) rows) is))"
proof (induction "is")
  case (Cons i "is")
  have "keyed tc_open_time_ms (window_rows m (ix_window_start_ms i) rows)"
    using assms by (simp add: window_rows_def select_candles_def keyed_filter)
  moreover have "tc_open_time_ms c < tc_open_time_ms c'"
    if "c \<in> set (window_rows m (ix_window_start_ms i) rows)" "j \<in> set is"
      "c' \<in> set (window_rows m (ix_window_start_ms j) rows)" for c c' j
    using that starts_apart [of m "ix_window_start_ms i" "ix_window_start_ms j"] Cons.prems
    by (auto simp: window_rows_in)
  ultimately show ?case using Cons by (auto simp: keyed_append)
qed simp

text \<open>Below \<open>tip_start\<close> no window is marked, so the index names exactly the windows that hold candles.\<close>

lemma indexed_below:
  assumes ok: "market_ok D K m rows" and start: "is_start m start"
    and below: "\<forall>d\<in>set (mr_dirty rows). start \<le> dw_window_start_ms d"
    and A: "A = filter (\<lambda>i. ix_window_start_ms i < start \<and> first_open \<le> ix_last_open_ms i \<and>
      ix_first_open_ms i \<le> last_open) (mr_index rows)"
  shows "\<forall>i\<in>set A. indexed_as D K (window_rows m (ix_window_start_ms i) rows) i"
    and "in_range first_open last_open (concat (map (\<lambda>i. window_rows m (ix_window_start_ms i) rows) A)) =
      in_range first_open last_open (filter (\<lambda>c. tc_open_time_ms c < start) (mr_candles rows))"
proof -
  note k = ok [unfolded market_ok_def]
  have clean: "exactly_indexed D K m s rows" if "is_start m s" "s < start" for s
  proof -
    have "find_dirty s rows = None" using below that(2) by (auto simp: find_row_None)
    with ok that(1) show ?thesis by (simp add: market_ok_def)
  qed
  have at: "indexed_as D K (window_rows m (ix_window_start_ms i) rows) i" if "i \<in> set A" for i
  proof -
    from that have i: "i \<in> set (mr_index rows)" "ix_window_start_ms i < start" by (auto simp: A)
    with k have "find_index (ix_window_start_ms i) rows = Some i" "is_start m (ix_window_start_ms i)"
      by (auto simp: find_row_Some)
    with clean [of "ix_window_start_ms i"] i(2) show ?thesis by (simp add: exactly_indexed_def)
  qed
  then show "\<forall>i\<in>set A. indexed_as D K (window_rows m (ix_window_start_ms i) rows) i" by blast
  let ?cs = "concat (map (\<lambda>i. window_rows m (ix_window_start_ms i) rows) A)"
  show "in_range first_open last_open ?cs =
      in_range first_open last_open (filter (\<lambda>c. tc_open_time_ms c < start) (mr_candles rows))"
  proof (rule keyed_unique)
    have "keyed tc_open_time_ms ?cs" using k by (intro keyed_windows) (auto simp: A keyed_filter)
    then show "keyed tc_open_time_ms (in_range first_open last_open ?cs)" by (simp add: in_range_def keyed_filter)
    show "keyed tc_open_time_ms (in_range first_open last_open (filter (\<lambda>c. tc_open_time_ms c < start) (mr_candles rows)))"
      using k by (simp add: in_range_def keyed_filter)
    have "\<exists>i\<in>set A. c \<in> set (window_rows m (ix_window_start_ms i) rows)"
      if c: "c \<in> set (mr_candles rows)" "tc_open_time_ms c < start" "first_open \<le> tc_open_time_ms c"
        "tc_open_time_ms c \<le> last_open" for c
    proof -
      from k c(1) obtain s e where w: "window (mk_interval m) (tc_open_time_ms c) = Some (s, e)" by fastforce
      then have s: "is_start m s" "s \<le> tc_open_time_ms c" "tc_open_time_ms c < s + span_ms (mk_interval m)"
        using window_start_is_start [OF w] window_holds [OF w, of "tc_open_time_ms c"] by auto
      then have cw: "c \<in> set (window_rows m s rows)" using c(1) by (simp add: window_rows_in)
      with clean [of s] s c(2) obtain i where i: "find_index s rows = Some i" "indexed_as D K (window_rows m s rows) i"
        by (auto simp: exactly_indexed_def split: option.splits)
      then have im: "i \<in> set (mr_index rows)" "ix_window_start_ms i = s" using k by (auto simp: find_row_Some)
      have "keyed tc_open_time_ms (window_rows m s rows)" using k by (simp add: window_rows_def select_candles_def keyed_filter)
      then have "tc_open_time_ms (hd (window_rows m s rows)) \<le> tc_open_time_ms c"
        "tc_open_time_ms c \<le> tc_open_time_ms (last (window_rows m s rows))"
        using keyed_ends [OF _ cw] by blast+
      with i(2) im s c show ?thesis using cw by (auto simp: A indexed_as_def intro!: bexI [of _ i])
    qed
    moreover have "tc_open_time_ms c < start" if "i \<in> set A" "c \<in> set (window_rows m (ix_window_start_ms i) rows)" for i c
      using that starts_apart [OF _ start, of "ix_window_start_ms i"] k by (auto simp: A window_rows_in)
    ultimately show "set (in_range first_open last_open ?cs) =
        set (in_range first_open last_open (filter (\<lambda>c. tc_open_time_ms c < start) (mr_candles rows)))"
      by (auto simp: in_range_def window_rows_in)
  qed
qed

lemma segment_opens:
  assumes K: "codec_laws K" "collision_free K" and ok: "segments_ok D K db"
    and i: "i \<in> set (mr_index (db_market db m))" "indexed_as D K cs i"
  shows "\<exists>row parts. find_segment (ix_hash i) db = Some row \<and>
    segment_open D K (sg_data row) (ix_hash i) = Inr parts \<and> text_rows D parts = cs"
proof -
  from i(2) obtain p where p: "encode_text D cs = Inr p" "ix_hash i = segment_hash_of K p" "\<forall>c\<in>set cs. five_decimals c"
    by (auto simp: indexed_as_def)
  from ok i(1) have "ix_hash i \<in> sg_hash ` set (db_segments db)" unfolding segments_ok_def by blast
  then have "find_segment (ix_hash i) db \<noteq> None" by (auto simp: find_segment_def find_None_iff)
  then obtain row where row: "find_segment (ix_hash i) db = Some row" by blast
  then have "row \<in> set (db_segments db)" "sg_hash row = ix_hash i"
    by (auto simp: find_segment_def find_Some_iff)
  with ok obtain q where "segment_hash_of K q = ix_hash i" "segment_compress K q = Inr (sg_data row)"
    by (auto simp: segments_ok_def segment_row_ok_def)
  with p(2) K(2) have "segment_compress K p = Inr (sg_data row)" by (simp add: segment_hash_inj)
  moreover obtain parts where "decode D p = Inr parts" "text_rows D parts = cs" "length p \<le> max_payload_bytes"
    using encode_text_decodes [OF p(3,1)] by blast
  ultimately show ?thesis using segment_open_payload [OF K(1), of p "sg_data row" D] row p(2) by auto
qed

lemma segment_refs_map:
  "(\<And>i. i \<in> set is \<Longrightarrow> \<exists>row. find_segment (ix_hash i) db = Some row) \<Longrightarrow>
   map sr_hash (segment_refs db is) = map ix_hash is"
  by (induction "is") (force simp: segment_refs_def List.map_filter_simps)+

lemma tip_window_start: "tip_window m db = Inr (Some tip) \<Longrightarrow> is_start m tip"
  by (auto simp: tip_window_def and_then_Inr window_start_def ok_or_def split: option.splits
      dest!: window_start_is_start)


section \<open>What a refresh does\<close>

text \<open>A backend that hands out its dirty windows in order, each after the last and below the tip: then a refresh
  comes to an end, whatever other writers mark meanwhile.\<close>

locale dirty_scan =
  fixes P :: "'w dirty_windows"
  assumes scan: "dp_next_dirty P market after tip w = (Inr (Some s), w') \<Longrightarrow> s < tip \<and> (\<forall>a. after = Some a \<longrightarrow> a < s)"
begin

lemma refresh_loop_after: "\<exists>y. refresh_loop D K P market tip (Some a) r w = Some y"
proof (induction "nat (tip - a)" arbitrary: a r w rule: less_induct)
  case less
  show ?case
  proof (cases "\<exists>s w1 b w2. dp_next_dirty P market (Some a) tip w = (Inr (Some s), w1) \<and>
      build_window D K P market s w1 = (Inr b, w2)")
    case True
    then obtain s w1 b w2 where s: "dp_next_dirty P market (Some a) tip w = (Inr (Some s), w1)"
        "build_window D K P market s w1 = (Inr b, w2)" by blast
    from scan [OF s(1)] have "nat (tip - s) < nat (tip - a)" by simp
    from less [OF this, of "count_built b r" w2] s show ?thesis by (subst refresh_loop.simps) simp
  next
    case False
    then show ?thesis by (subst refresh_loop.simps) (auto split: sum.splits prod.splits option.splits)
  qed
qed

lemma refresh_returns: "\<exists>y. refresh D K P market w = Some y"
proof -
  have "\<exists>y. refresh_loop D K P market tip None r w = Some y" for tip r w
  proof (cases "\<exists>s w1 b w2. dp_next_dirty P market None tip w = (Inr (Some s), w1) \<and>
      build_window D K P market s w1 = (Inr b, w2)")
    case True
    then show ?thesis using refresh_loop_after by (subst refresh_loop.simps) auto
  next
    case False
    then show ?thesis by (subst refresh_loop.simps) (auto split: sum.splits prod.splits option.splits)
  qed
  then show ?thesis by (auto simp: refresh_def split: sum.splits prod.splits option.splits)
qed

end

definition dirty_set :: "market_id \<Rightarrow> segment_db \<Rightarrow> timestamp_ms set" where
  "dirty_set market db = dw_window_start_ms ` set (mr_dirty (db_market db market))"

definition pending :: "market_id \<Rightarrow> timestamp_ms option \<Rightarrow> timestamp_ms \<Rightarrow> segment_db \<Rightarrow> timestamp_ms set" where
  "pending market after tip db =
     {s \<in> dirty_set market db. s < tip \<and> (case after of None \<Rightarrow> True | Some a \<Rightarrow> a < s)}"

text \<open>A dirty window whose candles cannot be packed.\<close>

definition unpackable :: "'d decimal_ops \<Rightarrow> segment_codec \<Rightarrow> market_id \<Rightarrow> timestamp_ms \<Rightarrow> segment_db \<Rightarrow> bool" where
  "unpackable D K market s db =
     (case read_window market (s, s + span_ms (mk_interval market)) db of
        None \<Rightarrow> False
      | Some snapshot \<Rightarrow> \<not> is_ok (pack D K snapshot))"

lemma finite_dirty [simp]: "finite (dirty_set m db)" "finite (pending m after tip db)"
  by (simp_all add: dirty_set_def pending_def)

lemma next_dirty_Min:
  "next_dirty m after tip db = (if pending m after tip db = {} then None else Some (Min (pending m after tip db)))"
proof -
  let ?l = "filter (\<lambda>s. s < tip \<and> (case after of None \<Rightarrow> True | Some a \<Rightarrow> a < s))
    (map dw_window_start_ms (mr_dirty (db_market db m)))"
  have "set ?l = pending m after tip db" by (auto simp: pending_def dirty_set_def)
  then show ?thesis unfolding next_dirty_def sql_min_def by (metis set_empty)
qed

interpretation sqlite: dirty_scan sqlite_windows
proof
  fix m after tip and db :: segment_db and s db'
  assume "dp_next_dirty sqlite_windows m after tip db = (Inr (Some s), db')"
  then have "pending m after tip db \<noteq> {}" "s = Min (pending m after tip db)"
    by (auto simp: sqlite_windows_def next_dirty_Min split: if_splits)
  then have "s \<in> pending m after tip db" by simp
  then show "s < tip \<and> (\<forall>a. after = Some a \<longrightarrow> a < s)" by (auto simp: pending_def)
qed

lemma write_window_Done:
  assumes ok: "market_ok D K market (db_market db market)" and ids: "ids_ok db"
    and d0: "find_dirty s (db_market db market) = Some d0"
  shows "\<exists>db'. write_window market s (dw_id d0) packed db = (Done, db') \<and>
    dirty_set market db' = dirty_set market db - {s} \<and>
    (\<forall>m. mr_candles (db_market db' m) = mr_candles (db_market db m)) \<and>
    (\<forall>s'. s' \<noteq> s \<longrightarrow> read_window market (s', s' + span_ms (mk_interval market)) db' =
       read_window market (s', s' + span_ms (mk_interval market)) db)"
proof -
  let ?rows = "db_market db market"
  obtain rows' segments' where applied: "apply_packed s packed ?rows (db_segments db) = (rows', segments')" by fastforce
  have same: "mr_candles rows' = mr_candles ?rows" "mr_dirty rows' = mr_dirty ?rows"
    "s' \<noteq> s \<Longrightarrow> find_index s' rows' = find_index s' ?rows" for s'
    using applied by (auto simp: apply_packed_def find_put_row find_delete_row split: packed.splits if_splits)
  define db' where "db' = db\<lparr>db_market := (\<lambda>m. (((db_market db)(market := rows')) m)
    \<lparr>mr_dirty := delete_row dw_id (dw_id d0) (mr_dirty (((db_market db)(market := rows')) m))\<rparr>), db_segments := segments'\<rparr>"
  have run: "write_window market s (dw_id d0) packed db = (Done, db')"
    using d0 applied by (simp add: write_window_def db'_def)
  have k: "keyed dw_window_start_ms (mr_dirty ?rows)" using ok by (simp add: market_ok_def)
  with d0 have d0': "d0 \<in> set (mr_dirty ?rows)" "dw_window_start_ms d0 = s" by (simp_all add: find_row_Some)
  have gone: "d \<in> set (mr_dirty ?rows) \<Longrightarrow> dw_id d = dw_id d0 \<longleftrightarrow> dw_window_start_ms d = s" for d
    using ids d0' keyed_inj [OF k] unfolding ids_ok_def inj_on_def by metis
  have dirty: "set (mr_dirty (db_market db' market)) = {d \<in> set (mr_dirty ?rows). dw_window_start_ms d \<noteq> s}"
    using gone same(2) by (auto simp: db'_def delete_row_def)
  then have "dirty_set market db' = dirty_set market db - {s}" by (auto simp: dirty_set_def)
  moreover have "mr_candles (db_market db' m) = mr_candles (db_market db m)" for m by (simp add: db'_def same)
  moreover have "find_dirty s' (db_market db' market) = find_dirty s' ?rows" if "s' \<noteq> s" for s'
  proof (cases "find_dirty s' ?rows")
    case None
    then have "find_dirty s' (db_market db' market) = None" using dirty by (auto simp: find_row_None)
    with None show ?thesis by simp
  next
    case (Some d)
    have "keyed dw_window_start_ms (mr_dirty (db_market db' market))"
      using k same(2) by (simp add: db'_def delete_row_def keyed_filter)
    then have "find_dirty s' (db_market db' market) = Some d"
      using Some that dirty k by (auto simp: find_row_Some)
    with Some show ?thesis by simp
  qed
  ultimately show ?thesis
    using run same by (auto simp: read_window_def Let_def db'_def)
qed

text \<open>One dirty window, with no other writer between its snapshot and its write-back.\<close>

lemma build_window_quiet:
  assumes free: "collision_free K" and reach: "reachable_store D K db held" and s: "s \<in> dirty_set market db"
  shows "\<exists>b db' held'. build_window D K sqlite_windows market s db = (Inr b, db') \<and> reachable_store D K db' held' \<and>
    (\<forall>m. mr_candles (db_market db' m) = mr_candles (db_market db m)) \<and>
    (\<forall>s'. s' \<noteq> s \<longrightarrow> unpackable D K market s' db' = unpackable D K market s' db) \<and>
    (if unpackable D K market s db then (\<exists>e. b = Blocked e) \<and> db' = db
     else b \<in> {New, Same} \<and> dirty_set market db' = dirty_set market db - {s})"
proof -
  from reachable_store_inv [OF free reach] have ok: "market_ok D K market (db_market db market)" "ids_ok db"
    by (simp_all add: store_inv_def)
  from s obtain d0 where d0: "d0 \<in> set (mr_dirty (db_market db market))" "dw_window_start_ms d0 = s"
    by (auto simp: dirty_set_def)
  with ok(1) have mark: "find_dirty s (db_market db market) = Some d0" and start: "is_start market s"
    by (auto simp: market_ok_def find_row_Some)
  let ?w = "(s, s + span_ms (mk_interval market))"
  from start have w: "window (mk_interval market) s = Some ?w" by (simp add: is_start_def)
  from mark obtain snapshot where read: "read_window market ?w db = Some snapshot" "sn_id snapshot = dw_id d0"
    by (auto simp: read_window_def Let_def)
  have build: "build_window D K sqlite_windows market s db =
      (case pack D K snapshot of Inl e \<Rightarrow> (Inr (Blocked e), db)
       | Inr packed \<Rightarrow> (case write_window market s (dw_id d0) packed db of
           (Done, db') \<Rightarrow> (Inr (if packed = Keep then Same else New), db')
         | (WrittenElsewhere, db') \<Rightarrow> (Inr Elsewhere, db')
         | (Marked, db') \<Rightarrow> build_attempts D K sqlite_windows market ?w 2 db'))"
    using read w unfolding build_window_def attempts_def numeral_3_eq_3
    by (simp add: sqlite_windows_def io_bind_def numeral_2_eq_2 split: sum.splits prod.splits written_back.splits)
  show ?thesis
  proof (cases "pack D K snapshot")
    case (Inl e)
    then have "unpackable D K market s db" using read by (simp add: unpackable_def is_ok_def)
    with build Inl reach show ?thesis by auto
  next
    case (Inr packed)
    then have pk: "\<not> unpackable D K market s db" using read by (simp add: unpackable_def is_ok_def)
    from write_window_Done [OF ok mark, of packed] obtain db' where db':
        "write_window market s (dw_id d0) packed db = (Done, db')" "dirty_set market db' = dirty_set market db - {s}"
        "\<forall>m. mr_candles (db_market db' m) = mr_candles (db_market db m)"
        "\<forall>s'. s' \<noteq> s \<longrightarrow> read_window market (s', s' + span_ms (mk_interval market)) db' =
           read_window market (s', s' + span_ms (mk_interval market)) db" by blast
    have "reachable_store D K db ((market, s, snapshot) # held)"
      using reachable_store.snapshot_read [OF reach w read(1)] .
    from reachable_store.written_back [OF this _ Inr, of market s] db'(1) read(2)
    have "reachable_store D K db' ((market, s, snapshot) # held)" by simp
    moreover have "unpackable D K market s' db' = unpackable D K market s' db" if "s' \<noteq> s" for s'
      using db'(4) that by (simp add: unpackable_def)
    ultimately show ?thesis using build Inr db' pk by auto
  qed
qed

lemma refresh_loop_quiet:
  assumes free: "collision_free K"
  shows "reachable_store D K db held \<Longrightarrow>
    \<exists>r' db' held'. refresh_loop D K sqlite_windows market tip after r db = Some (Inr r', db') \<and>
      reachable_store D K db' held' \<and> (\<forall>m. mr_candles (db_market db' m) = mr_candles (db_market db m)) \<and>
      dirty_set market db' = dirty_set market db - {s \<in> pending market after tip db. \<not> unpackable D K market s db} \<and>
      rf_blocked r' = rf_blocked r + card {s \<in> pending market after tip db. unpackable D K market s db} \<and>
      rf_built r' + rf_unchanged r' = rf_built r + rf_unchanged r +
        card {s \<in> pending market after tip db. \<not> unpackable D K market s db}"
proof (induction "card (pending market after tip db)" arbitrary: after r db held)
  case 0
  then have "pending market after tip db = {}" by simp
  then have "refresh_loop D K sqlite_windows market tip after r db = Some (Inr r, db)"
    by (subst refresh_loop.simps) (simp add: sqlite_windows_def next_dirty_Min)
  with 0 \<open>pending market after tip db = {}\<close> show ?case by auto
next
  case (Suc n)
  let ?P = "pending market after tip db"
  from Suc.hyps(2) have ne: "?P \<noteq> {}" by auto
  define s where "s = Min ?P"
  with ne have s: "s \<in> ?P" by simp
  then have sd: "s \<in> dirty_set market db" by (simp add: pending_def)
  from build_window_quiet [OF free Suc.prems sd] obtain b db1 held1 where
      b: "build_window D K sqlite_windows market s db = (Inr b, db1)" "reachable_store D K db1 held1"
      "\<forall>m. mr_candles (db_market db1 m) = mr_candles (db_market db m)"
      "\<forall>s'. s' \<noteq> s \<longrightarrow> unpackable D K market s' db1 = unpackable D K market s' db"
      "if unpackable D K market s db then (\<exists>e. b = Blocked e) \<and> db1 = db
       else b \<in> {New, Same} \<and> dirty_set market db1 = dirty_set market db - {s}" by blast
  have later: "s < s'" if "s' \<in> ?P" "s' \<noteq> s" for s'
    using that Min_le [of ?P s'] by (simp add: s_def del: Min_le)
  have "dirty_set market db1 - {s} = dirty_set market db - {s}" using b(5) by (simp split: if_splits)
  then have "s' \<in> dirty_set market db1 \<longleftrightarrow> s' \<in> dirty_set market db" if "s' \<noteq> s" for s' using that by blast
  then have P1: "pending market (Some s) tip db1 = ?P - {s}"
    using s later by (auto simp: pending_def split: option.splits)
  with Suc.hyps(2) s have "n = card (pending market (Some s) tip db1)" by simp
  from Suc.hyps(1) [OF this b(2), of "count_built b r"] obtain r' db' held' where
      loop: "refresh_loop D K sqlite_windows market tip (Some s) (count_built b r) db1 = Some (Inr r', db')"
      "reachable_store D K db' held'" "\<forall>m. mr_candles (db_market db' m) = mr_candles (db_market db1 m)"
      "dirty_set market db' = dirty_set market db1 - {x \<in> ?P - {s}. \<not> unpackable D K market x db1}"
      "rf_blocked r' = rf_blocked (count_built b r) + card {x \<in> ?P - {s}. unpackable D K market x db1}"
      "rf_built r' + rf_unchanged r' = rf_built (count_built b r) + rf_unchanged (count_built b r) +
        card {x \<in> ?P - {s}. \<not> unpackable D K market x db1}"
    unfolding P1 by blast
  have next_s: "dp_next_dirty sqlite_windows market after tip db = (Inr (Some s), db)"
    using ne by (simp add: sqlite_windows_def next_dirty_Min s_def)
  have run: "refresh_loop D K sqlite_windows market tip after r db = Some (Inr r', db')"
    using loop(1) b(1) next_s by (subst refresh_loop.simps) simp
  have rest: "{x \<in> ?P - {s}. unpackable D K market x db1} = {x \<in> ?P. unpackable D K market x db} - {s}"
    "{x \<in> ?P - {s}. \<not> unpackable D K market x db1} = {x \<in> ?P. \<not> unpackable D K market x db} - {s}"
    using b(4) by auto
  have fin: "finite {x \<in> ?P. unpackable D K market x db}" "finite {x \<in> ?P. \<not> unpackable D K market x db}" by simp_all
  show ?case
  proof (cases "unpackable D K market s db")
    case True
    then have "Suc (card ({x \<in> ?P. unpackable D K market x db} - {s})) = card {x \<in> ?P. unpackable D K market x db}"
      using s by (intro card_Suc_Diff1 fin) simp
    moreover have "{x \<in> ?P. \<not> unpackable D K market x db} - {s} = {x \<in> ?P. \<not> unpackable D K market x db}" using True by auto
    ultimately show ?thesis
      using run loop(2-6) b(3,5) True unfolding rest by (auto simp: count_built_def)
  next
    case False
    then have "Suc (card ({x \<in> ?P. \<not> unpackable D K market x db} - {s})) = card {x \<in> ?P. \<not> unpackable D K market x db}"
      using s by (intro card_Suc_Diff1 fin) simp
    moreover have "{x \<in> ?P. unpackable D K market x db} - {s} = {x \<in> ?P. unpackable D K market x db}" using False by auto
    moreover have "dirty_set market db' = dirty_set market db - {x \<in> ?P. \<not> unpackable D K market x db}"
      using loop(4) b(5) False s unfolding rest by auto
    ultimately show ?thesis
      using run loop(2,3,5,6) b(3,5) False unfolding rest by (auto simp: count_built_def)
  qed
qed


text \<open>A refresh returns on every store there can be, in any state of its marks.\<close>

theorem sqlite_refresh_returns: "\<exists>y. refresh D K sqlite_windows market db = Some y"
  by (rule sqlite.refresh_returns)

text \<open>What writing candles does, as the function from open times to rows: the last candle written for an open
  time is the one the store has.\<close>

definition candle_map :: "text_candle list \<Rightarrow> timestamp_ms \<Rightarrow> text_candle option" where
  "candle_map rows t = find_row tc_open_time_ms t rows"

lemma upsert_rows_map:
  "upsert_rows new rows changed = (rows', changed') \<Longrightarrow>
   candle_map rows' = fold (\<lambda>c f. f(tc_open_time_ms c \<mapsto> c)) (map fst new) (candle_map rows)"
proof (induction new rows changed rule: upsert_rows.induct)
  case (2 c start new rows changed)
  have "candle_map (put_row tc_open_time_ms c rows) = (candle_map rows)(tc_open_time_ms c \<mapsto> c)"
    by (auto simp: candle_map_def find_put_row)
  moreover have "(candle_map rows)(tc_open_time_ms c \<mapsto> c) = candle_map rows"
    if "find_row tc_open_time_ms (tc_open_time_ms c) rows = Some c"
    using that by (auto simp: candle_map_def fun_eq_iff)
  ultimately show ?case using 2 by (auto simp del: fun_upd_apply split: if_splits)
qed simp

text \<open>Writing candles updates the map from open times to candles, one after the other, and touches no other
  market; a candle whose window cannot be written refuses the whole batch before anything is stored.\<close>

theorem upserts_update_the_map:
  "case upsert_candles D market candles db of
     (Inl e, db') \<Rightarrow> db' = db \<and> (\<exists>c\<in>set candles. window (mk_interval market) (cd_open_time_ms c) = None)
   | (Inr n, db') \<Rightarrow> n = length candles \<and>
       candle_map (mr_candles (db_market db' market)) =
         fold (\<lambda>c f. f(tc_open_time_ms c \<mapsto> c)) (text_rows D candles) (candle_map (mr_candles (db_market db market))) \<and>
       db_market db' = (db_market db)(market := db_market db' market)"
proof (cases "window_starts (mk_interval market) (map cd_open_time_ms candles)")
  case (Inl e)
  have "window_starts iv ts = Inl e \<Longrightarrow> \<exists>t\<in>set ts. window iv t = None" for iv ts
    by (induction ts) (auto simp: and_then_Inl window_start_def ok_or_def split: option.splits)
  from this [OF Inl] Inl show ?thesis by (auto simp: upsert_candles_def)
next
  case (Inr starts)
  then have "map fst (zip (text_rows D candles) starts) = text_rows D candles"
    using window_starts_Inr [OF Inr] by simp
  then show ?thesis
    using Inr by (auto simp: upsert_candles_def Let_def dest: upsert_rows_map split: prod.splits)
qed

section \<open>A store\<close>

text \<open>A candle of one day and the first of the next: the first day is packed and the second is the tip.\<close>

definition sample_bars :: "sdec candle list" where
  "sample_bars = [sample_candle 0 100 101, sample_candle 1440 99 100]"

definition sample_db :: segment_db where
  "sample_db = snd (upsert_candles sample_dec sample_market sample_bars empty_db)"

definition sample_snapshot :: snapshot where
  "sample_snapshot = the (read_window sample_market (0, 86400000) sample_db)"

definition sample_packed :: packed where
  "sample_packed = (case pack sample_dec sample_codec sample_snapshot of Inl e \<Rightarrow> Clear | Inr packed \<Rightarrow> packed)"

definition sample_packed_db :: segment_db where
  "sample_packed_db = snd (write_window sample_market 0 (sn_id sample_snapshot) sample_packed sample_db)"

lemma sample_collision_free: "collision_free sample_codec"
  by (simp add: collision_free_def sample_codec_def)

lemma sample_reachable: "reachable_store sample_dec sample_codec sample_db []"
proof -
  have "list_all i64_times sample_bars"
    by (simp add: sample_bars_def sample_candle_def i64_times_def i64_defs)
  with reachable_store.written [OF reachable_store.fresh this, of _ _ "fst (upsert_candles sample_dec sample_market
      sample_bars empty_db)" sample_db] show ?thesis
    by (simp add: sample_db_def)
qed

lemma sample_facts:
  "read_window sample_market (0, 86400000) sample_db \<noteq> None"
  "window M1 0 = Some (0, 86400000)"
  by code_simp+

lemma sample_pack_ok: "is_ok (pack sample_dec sample_codec sample_snapshot)"
  by code_simp

lemma sample_plan:
  "(case resolve_segments sample_market 0 (10 ^ 9) sample_packed_db of
      Inl e \<Rightarrow> False | Inr plan \<Rightarrow> length (pl_segments plan) = 1 \<and> pl_tip plan \<noteq> None)"
  by code_simp

lemma sample_packed_reachable: "\<exists>held. reachable_store sample_dec sample_codec sample_packed_db held"
proof -
  have market: "mk_interval sample_market = M1" by (simp add: sample_market_def)
  obtain packed where packed: "pack sample_dec sample_codec sample_snapshot = Inr packed"
    using sample_pack_ok by (auto simp: is_ok_def split: sum.splits)
  then have p: "sample_packed = packed" by (simp add: sample_packed_def)
  have "read_window sample_market (0, 86400000) sample_db = Some sample_snapshot"
    using sample_facts(1) by (simp add: sample_snapshot_def)
  from reachable_store.snapshot_read [OF sample_reachable _ this, of 0] sample_facts(2)
  have "reachable_store sample_dec sample_codec sample_db [(sample_market, 0, sample_snapshot)]" by (simp add: market)
  from reachable_store.written_back [OF this _ packed, of sample_market 0 "fst (write_window sample_market 0
      (sn_id sample_snapshot) packed sample_db)" sample_packed_db]
  show ?thesis by (auto simp: sample_packed_db_def p)
qed



theorem reads_give_the_stored_candles_witness:
  "load_candles sample_dec sample_market \<lparr>cq_start_time_ms = Some 60000, cq_end_time_ms = None, cq_limit = Some 1\<rparr>
     sample_db = Inr [sample_candle 1440 99 100] \<and>
   load_recent_candles sample_dec sample_market 1 sample_db = Inr [sample_candle 1440 99 100]"
proof -
  have stored: "mr_candles (db_market sample_db sample_market) = text_rows sample_dec sample_bars" by code_simp
  have exact: "\<forall>c\<in>set sample_bars. \<forall>v\<in>set (candle_decimals c).
      dec_from_str_exact sample_dec (dec_to_string sample_dec v) = Some v" by code_simp
  note reads = reads_give_the_stored_candles [OF stored exact]
  show ?thesis
    unfolding reads [THEN conjunct1] reads [THEN conjunct2]
    by (simp add: limited_def query_holds_def sample_bars_def sample_candle_def)
qed

end
