(* ===== verification/Sql_Call.thy ===== *)
theory Sql_Call
  imports Store Storage
begin

text \<open>
  How one call on a backend ends. SQLite: \<open>src/storage/sqlite/errors.rs\<close> (its failures as the categories every
  backend shares) and the opening of a connection in \<open>src/storage/sqlite/mod.rs\<close>. PostgreSQL: the bridge's
  \<open>execute\<close> and what a lost answer means (\<open>src/storage/postgres/bridge.rs\<close>, \<open>runner.rs\<close>), and the settings
  a commit relies on (\<open>durability.rs\<close>, \<open>src/storage/settings/limits.rs\<close>).

  What the driver, the disk and the server did is an argument: a \<open>sqlite_call\<close> or a \<open>pg_call\<close>, with the
  point at which the call failed and whether a commit that failed is in the database all the same. Texts that
  quote a number of milliseconds are abridged.
\<close>

section \<open>What a commit relies on\<close>

datatype durability_mode = Enforced | Reported

definition to_lowercase :: "string \<Rightarrow> string" where
  "to_lowercase s = map (\<lambda>c. if is_ascii_uppercase c \<or> (192 \<le> code c \<and> code c \<le> 222 \<and> code c \<noteq> 215)
     then char_of (code c + 32) else c) s"

text \<open>What \<open>PRAGMA\<close> reads back from a connection.\<close>

record pragmas =
  pr_journal_mode :: string
  pr_synchronous :: int
  pr_fullfsync :: int

definition synchronous_name :: "int \<Rightarrow> string" where
  "synchronous_name n =
     (if n = 0 then ''off'' else if n = 1 then ''normal'' else if n = 2 then ''full''
      else if n = 3 then ''extra'' else int_string n)"

definition sqlite_remedy :: string where
  "sqlite_remedy = ''keep the database on a local disk, not a network share, and open it through no VFS without shared memory''"

definition sqlite_effective :: "pragmas \<Rightarrow> durability_report" where
  "sqlite_effective p =
     \<lparr>dr_settings =
        [\<lparr>ds_name = ''journal_mode'', ds_effective = to_lowercase (pr_journal_mode p), ds_required = ''wal'',
          ds_met = (to_ascii_uppercase (pr_journal_mode p) = ''WAL'')\<rparr>,
         \<lparr>ds_name = ''synchronous'', ds_effective = synchronous_name (pr_synchronous p), ds_required = ''full'',
          ds_met = (2 \<le> pr_synchronous p)\<rparr>,
         \<lparr>ds_name = ''fullfsync'', ds_effective = (if pr_fullfsync p = 0 then ''off'' else ''on''),
          ds_required = ''on'', ds_met = (pr_fullfsync p \<noteq> 0)\<rparr>],
      dr_remedy = sqlite_remedy\<rparr>"

definition postgres_remedy :: string where
  "postgres_remedy = ''set them in the server's configuration and reload it, or use a database that has them, reached without a pooler that drops session settings''"

definition judged :: "string \<Rightarrow> string \<Rightarrow> string \<Rightarrow> durability_report" where
  "judged fsync full_page_writes synchronous_commit =
     \<lparr>dr_settings =
        [\<lparr>ds_name = ''fsync'', ds_effective = fsync, ds_required = ''on'', ds_met = (fsync = ''on'')\<rparr>,
         \<lparr>ds_name = ''full_page_writes'', ds_effective = full_page_writes, ds_required = ''on'',
          ds_met = (full_page_writes = ''on'')\<rparr>,
         \<lparr>ds_name = ''synchronous_commit'', ds_effective = synchronous_commit, ds_required = ''local or stronger'',
          ds_met = (synchronous_commit \<noteq> ''off'')\<rparr>],
      dr_remedy = postgres_remedy\<rparr>"

section \<open>SQLite\<close>

datatype sqlite_code =
    DatabaseBusy | DatabaseLocked | FileLockingProtocolFailed | CannotOpen | PermissionDenied
  | SystemIoFailure | DiskFull | OutOfMemory | ConstraintViolation | OtherCode

text \<open>A driver's error: SQLite's own, with its extended code, a stored value that does not convert, and
  everything else.\<close>

datatype rusqlite_error =
    SqliteFailure sqlite_code int string
  | InexactValue string
  | ConversionFailure string
  | DriverError string

definition sqlite_busy_snapshot :: int where "sqlite_busy_snapshot = 517"

fun sqlite_failed :: "rusqlite_error \<Rightarrow> storage_error" where
  "sqlite_failed (SqliteFailure k extended text) =
     (if k = DatabaseBusy \<and> extended = sqlite_busy_snapshot
      then SeConflict ''another writer committed after this transaction's snapshot''
      else if k \<in> {DatabaseBusy, DatabaseLocked, FileLockingProtocolFailed}
      then SeContention ''another writer held the database past the wait''
      else if k \<in> {CannotOpen, PermissionDenied, SystemIoFailure, DiskFull, OutOfMemory}
      then SeUnavailable text
      else SeOther text)"
| "sqlite_failed (InexactValue text) = SeOther text"
| "sqlite_failed (ConversionFailure text) = SeOther text"
| "sqlite_failed (DriverError text) = SeOther text"

definition disk_trouble :: "rusqlite_error \<Rightarrow> bool" where
  "disk_trouble e = (case e of SqliteFailure k _ _ \<Rightarrow> k \<in> {SystemIoFailure, DiskFull} | _ \<Rightarrow> False)"

definition rusqlite_text :: "rusqlite_error \<Rightarrow> string" where
  "rusqlite_text e =
     (case e of SqliteFailure _ _ text \<Rightarrow> text | InexactValue text \<Rightarrow> text | ConversionFailure text \<Rightarrow> text
      | DriverError text \<Rightarrow> text)"

definition sqlite_commit_failed :: "rusqlite_error \<Rightarrow> storage_error" where
  "sqlite_commit_failed e =
     (if disk_trouble e then SeOutcomeUnknown (rusqlite_text e) else sqlite_failed e)"

fun row_error :: "rusqlite_error \<Rightarrow> storage_error" where
  "row_error (InexactValue text) = SeInvalidArgument text"
| "row_error e = sqlite_failed e"

record sqlite_store =
  sq_durability :: durability_mode
  sq_lock_wait :: duration
  sq_together :: bool

text \<open>How long a lock may be waited for within a call's remaining time, and the same store with each of its calls
  bounded by a budget.\<close>

definition lock_wait :: "duration \<Rightarrow> duration" where
  "lock_wait remaining = remaining div 4 * 3"

definition sqlite_within :: "sqlite_store \<Rightarrow> duration \<Rightarrow> sqlite_store" where
  "sqlite_within store budget =
     store\<lparr>sq_lock_wait := min (sq_lock_wait store) (lock_wait budget), sq_together := True\<rparr>"

text \<open>Opening: any of its steps may fail, and an enforcing store checks what the connection then has.\<close>

definition sqlite_open :: "sqlite_store \<Rightarrow> rusqlite_error + pragmas \<Rightarrow> storage_error + unit" where
  "sqlite_open store opening =
     and_then (map_err sqlite_failed opening) (\<lambda>settings.
       if sq_durability store = Enforced
       then (case durability_problem (sqlite_effective settings) of
               Some problem \<Rightarrow> Inl (SeDurabilityUnmet problem) | None \<Rightarrow> Inr ())
       else Inr ())"

definition sqlite_durability :: "sqlite_store \<Rightarrow> rusqlite_error + pragmas \<Rightarrow> storage_error + durability_report" where
  "sqlite_durability store opening =
     and_then (sqlite_open store opening) (\<lambda>_. and_then (map_err sqlite_failed opening) (\<lambda>settings.
       Inr (sqlite_effective settings)))"

datatype sqlite_fault = NoFault | StatementFault rusqlite_error | CommitFault rusqlite_error bool

record sqlite_call =
  sc_opening :: "rusqlite_error + pragmas"
  sc_fault :: sqlite_fault
  sc_now :: timestamp_ms

text \<open>Reads; a write that is its own transaction; and a transaction of several statements, which ends without a
  commit where it returns early.\<close>

definition sqlite_query :: "sqlite_call \<Rightarrow> ('db \<Rightarrow> storage_error + 'a) \<Rightarrow> ('db, storage_error, 'a) op" where
  "sqlite_query c f db =
     ((case sc_fault c of
         NoFault \<Rightarrow> f db
       | StatementFault e \<Rightarrow> Inl (sqlite_failed e)
       | CommitFault e _ \<Rightarrow> Inl (sqlite_failed e)), db)"

definition sqlite_execute ::
  "sqlite_call \<Rightarrow> ('db \<Rightarrow> rusqlite_error + ('a \<times> 'db)) \<Rightarrow> ('db, rusqlite_error, 'a) op" where
  "sqlite_execute c f db =
     (case sc_fault c of
        StatementFault e \<Rightarrow> (Inl e, db)
      | NoFault \<Rightarrow> (case f db of Inl e \<Rightarrow> (Inl e, db) | Inr (a, db') \<Rightarrow> (Inr a, db'))
      | CommitFault e kept \<Rightarrow>
          (case f db of Inl e' \<Rightarrow> (Inl e', db) | Inr (a, db') \<Rightarrow> (Inl e, if kept then db' else db)))"

definition sqlite_transaction ::
  "sqlite_call \<Rightarrow> ('db \<Rightarrow> storage_error + ('a \<times> 'db option)) \<Rightarrow> ('db, storage_error, 'a) op" where
  "sqlite_transaction c f db =
     (case sc_fault c of
        StatementFault e \<Rightarrow> (Inl (sqlite_failed e), db)
      | NoFault \<Rightarrow>
          (case f db of Inl e \<Rightarrow> (Inl e, db) | Inr (a, None) \<Rightarrow> (Inr a, db) | Inr (a, Some db') \<Rightarrow> (Inr a, db'))
      | CommitFault e kept \<Rightarrow>
          (case f db of Inl e' \<Rightarrow> (Inl e', db) | Inr (a, None) \<Rightarrow> (Inr a, db)
           | Inr (a, Some db') \<Rightarrow> (Inl (sqlite_commit_failed e), if kept then db' else db)))"

definition sqlite_on :: "sqlite_store \<Rightarrow> sqlite_call \<Rightarrow> ('db, storage_error, 'a) op \<Rightarrow> ('db, storage_error, 'a) op" where
  "sqlite_on store c m = io_bind (\<lambda>db. (sqlite_open store (sc_opening c), db)) (\<lambda>_. m)"

text \<open>What SQLite promises: a commit that failed is in the log all the same only where the disk failed it.\<close>

definition sqlite_call_ok :: "sqlite_call \<Rightarrow> bool" where
  "sqlite_call_ok c = (case sc_fault c of CommitFault e kept \<Rightarrow> kept \<longrightarrow> disk_trouble e | _ \<Rightarrow> True)"

section \<open>PostgreSQL\<close>

datatype call_effect = ReadCall | WriteCall

text \<open>A driver's error: one the server reported, with its SQLSTATE, or a failed connection, with what caused it.\<close>

datatype tokio_error = ServerError string string | ConnectionError string

definition sqlstate :: "tokio_error \<Rightarrow> string option" where
  "sqlstate e = (case e of ServerError state _ \<Rightarrow> Some state | ConnectionError _ \<Rightarrow> None)"

definition serialization_failure :: string where "serialization_failure = ''40001''"
definition deadlock_detected :: string where "deadlock_detected = ''40P01''"
definition lock_not_available :: string where "lock_not_available = ''55P03''"
definition query_canceled :: string where "query_canceled = ''57014''"
definition admin_shutdown :: string where "admin_shutdown = ''57P01''"
definition crash_shutdown :: string where "crash_shutdown = ''57P02''"
definition unique_violation :: string where "unique_violation = ''23505''"
definition invalid_catalog_name :: string where "invalid_catalog_name = ''3D000''"

lemmas sqlstate_defs = serialization_failure_def deadlock_detected_def lock_not_available_def query_canceled_def
  admin_shutdown_def crash_shutdown_def unique_violation_def invalid_catalog_name_def

definition starts_with :: "string \<Rightarrow> string \<Rightarrow> bool" where
  "starts_with p s \<longleftrightarrow> take (length p) s = p"

fun lost :: "call_effect \<Rightarrow> string \<Rightarrow> storage_error" where
  "lost ReadCall what = SeUnavailable what"
| "lost WriteCall what = SeOutcomeUnknown what"

fun from_driver :: "call_effect \<Rightarrow> tokio_error \<Rightarrow> storage_error" where
  "from_driver effect (ServerError state text) =
     (if state = serialization_failure \<or> state = deadlock_detected
      then SeConflict (''the server rolled the transaction back (SQLSTATE '' @ state @ '')'')
      else if state = lock_not_available
      then SeContention ''another writer held a lock past the wait''
      else if starts_with ''53'' state
      then SeUnavailable (''the server is out of resources (SQLSTATE '' @ state @ '')'')
      else if state = query_canceled
      then lost effect (''the statement timed out: '' @ text)
      else if starts_with ''08'' state \<or> state = admin_shutdown \<or> state = crash_shutdown
      then lost effect (''the server ended the call: '' @ text)
      else SeOther text)"
| "from_driver effect (ConnectionError text) = lost effect (''the connection failed: '' @ text)"

fun not_connected :: "tokio_error \<Rightarrow> storage_error" where
  "not_connected (ServerError state text) =
     SeUnavailable (''cannot get a connection: '' @
       (if starts_with ''28'' state
        then ''the server refused the URL's user or password (SQLSTATE '' @ state @ '')''
        else if state = invalid_catalog_name
        then ''the database the URL names does not exist (SQLSTATE '' @ state @ '')''
        else ''the server refused it (SQLSTATE '' @ state @ '')''))"
| "not_connected (ConnectionError text) = SeUnavailable (''cannot get a connection: '' @ text)"

datatype pool_error =
    PoolWaitTimeout | PoolOtherTimeout | PoolBackend tokio_error | PoolHookMessage string | PoolOther string

fun pool_refused :: "pool_error \<Rightarrow> storage_error" where
  "pool_refused PoolWaitTimeout = SeUnavailable ''no free connection in time''"
| "pool_refused (PoolBackend e) = not_connected e"
| "pool_refused PoolOtherTimeout = SeUnavailable ''cannot get a connection: the server did not answer in time''"
| "pool_refused (PoolHookMessage problem) = SeDurabilityUnmet problem"
| "pool_refused (PoolOther text) = SeUnavailable text"

datatype run_error = Reentrant | ForeignProcess | Watchdog | ShutDown

fun run_error_text :: "run_error \<Rightarrow> string" where
  "run_error_text Reentrant =
     ''a storage call was made from the storage bridge's own thread, which would wait on itself''"
| "run_error_text ForeignProcess =
     ''the storage bridge was built by one process and cannot serve another; open a store in each process''"
| "run_error_text Watchdog = ''the storage bridge did not answer in time''"
| "run_error_text ShutDown = ''the storage bridge shut down before answering''"

text \<open>What the outside made of a call: the pool's answer, whether a bounded session took its limits, how the work
  ended, and whether the runner heard of it. A \<open>True\<close> marks work whose commit stands although its answer was
  an error or never came.\<close>

datatype pool_end = PoolReady | PoolFailed pool_error | PoolLate

datatype work_end = WorkDone | WorkFailed tokio_error bool | WorkLate bool

record pg_call =
  pc_pool :: pool_end
  pc_limited :: bool
  pc_work :: work_end
  pc_run :: "run_error option"
  pc_now :: timestamp_ms

text \<open>The work, over the database; \<open>on_error\<close> is what it makes of an error of its statement.\<close>

record ('db, 'a) pg_work =
  pw_statements :: "'db \<Rightarrow> tokio_error + ('a \<times> 'db)"
  pw_on_error :: "tokio_error \<Rightarrow> tokio_error + 'a"

definition pg_answered ::
  "call_effect \<Rightarrow> ('db, 'a) pg_work \<Rightarrow> tokio_error \<Rightarrow> storage_error + 'a" where
  "pg_answered effect work e = map_err (from_driver effect) (pw_on_error work e)"

definition pg_kept :: "bool \<Rightarrow> ('db, 'a) pg_work \<Rightarrow> 'db \<Rightarrow> 'db" where
  "pg_kept kept work db =
     (if kept then (case pw_statements work db of Inl _ \<Rightarrow> db | Inr (_, db') \<Rightarrow> db') else db)"

definition pg_job :: "bool \<Rightarrow> call_effect \<Rightarrow> pg_call \<Rightarrow> ('db, 'a) pg_work \<Rightarrow> ('db, storage_error, 'a) op" where
  "pg_job bounded effect c work db =
     (case pc_pool c of
        PoolFailed e \<Rightarrow> (Inl (pool_refused e), db)
      | PoolLate \<Rightarrow> (Inl (SeUnavailable ''no connection in time''), db)
      | PoolReady \<Rightarrow>
          if bounded \<and> \<not> pc_limited c then (Inl (SeUnavailable ''cannot limit the session in time''), db)
          else
            (case pc_work c of
               WorkDone \<Rightarrow>
                 (case pw_statements work db of
                    Inl e \<Rightarrow> (pg_answered effect work e, db) | Inr (a, db') \<Rightarrow> (Inr a, db'))
             | WorkFailed e kept \<Rightarrow> (pg_answered effect work e, pg_kept kept work db)
             | WorkLate kept \<Rightarrow> (Inl (lost effect ''no answer in time''), pg_kept kept work db)))"

definition pg_execute :: "bool \<Rightarrow> call_effect \<Rightarrow> pg_call \<Rightarrow> ('db, 'a) pg_work \<Rightarrow> ('db, storage_error, 'a) op" where
  "pg_execute bounded effect c work db =
     (case pc_run c of
        None \<Rightarrow> pg_job bounded effect c work db
      | Some e \<Rightarrow>
          if e \<in> {Watchdog, ShutDown}
          then (Inl (lost effect (run_error_text e)), snd (pg_job bounded effect c work db))
          else (Inl (SeOther (run_error_text e)), db))"

text \<open>What PostgreSQL promises: an error it reports aborts the transaction, unless it ended the session or the
  statement ran out of time.\<close>

definition in_doubt :: "tokio_error \<Rightarrow> bool" where
  "in_doubt e =
     (case sqlstate e of None \<Rightarrow> True
      | Some state \<Rightarrow> state \<in> {query_canceled, admin_shutdown, crash_shutdown} \<or> starts_with ''08'' state)"

definition pg_call_ok :: "pg_call \<Rightarrow> bool" where
  "pg_call_ok c = (case pc_work c of WorkFailed e kept \<Rightarrow> kept \<longrightarrow> in_doubt e | _ \<Rightarrow> True)"

section \<open>Limits of a bounded call\<close>

definition statement_wait :: "duration \<Rightarrow> duration" where
  "statement_wait remaining = remaining * 7 div 8"

definition limit_millis :: "duration \<Rightarrow> nat" where
  "limit_millis limit = max (limit div 1000000) 1"

definition session_limits :: "duration \<Rightarrow> duration \<Rightarrow> string" where
  "session_limits lck statement =
     ''SET lock_timeout = '' @ nat_string (limit_millis lck) @ ''; SET statement_timeout = '' @
     nat_string (limit_millis statement) @ '';''"

definition limits_within :: "duration \<Rightarrow> duration \<Rightarrow> duration \<Rightarrow> string" where
  "limits_within remaining lck statement =
     session_limits (min (lock_wait remaining) lck) (min (statement_wait remaining) statement)"

section \<open>What a call promises\<close>

text \<open>A call of a store is honest where it answers with what it did: an error that is not an unknown outcome
  changed nothing.\<close>

definition honest :: "('db, storage_error, 'a) op \<Rightarrow> bool" where
  "honest m \<longleftrightarrow> (\<forall>db e db'. m db = (Inl e, db') \<longrightarrow> storage_error_kind e \<noteq> KindOutcomeUnknown \<longrightarrow> db' = db)"

lemma honestD: "honest m \<Longrightarrow> m db = (Inl e, db') \<Longrightarrow> storage_error_kind e \<noteq> KindOutcomeUnknown \<Longrightarrow> db' = db"
  by (auto simp: honest_def)

lemma disk_trouble_unknown: "disk_trouble e \<Longrightarrow> storage_error_kind (sqlite_commit_failed e) = KindOutcomeUnknown"
  by (simp add: sqlite_commit_failed_def)

lemma sqlite_failed_known: "storage_error_kind (sqlite_failed e) \<noteq> KindOutcomeUnknown"
  by (cases e) auto

lemma in_doubt_unknown: "in_doubt e \<Longrightarrow> storage_error_kind (from_driver WriteCall e) = KindOutcomeUnknown"
  by (cases e) (auto simp: in_doubt_def sqlstate_def sqlstate_defs starts_with_def split: if_splits)

section \<open>Durable connections\<close>

text \<open>A store that enforces the contract opens a connection only with a write-ahead log, a flush of every commit
  and one that reaches the disk; its report is then met, and a report names every setting that is not.\<close>

theorem enforced_connections_are_durable:
  "(sqlite_open store opened = Inr () \<longleftrightarrow>
     (\<exists>p. opened = Inr p \<and> (sq_durability store = Enforced \<longrightarrow>
        to_ascii_uppercase (pr_journal_mode p) = ''WAL'' \<and> 2 \<le> pr_synchronous p \<and> pr_fullfsync p \<noteq> 0))) \<and>
   (durability_is_met (judged fsync pages commit) \<longleftrightarrow> fsync = ''on'' \<and> pages = ''on'' \<and> commit \<noteq> ''off'')"
proof
  show "durability_is_met (judged fsync pages commit) \<longleftrightarrow> fsync = ''on'' \<and> pages = ''on'' \<and> commit \<noteq> ''off''"
    by (simp add: durability_is_met_def judged_def)
  have met: "durability_problem (sqlite_effective p) = None \<longleftrightarrow>
      to_ascii_uppercase (pr_journal_mode p) = ''WAL'' \<and> 2 \<le> pr_synchronous p \<and> pr_fullfsync p \<noteq> 0" for p
    by (simp add: durability_problem_None durability_is_met_def sqlite_effective_def)
  show "sqlite_open store opened = Inr () \<longleftrightarrow>
     (\<exists>p. opened = Inr p \<and> (sq_durability store = Enforced \<longrightarrow>
        to_ascii_uppercase (pr_journal_mode p) = ''WAL'' \<and> 2 \<le> pr_synchronous p \<and> pr_fullfsync p \<noteq> 0))"
  proof (cases opened)
    case (Inr p)
    with met [of p] show ?thesis by (cases "durability_problem (sqlite_effective p)") (auto simp: sqlite_open_def)
  qed (simp add: sqlite_open_def)
qed

section \<open>A bounded call\<close>

text \<open>Within what is left of a call, a lock gives up before a statement and a statement before the call, so the
  server says what ran out; a limit sent to the server is never zero, which would switch it off.\<close>

theorem locks_give_up_first:
  "(8 \<le> remaining \<longrightarrow> lock_wait remaining < statement_wait remaining \<and> statement_wait remaining < remaining) \<and>
   lock_wait remaining \<le> statement_wait remaining \<and> 0 < limit_millis limit \<and>
   limit_millis (min limit d) \<le> limit_millis limit"
proof -
  have "remaining div 4 * 3 \<le> remaining * 7 div 8" by linarith
  moreover have "8 \<le> remaining \<longrightarrow> remaining div 4 * 3 < remaining * 7 div 8 \<and> remaining * 7 div 8 < remaining"
    by linarith
  moreover have "min limit d div 1000000 \<le> limit div 1000000" by (rule div_le_mono) simp
  ultimately show ?thesis by (auto simp: lock_wait_def statement_wait_def limit_millis_def less_max_iff_disj le_max_iff_disj)
qed

end
