(* ===== verification/Run_Rules.thy ===== *)
theory Run_Rules
  imports Live_Engine Sql_Call
begin

text \<open>
  What every backend's run journal and store record share: \<open>src/storage/runs.rs\<close>, the legacy run and the
  migration record of \<open>src/model/store.rs\<close>, the rows of the journal's tables (\<open>src/storage/sqlite/journal.rs\<close>,
  \<open>control.rs\<close>) and the statements that order and limit them.

  \<open>serde_json\<close> is the record \<open>json_api\<close>, an argument: the text of a run's state and of an order, and a JSON
  value \<open>'v\<close> with its fields. What the code relies on is \<open>json_laws\<close>. The text of a model error inside a
  storage error is abridged.
\<close>

section \<open>JSON\<close>

text \<open>Errors are texts. \<open>js_put\<close> is \<open>value[key] = x\<close>, which panics (\<open>None\<close>) on a value that cannot have
  fields; \<open>js_index\<close> is \<open>value[key]\<close>, null where there is none.\<close>

record ('v, 'd, 'j) json_api =
  js_state_to_string :: "('d, 'j) bot_run_state \<Rightarrow> string + string"
  js_state_from_string :: "string \<Rightarrow> string + ('d, 'j) bot_run_state"
  js_state_from_value :: "'v \<Rightarrow> string + ('d, 'j) bot_run_state"
  js_value_from_string :: "string \<Rightarrow> string + 'v"
  js_value_to_string :: "'v \<Rightarrow> string + string"
  js_get :: "'v \<Rightarrow> string \<Rightarrow> 'v option"
  js_put :: "'v \<Rightarrow> string \<Rightarrow> 'v \<Rightarrow> 'v option"
  js_index :: "'v \<Rightarrow> string \<Rightarrow> 'v"
  js_mode_to_value :: "execution_mode \<Rightarrow> string + 'v"
  js_mode_from_value :: "'v \<Rightarrow> string + execution_mode"
  js_status_from_value :: "'v \<Rightarrow> string + run_status"
  js_order_to_string :: "'d exchange_order \<Rightarrow> string + string"
  js_order_from_string :: "string \<Rightarrow> string + 'd exchange_order"

text \<open>What is written reads back; a value that reads as a state does so from its text too; and a state read from a
  value has the mode its field names.\<close>

definition json_laws :: "('v, 'd, 'j) json_api \<Rightarrow> bool" where
  "json_laws J \<longleftrightarrow>
     (\<forall>s t. js_state_to_string J s = Inr t \<longrightarrow> js_state_from_string J t = Inr s) \<and>
     (\<forall>x t. js_order_to_string J x = Inr t \<longrightarrow> js_order_from_string J t = Inr x) \<and>
     (\<forall>v t s. js_value_to_string J v = Inr t \<longrightarrow> js_state_from_value J v = Inr s \<longrightarrow>
        js_state_from_string J t = Inr s) \<and>
     (\<forall>v m x v' s. js_mode_to_value J m = Inr x \<longrightarrow> js_put J v ''execution_mode'' x = Some v' \<longrightarrow>
        js_state_from_value J v' = Inr s \<longrightarrow> rn_execution_mode s = m)"

lemma json_lawsD:
  assumes "json_laws J"
  shows "js_state_to_string J s = Inr t \<Longrightarrow> js_state_from_string J t = Inr s"
    and "js_order_to_string J x = Inr t \<Longrightarrow> js_order_from_string J t = Inr x"
    and "js_value_to_string J v = Inr t \<Longrightarrow> js_state_from_value J v = Inr s \<Longrightarrow> js_state_from_string J t = Inr s"
    and "js_mode_to_value J m = Inr mv \<Longrightarrow> js_put J v ''execution_mode'' mv = Some v' \<Longrightarrow>
      js_state_from_value J v' = Inr s \<Longrightarrow> rn_execution_mode s = m"
  using assms unfolding json_laws_def by blast+

definition other :: "string + 'a \<Rightarrow> storage_error + 'a" where
  "other r = map_err SeOther r"

section \<open>Rows\<close>

record run_row =
  rr_run_id :: string
  rr_exchange :: string
  rr_symbol :: string
  rr_interval :: string
  rr_strategy_name :: string
  rr_status :: string
  rr_state_json :: string
  rr_started_at_ms :: timestamp_ms
  rr_updated_at_ms :: timestamp_ms
  rr_stopped_at_ms :: "timestamp_ms option"
  rr_last_error :: "string option"
  rr_environment :: "string option"
  rr_account_kind :: "string option"
  rr_account_id :: "string option"
  rr_identity_source :: string
  rr_identity_at_ms :: "timestamp_ms option"
  rr_legacy_state_json :: "string option"

record order_event_row =
  oe_seq :: int
  oe_run_id :: string
  oe_symbol :: string
  oe_side :: string
  oe_order_type :: string
  oe_status :: string
  oe_order_id :: "string option"
  oe_client_order_id :: "string option"
  oe_transact_time_ms :: "timestamp_ms option"
  oe_raw_json :: string
  oe_legacy_raw_json :: "string option"

record closed_trade_row =
  cr_seq :: int
  cr_run_id :: string
  cr_symbol :: string
  cr_entry_time_ms :: timestamp_ms
  cr_exit_time_ms :: timestamp_ms
  cr_entry_price :: string
  cr_exit_price :: string
  cr_qty :: string
  cr_gross_quote_pnl :: string
  cr_entry_order_id :: "string option"
  cr_exit_order_id :: "string option"

record control_row =
  co_store_id :: string
  co_environment :: "string option"
  co_activation :: string
  co_activation_epoch :: int
  co_changed_at_ms :: timestamp_ms

record migration_row =
  mg_version :: int
  mg_from_version :: int
  mg_applied_at_ms :: timestamp_ms
  mg_quantforge_version :: string

text \<open>The tables, each in the order its rows were written, with the last sequence number of each journal.\<close>

record run_db =
  rd_runs :: "run_row list"
  rd_events :: "order_event_row list"
  rd_event_seq :: int
  rd_trades :: "closed_trade_row list"
  rd_trade_seq :: int
  rd_control :: "control_row option"
  rd_version :: "string option"
  rd_migrations :: "migration_row list"

text \<open>\<open>ORDER BY\<close> with a strict order, \<open>LIMIT\<close>, and the order of texts by their bytes.\<close>

fun insert_by :: "('r \<Rightarrow> 'r \<Rightarrow> bool) \<Rightarrow> 'r \<Rightarrow> 'r list \<Rightarrow> 'r list" where
  "insert_by before r [] = [r]"
| "insert_by before r (x # xs) = (if before x r then x # insert_by before r xs else r # x # xs)"

definition order_by :: "('r \<Rightarrow> 'r \<Rightarrow> bool) \<Rightarrow> 'r list \<Rightarrow> 'r list" where
  "order_by before rows = foldr (insert_by before) rows []"

fun text_less :: "string \<Rightarrow> string \<Rightarrow> bool" where
  "text_less s [] = False"
| "text_less [] (c # t) = True"
| "text_less (a # s) (c # t) = (code a < code c \<or> code a = code c \<and> text_less s t)"

definition newer_run :: "run_row \<Rightarrow> run_row \<Rightarrow> bool" where
  "newer_run a b \<longleftrightarrow>
     rr_updated_at_ms b < rr_updated_at_ms a \<or>
     rr_updated_at_ms a = rr_updated_at_ms b \<and>
       (rr_started_at_ms b < rr_started_at_ms a \<or>
        rr_started_at_ms a = rr_started_at_ms b \<and> text_less (rr_run_id b) (rr_run_id a))"

definition earlier_run :: "run_row \<Rightarrow> run_row \<Rightarrow> bool" where
  "earlier_run a b \<longleftrightarrow>
     rr_started_at_ms a < rr_started_at_ms b \<or>
     rr_started_at_ms a = rr_started_at_ms b \<and> text_less (rr_run_id a) (rr_run_id b)"

definition find_run :: "string \<Rightarrow> run_db \<Rightarrow> run_row option" where
  "find_run run_id db = find (\<lambda>r. rr_run_id r = run_id) (rd_runs db)"

definition update_run :: "string \<Rightarrow> (run_row \<Rightarrow> run_row) \<Rightarrow> run_db \<Rightarrow> run_db" where
  "update_run run_id f db = db\<lparr>rd_runs := map (\<lambda>r. if rr_run_id r = run_id then f r else r) (rd_runs db)\<rparr>"

section \<open>The shared rules\<close>

text \<open>The text of a model error is abridged.\<close>

definition invalid_model :: "model_error + 'a \<Rightarrow> storage_error + 'a" where
  "invalid_model r = map_err (\<lambda>_. SeInvalidArgument ''a stored value is not valid'') r"

definition parse_environment :: "string \<Rightarrow> model_error + environment" where
  "parse_environment text =
     ok_or (InvalidIdentifier ''environment'' text ''mainnet, testnet or demo'')
       (find (\<lambda>e. environment_as_str e = text) environment_all)"

definition kind_venue :: string where "kind_venue = ''venue''"
definition kind_key_fingerprint :: string where "kind_key_fingerprint = ''key_fingerprint''"

definition identity_columns :: "run_identity \<Rightarrow> string option \<times> string option \<times> string option" where
  "identity_columns i =
     (map_option environment_as_str (ri_environment i),
      (case ri_account i of
         None \<Rightarrow> (None, None)
       | Some (VenueIssued a) \<Rightarrow> (Some kind_venue, Some (issued_account_id_str a))
       | Some (FingerprintId k) \<Rightarrow> (Some kind_key_fingerprint, Some (key_fingerprint_str k))))"

definition transposed :: "('a \<Rightarrow> 'e + 'b) \<Rightarrow> 'a option \<Rightarrow> 'e + 'b option" where
  "transposed f x = (case x of None \<Rightarrow> Inr None | Some a \<Rightarrow> and_then (f a) (\<lambda>b. Inr (Some b)))"

definition account_from_columns :: "string option \<Rightarrow> string option \<Rightarrow> storage_error + venue_account_id option" where
  "account_from_columns kind i =
     (case (kind, i) of
        (None, None) \<Rightarrow> Inr None
      | (Some k, Some text) \<Rightarrow>
          if k = kind_venue
          then and_then (invalid_model (venue_account_issued text)) (\<lambda>a. Inr (Some a))
          else if k = kind_key_fingerprint
          then and_then (invalid_model (key_fingerprint_new text)) (\<lambda>f. Inr (Some (FingerprintId f)))
          else Inl (SeInvalidArgument ''the account kind with the account is not an identity'')
      | _ \<Rightarrow> Inl (SeInvalidArgument ''the account kind with the account is not an identity''))"

definition identity_from_columns ::
  "string option \<Rightarrow> string option \<Rightarrow> string option \<Rightarrow> string \<Rightarrow> storage_error + run_identity" where
  "identity_from_columns environment kind i source =
     and_then (invalid_model (transposed parse_environment environment)) (\<lambda>environment.
     and_then (account_from_columns kind i) (\<lambda>account.
     and_then (invalid_model (identity_source_from_str source)) (\<lambda>source.
       Inr \<lparr>ri_environment = environment, ri_account = account, ri_source = source\<rparr>)))"

definition decode_state :: "('v, 'd, 'j) json_api \<Rightarrow> string \<Rightarrow> string \<Rightarrow> storage_error + ('d, 'j) bot_run_state" where
  "decode_state J run_id json =
     (case js_state_from_string J json of
        Inr state \<Rightarrow> Inr state
      | Inl err \<Rightarrow>
          and_then (other (js_value_from_string J json)) (\<lambda>value.
            if js_get J value ''execution_mode'' = None
            then Inl (SeInvalidArgument (''run '' @ run_id @ '' was recorded by QuantForge 0.2.0 without its execution mode''))
            else Inl (SeOther err)))"

definition refuse_legacy_creation :: "('d, 'j) bot_run_state \<Rightarrow> run_identity \<Rightarrow> storage_error + unit" where
  "refuse_legacy_creation state i =
     (if ri_source i = Legacy
      then Inl (SeInvalidArgument (''run '' @ rn_run_id state @
        '' cannot be created as a legacy run; only a migration marks runs legacy''))
      else Inr ())"

definition already_exists :: "string \<Rightarrow> storage_error" where
  "already_exists run_id =
     SeInvalidArgument (''run '' @ run_id @ '' already exists; resume it with --run-id, or start a new run'')"

definition never_created :: "string \<Rightarrow> storage_error" where
  "never_created run_id =
     SeInvalidArgument (''run '' @ run_id @ '' was never created; a run is created with its identity before it is saved'')"

definition already_bound :: "store_id \<Rightarrow> environment \<Rightarrow> storage_error" where
  "already_bound i bound =
     SeInvalidArgument (''store '' @ store_id_str i @ '' is bound to '' @ environment_as_str bound @
       ''; a store keeps its environment for life'')"

record legacy_run =
  lg_run_id :: string
  lg_market :: market_id
  lg_status :: run_status
  lg_execution_mode :: "execution_mode option"
  lg_started_at_ms :: timestamp_ms

definition legacy_run_of :: "('v, 'd, 'j) json_api \<Rightarrow> run_row \<Rightarrow> storage_error + legacy_run" where
  "legacy_run_of J r =
     and_then (ok_or (SeInvalidArgument (''run '' @ rr_run_id r @ '' is stored under an unknown exchange''))
       (exchange_from_storage_name (rr_exchange r))) (\<lambda>exchange.
     and_then (invalid_model (symbol_new (rr_symbol r))) (\<lambda>symbol.
     and_then (invalid_model (interval_from_str (rr_interval r))) (\<lambda>interval.
     and_then (other (js_value_from_string J (rr_state_json r))) (\<lambda>state.
     and_then (other (js_status_from_value J (js_index J state ''status''))) (\<lambda>status.
     and_then (other (transposed (js_mode_from_value J) (js_get J state ''execution_mode''))) (\<lambda>mode.
       Inr \<lparr>lg_run_id = rr_run_id r,
            lg_market = \<lparr>mk_exchange = exchange, mk_symbol = symbol, mk_interval = interval\<rparr>,
            lg_status = status, lg_execution_mode = mode, lg_started_at_ms = rr_started_at_ms r\<rparr>))))))"

definition refuse_unadopted :: "run_identity \<Rightarrow> storage_error + unit" where
  "refuse_unadopted i =
     (if ri_source i \<noteq> Adopted
      then Inl (SeInvalidArgument (''an adopted run's identity source is adopted, not '' @ identity_source_as_str (ri_source i)))
      else Inr ())"

text \<open>The state an adoption writes; \<open>None\<close> where the code panics.\<close>

definition adopted_state ::
  "('v, 'd, 'j) json_api \<Rightarrow> string \<Rightarrow> (string \<times> string) option \<Rightarrow> execution_mode option \<Rightarrow>
   (storage_error + string) option"
where
  "adopted_state J run_id found mode =
     (case found of
        None \<Rightarrow> Some (Inl (SeInvalidArgument (''no run found for run_id='' @ run_id)))
      | Some (source, state_json) \<Rightarrow>
          if source \<noteq> identity_source_as_str Legacy
          then Some (Inl (SeInvalidArgument (''run '' @ run_id @ '' already has an identity ('' @ source @
            ''); only a legacy run is adopted'')))
          else
            (case other (js_value_from_string J state_json) of
               Inl e \<Rightarrow> Some (Inl e)
             | Inr state \<Rightarrow>
                 let load = (\<lambda>state.
                   and_then (map_err (\<lambda>_. SeInvalidArgument (''run '' @ run_id @
                     '' cannot be adopted: its state does not load'')) (js_state_from_value J state))
                   (\<lambda>_. other (js_value_to_string J state)))
                 in (case (js_get J state ''execution_mode'', mode) of
                       (Some _, Some _) \<Rightarrow>
                         Some (Inl (SeInvalidArgument (''run '' @ run_id @ '' already records its execution mode'')))
                     | (None, None) \<Rightarrow>
                         Some (Inl (SeInvalidArgument (''run '' @ run_id @
                           '' recorded no execution mode; the operator states it'')))
                     | (None, Some m) \<Rightarrow>
                         (case other (js_mode_to_value J m) of
                            Inl e \<Rightarrow> Some (Inl e)
                          | Inr token \<Rightarrow> map_option load (js_put J state ''execution_mode'' token))
                     | (Some _, None) \<Rightarrow> Some (load state))))"

section \<open>What the rules promise\<close>

text \<open>The accounts the constructors of \<open>VenueAccountId\<close> make.\<close>

definition account_valid :: "venue_account_id \<Rightarrow> bool" where
  "account_valid a =
     (case a of VenueIssued i \<Rightarrow> plain_text (issued_account_id_str i) 64
      | FingerprintId k \<Rightarrow> hex16 (key_fingerprint_str k))"

definition identity_valid :: "run_identity \<Rightarrow> bool" where
  "identity_valid i = (case ri_account i of None \<Rightarrow> True | Some a \<Rightarrow> account_valid a)"

lemma invalid_model_Inr [simp]: "invalid_model (Inr a) = Inr a"
  by (simp add: invalid_model_def)

lemma parse_environment_iff: "parse_environment t = Inr e \<longleftrightarrow> environment_as_str e = t"
  by (auto simp: parse_environment_def environment_spelling.find_spelling)

lemma parse_environment_as_str [simp]: "parse_environment (environment_as_str e) = Inr e"
  by (simp add: parse_environment_iff)

lemma identity_source_iff: "identity_source_from_str t = Inr s \<longleftrightarrow> identity_source_as_str s = t"
  by (auto simp: identity_source_from_str_def identity_source_spelling.find_spelling)

lemma account_reads_back:
  assumes "account_valid a"
  shows "account_from_columns
    (case a of VenueIssued _ \<Rightarrow> Some kind_venue | FingerprintId _ \<Rightarrow> Some kind_key_fingerprint)
    (Some (venue_account_str a)) = Inr (Some a)"
proof (cases a)
  case (VenueIssued i)
  with assms have "issued_account_id_new (issued_account_id_str i) = Inr i"
    by (simp add: account_valid_def issued_account_id.new_Inr)
  with VenueIssued show ?thesis by (simp add: account_from_columns_def venue_account_issued_def)
next
  case (FingerprintId k)
  with assms have "key_fingerprint_new (key_fingerprint_str k) = Inr k"
    by (simp add: account_valid_def key_fingerprint.new_Inr)
  with FingerprintId show ?thesis
    by (simp add: account_from_columns_def kind_venue_def kind_key_fingerprint_def)
qed

lemma identity_reads_back:
  assumes "identity_valid i" and "identity_columns i = (e, k, a)"
  shows "identity_from_columns e k a (identity_source_as_str (ri_source i)) = Inr i"
proof -
  have env: "transposed parse_environment (map_option environment_as_str (ri_environment i)) = Inr (ri_environment i)"
    by (cases "ri_environment i") (simp_all add: transposed_def)
  have acc: "account_from_columns k a = Inr (ri_account i)"
  proof (cases "ri_account i")
    case None
    with assms show ?thesis by (auto simp: identity_columns_def account_from_columns_def)
  next
    case (Some account)
    with assms account_reads_back [of account] show ?thesis
      by (cases account) (auto simp: identity_columns_def identity_valid_def)
  qed
  have src: "identity_source_from_str (identity_source_as_str (ri_source i)) = Inr (ri_source i)"
    by (simp add: identity_source_iff)
  from assms(2) have "e = map_option environment_as_str (ri_environment i)" by (simp add: identity_columns_def)
  with env acc src show ?thesis by (simp add: identity_from_columns_def)
qed

lemma decode_written: "js_state_from_string J t = Inr s \<Longrightarrow> decode_state J i t = Inr s"
  by (simp add: decode_state_def)

text \<open>A record adopts only if it loads, with the mode the operator stated.\<close>

lemma adopted_state_loads:
  assumes J: "json_laws J" and a: "adopted_state J i found mode = Some (Inr t)"
  obtains json s where "found = Some (identity_source_as_str Legacy, json)" "js_state_from_string J t = Inr s"
    "mode = Some m \<longrightarrow> rn_execution_mode s = m"
proof -
  from a obtain json where found: "found = Some (identity_source_as_str Legacy, json)"
    by (auto simp: adopted_state_def split: option.splits if_splits)
  from a found obtain state where st: "js_value_from_string J json = Inr state"
    by (auto simp: adopted_state_def other_def split: sum.splits)
  have load: thesis if "js_state_from_value J v = Inr s" "js_value_to_string J v = Inr t"
    "mode = Some m \<longrightarrow> rn_execution_mode s = m" for v s
    using that found json_lawsD(3) [OF J] \<open>\<And>json s. \<lbrakk>found = Some (identity_source_as_str Legacy, json);
      js_state_from_string J t = Inr s; mode = Some m \<longrightarrow> rn_execution_mode s = m\<rbrakk> \<Longrightarrow> thesis\<close> by blast
  show thesis
  proof (cases "js_get J state ''execution_mode''")
    case (Some x)
    with a found st have mode: "mode = None" by (auto simp: adopted_state_def other_def split: option.splits)
    from a found st Some mode obtain s where "js_state_from_value J state = Inr s" "js_value_to_string J state = Inr t"
      by (auto simp: adopted_state_def other_def and_then_Inr)
    with mode show thesis by (intro load) auto
  next
    case None
    with a found st obtain n where mode: "mode = Some n"
      by (auto simp: adopted_state_def other_def split: option.splits)
    from a found st None mode obtain mv v' s where *: "js_mode_to_value J n = Inr mv"
      "js_put J state ''execution_mode'' mv = Some v'" "js_state_from_value J v' = Inr s" "js_value_to_string J v' = Inr t"
      by (auto simp: adopted_state_def other_def and_then_Inr split: sum.splits)
    from json_lawsD(4) [OF J *(1-3)] mode *(3,4) show thesis by (intro load) auto
  qed
qed

section \<open>Ordering\<close>

lemma set_insert_by [simp]: "set (insert_by before r xs) = insert r (set xs)"
  by (induction xs) auto

lemma set_order_by [simp]: "set (order_by before rows) = set rows"
  unfolding order_by_def by (induction rows) auto

lemma order_by_Nil [simp]: "order_by before rows = [] \<longleftrightarrow> rows = []"
  using set_order_by [of before rows] by (metis set_empty)

lemma text_less_irrefl [simp]: "\<not> text_less s s"
  by (induction s) auto

lemma text_less_trans: "text_less r s \<Longrightarrow> text_less s t \<Longrightarrow> text_less r t"
proof (induction s t arbitrary: r rule: text_less.induct)
  case (3 a s c t)
  then show ?case by (cases r) auto
qed auto

lemma text_less_total: "s \<noteq> t \<Longrightarrow> text_less s t \<or> text_less t s"
proof (induction s arbitrary: t)
  case Nil
  then show ?case by (cases t) auto
next
  case (Cons a s)
  then show ?case by (cases t) (auto simp del: code_inject simp: code_inject [symmetric])
qed

text \<open>Rows sorted by a transitive order: no later row goes before an earlier one.\<close>

definition in_order :: "('r \<Rightarrow> 'r \<Rightarrow> bool) \<Rightarrow> 'r list \<Rightarrow> bool" where
  "in_order before rows = sorted_wrt (\<lambda>a b. \<not> before b a) rows"

lemma insert_by_in_order:
  assumes "\<And>a b c. before a b \<Longrightarrow> before b c \<Longrightarrow> before a c"
    and "\<And>a b. before a b \<Longrightarrow> \<not> before b a" and "\<And>a b c. before a c \<Longrightarrow> before a b \<or> before b c"
  shows "in_order before xs \<Longrightarrow> in_order before (insert_by before r xs)"
proof (induction xs)
  case (Cons x xs)
  have tail: "in_order before xs" and x: "\<forall>y\<in>set xs. \<not> before y x"
    using Cons.prems by (simp_all add: in_order_def)
  show ?case
  proof (cases "before x r")
    case True
    with assms(2) x have "\<forall>y\<in>set (insert_by before r xs). \<not> before y x" by simp
    with True Cons.IH [OF tail] show ?thesis by (simp add: in_order_def)
  next
    case False
    with x assms(3) have "\<forall>y\<in>set (x # xs). \<not> before y r" by (metis set_ConsD)
    with False Cons.prems show ?thesis by (simp add: in_order_def)
  qed
qed (simp add: in_order_def)

lemma order_by_in_order:
  assumes "\<And>a b c. before a b \<Longrightarrow> before b c \<Longrightarrow> before a c"
    and "\<And>a b. before a b \<Longrightarrow> \<not> before b a" and "\<And>a b c. before a c \<Longrightarrow> before a b \<or> before b c"
  shows "in_order before (order_by before rows)"
  unfolding order_by_def
proof (induction rows)
  case (Cons r rows)
  have "in_order before (insert_by before r (foldr (insert_by before) rows []))"
    by (rule insert_by_in_order) (use assms Cons in blast)+
  then show ?case by simp
qed (simp add: in_order_def)

end
