(* ===== verification/Numerals.thy ===== *)
theory Numerals
  imports Prelude
begin

text \<open>
  Decimal numerals in text: what \<open>Display\<close> prints for an unsigned integer reads back with
  \<open>str::parse::<u32>\<close>, and a digit string without leading zeros is what \<open>Display\<close> prints for its
  value. Versions, version requirements and path segments rest on these facts.
\<close>

definition numeral_value :: "string \<Rightarrow> nat" where
  "numeral_value digits = foldl (\<lambda>n c. 10 * n + (code c - 48)) 0 digits"

text \<open>\<open>str::parse::<u32>\<close>: digits with an optional \<open>+\<close>, an error when the value does not fit.\<close>

definition parse_u32 :: "string \<Rightarrow> u32 option" where
  "parse_u32 text =
     (let digits = (case text of c # rest \<Rightarrow> if c = CHR ''+'' then rest else text | [] \<Rightarrow> []);
          n = numeral_value digits
      in if digits = [] \<or> \<not> list_all is_ascii_digit digits \<or> 2 ^ 32 \<le> n then None else Some (of_nat n))"

text \<open>\<open>0\<close>, or digits that do not start with \<open>0\<close>.\<close>

definition plain_numeral :: "string \<Rightarrow> bool" where
  "plain_numeral s \<longleftrightarrow> s \<noteq> [] \<and> list_all is_ascii_digit s \<and> (hd s = CHR ''0'' \<longrightarrow> s = ''0'')"

definition u32_string :: "u32 \<Rightarrow> string" where
  "u32_string w = nat_string (unat w)"

lemma numeral_value_snoc [simp]: "numeral_value (s @ [c]) = 10 * numeral_value s + (code c - 48)"
  by (simp add: numeral_value_def)

lemma digit_char_simps [simp]:
  "d < 10 \<Longrightarrow> code (digit_char d) = 48 + d"
  "d < 10 \<Longrightarrow> is_ascii_digit (digit_char d)"
  by (simp_all add: digit_char_def is_ascii_digit_def)

lemma code_zero [simp]: "code (CHR ''0'') = 48"
  by (simp add: code_def)

lemma digit_char_eq_zero [simp]: "d < 10 \<Longrightarrow> digit_char d = CHR ''0'' \<longleftrightarrow> d = 0"
  using code_inject [of "digit_char d" "CHR ''0''"] by simp

lemma nat_string_nonempty [simp]: "nat_string n \<noteq> []"
  by (subst nat_string.simps) simp

lemma nat_string_digits: "list_all is_ascii_digit (nat_string n)"
  by (induction n rule: nat_string.induct) (subst nat_string.simps, simp)

lemma numeral_value_nat_string [simp]: "numeral_value (nat_string n) = n"
proof (induction n rule: nat_string.induct)
  case (1 n)
  then show ?case
    by (subst nat_string.simps) (auto simp: numeral_value_def)
qed

lemma nat_string_hd: "0 < n \<Longrightarrow> hd (nat_string n) \<noteq> CHR ''0''"
proof (induction n rule: nat_string.induct)
  case (1 n)
  show ?case
  proof (cases "n < 10")
    case True
    with 1(2) show ?thesis by (subst nat_string.simps) simp
  next
    case False
    with 1 show ?thesis by (subst nat_string.simps) simp
  qed
qed

lemma nat_string_0: "nat_string 0 = ''0''"
  by (subst nat_string.simps) simp

lemma nat_string_plain: "plain_numeral (nat_string n)"
  using nat_string_hd [of n] by (cases "n = 0") (auto simp: plain_numeral_def nat_string_digits nat_string_0 is_ascii_digit_def)

lemma digit_char_code: "is_ascii_digit c \<Longrightarrow> digit_char (code c - 48) = c"
  by (simp add: digit_char_def is_ascii_digit_def code_def)

lemma numeral_value_pos:
  "list_all is_ascii_digit s \<Longrightarrow> s \<noteq> [] \<Longrightarrow> hd s \<noteq> CHR ''0'' \<Longrightarrow> 0 < numeral_value s"
proof (induction s rule: rev_induct)
  case (snoc c s)
  show ?case
  proof (cases "s = []")
    case True
    with snoc.prems have "code c \<noteq> code (CHR ''0'')" by (simp del: code_zero)
    with True snoc.prems show ?thesis by (simp add: numeral_value_def is_ascii_digit_def)
  qed (use snoc in simp)
qed simp

lemma nat_string_value: "plain_numeral s \<Longrightarrow> nat_string (numeral_value s) = s"
proof (induction s rule: rev_induct)
  case (snoc c s)
  then have c: "is_ascii_digit c" by (simp add: plain_numeral_def)
  then have d: "code c - 48 < 10" by (auto simp: is_ascii_digit_def)
  show ?case
  proof (cases "s = []")
    case True
    with c d show ?thesis by (subst nat_string.simps) (simp add: numeral_value_def digit_char_code)
  next
    case False
    with snoc.prems have s: "plain_numeral s" "hd s \<noteq> CHR ''0''" by (auto simp: plain_numeral_def)
    then have "0 < numeral_value s" by (intro numeral_value_pos) (auto simp: plain_numeral_def)
    with c d snoc.IH [OF s(1)] show ?thesis by (subst nat_string.simps) (simp add: digit_char_code)
  qed
qed (simp add: plain_numeral_def)

lemma parse_u32_plain:
  "plain_numeral s \<Longrightarrow> parse_u32 s = (if 2 ^ 32 \<le> numeral_value s then None else Some (of_nat (numeral_value s)))"
  by (cases s) (auto simp: parse_u32_def plain_numeral_def is_ascii_digit_def code_def)

lemma parse_u32_string [simp]: "parse_u32 (u32_string w) = Some w"
  using word_nat_bound [of w] by (simp add: u32_string_def parse_u32_plain nat_string_plain)

lemma plain_parse_prints: "plain_numeral s \<Longrightarrow> parse_u32 s = Some w \<Longrightarrow> u32_string w = s"
  by (auto simp: parse_u32_plain u32_string_def unat_of_nat_small nat_string_value split: if_splits)

end
