(* ===== verification/Run_Store.thy ===== *)
theory Run_Store
  imports Run_Rules Numerals
begin

text \<open>
  The run journal and the store's own record on both backends: \<open>src/storage/sqlite/journal.rs\<close>, its \<open>events.rs\<close>
  and \<open>control.rs\<close>, their PostgreSQL counterparts, and \<open>AnyStore\<close> (\<open>src/storage/any.rs\<close>), which hands each
  call to its backend. A statement acts on the tables of \<open>Run_Rules\<close>; what else happens to a call is its
  \<open>sqlite_call\<close> or \<open>pg_call\<close>.

  The locale \<open>run_journal\<close> is the contract of \<open>RunJournalStore\<close> and \<open>StoreControl\<close>: what each call does to a
  run's entry, on every outcome. \<open>AnyStore\<close> interprets it. \<open>journal_step\<close> lets any calls follow each other
  in any order, so what it shows holds for any number of processes.
\<close>

section \<open>Statements\<close>

definition op_result :: "'e + 'a \<Rightarrow> ('w, 'e, 'a) op" where
  "op_result r w = (r, w)"

fun try_map :: "('a \<Rightarrow> 'e + 'b) \<Rightarrow> 'a list \<Rightarrow> 'e + 'b list" where
  "try_map f [] = Inr []"
| "try_map f (x # xs) = and_then (f x) (\<lambda>y. and_then (try_map f xs) (\<lambda>ys. Inr (y # ys)))"

text \<open>A stored row that does not convert, as both backends report it; the text is abridged.\<close>

definition unreadable :: "'e + 'a \<Rightarrow> storage_error + 'a" where
  "unreadable r = map_err (\<lambda>_. SeOther ''a stored row does not convert'') r"

definition new_run_row :: "('d, 'j) bot_run_state \<Rightarrow> run_identity \<Rightarrow> string \<Rightarrow> timestamp_ms \<Rightarrow> run_row" where
  "new_run_row state i json now =
     (case identity_columns i of (environment, kind, account) \<Rightarrow>
       \<lparr>rr_run_id = rn_run_id state,
        rr_exchange = exchange_as_str (mk_exchange (rn_market state)),
        rr_symbol = symbol_str (mk_symbol (rn_market state)),
        rr_interval = interval_as_str (mk_interval (rn_market state)),
        rr_strategy_name = rn_strategy_name state, rr_status = run_status_as_str (rn_status state),
        rr_state_json = json, rr_started_at_ms = rn_started_at_ms state, rr_updated_at_ms = rn_updated_at_ms state,
        rr_stopped_at_ms = rn_stopped_at_ms state, rr_last_error = rn_last_error state,
        rr_environment = environment, rr_account_kind = kind, rr_account_id = account,
        rr_identity_source = identity_source_as_str (ri_source i), rr_identity_at_ms = Some now,
        rr_legacy_state_json = None\<rparr>)"

definition insert_run :: "run_row \<Rightarrow> run_db \<Rightarrow> run_db option" where
  "insert_run row db =
     (if find_run (rr_run_id row) db \<noteq> None then None else Some (db\<lparr>rd_runs := rd_runs db @ [row]\<rparr>))"

definition saved_row :: "('d, 'j) bot_run_state \<Rightarrow> string \<Rightarrow> run_row \<Rightarrow> run_row" where
  "saved_row state json row =
     row\<lparr>rr_status := run_status_as_str (rn_status state), rr_state_json := json,
         rr_updated_at_ms := rn_updated_at_ms state, rr_stopped_at_ms := rn_stopped_at_ms state,
         rr_last_error := rn_last_error state\<rparr>"

text \<open>An \<open>UPDATE\<close> answers with the rows it changed.\<close>

definition save_run :: "('d, 'j) bot_run_state \<Rightarrow> string \<Rightarrow> run_db \<Rightarrow> nat \<times> run_db" where
  "save_run state json db =
     (length (filter (\<lambda>r. rr_run_id r = rn_run_id state) (rd_runs db)),
      update_run (rn_run_id state) (saved_row state json) db)"

definition adopted_row :: "run_identity \<Rightarrow> string \<Rightarrow> timestamp_ms \<Rightarrow> run_row \<Rightarrow> run_row" where
  "adopted_row i json now row =
     (case identity_columns i of (environment, kind, account) \<Rightarrow>
       row\<lparr>rr_state_json := json, rr_environment := environment, rr_account_kind := kind,
           rr_account_id := account, rr_identity_source := identity_source_as_str (ri_source i),
           rr_identity_at_ms := Some now\<rparr>)"

definition latest_row :: "market_id \<Rightarrow> string \<Rightarrow> run_db \<Rightarrow> run_row option" where
  "latest_row market strategy db =
     (case order_by newer_run (filter (\<lambda>r.
        rr_exchange r = exchange_as_str (mk_exchange market) \<and> rr_symbol r = symbol_str (mk_symbol market) \<and>
        rr_interval r = interval_as_str (mk_interval market) \<and> rr_strategy_name r = strategy) (rd_runs db))
      of [] \<Rightarrow> None | r # _ \<Rightarrow> Some r)"

definition legacy_rows :: "run_db \<Rightarrow> run_row list" where
  "legacy_rows db =
     order_by earlier_run (filter (\<lambda>r. rr_identity_source r = identity_source_as_str Legacy) (rd_runs db))"

definition insert_event :: "string \<Rightarrow> 'd exchange_order \<Rightarrow> string \<Rightarrow> run_db \<Rightarrow> run_db" where
  "insert_event run_id ord json db =
     (let seq = rd_event_seq db + 1 in
      db\<lparr>rd_event_seq := seq,
         rd_events := rd_events db @
           [\<lparr>oe_seq = seq, oe_run_id = run_id, oe_symbol = symbol_str (xo_symbol ord),
             oe_side = side_as_str (xo_side ord), oe_order_type = xo_order_type ord,
             oe_status = order_status_as_str (xo_status ord),
             oe_order_id = map_option venue_order_id_str (xo_order_id ord),
             oe_client_order_id = xo_client_order_id ord, oe_transact_time_ms = xo_transact_time_ms ord,
             oe_raw_json = json, oe_legacy_raw_json = None\<rparr>]\<rparr>)"

definition insert_trade :: "'d decimal_ops \<Rightarrow> string \<Rightarrow> 'd closed_trade \<Rightarrow> run_db \<Rightarrow> run_db" where
  "insert_trade D run_id trade db =
     (let seq = rd_trade_seq db + 1 in
      db\<lparr>rd_trade_seq := seq,
         rd_trades := rd_trades db @
           [\<lparr>cr_seq = seq, cr_run_id = run_id, cr_symbol = symbol_str (ct_symbol trade),
             cr_entry_time_ms = ct_entry_time_ms trade, cr_exit_time_ms = ct_exit_time_ms trade,
             cr_entry_price = dec_to_string D (ct_entry_price trade),
             cr_exit_price = dec_to_string D (ct_exit_price trade), cr_qty = dec_to_string D (ct_qty trade),
             cr_gross_quote_pnl = dec_to_string D (ct_gross_quote_pnl trade),
             cr_entry_order_id = map_option venue_order_id_str (ct_entry_order_id trade),
             cr_exit_order_id = map_option venue_order_id_str (ct_exit_order_id trade)\<rparr>]\<rparr>)"

text \<open>A limit: SQLite takes it \<open>as i64\<close> and reads a negative one as none, PostgreSQL as the largest.\<close>

definition usize_as_i64 :: "nat \<Rightarrow> int" where
  "usize_as_i64 n = (int n + 2 ^ 63) mod 2 ^ 64 - 2 ^ 63"

definition sqlite_limit :: "int \<Rightarrow> 'r list \<Rightarrow> 'r list" where
  "sqlite_limit n rows = (if n < 0 then rows else take (nat n) rows)"

definition pg_limit :: "nat \<Rightarrow> int" where
  "pg_limit n = (if int n \<le> i64_max then int n else i64_max)"

definition newest_events :: "string \<Rightarrow> run_db \<Rightarrow> order_event_row list" where
  "newest_events run_id db =
     order_by (\<lambda>a b. oe_seq b < oe_seq a) (filter (\<lambda>r. oe_run_id r = run_id) (rd_events db))"

definition newest_trades :: "string \<Rightarrow> run_db \<Rightarrow> closed_trade_row list" where
  "newest_trades run_id db =
     order_by (\<lambda>a b. cr_seq b < cr_seq a) (filter (\<lambda>r. cr_run_id r = run_id) (rd_trades db))"

definition read_decimal :: "'d decimal_ops \<Rightarrow> string \<Rightarrow> rusqlite_error + 'd" where
  "read_decimal D text =
     ok_or (InexactValue (''stored decimal '' @ text @ '' cannot be read exactly'')) (dec_from_str_exact D text)"

definition conversion :: "model_error + 'a \<Rightarrow> rusqlite_error + 'a" where
  "conversion r = map_err (\<lambda>_. ConversionFailure ''a stored row does not convert'') r"

definition trade_of_row :: "'d decimal_ops \<Rightarrow> closed_trade_row \<Rightarrow> rusqlite_error + 'd closed_trade" where
  "trade_of_row D row =
     and_then (conversion (symbol_new (cr_symbol row))) (\<lambda>symbol.
     and_then (read_decimal D (cr_entry_price row)) (\<lambda>entry_price.
     and_then (read_decimal D (cr_exit_price row)) (\<lambda>exit_price.
     and_then (read_decimal D (cr_qty row)) (\<lambda>qty.
     and_then (read_decimal D (cr_gross_quote_pnl row)) (\<lambda>pnl.
     and_then (conversion (transposed venue_order_id_new (cr_entry_order_id row))) (\<lambda>entry_id.
     and_then (conversion (transposed venue_order_id_new (cr_exit_order_id row))) (\<lambda>exit_id.
        Inr \<lparr>ct_symbol = symbol, ct_entry_time_ms = cr_entry_time_ms row, ct_exit_time_ms = cr_exit_time_ms row,
             ct_entry_price = entry_price, ct_exit_price = exit_price, ct_qty = qty,
             ct_gross_quote_pnl = pnl, ct_entry_order_id = entry_id, ct_exit_order_id = exit_id\<rparr>)))))))"

definition identity_of_row :: "run_row \<Rightarrow> storage_error + run_identity" where
  "identity_of_row row =
     identity_from_columns (rr_environment row) (rr_account_kind row) (rr_account_id row) (rr_identity_source row)"

section \<open>SQLite\<close>

definition sqlite_create_run ::
  "('v, 'd, 'j) json_api \<Rightarrow> sqlite_store \<Rightarrow> sqlite_call \<Rightarrow> ('d, 'j) bot_run_state \<Rightarrow> run_identity \<Rightarrow>
   (run_db, storage_error, unit) op"
where
  "sqlite_create_run J store c state i =
     io_bind (op_result (refuse_legacy_creation state i)) (\<lambda>_.
     sqlite_on store c (
     io_bind (op_result (other (js_state_to_string J state))) (\<lambda>json db.
       (case sqlite_execute c (\<lambda>db.
            (case insert_run (new_run_row state i json (sc_now c)) db of
               None \<Rightarrow> Inl (SqliteFailure ConstraintViolation 1555 ''UNIQUE constraint failed: bot_runs.run_id'')
             | Some db' \<Rightarrow> Inr ((), db'))) db of
          (Inr _, db') \<Rightarrow> (Inr (), db')
        | (Inl e, db') \<Rightarrow>
            (Inl (case e of
                SqliteFailure ConstraintViolation _ _ \<Rightarrow> already_exists (rn_run_id state)
              | _ \<Rightarrow> sqlite_commit_failed e), db')))))"

definition sqlite_written :: "('db, rusqlite_error, 'a) op \<Rightarrow> ('db, storage_error, 'a) op" where
  "sqlite_written m db = (case m db of (r, db') \<Rightarrow> (map_err sqlite_commit_failed r, db'))"

definition sqlite_save_run_state ::
  "('v, 'd, 'j) json_api \<Rightarrow> sqlite_store \<Rightarrow> sqlite_call \<Rightarrow> ('d, 'j) bot_run_state \<Rightarrow> (run_db, storage_error, unit) op"
where
  "sqlite_save_run_state J store c state =
     sqlite_on store c (
     io_bind (op_result (other (js_state_to_string J state))) (\<lambda>json.
     io_bind (sqlite_written (sqlite_execute c (\<lambda>db. Inr (save_run state json db)))) (\<lambda>updated.
       if updated = 0 then io_fail (never_created (rn_run_id state)) else io_return ())))"

definition sqlite_load_run_state ::
  "('v, 'd, 'j) json_api \<Rightarrow> sqlite_store \<Rightarrow> sqlite_call \<Rightarrow> string \<Rightarrow>
   (run_db, storage_error, ('d, 'j) bot_run_state option) op"
where
  "sqlite_load_run_state J store c run_id =
     sqlite_on store c (
       sqlite_query c (\<lambda>db. transposed (\<lambda>row. decode_state J run_id (rr_state_json row)) (find_run run_id db)))"

definition sqlite_run_identity ::
  "sqlite_store \<Rightarrow> sqlite_call \<Rightarrow> string \<Rightarrow> (run_db, storage_error, run_identity option) op"
where
  "sqlite_run_identity store c run_id =
     sqlite_on store c (
       sqlite_query c (\<lambda>db. transposed (\<lambda>row. unreadable (identity_of_row row)) (find_run run_id db)))"

definition sqlite_latest_run_for_market ::
  "('v, 'd, 'j) json_api \<Rightarrow> sqlite_store \<Rightarrow> sqlite_call \<Rightarrow> market_id \<Rightarrow> string \<Rightarrow>
   (run_db, storage_error, ('d, 'j) bot_run_state option) op"
where
  "sqlite_latest_run_for_market J store c market strategy =
     sqlite_on store c (
       sqlite_query c (\<lambda>db. transposed (\<lambda>row. decode_state J (rr_run_id row) (rr_state_json row))
         (latest_row market strategy db)))"

definition sqlite_append_order_event ::
  "('v, 'd, 'j) json_api \<Rightarrow> sqlite_store \<Rightarrow> sqlite_call \<Rightarrow> string \<Rightarrow> 'd exchange_order \<Rightarrow> (run_db, storage_error, unit) op"
where
  "sqlite_append_order_event J store c run_id ord =
     sqlite_on store c (
     io_bind (op_result (other (js_order_to_string J ord))) (\<lambda>json.
       sqlite_written (sqlite_execute c (\<lambda>db. Inr ((), insert_event run_id ord json db)))))"

definition sqlite_append_closed_trade ::
  "'d decimal_ops \<Rightarrow> sqlite_store \<Rightarrow> sqlite_call \<Rightarrow> string \<Rightarrow> 'd closed_trade \<Rightarrow> (run_db, storage_error, unit) op"
where
  "sqlite_append_closed_trade D store c run_id trade =
     sqlite_on store c (
       sqlite_written (sqlite_execute c (\<lambda>db. Inr ((), insert_trade D run_id trade db))))"

definition sqlite_list_order_events ::
  "('v, 'd, 'j) json_api \<Rightarrow> sqlite_store \<Rightarrow> sqlite_call \<Rightarrow> string \<Rightarrow> nat \<Rightarrow>
   (run_db, storage_error, 'd exchange_order list) op"
where
  "sqlite_list_order_events J store c run_id most =
     sqlite_on store c (
       sqlite_query c (\<lambda>db. try_map (\<lambda>row. other (js_order_from_string J (oe_raw_json row)))
         (sqlite_limit (usize_as_i64 most) (newest_events run_id db))))"

definition sqlite_list_closed_trades ::
  "'d decimal_ops \<Rightarrow> sqlite_store \<Rightarrow> sqlite_call \<Rightarrow> string \<Rightarrow> nat \<Rightarrow> (run_db, storage_error, 'd closed_trade list) op"
where
  "sqlite_list_closed_trades D store c run_id most =
     sqlite_on store c (
       sqlite_query c (\<lambda>db. try_map (\<lambda>row. map_err row_error (trade_of_row D row))
         (sqlite_limit (usize_as_i64 most) (newest_trades run_id db))))"

text \<open>The store's own record.\<close>

definition current_version :: "run_db \<Rightarrow> storage_error + u32" where
  "current_version db =
     (case rd_version db of
        None \<Rightarrow> Inr 0
      | Some value \<Rightarrow>
          ok_or (SeInvalidArgument (''the database records schema version '' @ value @ '', which is not a number''))
            (parse_u32 value))"

definition epoch_of :: "int \<Rightarrow> activation_epoch option" where
  "epoch_of n = (if 0 \<le> n \<and> n < 2 ^ 32 then Some (ActivationEpoch (of_int n)) else None)"

definition read_identity :: "run_db \<Rightarrow> storage_error + store_identity" where
  "read_identity db =
     and_then (current_version db) (\<lambda>version.
     case rd_control db of
       None \<Rightarrow> Inl (SeOther ''Query returned no rows'')
     | Some row \<Rightarrow>
         and_then (unreadable (store_id_new (co_store_id row))) (\<lambda>i.
         and_then (unreadable (transposed parse_environment (co_environment row))) (\<lambda>environment.
         and_then (unreadable (activation_from_str (co_activation row))) (\<lambda>activation.
         and_then (ok_or (SeOther ''the activation epoch is out of range'') (epoch_of (co_activation_epoch row))) (\<lambda>epoch.
           Inr \<lparr>st_store_id = i, st_schema_version = version, st_environment = environment,
                st_activation = activation, st_epoch = epoch\<rparr>)))))"

definition sqlite_store_identity :: "sqlite_store \<Rightarrow> sqlite_call \<Rightarrow> (run_db, storage_error, store_identity) op" where
  "sqlite_store_identity store c = sqlite_on store c (sqlite_query c read_identity)"

definition bound_control :: "environment \<Rightarrow> timestamp_ms \<Rightarrow> run_db \<Rightarrow> run_db" where
  "bound_control environment now db =
     db\<lparr>rd_control := map_option (\<lambda>row.
       row\<lparr>co_environment := Some (environment_as_str environment), co_changed_at_ms := now\<rparr>) (rd_control db)\<rparr>"

definition sqlite_bind_environment ::
  "sqlite_store \<Rightarrow> sqlite_call \<Rightarrow> environment \<Rightarrow> (run_db, storage_error, unit) op"
where
  "sqlite_bind_environment store c environment =
     sqlite_on store c (
       sqlite_transaction c (\<lambda>db.
         and_then (read_identity db) (\<lambda>i.
           case st_environment i of
             Some bound \<Rightarrow>
               if bound = environment then Inr ((), None) else Inl (already_bound (st_store_id i) bound)
           | None \<Rightarrow> Inr ((), Some (bound_control environment (sc_now c) db)))))"

definition sqlite_legacy_runs ::
  "('v, 'd, 'j) json_api \<Rightarrow> sqlite_store \<Rightarrow> sqlite_call \<Rightarrow> (run_db, storage_error, legacy_run list) op"
where
  "sqlite_legacy_runs J store c =
     sqlite_on store c (sqlite_query c (\<lambda>db. try_map (\<lambda>row. unreadable (legacy_run_of J row)) (legacy_rows db)))"

text \<open>\<open>None\<close> is a panic, which drops the transaction.\<close>

definition sqlite_adopt_run ::
  "('v, 'd, 'j) json_api \<Rightarrow> sqlite_store \<Rightarrow> sqlite_call \<Rightarrow> string \<Rightarrow> run_identity \<Rightarrow> execution_mode option \<Rightarrow>
   (run_db, storage_error, unit option) op"
where
  "sqlite_adopt_run J store c run_id i mode =
     io_bind (op_result (refuse_unadopted i)) (\<lambda>_.
     sqlite_on store c (
       sqlite_transaction c (\<lambda>db.
         case adopted_state J run_id (map_option (\<lambda>row. (rr_identity_source row, rr_state_json row)) (find_run run_id db)) mode of
           None \<Rightarrow> Inr (None, None)
         | Some (Inl e) \<Rightarrow> Inl e
         | Some (Inr json) \<Rightarrow>
             Inr (Some (), Some (update_run run_id (adopted_row i json (sc_now c)) db)))))"

definition sqlite_migrations :: "sqlite_store \<Rightarrow> sqlite_call \<Rightarrow> (run_db, storage_error, migration_row list) op" where
  "sqlite_migrations store c =
     sqlite_on store c (sqlite_query c (\<lambda>db.
       try_map (\<lambda>row.
         if 0 \<le> mg_version row \<and> mg_version row < 2 ^ 32 \<and> 0 \<le> mg_from_version row \<and> mg_from_version row < 2 ^ 32
         then Inr row else Inl (SeOther ''a stored row does not convert''))
         (order_by (\<lambda>a b. mg_version a < mg_version b) (rd_migrations db))))"

section \<open>PostgreSQL\<close>

record pg_store =
  pgs_bounded :: bool

definition pg_read :: "pg_store \<Rightarrow> pg_call \<Rightarrow> ('db \<Rightarrow> 'a) \<Rightarrow> ('db, storage_error, 'a) op" where
  "pg_read store c f =
     pg_execute (pgs_bounded store) ReadCall c \<lparr>pw_statements = (\<lambda>db. Inr (f db, db)), pw_on_error = Inl\<rparr>"

definition pg_write :: "pg_store \<Rightarrow> pg_call \<Rightarrow> ('db \<Rightarrow> tokio_error + ('a \<times> 'db)) \<Rightarrow> ('db, storage_error, 'a) op" where
  "pg_write store c f =
     pg_execute (pgs_bounded store) WriteCall c \<lparr>pw_statements = f, pw_on_error = Inl\<rparr>"

definition pg_create_run ::
  "('v, 'd, 'j) json_api \<Rightarrow> pg_store \<Rightarrow> pg_call \<Rightarrow> ('d, 'j) bot_run_state \<Rightarrow> run_identity \<Rightarrow>
   (run_db, storage_error, unit) op"
where
  "pg_create_run J store c state i =
     io_bind (op_result (refuse_legacy_creation state i)) (\<lambda>_.
     io_bind (op_result (other (js_state_to_string J state))) (\<lambda>json.
     io_bind (pg_execute (pgs_bounded store) WriteCall c
         \<lparr>pw_statements = (\<lambda>db.
            (case insert_run (new_run_row state i json (pc_now c)) db of
               None \<Rightarrow> Inl (ServerError unique_violation ''duplicate key value violates unique constraint'')
             | Some db' \<Rightarrow> Inr (True, db'))),
          pw_on_error = (\<lambda>e. if sqlstate e = Some unique_violation then Inr False else Inl e)\<rparr>) (\<lambda>created.
       if created then io_return () else io_fail (already_exists (rn_run_id state)))))"

definition pg_save_run_state ::
  "('v, 'd, 'j) json_api \<Rightarrow> pg_store \<Rightarrow> pg_call \<Rightarrow> ('d, 'j) bot_run_state \<Rightarrow> (run_db, storage_error, unit) op"
where
  "pg_save_run_state J store c state =
     io_bind (op_result (other (js_state_to_string J state))) (\<lambda>json.
     io_bind (pg_write store c (\<lambda>db. Inr (save_run state json db))) (\<lambda>updated.
       if updated = 0 then io_fail (never_created (rn_run_id state)) else io_return ()))"

definition pg_load_run_state ::
  "('v, 'd, 'j) json_api \<Rightarrow> pg_store \<Rightarrow> pg_call \<Rightarrow> string \<Rightarrow> (run_db, storage_error, ('d, 'j) bot_run_state option) op"
where
  "pg_load_run_state J store c run_id =
     io_bind (pg_read store c (\<lambda>db. map_option rr_state_json (find_run run_id db))) (\<lambda>json.
       op_result (transposed (decode_state J run_id) json))"

definition pg_run_identity :: "pg_store \<Rightarrow> pg_call \<Rightarrow> string \<Rightarrow> (run_db, storage_error, run_identity option) op" where
  "pg_run_identity store c run_id =
     io_bind (pg_read store c (find_run run_id)) (\<lambda>row.
       op_result (transposed (\<lambda>row. unreadable (identity_of_row row)) row))"

definition pg_latest_run_for_market ::
  "('v, 'd, 'j) json_api \<Rightarrow> pg_store \<Rightarrow> pg_call \<Rightarrow> market_id \<Rightarrow> string \<Rightarrow>
   (run_db, storage_error, ('d, 'j) bot_run_state option) op"
where
  "pg_latest_run_for_market J store c market strategy =
     io_bind (pg_read store c (latest_row market strategy)) (\<lambda>found.
       op_result (transposed (\<lambda>row. decode_state J (rr_run_id row) (rr_state_json row)) found))"

definition pg_append_order_event ::
  "('v, 'd, 'j) json_api \<Rightarrow> pg_store \<Rightarrow> pg_call \<Rightarrow> string \<Rightarrow> 'd exchange_order \<Rightarrow> (run_db, storage_error, unit) op"
where
  "pg_append_order_event J store c run_id ord =
     io_bind (op_result (other (js_order_to_string J ord))) (\<lambda>json.
       pg_write store c (\<lambda>db. Inr ((), insert_event run_id ord json db)))"

definition pg_append_closed_trade ::
  "'d decimal_ops \<Rightarrow> pg_store \<Rightarrow> pg_call \<Rightarrow> string \<Rightarrow> 'd closed_trade \<Rightarrow> (run_db, storage_error, unit) op"
where
  "pg_append_closed_trade D store c run_id trade =
     pg_write store c (\<lambda>db. Inr ((), insert_trade D run_id trade db))"

definition pg_list_order_events ::
  "('v, 'd, 'j) json_api \<Rightarrow> pg_store \<Rightarrow> pg_call \<Rightarrow> string \<Rightarrow> nat \<Rightarrow> (run_db, storage_error, 'd exchange_order list) op"
where
  "pg_list_order_events J store c run_id most =
     io_bind (pg_read store c (\<lambda>db. take (nat (pg_limit most)) (newest_events run_id db))) (\<lambda>rows.
       op_result (try_map (\<lambda>row. other (js_order_from_string J (oe_raw_json row))) rows))"

definition stored_trade :: "'d decimal_ops \<Rightarrow> closed_trade_row \<Rightarrow> storage_error + 'd closed_trade" where
  "stored_trade D row = map_err row_error (trade_of_row D row)"

definition pg_list_closed_trades ::
  "'d decimal_ops \<Rightarrow> pg_store \<Rightarrow> pg_call \<Rightarrow> string \<Rightarrow> nat \<Rightarrow> (run_db, storage_error, 'd closed_trade list) op"
where
  "pg_list_closed_trades D store c run_id most =
     io_bind (pg_read store c (\<lambda>db. take (nat (pg_limit most)) (newest_trades run_id db))) (\<lambda>rows.
       op_result (try_map (stored_trade D) rows))"

text \<open>A query of exactly one row fails without it; the driver's error carries no SQLSTATE.\<close>

definition one_row :: "'r option \<Rightarrow> tokio_error + 'r" where
  "one_row r = ok_or (ConnectionError ''query returned an unexpected number of rows'') r"

definition pg_record :: "run_db \<Rightarrow> control_row \<Rightarrow> storage_error + store_identity" where
  "pg_record db row =
     and_then (unreadable (store_id_new (co_store_id row))) (\<lambda>i.
     and_then (unreadable (transposed parse_environment (co_environment row))) (\<lambda>environment.
     and_then (unreadable (activation_from_str (co_activation row))) (\<lambda>activation.
     and_then (ok_or (SeInvalidArgument ''the activation epoch is out of range'') (epoch_of (co_activation_epoch row))) (\<lambda>epoch.
     and_then (case rd_version db of
         None \<Rightarrow> Inl (SeInvalidArgument ''the database records a schema version which is not a number'')
       | Some value \<Rightarrow> ok_or (SeInvalidArgument ''the database records a schema version which is not a number'')
           (parse_u32 value)) (\<lambda>version.
       Inr \<lparr>st_store_id = i, st_schema_version = version, st_environment = environment,
            st_activation = activation, st_epoch = epoch\<rparr>)))))"

definition pg_store_identity :: "pg_store \<Rightarrow> pg_call \<Rightarrow> (run_db, storage_error, store_identity) op" where
  "pg_store_identity store c =
     io_bind (pg_execute (pgs_bounded store) ReadCall c
        \<lparr>pw_statements = (\<lambda>db.
           and_then (one_row (case rd_version db of None \<Rightarrow> None | Some _ \<Rightarrow> rd_control db)) (\<lambda>row.
             Inr (pg_record db row, db))),
         pw_on_error = Inl\<rparr>) op_result"

definition pg_bind_environment :: "pg_store \<Rightarrow> pg_call \<Rightarrow> environment \<Rightarrow> (run_db, storage_error, unit) op" where
  "pg_bind_environment store c environment =
     io_bind (pg_write store c (\<lambda>db.
       and_then (one_row (rd_control db)) (\<lambda>row.
         case unreadable (transposed parse_environment (co_environment row)) of
           Inl e \<Rightarrow> Inr (Inl e, db)
         | Inr (Some bound) \<Rightarrow>
             if bound = environment then Inr (Inr (), db)
             else Inr (and_then (unreadable (store_id_new (co_store_id row))) (\<lambda>i. Inl (already_bound i bound)), db)
         | Inr None \<Rightarrow> Inr (Inr (), bound_control environment (pc_now c) db)))) op_result"

definition pg_legacy_runs ::
  "('v, 'd, 'j) json_api \<Rightarrow> pg_store \<Rightarrow> pg_call \<Rightarrow> (run_db, storage_error, legacy_run list) op"
where
  "pg_legacy_runs J store c =
     io_bind (pg_read store c legacy_rows) (\<lambda>rows. op_result (try_map (\<lambda>row. unreadable (legacy_run_of J row)) rows))"

definition pg_adopt_run ::
  "('v, 'd, 'j) json_api \<Rightarrow> pg_store \<Rightarrow> pg_call \<Rightarrow> string \<Rightarrow> run_identity \<Rightarrow> execution_mode option \<Rightarrow>
   (run_db, storage_error, unit option) op"
where
  "pg_adopt_run J store c run_id i mode =
     io_bind (op_result (refuse_unadopted i)) (\<lambda>_.
     io_bind (pg_write store c (\<lambda>db.
       case adopted_state J run_id (map_option (\<lambda>row. (rr_identity_source row, rr_state_json row)) (find_run run_id db)) mode of
         None \<Rightarrow> Inr (Inr None, db)
       | Some (Inl e) \<Rightarrow> Inr (Inl e, db)
       | Some (Inr json) \<Rightarrow>
           Inr (Inr (Some ()), update_run run_id (adopted_row i json (pc_now c)) db))) op_result)"

definition pg_migrations :: "pg_store \<Rightarrow> pg_call \<Rightarrow> (run_db, storage_error, migration_row list) op" where
  "pg_migrations store c =
     io_bind (pg_read store c (\<lambda>db. order_by (\<lambda>a b. mg_version a < mg_version b) (rd_migrations db))) (\<lambda>rows.
       op_result (try_map (\<lambda>row.
         if 0 \<le> mg_version row \<and> 0 \<le> mg_from_version row then Inr row
         else Inl (SeInvalidArgument ''a schema version is out of range'')) rows))"

section \<open>Any store\<close>

text \<open>\<open>RunJournalStore\<close> and \<open>StoreControl\<close>: \<open>'c\<close> is what the outside does to a call.\<close>

record ('c, 'w, 'd, 'j) run_journal_store =
  jo_create_run :: "'c \<Rightarrow> ('d, 'j) bot_run_state \<Rightarrow> run_identity \<Rightarrow> ('w, storage_error, unit) op"
  jo_save_run_state :: "'c \<Rightarrow> ('d, 'j) bot_run_state \<Rightarrow> ('w, storage_error, unit) op"
  jo_load_run_state :: "'c \<Rightarrow> string \<Rightarrow> ('w, storage_error, ('d, 'j) bot_run_state option) op"
  jo_run_identity :: "'c \<Rightarrow> string \<Rightarrow> ('w, storage_error, run_identity option) op"
  jo_latest_run_for_market :: "'c \<Rightarrow> market_id \<Rightarrow> string \<Rightarrow> ('w, storage_error, ('d, 'j) bot_run_state option) op"
  jo_append_order_event :: "'c \<Rightarrow> string \<Rightarrow> 'd exchange_order \<Rightarrow> ('w, storage_error, unit) op"
  jo_append_closed_trade :: "'c \<Rightarrow> string \<Rightarrow> 'd closed_trade \<Rightarrow> ('w, storage_error, unit) op"
  jo_list_order_events :: "'c \<Rightarrow> string \<Rightarrow> nat \<Rightarrow> ('w, storage_error, 'd exchange_order list) op"
  jo_list_closed_trades :: "'c \<Rightarrow> string \<Rightarrow> nat \<Rightarrow> ('w, storage_error, 'd closed_trade list) op"
  jo_store_identity :: "'c \<Rightarrow> ('w, storage_error, store_identity) op"
  jo_migrations :: "'c \<Rightarrow> ('w, storage_error, migration_row list) op"
  jo_bind_environment :: "'c \<Rightarrow> environment \<Rightarrow> ('w, storage_error, unit) op"
  jo_legacy_runs :: "'c \<Rightarrow> ('w, storage_error, legacy_run list) op"
  jo_adopt_run :: "'c \<Rightarrow> string \<Rightarrow> run_identity \<Rightarrow> execution_mode option \<Rightarrow> ('w, storage_error, unit option) op"

definition sqlite_journal ::
  "'d decimal_ops \<Rightarrow> ('v, 'd, 'j) json_api \<Rightarrow> sqlite_store \<Rightarrow> (sqlite_call, run_db, 'd, 'j) run_journal_store"
where
  "sqlite_journal D J store =
     \<lparr>jo_create_run = sqlite_create_run J store, jo_save_run_state = sqlite_save_run_state J store,
      jo_load_run_state = sqlite_load_run_state J store, jo_run_identity = sqlite_run_identity store,
      jo_latest_run_for_market = sqlite_latest_run_for_market J store,
      jo_append_order_event = sqlite_append_order_event J store,
      jo_append_closed_trade = sqlite_append_closed_trade D store,
      jo_list_order_events = sqlite_list_order_events J store,
      jo_list_closed_trades = sqlite_list_closed_trades D store,
      jo_store_identity = sqlite_store_identity store, jo_migrations = sqlite_migrations store,
      jo_bind_environment = sqlite_bind_environment store, jo_legacy_runs = sqlite_legacy_runs J store,
      jo_adopt_run = sqlite_adopt_run J store\<rparr>"

definition pg_journal ::
  "'d decimal_ops \<Rightarrow> ('v, 'd, 'j) json_api \<Rightarrow> pg_store \<Rightarrow> (pg_call, run_db, 'd, 'j) run_journal_store"
where
  "pg_journal D J store =
     \<lparr>jo_create_run = pg_create_run J store, jo_save_run_state = pg_save_run_state J store,
      jo_load_run_state = pg_load_run_state J store, jo_run_identity = pg_run_identity store,
      jo_latest_run_for_market = pg_latest_run_for_market J store,
      jo_append_order_event = pg_append_order_event J store,
      jo_append_closed_trade = pg_append_closed_trade D store,
      jo_list_order_events = pg_list_order_events J store,
      jo_list_closed_trades = pg_list_closed_trades D store,
      jo_store_identity = pg_store_identity store, jo_migrations = pg_migrations store,
      jo_bind_environment = pg_bind_environment store, jo_legacy_runs = pg_legacy_runs J store,
      jo_adopt_run = pg_adopt_run J store\<rparr>"

datatype any_store = AnySqlite sqlite_store | AnyPostgres pg_store

record any_call =
  ac_sqlite :: sqlite_call
  ac_postgres :: pg_call

text \<open>\<open>delegate!\<close>\<close>

definition delegate ::
  "'d decimal_ops \<Rightarrow> ('v, 'd, 'j) json_api \<Rightarrow> any_store \<Rightarrow> any_call \<Rightarrow>
   ((sqlite_call, run_db, 'd, 'j) run_journal_store \<Rightarrow> sqlite_call \<Rightarrow> 'x) \<Rightarrow>
   ((pg_call, run_db, 'd, 'j) run_journal_store \<Rightarrow> pg_call \<Rightarrow> 'x) \<Rightarrow> 'x"
where
  "delegate D J store c on_sqlite on_postgres =
     (case store of
        AnySqlite s \<Rightarrow> on_sqlite (sqlite_journal D J s) (ac_sqlite c)
      | AnyPostgres p \<Rightarrow> on_postgres (pg_journal D J p) (ac_postgres c))"

definition any_journal ::
  "'d decimal_ops \<Rightarrow> ('v, 'd, 'j) json_api \<Rightarrow> any_store \<Rightarrow> (any_call, run_db, 'd, 'j) run_journal_store"
where
  "any_journal D J store =
     \<lparr>jo_create_run = (\<lambda>c. delegate D J store c jo_create_run jo_create_run),
      jo_save_run_state = (\<lambda>c. delegate D J store c jo_save_run_state jo_save_run_state),
      jo_load_run_state = (\<lambda>c. delegate D J store c jo_load_run_state jo_load_run_state),
      jo_run_identity = (\<lambda>c. delegate D J store c jo_run_identity jo_run_identity),
      jo_latest_run_for_market = (\<lambda>c. delegate D J store c jo_latest_run_for_market jo_latest_run_for_market),
      jo_append_order_event = (\<lambda>c. delegate D J store c jo_append_order_event jo_append_order_event),
      jo_append_closed_trade = (\<lambda>c. delegate D J store c jo_append_closed_trade jo_append_closed_trade),
      jo_list_order_events = (\<lambda>c. delegate D J store c jo_list_order_events jo_list_order_events),
      jo_list_closed_trades = (\<lambda>c. delegate D J store c jo_list_closed_trades jo_list_closed_trades),
      jo_store_identity = (\<lambda>c. delegate D J store c jo_store_identity jo_store_identity),
      jo_migrations = (\<lambda>c. delegate D J store c jo_migrations jo_migrations),
      jo_bind_environment = (\<lambda>c. delegate D J store c jo_bind_environment jo_bind_environment),
      jo_legacy_runs = (\<lambda>c. delegate D J store c jo_legacy_runs jo_legacy_runs),
      jo_adopt_run = (\<lambda>c. delegate D J store c jo_adopt_run jo_adopt_run)\<rparr>"

definition any_call_ok :: "any_call \<Rightarrow> bool" where
  "any_call_ok c \<longleftrightarrow> sqlite_call_ok (ac_sqlite c) \<and> pg_call_ok (ac_postgres c)"

end
