(* ===== verification/Run_Journal.thy ===== *)
theory Run_Journal
  imports Run_Store
begin

text \<open>
  What the run journal promises, on every backend and whatever the outside does to a call. The locale
  \<open>run_journal\<close> is the contract over a view of the store: a run's entry (its state, its identity, whether it is
  legacy) and the environment the store is bound to. \<open>AnyStore\<close> of \<open>Run_Store\<close> interprets it.
\<close>

section \<open>What a write did\<close>

text \<open>A write is in the store where it answered, and may be where its outcome is unknown.\<close>

definition landed :: "storage_error + 'a \<Rightarrow> bool" where
  "landed r = (case r of Inr _ \<Rightarrow> True | Inl e \<Rightarrow> storage_error_kind e = KindOutcomeUnknown)"

definition refused :: "storage_error + 'a \<Rightarrow> bool" where
  "refused r = (case r of Inr _ \<Rightarrow> False | Inl _ \<Rightarrow> True)"

lemma landed_simps [simp]:
  "landed (Inr a)" "landed (Inl e) \<longleftrightarrow> storage_error_kind e = KindOutcomeUnknown"
  "\<not> refused (Inr a)" "refused (Inl e)"
  by (simp_all add: landed_def refused_def)

lemma sqlite_execute_cases:
  assumes "sqlite_call_ok c" and "sqlite_written (sqlite_execute c f) db = (r, db')"
  shows "refused r \<and> db' = db \<or>
    (\<exists>a target. f db = Inr (a, target) \<and> db' = target \<and> landed r \<and> (\<forall>b. r = Inr b \<longrightarrow> b = a))"
  using assms disk_trouble_unknown
  by (auto simp: sqlite_written_def sqlite_execute_def sqlite_call_ok_def split: sqlite_fault.splits sum.splits if_splits)

lemma sqlite_transaction_cases:
  assumes "sqlite_call_ok c" and "sqlite_transaction c f db = (r, db')"
  shows "refused r \<and> db' = db \<or> (\<exists>a. f db = Inr (a, None) \<and> r = Inr a \<and> db' = db) \<or>
    (\<exists>a target. f db = Inr (a, Some target) \<and> db' = target \<and> landed r \<and> (\<forall>b. r = Inr b \<longrightarrow> b = a))"
  using assms disk_trouble_unknown
  by (auto simp: sqlite_transaction_def sqlite_call_ok_def
      split: sqlite_fault.splits sum.splits if_splits option.splits prod.splits)

lemma lost_write [simp]: "storage_error_kind (lost WriteCall t) = KindOutcomeUnknown"
  by simp

lemma pg_execute_cases:
  assumes "pg_call_ok c" and "pg_execute b WriteCall c work db = (r, db')"
    and "\<And>e a. pw_on_error work e = Inr a \<Longrightarrow> \<not> in_doubt e" and "\<And>e e'. pw_on_error work e = Inl e' \<Longrightarrow> e' = e"
  shows "refused r \<and> db' = db \<or> (\<exists>e a. pw_on_error work e = Inr a \<and> r = Inr a \<and> db' = db) \<or>
    (\<exists>a target. pw_statements work db = Inr (a, target) \<and> db' = target \<and> landed r \<and> (\<forall>x. r = Inr x \<longrightarrow> x = a))"
proof -
  have kept: "pg_kept k work db = db \<or> (\<exists>a target. pw_statements work db = Inr (a, target) \<and>
      pg_kept k work db = target \<and> k)" for k
    by (auto simp: pg_kept_def split: sum.splits)
  have answered: "(\<exists>e'. pg_answered WriteCall work e = Inl e' \<and> (in_doubt e \<longrightarrow> storage_error_kind e' = KindOutcomeUnknown)) \<or>
      (\<exists>a. pw_on_error work e = Inr a \<and> pg_answered WriteCall work e = Inr a \<and> \<not> in_doubt e)" for e
  proof (cases "pw_on_error work e")
    case (Inl e')
    with assms(4) have "e' = e" by blast
    with Inl in_doubt_unknown [of e] show ?thesis by (simp add: pg_answered_def)
  next
    case (Inr a)
    with assms(3) have "\<not> in_doubt e" by blast
    with Inr show ?thesis by (simp add: pg_answered_def)
  qed
  have job: "refused r1 \<and> db1 = db \<or> (\<exists>e a. pw_on_error work e = Inr a \<and> r1 = Inr a \<and> db1 = db) \<or>
    (\<exists>a target. pw_statements work db = Inr (a, target) \<and> db1 = target \<and> landed r1 \<and> (\<forall>x. r1 = Inr x \<longrightarrow> x = a))"
    if "pg_job b WriteCall c work db = (r1, db1)" for r1 db1
  proof (cases "pc_pool c = PoolReady \<and> (b \<longrightarrow> pc_limited c)")
    case False
    with that show ?thesis by (auto simp: pg_job_def split: pool_end.splits if_splits)
  next
    case ready: True
    show ?thesis
    proof (cases "pc_work c")
      case WorkDone
      show ?thesis
      proof (cases "pw_statements work db")
        case (Inl e)
        with that ready WorkDone have "r1 = pg_answered WriteCall work e" "db1 = db" by (auto simp: pg_job_def)
        with answered [of e] show ?thesis by (cases r1) auto
      next
        case (Inr x)
        with that ready WorkDone show ?thesis by (cases x) (auto simp: pg_job_def)
      qed
    next
      case (WorkFailed e k)
      with assms(1) have doubt: "k \<longrightarrow> in_doubt e" by (simp add: pg_call_ok_def)
      from that ready WorkFailed have "r1 = pg_answered WriteCall work e" "db1 = pg_kept k work db"
        by (auto simp: pg_job_def)
      with doubt kept [of k] answered [of e] show ?thesis by (cases r1) (auto simp: pg_kept_def)
    next
      case (WorkLate k)
      with that ready have "r1 = Inl (lost WriteCall ''no answer in time'')" "db1 = pg_kept k work db"
        by (auto simp: pg_job_def)
      with kept [of k] show ?thesis by auto
    qed
  qed
  obtain r1 db1 where j: "pg_job b WriteCall c work db = (r1, db1)" by (cases "pg_job b WriteCall c work db")
  show ?thesis
  proof (cases "pc_run c")
    case None
    with assms(2) j job [OF j] show ?thesis by (simp add: pg_execute_def)
  next
    case (Some e)
    with assms(2) j have "refused r \<and> db' = db \<or> r = Inl (lost WriteCall (run_error_text e)) \<and> db' = db1"
      by (auto simp: pg_execute_def split: if_splits)
    with job [OF j] show ?thesis by auto
  qed
qed

section \<open>The contract\<close>

record ('d, 'j) run_entry =
  en_state :: "storage_error + ('d, 'j) bot_run_state"
  en_identity :: "storage_error + run_identity"
  en_legacy :: bool

text \<open>\<open>reads_back s\<close> is what a store makes of a state it wrote. Every law speaks of all the outcomes of its call:
  refused and nothing changed, or landed with the entry the law names.\<close>

locale run_journal =
  fixes S :: "('c, 'w, 'd, 'j) run_journal_store" and ok :: "'c \<Rightarrow> bool"
    and view :: "'w \<Rightarrow> string \<Rightarrow> ('d, 'j) run_entry option" and bound :: "'w \<Rightarrow> environment option"
    and reads_back :: "('d, 'j) bot_run_state \<Rightarrow> storage_error + ('d, 'j) bot_run_state"
  assumes create: "ok c \<Longrightarrow> identity_valid i \<Longrightarrow> jo_create_run S c s i w = (r, w') \<Longrightarrow>
      refused r \<and> w' = w \<or>
      landed r \<and> ri_source i \<noteq> Legacy \<and> view w (rn_run_id s) = None \<and> bound w' = bound w \<and>
        view w' = (view w)(rn_run_id s \<mapsto> \<lparr>en_state = reads_back s, en_identity = Inr i, en_legacy = False\<rparr>)"
    and save: "ok c \<Longrightarrow> jo_save_run_state S c s w = (r, w') \<Longrightarrow>
      refused r \<and> w' = w \<or>
      landed r \<and> bound w' = bound w \<and>
        (\<exists>e. view w (rn_run_id s) = Some e \<and> view w' = (view w)(rn_run_id s \<mapsto> e\<lparr>en_state := reads_back s\<rparr>))"
    and load: "ok c \<Longrightarrow> jo_load_run_state S c run_id w = (found, w') \<Longrightarrow>
      w' = w \<and> (found = Inr x \<longrightarrow>
        (case view w run_id of None \<Rightarrow> x = None | Some e \<Rightarrow> \<exists>s. en_state e = Inr s \<and> x = Some s))"
    and run_identity: "ok c \<Longrightarrow> jo_run_identity S c run_id w = (told, w') \<Longrightarrow>
      w' = w \<and> (told = Inr y \<longrightarrow>
        (case view w run_id of None \<Rightarrow> y = None | Some e \<Rightarrow> \<exists>i. en_identity e = Inr i \<and> y = Some i))"
    and adopt: "ok c \<Longrightarrow> identity_valid i \<Longrightarrow> jo_adopt_run S c run_id i mode w = (q, w') \<Longrightarrow>
      q \<noteq> Inr (Some ()) \<and> w' = w \<or>
      landed q \<and> q \<noteq> Inr None \<and> ri_source i = Adopted \<and> bound w' = bound w \<and>
        (\<exists>e st. view w run_id = Some e \<and> en_legacy e \<and>
          view w' = (view w)(run_id \<mapsto> \<lparr>en_state = st, en_identity = Inr i, en_legacy = False\<rparr>))"
    and bind: "ok c \<Longrightarrow> jo_bind_environment S c environment w = (r, w') \<Longrightarrow>
      w' = w \<and> (r = Inr () \<longrightarrow> bound w = Some environment) \<or>
      landed r \<and> bound w = None \<and> bound w' = Some environment \<and> view w' = view w"
    and append_event: "ok c \<Longrightarrow> jo_append_order_event S c run_id ord w = (r, w') \<Longrightarrow>
      view w' = view w \<and> bound w' = bound w"
    and append_trade: "ok c \<Longrightarrow> jo_append_closed_trade S c run_id trade w = (r, w') \<Longrightarrow>
      view w' = view w \<and> bound w' = bound w"

text \<open>One call, by any process; reads change nothing.\<close>

inductive journal_step :: "('c, 'w, 'd, 'j) run_journal_store \<Rightarrow> ('c \<Rightarrow> bool) \<Rightarrow> 'w \<Rightarrow> 'w \<Rightarrow> bool"
  for S ok
where
  step_create: "ok c \<Longrightarrow> identity_valid i \<Longrightarrow> jo_create_run S c s i w = (r, w') \<Longrightarrow> journal_step S ok w w'"
| step_save: "ok c \<Longrightarrow> jo_save_run_state S c s w = (r, w') \<Longrightarrow> journal_step S ok w w'"
| step_event: "ok c \<Longrightarrow> jo_append_order_event S c run_id ord w = (r, w') \<Longrightarrow> journal_step S ok w w'"
| step_trade: "ok c \<Longrightarrow> jo_append_closed_trade S c run_id trade w = (r, w') \<Longrightarrow> journal_step S ok w w'"
| step_bind: "ok c \<Longrightarrow> jo_bind_environment S c environment w = (r, w') \<Longrightarrow> journal_step S ok w w'"
| step_adopt: "ok c \<Longrightarrow> identity_valid i \<Longrightarrow> jo_adopt_run S c run_id i mode w = (q, w') \<Longrightarrow> journal_step S ok w w'"

text \<open>What no call changes in an entry: its identity, unless a legacy run is adopted.\<close>

definition same_run :: "('d, 'j) run_entry \<Rightarrow> ('d, 'j) run_entry \<Rightarrow> bool" where
  "same_run e e' \<longleftrightarrow>
     en_identity e' = en_identity e \<and> en_legacy e' = en_legacy e \<or> en_legacy e \<and> \<not> en_legacy e'"

lemma same_run_refl [simp]: "same_run e e"
  by (simp add: same_run_def)

lemma same_run_trans: "same_run a b \<Longrightarrow> same_run b c \<Longrightarrow> same_run a c"
  by (auto simp: same_run_def)

context run_journal
begin

lemma step_entry:
  assumes "journal_step S ok w w'" and "view w run_id = Some e"
  shows "\<exists>e'. view w' run_id = Some e' \<and> same_run e e'"
  using assms(1)
proof cases
  case (step_create c i s r)
  with create [OF this] assms(2) show ?thesis by (auto split: if_splits)
next
  case (step_save c s r)
  from save [OF this] assms(2) show ?thesis by (auto simp: same_run_def)
next
  case (step_event c i ord r)
  from append_event [OF this] assms(2) show ?thesis by simp
next
  case (step_trade c i trade r)
  from append_trade [OF this] assms(2) show ?thesis by simp
next
  case (step_bind c environment r)
  from bind [OF this] assms(2) show ?thesis by auto
next
  case (step_adopt c i j mode q)
  from adopt [OF this] assms(2) show ?thesis by (auto simp: same_run_def)
qed

lemma step_bound:
  assumes "journal_step S ok w w'" and "bound w = Some environment"
  shows "bound w' = Some environment"
  using assms(1)
proof cases
  case (step_create c i s r)
  from create [OF this] assms(2) show ?thesis by auto
next
  case (step_save c s r)
  from save [OF this] assms(2) show ?thesis by auto
next
  case (step_event c i ord r)
  from append_event [OF this] assms(2) show ?thesis by simp
next
  case (step_trade c i trade r)
  from append_trade [OF this] assms(2) show ?thesis by simp
next
  case (step_bind c environment r)
  from bind [OF this] assms(2) show ?thesis by auto
next
  case (step_adopt c i j mode q)
  from adopt [OF this] assms(2) show ?thesis by auto
qed

lemma entries_stay:
  assumes "(journal_step S ok)\<^sup>*\<^sup>* w w'" and "view w run_id = Some e"
  shows "\<exists>e'. view w' run_id = Some e' \<and> same_run e e'"
  using assms(1)
proof (induction rule: rtranclp_induct)
  case base
  with assms(2) show ?case by simp
next
  case (step u v)
  then show ?case using step_entry same_run_trans by meson
qed

lemma binding_stays:
  assumes "(journal_step S ok)\<^sup>*\<^sup>* w w'" and "bound w = Some environment"
  shows "bound w' = Some environment"
  using assms by (induction rule: rtranclp_induct) (auto intro: step_bound)

text \<open>A created run, whatever follows.\<close>

lemma created_identity:
  assumes "ok c" "identity_valid i" "jo_create_run S c s i w = (Inr (), w1)"
    and "(journal_step S ok)\<^sup>*\<^sup>* w1 w2" and "ok d" "jo_run_identity S d (rn_run_id s) w2 = (Inr x, w3)"
  shows "x = Some i"
proof -
  from create [OF assms(1-3)] have "view w1 (rn_run_id s) = Some \<lparr>en_state = reads_back s, en_identity = Inr i, en_legacy = False\<rparr>"
    by simp
  from entries_stay [OF assms(4) this] obtain e where "view w2 (rn_run_id s) = Some e" "en_identity e = Inr i"
    by (auto simp: same_run_def)
  with run_identity [OF assms(5,6)] show ?thesis by auto
qed

lemma created_once:
  assumes "ok c" "identity_valid i" "jo_create_run S c s i w = (Inr (), w1)"
    and "(journal_step S ok)\<^sup>*\<^sup>* w1 w2"
    and "ok d" "identity_valid j" "rn_run_id t = rn_run_id s" "jo_create_run S d t j w2 = (r, w3)"
  shows "refused r \<and> w3 = w2"
proof -
  from create [OF assms(1-3)] obtain e where "view w1 (rn_run_id s) = Some e" by simp
  from entries_stay [OF assms(4) this] obtain e' where "view w2 (rn_run_id s) = Some e'" by auto
  with create [OF assms(5,6,8)] assms(7) show ?thesis by auto
qed

lemma created_state:
  assumes "ok c" "identity_valid i" "jo_create_run S c s i w = (Inr (), w1)"
    and "reads_back s = Inr s" and "ok d" "jo_load_run_state S d (rn_run_id s) w1 = (Inr x, w2)"
  shows "x = Some s"
  using create [OF assms(1-3)] load [OF assms(5,6)] assms(4) by auto

lemma saved_state:
  assumes "ok c" "jo_save_run_state S c s w = (Inr (), w1)"
    and "reads_back s = Inr s" and "ok d" "jo_load_run_state S d (rn_run_id s) w1 = (Inr x, w2)"
  shows "x = Some s"
  using save [OF assms(1,2)] load [OF assms(4,5)] assms(3) by auto

end

section \<open>The backends keep it\<close>

definition entry_of :: "('v, 'd, 'j) json_api \<Rightarrow> run_row \<Rightarrow> ('d, 'j) run_entry" where
  "entry_of J row =
     \<lparr>en_state = decode_state J (rr_run_id row) (rr_state_json row), en_identity = identity_of_row row,
      en_legacy = (rr_identity_source row = identity_source_as_str Legacy)\<rparr>"

definition run_view :: "('v, 'd, 'j) json_api \<Rightarrow> run_db \<Rightarrow> string \<Rightarrow> ('d, 'j) run_entry option" where
  "run_view J db run_id = map_option (entry_of J) (find_run run_id db)"

definition bound_environment :: "run_db \<Rightarrow> environment option" where
  "bound_environment db =
     Option.bind (rd_control db) (\<lambda>row. Option.bind (co_environment row) (\<lambda>text.
       case parse_environment text of Inr e \<Rightarrow> Some e | Inl _ \<Rightarrow> None))"

definition state_reads_back :: "('v, 'd, 'j) json_api \<Rightarrow> ('d, 'j) bot_run_state \<Rightarrow> storage_error + ('d, 'j) bot_run_state" where
  "state_reads_back J s = and_then (other (js_state_to_string J s)) (decode_state J (rn_run_id s))"

lemma find_Some_simp: "find P xs = Some x \<Longrightarrow> P x"
  by (auto simp: find_Some_iff)

lemma find_append: "find P (xs @ ys) = (case find P xs of None \<Rightarrow> find P ys | Some x \<Rightarrow> Some x)"
  by (induction xs) auto

lemma find_map_key: "(\<And>x. x \<in> set xs \<Longrightarrow> P (f x) = P x) \<Longrightarrow> find P (map f xs) = map_option f (find P xs)"
  by (induction xs) auto

lemma find_insert_run:
  assumes "insert_run row db = Some db'"
  shows "find_run run_id db' = (if run_id = rr_run_id row then Some row else find_run run_id db)"
    and "find_run (rr_run_id row) db = None"
  using assms by (auto simp: insert_run_def find_run_def find_append split: if_splits option.splits)

lemma find_update_run:
  assumes "\<And>r. rr_run_id (f r) = rr_run_id r"
  shows "find_run run_id (update_run j f db) =
    (if run_id = j then map_option f (find_run run_id db) else find_run run_id db)"
proof (cases "run_id = j")
  case True
  have "find (\<lambda>r. rr_run_id r = j) (map (\<lambda>r. if rr_run_id r = j then f r else r) rs) =
      map_option f (find (\<lambda>r. rr_run_id r = j) rs)" for rs
    using assms by (induction rs) auto
  with True show ?thesis by (simp add: find_run_def update_run_def)
next
  case False
  have "find (\<lambda>r. rr_run_id r = run_id) (map (\<lambda>r. if rr_run_id r = j then f r else r) rs) =
      find (\<lambda>r. rr_run_id r = run_id) rs" for rs
    using assms False by (induction rs) auto
  with False show ?thesis by (simp add: find_run_def update_run_def)
qed

lemma run_id_kept [simp]:
  "rr_run_id (saved_row s json row) = rr_run_id row" "rr_run_id (adopted_row i json now row) = rr_run_id row"
  by (simp_all add: saved_row_def adopted_row_def split: prod.splits)

lemma new_run_row_id [simp]: "rr_run_id (new_run_row s i json now) = rn_run_id s"
  by (simp add: new_run_row_def split: prod.splits)

lemma find_run_journals [simp]:
  "find_run j (insert_event run_id ord json db) = find_run j db"
  "find_run j (insert_trade D run_id trade db) = find_run j db"
  "find_run j (bound_control e now db) = find_run j db"
  by (simp_all add: find_run_def insert_event_def insert_trade_def bound_control_def Let_def)

lemma bound_kept [simp]:
  "bound_environment (insert_event run_id ord json db) = bound_environment db"
  "bound_environment (insert_trade D run_id trade db) = bound_environment db"
  "bound_environment (update_run j f db) = bound_environment db"
  "insert_run row db = Some db' \<Longrightarrow> bound_environment db' = bound_environment db"
  by (auto simp: bound_environment_def insert_event_def insert_trade_def update_run_def insert_run_def Let_def
      split: if_splits)

text \<open>The entry a statement leaves.\<close>

lemma identity_of_new_row: "identity_valid i \<Longrightarrow> identity_of_row (new_run_row s i json now) = Inr i"
  by (cases "identity_columns i") (simp add: identity_of_row_def new_run_row_def identity_reads_back)

lemma identity_of_adopted_row: "identity_valid i \<Longrightarrow> identity_of_row (adopted_row i json now row) = Inr i"
  by (cases "identity_columns i") (simp add: identity_of_row_def adopted_row_def identity_reads_back)

lemma identity_of_saved_row [simp]:
  "identity_of_row (saved_row s json row) = identity_of_row row"
  "rr_identity_source (saved_row s json row) = rr_identity_source row"
  by (simp_all add: identity_of_row_def saved_row_def)

lemma source_not_legacy: "s \<noteq> Legacy \<Longrightarrow> identity_source_as_str s \<noteq> ''legacy''"
  by (cases s) simp_all

lemma run_view_insert:
  assumes "insert_run (new_run_row s i json now) db = Some db'" and "identity_valid i" "ri_source i \<noteq> Legacy"
    and "js_state_to_string J s = Inr json"
  shows "run_view J db (rn_run_id s) = None"
    and "run_view J db' = (run_view J db)(rn_run_id s \<mapsto>
      \<lparr>en_state = state_reads_back J s, en_identity = Inr i, en_legacy = False\<rparr>)"
proof -
  note find = find_insert_run [OF assms(1), simplified]
  from find(2) show "run_view J db (rn_run_id s) = None" by (simp add: run_view_def)
  have "entry_of J (new_run_row s i json now) =
      \<lparr>en_state = state_reads_back J s, en_identity = Inr i, en_legacy = False\<rparr>"
    using assms(2-4) identity_of_new_row [OF assms(2), of s json now] source_not_legacy
    by (cases "identity_columns i") (simp add: entry_of_def state_reads_back_def other_def new_run_row_def)
  then show "run_view J db' = (run_view J db)(rn_run_id s \<mapsto>
      \<lparr>en_state = state_reads_back J s, en_identity = Inr i, en_legacy = False\<rparr>)"
    using find(1) by (auto simp: run_view_def fun_eq_iff)
qed

lemma run_view_save:
  assumes "js_state_to_string J s = Inr json" and "save_run s json db = (n, db')"
  shows "n = 0 \<Longrightarrow> db' = db"
    and "n \<noteq> 0 \<Longrightarrow> \<exists>e. run_view J db (rn_run_id s) = Some e \<and>
      run_view J db' = (run_view J db)(rn_run_id s \<mapsto> e\<lparr>en_state := state_reads_back J s\<rparr>)"
proof -
  let ?mine = "filter (\<lambda>r. rr_run_id r = rn_run_id s) (rd_runs db)"
  from assms(2) have n: "n = length ?mine" and db': "db' = update_run (rn_run_id s) (saved_row s json) db"
    by (simp_all add: save_run_def)
  show "db' = db" if "n = 0"
  proof -
    from that n have "\<forall>r\<in>set (rd_runs db). rr_run_id r \<noteq> rn_run_id s" by (auto simp: filter_empty_conv)
    then have "map (\<lambda>r. if rr_run_id r = rn_run_id s then saved_row s json r else r) (rd_runs db) = rd_runs db"
      by (intro map_idI) auto
    with db' show ?thesis by (simp add: update_run_def)
  qed
  show "\<exists>e. run_view J db (rn_run_id s) = Some e \<and>
      run_view J db' = (run_view J db)(rn_run_id s \<mapsto> e\<lparr>en_state := state_reads_back J s\<rparr>)" if "n \<noteq> 0"
  proof -
    from that n have "find_run (rn_run_id s) db \<noteq> None" by (auto simp: find_run_def find_None_iff filter_empty_conv)
    then obtain row where row: "find_run (rn_run_id s) db = Some row" by auto
    then have "rr_run_id row = rn_run_id s" unfolding find_run_def by (rule find_Some_simp)
    with assms(1) have "entry_of J (saved_row s json row) = (entry_of J row)\<lparr>en_state := state_reads_back J s\<rparr>"
      by (simp add: entry_of_def state_reads_back_def other_def) (simp add: saved_row_def)
    with row show ?thesis
      by (auto simp: run_view_def db' find_update_run fun_eq_iff)
  qed
qed

lemma run_view_adopt:
  assumes "adopted_state J run_id (map_option (\<lambda>row. (rr_identity_source row, rr_state_json row)) (find_run run_id db)) mode =
      Some (Inr json)"
    and "identity_valid i" "ri_source i = Adopted"
  shows "\<exists>e st. run_view J db run_id = Some e \<and> en_legacy e \<and>
    run_view J (update_run run_id (adopted_row i json now) db) =
      (run_view J db)(run_id \<mapsto> \<lparr>en_state = st, en_identity = Inr i, en_legacy = False\<rparr>)"
proof -
  from assms(1) obtain row where row: "find_run run_id db = Some row"
    and legacy: "rr_identity_source row = identity_source_as_str Legacy"
    by (auto simp: adopted_state_def split: option.splits if_splits)
  have "en_legacy (entry_of J row)" using legacy by (simp add: entry_of_def)
  moreover have "entry_of J (adopted_row i json now row) =
      \<lparr>en_state = decode_state J (rr_run_id row) json, en_identity = Inr i, en_legacy = False\<rparr>"
    using identity_of_adopted_row [OF assms(2), of json now row] assms(3)
    by (cases "identity_columns i") (simp add: entry_of_def adopted_row_def)
  ultimately show ?thesis using row
    by (auto simp: run_view_def find_update_run fun_eq_iff)
qed

section \<open>Every outcome of every call\<close>

lemma op_result_simps [simp]: "op_result r w = (r, w)"
  by (simp add: op_result_def)

lemma sqlite_on_cases:
  assumes "sqlite_on store c m db = (r, db')"
  shows "refused r \<and> db' = db \<or> m db = (r, db')"
  using assms by (cases "sqlite_open store (sc_opening c)") (auto simp: sqlite_on_def)

lemma bind_result_cases:
  assumes "io_bind (op_result q) f db = (r, db')"
  shows "refused r \<and> db' = db \<or> (\<exists>a. q = Inr a \<and> f a db = (r, db'))"
  using assms by (cases q) auto

lemma refuse_legacy_Inr [simp]: "refuse_legacy_creation s i = Inr u \<longleftrightarrow> ri_source i \<noteq> Legacy"
  by (simp add: refuse_legacy_creation_def)

lemma refuse_unadopted_Inr [simp]: "refuse_unadopted i = Inr u \<longleftrightarrow> ri_source i = Adopted"
  by (simp add: refuse_unadopted_def)

lemma other_Inr [simp]: "other q = Inr a \<longleftrightarrow> q = Inr a"
  by (simp add: other_def)

text \<open>Creating a run, on both backends: refused, or the row is in.\<close>

lemma sqlite_create_cases:
  assumes "sqlite_call_ok c" and "sqlite_create_run J store c s i db = (r, db')"
  shows "refused r \<and> db' = db \<or>
    (\<exists>json now. landed r \<and> ri_source i \<noteq> Legacy \<and> js_state_to_string J s = Inr json \<and>
      insert_run (new_run_row s i json now) db = Some db')"
proof -
  let ?f = "\<lambda>json db. case insert_run (new_run_row s i json (sc_now c)) db of
      None \<Rightarrow> Inl (SqliteFailure ConstraintViolation 1555 ''UNIQUE constraint failed: bot_runs.run_id'')
    | Some db' \<Rightarrow> Inr ((), db')"
  from assms(2) consider "refused r \<and> db' = db"
    | (run) json where "ri_source i \<noteq> Legacy" "js_state_to_string J s = Inr json"
      "(case sqlite_execute c (?f json) db of (Inr _, db') \<Rightarrow> (Inr (), db')
        | (Inl e, db') \<Rightarrow> (Inl (case e of SqliteFailure ConstraintViolation _ _ \<Rightarrow> already_exists (rn_run_id s)
            | _ \<Rightarrow> sqlite_commit_failed e), db')) = (r, db')"
    unfolding sqlite_create_run_def
    by (auto dest!: bind_result_cases sqlite_on_cases)
  then show ?thesis
  proof cases
    case run
    have unknown: "storage_error_kind (case e of SqliteFailure ConstraintViolation _ _ \<Rightarrow> already_exists (rn_run_id s)
        | _ \<Rightarrow> sqlite_commit_failed e) = KindOutcomeUnknown" if "disk_trouble e" for e
      using disk_trouble_unknown [OF that] that
      by (auto simp: disk_trouble_def split: rusqlite_error.splits sqlite_code.splits)
    obtain q db1 where q: "sqlite_execute c (?f json) db = (q, db1)" by fastforce
    with run(3) have db1: "db1 = db'" by (auto split: sum.splits)
    have "db1 = db \<and> (\<exists>e. q = Inl e) \<or> insert_run (new_run_row s i json (sc_now c)) db = Some db1 \<and>
        (q = Inr () \<or> (\<exists>e. q = Inl e \<and> disk_trouble e))"
      using q assms(1)
      by (auto simp: sqlite_execute_def sqlite_call_ok_def split: sqlite_fault.splits option.splits if_splits)
    then show ?thesis
    proof
      assume "db1 = db \<and> (\<exists>e. q = Inl e)"
      with q run(3) db1 show ?thesis by auto
    next
      assume *: "insert_run (new_run_row s i json (sc_now c)) db = Some db1 \<and> (q = Inr () \<or> (\<exists>e. q = Inl e \<and> disk_trouble e))"
      then have "landed r" using q run(3) unknown by auto
      with * db1 run(1,2) show ?thesis by blast
    qed
  qed auto
qed

lemma pg_write_cases:
  assumes "pg_call_ok c" and "pg_write store c f db = (r, db')"
  shows "refused r \<and> db' = db \<or>
    (\<exists>a. f db = Inr (a, db') \<and> landed r \<and> (\<forall>b. r = Inr b \<longrightarrow> b = a))"
  using pg_execute_cases [OF assms(1) assms(2) [unfolded pg_write_def]] by auto

lemma unique_not_in_doubt: "sqlstate e = Some unique_violation \<Longrightarrow> \<not> in_doubt e"
  by (simp add: in_doubt_def sqlstate_defs starts_with_def)

lemma pg_create_cases:
  assumes "pg_call_ok c" and "pg_create_run J store c s i db = (r, db')"
  shows "refused r \<and> db' = db \<or>
    (\<exists>json now. landed r \<and> ri_source i \<noteq> Legacy \<and> js_state_to_string J s = Inr json \<and>
      insert_run (new_run_row s i json now) db = Some db')"
proof -
  let ?work = "\<lambda>json. \<lparr>pw_statements = (\<lambda>db.
            (case insert_run (new_run_row s i json (pc_now c)) db of
               None \<Rightarrow> Inl (ServerError unique_violation ''duplicate key value violates unique constraint'')
             | Some db' \<Rightarrow> Inr (True, db'))),
          pw_on_error = (\<lambda>e. if sqlstate e = Some unique_violation then Inr False else Inl e)\<rparr>"
  from assms(2) consider "refused r \<and> db' = db"
    | (run) json where "ri_source i \<noteq> Legacy" "js_state_to_string J s = Inr json"
      "io_bind (pg_execute (pgs_bounded store) WriteCall c (?work json))
        (\<lambda>created. if created then io_return () else io_fail (already_exists (rn_run_id s))) db = (r, db')"
    unfolding pg_create_run_def by (auto dest!: bind_result_cases)
  then show ?thesis
  proof cases
    case run
    obtain q db1 where q: "pg_execute (pgs_bounded store) WriteCall c (?work json) db = (q, db1)" by fastforce
    with run(3) have db1: "db1 = db'" and r: "r = (case q of Inl e \<Rightarrow> Inl e
        | Inr created \<Rightarrow> if created then Inr () else Inl (already_exists (rn_run_id s)))"
      by (auto simp: io_bind_def split: sum.splits if_splits)
    have "refused q \<and> db1 = db \<or> q = Inr False \<and> db1 = db \<or>
        (insert_run (new_run_row s i json (pc_now c)) db = Some db1 \<and> landed q \<and> q \<noteq> Inr False)"
    proof -
      have "refused q \<and> db1 = db \<or> (\<exists>e a. pw_on_error (?work json) e = Inr a \<and> q = Inr a \<and> db1 = db) \<or>
        (\<exists>a target. pw_statements (?work json) db = Inr (a, target) \<and> db1 = target \<and> landed q \<and> (\<forall>x. q = Inr x \<longrightarrow> x = a))"
        by (rule pg_execute_cases [OF assms(1) q]) (auto simp: unique_not_in_doubt split: if_splits)
      then show ?thesis by (auto split: if_splits option.splits)
    qed
    with r db1 run(1,2) show ?thesis by (cases q) auto
  qed auto
qed

lemma sqlite_save_cases:
  assumes "sqlite_call_ok c" and "sqlite_save_run_state J store c s db = (r, db')"
  shows "refused r \<and> db' = db \<or>
    (\<exists>json n. landed r \<and> js_state_to_string J s = Inr json \<and> save_run s json db = (n, db') \<and> n \<noteq> 0)"
proof -
  from assms(2) consider "refused r \<and> db' = db"
    | (run) json where "js_state_to_string J s = Inr json"
      "io_bind (sqlite_written (sqlite_execute c (\<lambda>db. Inr (save_run s json db)))) (\<lambda>updated.
       if updated = 0 then io_fail (never_created (rn_run_id s)) else io_return ()) db = (r, db')"
    unfolding sqlite_save_run_state_def by (auto dest!: bind_result_cases sqlite_on_cases)
  then show ?thesis
  proof cases
    case run
    obtain q db1 where q: "sqlite_written (sqlite_execute c (\<lambda>db. Inr (save_run s json db))) db = (q, db1)" by fastforce
    obtain n target where t: "save_run s json db = (n, target)" by fastforce
    from q run(2) have db1: "db1 = db'" and r: "r = (case q of Inl e \<Rightarrow> Inl e
        | Inr n \<Rightarrow> if n = 0 then Inl (never_created (rn_run_id s)) else Inr ())"
      by (auto simp: io_bind_def split: sum.splits if_splits)
    from sqlite_execute_cases [OF assms(1) q] t
    have "refused q \<and> db1 = db \<or> db1 = target \<and> landed q \<and> (\<forall>b. q = Inr b \<longrightarrow> b = n)" by auto
    then show ?thesis
      using r db1 t run(1) run_view_save(1) [OF run(1) t] by (cases q; cases "n = 0") auto
  qed auto
qed

lemma pg_save_cases:
  assumes "pg_call_ok c" and "pg_save_run_state J store c s db = (r, db')"
  shows "refused r \<and> db' = db \<or>
    (\<exists>json n. landed r \<and> js_state_to_string J s = Inr json \<and> save_run s json db = (n, db') \<and> n \<noteq> 0)"
proof -
  from assms(2) consider "refused r \<and> db' = db"
    | (run) json where "js_state_to_string J s = Inr json"
      "io_bind (pg_write store c (\<lambda>db. Inr (save_run s json db))) (\<lambda>updated.
       if updated = 0 then io_fail (never_created (rn_run_id s)) else io_return ()) db = (r, db')"
    unfolding pg_save_run_state_def by (auto dest!: bind_result_cases)
  then show ?thesis
  proof cases
    case run
    obtain q db1 where q: "pg_write store c (\<lambda>db. Inr (save_run s json db)) db = (q, db1)" by fastforce
    obtain n target where t: "save_run s json db = (n, target)" by fastforce
    from q run(2) have db1: "db1 = db'" and r: "r = (case q of Inl e \<Rightarrow> Inl e
        | Inr n \<Rightarrow> if n = 0 then Inl (never_created (rn_run_id s)) else Inr ())"
      by (auto simp: io_bind_def split: sum.splits if_splits)
    from pg_write_cases [OF assms(1) q] t
    have "refused q \<and> db1 = db \<or> db1 = target \<and> landed q \<and> (\<forall>b. q = Inr b \<longrightarrow> b = n)" by auto
    then show ?thesis
      using r db1 t run(1) run_view_save(1) [OF run(1) t] by (cases q; cases "n = 0") auto
  qed auto
qed

text \<open>Appending, binding and adopting.\<close>

lemma sqlite_append_cases:
  assumes "sqlite_call_ok c"
  shows "sqlite_append_order_event J store c run_id ord db = (r, db') \<Longrightarrow>
      refused r \<and> db' = db \<or>
      (\<exists>json. landed r \<and> js_order_to_string J ord = Inr json \<and> db' = insert_event run_id ord json db)"
    and "sqlite_append_closed_trade D store c run_id trade db = (q, db'') \<Longrightarrow>
      refused q \<and> db'' = db \<or> landed q \<and> db'' = insert_trade D run_id trade db"
proof -
  assume "sqlite_append_order_event J store c run_id ord db = (r, db')"
  then consider "refused r \<and> db' = db" | json where "js_order_to_string J ord = Inr json"
    "sqlite_written (sqlite_execute c (\<lambda>db. Inr ((), insert_event run_id ord json db))) db = (r, db')"
    unfolding sqlite_append_order_event_def by (auto dest!: bind_result_cases sqlite_on_cases)
  then show "refused r \<and> db' = db \<or>
      (\<exists>json. landed r \<and> js_order_to_string J ord = Inr json \<and> db' = insert_event run_id ord json db)"
  proof cases
    case 2
    from sqlite_execute_cases [OF assms 2(2)] 2(1) show ?thesis by auto
  qed auto
next
  assume "sqlite_append_closed_trade D store c run_id trade db = (q, db'')"
  then have "refused q \<and> db'' = db \<or>
      sqlite_written (sqlite_execute c (\<lambda>db. Inr ((), insert_trade D run_id trade db))) db = (q, db'')"
    unfolding sqlite_append_closed_trade_def by (rule sqlite_on_cases)
  then show "refused q \<and> db'' = db \<or> landed q \<and> db'' = insert_trade D run_id trade db"
  proof
    assume "sqlite_written (sqlite_execute c (\<lambda>db. Inr ((), insert_trade D run_id trade db))) db = (q, db'')"
    from sqlite_execute_cases [OF assms this] show ?thesis by auto
  qed auto
qed

lemma pg_append_cases:
  assumes "pg_call_ok c"
  shows "pg_append_order_event J store c run_id ord db = (r, db') \<Longrightarrow>
      refused r \<and> db' = db \<or>
      (\<exists>json. landed r \<and> js_order_to_string J ord = Inr json \<and> db' = insert_event run_id ord json db)"
    and "pg_append_closed_trade D store c run_id trade db = (q, db'') \<Longrightarrow>
      refused q \<and> db'' = db \<or> landed q \<and> db'' = insert_trade D run_id trade db"
proof -
  assume "pg_append_order_event J store c run_id ord db = (r, db')"
  then consider "refused r \<and> db' = db" | json where "js_order_to_string J ord = Inr json"
    "pg_write store c (\<lambda>db. Inr ((), insert_event run_id ord json db)) db = (r, db')"
    unfolding pg_append_order_event_def by (auto dest!: bind_result_cases)
  then show "refused r \<and> db' = db \<or>
      (\<exists>json. landed r \<and> js_order_to_string J ord = Inr json \<and> db' = insert_event run_id ord json db)"
  proof cases
    case 2
    from pg_write_cases [OF assms 2(2)] 2(1) show ?thesis by auto
  qed auto
next
  assume "pg_append_closed_trade D store c run_id trade db = (q, db'')"
  then show "refused q \<and> db'' = db \<or> landed q \<and> db'' = insert_trade D run_id trade db"
    unfolding pg_append_closed_trade_def using pg_write_cases [OF assms, of store "\<lambda>db. Inr ((), insert_trade D run_id trade db)" db q db'']
    by auto
qed

lemma bound_of_identity:
  assumes "read_identity db = Inr i"
  obtains row where "rd_control db = Some row" "bound_environment db = st_environment i"
proof -
  from assms obtain row where row: "rd_control db = Some row"
    and env: "unreadable (transposed parse_environment (co_environment row)) = Inr (st_environment i)"
    by (auto simp: read_identity_def and_then_Inr split: option.splits)
  from env have "bound_environment db = st_environment i"
    by (cases "co_environment row") (auto simp: bound_environment_def row transposed_def unreadable_def and_then_Inr)
  with row that show thesis by blast
qed

lemma bound_of_bound [simp]:
  "rd_control db = Some row \<Longrightarrow> bound_environment (bound_control e now db) = Some e"
  by (simp add: bound_environment_def bound_control_def)

lemma sqlite_bind_cases:
  assumes "sqlite_call_ok c" and "sqlite_bind_environment store c environment db = (r, db')"
  shows "db' = db \<and> (r = Inr () \<longrightarrow> bound_environment db = Some environment) \<or>
    (\<exists>now row. landed r \<and> rd_control db = Some row \<and> bound_environment db = None \<and>
      db' = bound_control environment now db)"
proof -
  let ?f = "\<lambda>db. and_then (read_identity db) (\<lambda>i. case st_environment i of
      Some bound \<Rightarrow> if bound = environment then Inr ((), None) else Inl (already_bound (st_store_id i) bound)
    | None \<Rightarrow> Inr ((), Some (bound_control environment (sc_now c) db)))"
  have f_None: "bound_environment db = Some environment" if "?f db = Inr ((), None)"
  proof -
    from that obtain i where "read_identity db = Inr i" "st_environment i = Some environment"
      by (auto simp: and_then_Inr split: option.splits if_splits)
    then show ?thesis by (auto elim: bound_of_identity)
  qed
  have f_Some: "(\<exists>row. rd_control db = Some row) \<and> bound_environment db = None \<and>
      target = bound_control environment (sc_now c) db" if f: "?f db = Inr ((), Some target)" for target
  proof -
    from f obtain i where i: "read_identity db = Inr i" "st_environment i = None"
        "target = bound_control environment (sc_now c) db"
      by (auto simp: and_then_Inr split: option.splits if_splits)
    obtain row where "rd_control db = Some row" "bound_environment db = st_environment i"
      by (rule bound_of_identity [OF i(1)])
    with i show ?thesis by auto
  qed
  from assms(2) have "refused r \<and> db' = db \<or> sqlite_transaction c ?f db = (r, db')"
    unfolding sqlite_bind_environment_def by (rule sqlite_on_cases)
  then show ?thesis
  proof
    assume "sqlite_transaction c ?f db = (r, db')"
    from sqlite_transaction_cases [OF assms(1) this] show ?thesis
      using f_None f_Some by auto
  qed auto
qed

lemma pg_bind_cases:
  assumes "pg_call_ok c" and "pg_bind_environment store c environment db = (r, db')"
  shows "db' = db \<and> (r = Inr () \<longrightarrow> bound_environment db = Some environment) \<or>
    (\<exists>now row. landed r \<and> rd_control db = Some row \<and> bound_environment db = None \<and>
      db' = bound_control environment now db)"
proof -
  let ?f = "\<lambda>db. and_then (one_row (rd_control db)) (\<lambda>row.
         case unreadable (transposed parse_environment (co_environment row)) of
           Inl e \<Rightarrow> Inr (Inl e, db)
         | Inr (Some bound) \<Rightarrow>
             if bound = environment then Inr (Inr (), db)
             else Inr (and_then (unreadable (store_id_new (co_store_id row))) (\<lambda>i. Inl (already_bound i bound)), db)
         | Inr None \<Rightarrow> Inr (Inr (), bound_control environment (pc_now c) db))"
  obtain q db1 where q: "pg_write store c ?f db = (q, db1)" by fastforce
  with assms(2) have r: "db1 = db'" "r = (case q of Inl e \<Rightarrow> Inl e | Inr x \<Rightarrow> x)"
    by (auto simp: pg_bind_environment_def io_bind_def split: sum.splits)
  from pg_write_cases [OF assms(1) q]
  have "refused q \<and> db1 = db \<or> (\<exists>a. ?f db = Inr (a, db1) \<and> landed q \<and> (\<forall>b. q = Inr b \<longrightarrow> b = a))" .
  then show ?thesis
  proof
    assume "refused q \<and> db1 = db"
    with r show ?thesis by (cases q) auto
  next
    assume "\<exists>a. ?f db = Inr (a, db1) \<and> landed q \<and> (\<forall>b. q = Inr b \<longrightarrow> b = a)"
    then obtain a row where a: "?f db = Inr (a, db1)" and landed: "landed q" and qa: "\<forall>b. q = Inr b \<longrightarrow> b = a"
      and row: "rd_control db = Some row"
      by (auto simp: one_row_def and_then_Inr)
    show ?thesis
    proof (cases "co_environment row")
      case None
      with a row have "a = Inr ()" "db1 = bound_control environment (pc_now c) db" "bound_environment db = None"
        by (auto simp: one_row_def transposed_def unreadable_def bound_environment_def)
      moreover from this qa landed r have "landed r" by (cases q) auto
      ultimately show ?thesis using r row by blast
    next
      case (Some env)
      show ?thesis
      proof (cases "parse_environment env")
        case (Inl e)
        with a row Some have "(\<exists>e. a = Inl e) \<and> db1 = db"
          by (auto simp: one_row_def transposed_def unreadable_def)
        with r qa show ?thesis by (cases q) auto
      next
        case (Inr b)
        with row Some have b: "bound_environment db = Some b" by (simp add: bound_environment_def)
        from a row Some Inr have "db1 = db \<and> (a = Inr () \<longrightarrow> b = environment)"
          by (auto simp: one_row_def transposed_def unreadable_def and_then_Inr split: if_splits)
        with r qa b show ?thesis by (cases q) auto
      qed
    qed
  qed
qed

abbreviation found_run :: "string \<Rightarrow> run_db \<Rightarrow> (string \<times> string) option" where
  "found_run run_id db \<equiv> map_option (\<lambda>row. (rr_identity_source row, rr_state_json row)) (find_run run_id db)"

lemma sqlite_adopt_cases:
  assumes "sqlite_call_ok c" and "sqlite_adopt_run J store c run_id i mode db = (r, db')"
  shows "r \<noteq> Inr (Some ()) \<and> db' = db \<or>
    (\<exists>json now. landed r \<and> r \<noteq> Inr None \<and> ri_source i = Adopted \<and>
      adopted_state J run_id (found_run run_id db) mode = Some (Inr json) \<and>
      db' = update_run run_id (adopted_row i json now) db)"
proof -
  let ?f = "\<lambda>db. case adopted_state J run_id (found_run run_id db) mode of
           None \<Rightarrow> Inr (None, None)
         | Some (Inl e) \<Rightarrow> Inl e
         | Some (Inr json) \<Rightarrow> Inr (Some (), Some (update_run run_id (adopted_row i json (sc_now c)) db))"
  from assms(2) consider "refused r \<and> db' = db" | "ri_source i = Adopted" "sqlite_transaction c ?f db = (r, db')"
    unfolding sqlite_adopt_run_def by (auto dest!: bind_result_cases sqlite_on_cases)
  then show ?thesis
  proof cases
    case 2
    from sqlite_transaction_cases [OF assms(1) 2(2)] 2(1) show ?thesis
      by (auto split: option.splits sum.splits)
  qed auto
qed

lemma pg_adopt_cases:
  assumes "pg_call_ok c" and "pg_adopt_run J store c run_id i mode db = (r, db')"
  shows "r \<noteq> Inr (Some ()) \<and> db' = db \<or>
    (\<exists>json now. landed r \<and> r \<noteq> Inr None \<and> ri_source i = Adopted \<and>
      adopted_state J run_id (found_run run_id db) mode = Some (Inr json) \<and>
      db' = update_run run_id (adopted_row i json now) db)"
proof -
  let ?f = "\<lambda>db. case adopted_state J run_id (found_run run_id db) mode of
         None \<Rightarrow> (Inr (Inr None, db) :: tokio_error + _)
       | Some (Inl e) \<Rightarrow> Inr (Inl e, db)
       | Some (Inr json) \<Rightarrow> Inr (Inr (Some ()), update_run run_id (adopted_row i json (pc_now c)) db)"
  from assms(2) consider "refused r \<and> db' = db" | "ri_source i = Adopted"
    "io_bind (pg_write store c ?f) op_result db = (r, db')"
    unfolding pg_adopt_run_def by (auto dest!: bind_result_cases)
  then show ?thesis
  proof cases
    case 2
    obtain q db1 where q: "pg_write store c ?f db = (q, db1)" by fastforce
    with 2(2) have r: "db1 = db'" "r = (case q of Inl e \<Rightarrow> Inl e | Inr x \<Rightarrow> x)"
      by (auto simp: io_bind_def split: sum.splits)
    from pg_write_cases [OF assms(1) q]
    have "refused q \<and> db1 = db \<or> (\<exists>a. ?f db = Inr (a, db1) \<and> landed q \<and> (\<forall>b. q = Inr b \<longrightarrow> b = a))" .
    with 2(1) r show ?thesis
      by (cases q) (auto split: option.splits sum.splits)
  qed auto
qed

text \<open>Reading.\<close>

lemma sqlite_read_cases:
  assumes "sqlite_on store c (sqlite_query c f) db = (r, db')"
  shows "db' = db \<and> (refused r \<or> r = f db)"
  using sqlite_on_cases [OF assms] by (auto simp: sqlite_query_def split: sqlite_fault.splits)

lemma pg_read_cases:
  assumes "pg_read store c f db = (r, db')"
  shows "db' = db \<and> (refused r \<or> r = Inr (f db))"
  using assms
  by (auto simp: pg_read_def pg_execute_def pg_job_def pg_answered_def pg_kept_def
      split: option.splits pool_end.splits work_end.splits if_splits)

lemma pg_read_then_cases:
  assumes "io_bind (pg_read store c f) (\<lambda>a. op_result (g a)) db = (r, db')"
  shows "db' = db \<and> (refused r \<or> r = g (f db))"
proof -
  obtain q db1 where q: "pg_read store c f db = (q, db1)" by fastforce
  from pg_read_cases [OF q] q assms show ?thesis by (cases q) (auto simp: io_bind_def)
qed

lemma transposed_map [simp]: "transposed f (map_option g x) = transposed (\<lambda>a. f (g a)) x"
  by (cases x) (simp_all add: transposed_def)

lemma transposed_Inr:
  "transposed f x = Inr y \<longleftrightarrow> (case x of None \<Rightarrow> y = None | Some a \<Rightarrow> \<exists>b. f a = Inr b \<and> y = Some b)"
  by (auto simp: transposed_def and_then_Inr split: option.splits)

lemma any_journal_simps:
  "jo_create_run (any_journal D J store) c = (case store of
     AnySqlite st \<Rightarrow> sqlite_create_run J st (ac_sqlite c) | AnyPostgres p \<Rightarrow> pg_create_run J p (ac_postgres c))"
  "jo_save_run_state (any_journal D J store) c = (case store of
     AnySqlite st \<Rightarrow> sqlite_save_run_state J st (ac_sqlite c) | AnyPostgres p \<Rightarrow> pg_save_run_state J p (ac_postgres c))"
  "jo_load_run_state (any_journal D J store) c = (case store of
     AnySqlite st \<Rightarrow> sqlite_load_run_state J st (ac_sqlite c) | AnyPostgres p \<Rightarrow> pg_load_run_state J p (ac_postgres c))"
  "jo_run_identity (any_journal D J store) c = (case store of
     AnySqlite st \<Rightarrow> sqlite_run_identity st (ac_sqlite c) | AnyPostgres p \<Rightarrow> pg_run_identity p (ac_postgres c))"
  "jo_latest_run_for_market (any_journal D J store) c = (case store of
     AnySqlite st \<Rightarrow> sqlite_latest_run_for_market J st (ac_sqlite c)
   | AnyPostgres p \<Rightarrow> pg_latest_run_for_market J p (ac_postgres c))"
  "jo_append_order_event (any_journal D J store) c = (case store of
     AnySqlite st \<Rightarrow> sqlite_append_order_event J st (ac_sqlite c)
   | AnyPostgres p \<Rightarrow> pg_append_order_event J p (ac_postgres c))"
  "jo_append_closed_trade (any_journal D J store) c = (case store of
     AnySqlite st \<Rightarrow> sqlite_append_closed_trade D st (ac_sqlite c)
   | AnyPostgres p \<Rightarrow> pg_append_closed_trade D p (ac_postgres c))"
  "jo_list_order_events (any_journal D J store) c = (case store of
     AnySqlite st \<Rightarrow> sqlite_list_order_events J st (ac_sqlite c)
   | AnyPostgres p \<Rightarrow> pg_list_order_events J p (ac_postgres c))"
  "jo_list_closed_trades (any_journal D J store) c = (case store of
     AnySqlite st \<Rightarrow> sqlite_list_closed_trades D st (ac_sqlite c)
   | AnyPostgres p \<Rightarrow> pg_list_closed_trades D p (ac_postgres c))"
  "jo_bind_environment (any_journal D J store) c = (case store of
     AnySqlite st \<Rightarrow> sqlite_bind_environment st (ac_sqlite c) | AnyPostgres p \<Rightarrow> pg_bind_environment p (ac_postgres c))"
  "jo_adopt_run (any_journal D J store) c = (case store of
     AnySqlite st \<Rightarrow> sqlite_adopt_run J st (ac_sqlite c) | AnyPostgres p \<Rightarrow> pg_adopt_run J p (ac_postgres c))"
  by (simp_all add: any_journal_def delegate_def sqlite_journal_def pg_journal_def split: any_store.splits)

lemma any_call_okD: "any_call_ok c \<Longrightarrow> sqlite_call_ok (ac_sqlite c)" "any_call_ok c \<Longrightarrow> pg_call_ok (ac_postgres c)"
  by (simp_all add: any_call_ok_def)

lemma any_create_cases:
  assumes "any_call_ok c" and "jo_create_run (any_journal D J store) c s i db = (r, db')"
  shows "refused r \<and> db' = db \<or>
    (\<exists>json now. landed r \<and> ri_source i \<noteq> Legacy \<and> js_state_to_string J s = Inr json \<and>
      insert_run (new_run_row s i json now) db = Some db')"
  using assms by (cases store) (auto simp: any_journal_simps dest!: sqlite_create_cases [rotated] pg_create_cases [rotated] dest: any_call_okD)

lemma any_save_cases:
  assumes "any_call_ok c" and "jo_save_run_state (any_journal D J store) c s db = (r, db')"
  shows "refused r \<and> db' = db \<or>
    (\<exists>json n. landed r \<and> js_state_to_string J s = Inr json \<and> save_run s json db = (n, db') \<and> n \<noteq> 0)"
proof (cases store)
  case (AnySqlite st)
  with assms sqlite_save_cases [OF any_call_okD(1) [OF assms(1)]] show ?thesis by (simp add: any_journal_simps)
next
  case (AnyPostgres p)
  with assms pg_save_cases [OF any_call_okD(2) [OF assms(1)]] show ?thesis by (simp add: any_journal_simps)
qed

lemma any_event_cases:
  assumes "any_call_ok c" and "jo_append_order_event (any_journal D J store) c run_id ord db = (r, db')"
  shows "refused r \<and> db' = db \<or>
    (\<exists>json. landed r \<and> js_order_to_string J ord = Inr json \<and> db' = insert_event run_id ord json db)"
proof (cases store)
  case (AnySqlite st)
  with assms sqlite_append_cases(1) [OF any_call_okD(1) [OF assms(1)]] show ?thesis by (simp add: any_journal_simps)
next
  case (AnyPostgres p)
  with assms pg_append_cases(1) [OF any_call_okD(2) [OF assms(1)]] show ?thesis by (simp add: any_journal_simps)
qed

lemma any_trade_cases:
  assumes "any_call_ok c" and "jo_append_closed_trade (any_journal D J store) c run_id trade db = (r, db')"
  shows "refused r \<and> db' = db \<or> landed r \<and> db' = insert_trade D run_id trade db"
proof (cases store)
  case (AnySqlite st)
  with assms sqlite_append_cases(2) [OF any_call_okD(1) [OF assms(1)]] show ?thesis by (simp add: any_journal_simps)
next
  case (AnyPostgres p)
  with assms pg_append_cases(2) [OF any_call_okD(2) [OF assms(1)]] show ?thesis by (simp add: any_journal_simps)
qed

lemma any_bind_cases:
  assumes "any_call_ok c" and "jo_bind_environment (any_journal D J store) c environment db = (r, db')"
  shows "db' = db \<and> (r = Inr () \<longrightarrow> bound_environment db = Some environment) \<or>
    (\<exists>now row. landed r \<and> rd_control db = Some row \<and> bound_environment db = None \<and>
      db' = bound_control environment now db)"
proof (cases store)
  case (AnySqlite st)
  with assms sqlite_bind_cases [OF any_call_okD(1) [OF assms(1)]] show ?thesis by (simp add: any_journal_simps)
next
  case (AnyPostgres p)
  with assms pg_bind_cases [OF any_call_okD(2) [OF assms(1)]] show ?thesis by (simp add: any_journal_simps)
qed

lemma any_adopt_cases:
  assumes "any_call_ok c" and "jo_adopt_run (any_journal D J store) c run_id i mode db = (r, db')"
  shows "r \<noteq> Inr (Some ()) \<and> db' = db \<or>
    (\<exists>json now. landed r \<and> r \<noteq> Inr None \<and> ri_source i = Adopted \<and>
      adopted_state J run_id (found_run run_id db) mode = Some (Inr json) \<and>
      db' = update_run run_id (adopted_row i json now) db)"
proof (cases store)
  case (AnySqlite st)
  with assms sqlite_adopt_cases [OF any_call_okD(1) [OF assms(1)]] show ?thesis by (simp add: any_journal_simps)
next
  case (AnyPostgres p)
  with assms pg_adopt_cases [OF any_call_okD(2) [OF assms(1)]] show ?thesis by (simp add: any_journal_simps)
qed

lemma any_load_cases:
  assumes "jo_load_run_state (any_journal D J store) c run_id db = (r, db')"
  shows "db' = db \<and> (refused r \<or> r = transposed (\<lambda>row. decode_state J run_id (rr_state_json row)) (find_run run_id db))"
  using assms
  by (cases store) (auto simp: any_journal_simps sqlite_load_run_state_def pg_load_run_state_def
      dest!: sqlite_read_cases pg_read_then_cases)

lemma any_identity_cases:
  assumes "jo_run_identity (any_journal D J store) c run_id db = (r, db')"
  shows "db' = db \<and> (refused r \<or> r = transposed (\<lambda>row. unreadable (identity_of_row row)) (find_run run_id db))"
  using assms
  by (cases store) (auto simp: any_journal_simps sqlite_run_identity_def pg_run_identity_def
      dest!: sqlite_read_cases pg_read_then_cases)

lemma any_latest_cases:
  assumes "jo_latest_run_for_market (any_journal D J store) c market strategy db = (r, db')"
  shows "db' = db \<and> (refused r \<or>
    r = transposed (\<lambda>row. decode_state J (rr_run_id row) (rr_state_json row)) (latest_row market strategy db))"
  using assms
  by (cases store) (auto simp: any_journal_simps sqlite_latest_run_for_market_def pg_latest_run_for_market_def
      dest!: sqlite_read_cases pg_read_then_cases)

lemma found_id: "find_run run_id db = Some row \<Longrightarrow> rr_run_id row = run_id"
  unfolding find_run_def by (rule find_Some_simp)

interpretation any: run_journal "any_journal D J store" any_call_ok "run_view J" bound_environment "state_reads_back J"
  for D J store
proof (standard, goal_cases)
  case (1 c i s w r w')
  from any_create_cases [OF 1(1,3)] show ?case
  proof (elim disjE exE conjE)
    fix json now
    assume *: "landed r" "ri_source i \<noteq> Legacy" "js_state_to_string J s = Inr json"
      "insert_run (new_run_row s i json now) w = Some w'"
    from run_view_insert [OF *(4) 1(2) *(2,3)] * show ?case by simp
  qed auto
next
  case (2 c s w r w')
  from any_save_cases [OF 2] show ?case
  proof (elim disjE exE conjE)
    fix json n
    assume *: "landed r" "js_state_to_string J s = Inr json" "save_run s json w = (n, w')" "n \<noteq> 0"
    from *(3) have "bound_environment w' = bound_environment w" by (auto simp: save_run_def)
    with run_view_save(2) [OF *(2,3,4)] *(1) show ?case by auto
  qed auto
next
  case (3 c run_id w found w' x)
  have "transposed (\<lambda>row. decode_state J run_id (rr_state_json row)) (find_run run_id w) = Inr x" if "found = Inr x"
    using any_load_cases [OF 3(2)] that by auto
  with any_load_cases [OF 3(2)] show ?case
    by (auto simp: run_view_def entry_of_def transposed_Inr found_id split: option.splits)
next
  case (4 c run_id w told w' y)
  have "transposed (\<lambda>row. unreadable (identity_of_row row)) (find_run run_id w) = Inr y" if "told = Inr y"
    using any_identity_cases [OF 4(2)] that by auto
  with any_identity_cases [OF 4(2)] show ?case
    by (auto simp: run_view_def entry_of_def transposed_Inr unreadable_def split: option.splits)
next
  case (5 c i run_id mode w q w')
  from any_adopt_cases [OF 5(1,3)] show ?case
  proof (elim disjE exE conjE)
    fix json now
    assume *: "landed q" "q \<noteq> Inr None" "ri_source i = Adopted"
      "adopted_state J run_id (found_run run_id w) mode = Some (Inr json)"
      "w' = update_run run_id (adopted_row i json now) w"
    from run_view_adopt [OF *(4) 5(2) *(3), of now] * show ?case by auto
  qed auto
next
  case (6 c environment w r w')
  from any_bind_cases [OF 6] show ?case by (auto simp: run_view_def)
next
  case (7 c run_id ord w r w')
  from any_event_cases [OF 7] show ?case by (auto simp: run_view_def)
next
  case (8 c run_id trade w r w')
  from any_trade_cases [OF 8] show ?case by (auto simp: run_view_def)
qed

section \<open>Properties\<close>

lemma honest_if: "(\<And>db r db'. m db = (r, db') \<Longrightarrow> refused r \<and> db' = db \<or> landed r) \<Longrightarrow> honest m"
  unfolding honest_def by force

text \<open>C11: a call that fails says what it did: unless it reports an unknown outcome, the database is as it was.\<close>

theorem failed_writes_change_nothing:
  assumes "any_call_ok c"
  shows "honest (jo_create_run (any_journal D J store) c s i) \<and> honest (jo_save_run_state (any_journal D J store) c s) \<and>
    honest (jo_append_order_event (any_journal D J store) c run_id ord) \<and>
    honest (jo_append_closed_trade (any_journal D J store) c run_id trade) \<and>
    honest (jo_bind_environment (any_journal D J store) c environment) \<and>
    honest (jo_adopt_run (any_journal D J store) c run_id i mode)"
proof (intro conjI)
  show "honest (jo_create_run (any_journal D J store) c s i)"
    by (rule honest_if) (use any_create_cases [OF assms] in blast)
  show "honest (jo_save_run_state (any_journal D J store) c s)"
    by (rule honest_if) (use any_save_cases [OF assms] in blast)
  show "honest (jo_append_order_event (any_journal D J store) c run_id ord)"
    by (rule honest_if) (use any_event_cases [OF assms] in blast)
  show "honest (jo_append_closed_trade (any_journal D J store) c run_id trade)"
    by (rule honest_if) (use any_trade_cases [OF assms] in blast)
  show "honest (jo_bind_environment (any_journal D J store) c environment)"
    unfolding honest_def using any_bind_cases [OF assms] by fastforce
  show "honest (jo_adopt_run (any_journal D J store) c run_id i mode)"
    unfolding honest_def using any_adopt_cases [OF assms] by fastforce
qed


text \<open>C12: a run is created once and reads back: its state as it was written, its identity for as long as the store
  lives, and a second creation under its id is refused and changes nothing.\<close>

theorem created_runs_read_back:
  assumes J: "json_laws J" and "any_call_ok c" "identity_valid i"
    and "jo_create_run (any_journal D J store) c s i db = (Inr (), db1)" and d: "any_call_ok d"
  shows "(jo_load_run_state (any_journal D J store) d (rn_run_id s) db1 = (Inr x, db2) \<longrightarrow> x = Some s) \<and>
    ((journal_step (any_journal D J store) any_call_ok)\<^sup>*\<^sup>* db1 db3 \<longrightarrow>
       (jo_run_identity (any_journal D J store) d (rn_run_id s) db3 = (Inr y, db4) \<longrightarrow> y = Some i) \<and>
       (identity_valid j \<longrightarrow> rn_run_id t = rn_run_id s \<longrightarrow>
        jo_create_run (any_journal D J store) d t j db3 = (r, db5) \<longrightarrow> refused r \<and> db5 = db3))"
proof (intro conjI impI)
  from any_create_cases [OF assms(2,4)] obtain json where "js_state_to_string J s = Inr json" by auto
  with json_lawsD(1) [OF J] have again: "state_reads_back J s = Inr s"
    by (simp add: state_reads_back_def other_def decode_written)
  show "x = Some s" if "jo_load_run_state (any_journal D J store) d (rn_run_id s) db1 = (Inr x, db2)"
    by (rule any.created_state [OF assms(2-4) again d that])
  assume steps: "(journal_step (any_journal D J store) any_call_ok)\<^sup>*\<^sup>* db1 db3"
  show "y = Some i" if "jo_run_identity (any_journal D J store) d (rn_run_id s) db3 = (Inr y, db4)"
    by (rule any.created_identity [OF assms(2-4) steps d that])
  assume "identity_valid j" "rn_run_id t = rn_run_id s"
    "jo_create_run (any_journal D J store) d t j db3 = (r, db5)"
  from any.created_once [OF assms(2-4) steps d this] show "refused r" "db5 = db3" by auto
qed

text \<open>An adopted run was legacy, has the adopted identity, and loads, with the mode the operator stated where its
  record had none.\<close>

theorem adopted_runs_load:
  assumes J: "json_laws J" and "any_call_ok c" "identity_valid i"
    and "jo_adopt_run (any_journal D J store) c run_id i mode db = (Inr (Some ()), db1)"
  shows "ri_source i = Adopted \<and>
    (\<exists>e. run_view J db run_id = Some e \<and> en_legacy e) \<and>
    (\<exists>st. run_view J db1 run_id = Some \<lparr>en_state = Inr st, en_identity = Inr i, en_legacy = False\<rparr> \<and>
      (mode = Some m \<longrightarrow> rn_execution_mode st = m))"
proof -
  from any_adopt_cases [OF assms(2,4)] obtain json now where source: "ri_source i = Adopted"
    and adopted: "adopted_state J run_id (found_run run_id db) mode = Some (Inr json)"
    and db1: "db1 = update_run run_id (adopted_row i json now) db" by auto
  from adopted_state_loads [OF J adopted, of m] obtain old st where
    old: "found_run run_id db = Some (identity_source_as_str Legacy, old)"
    and st: "js_state_from_string J json = Inr st" "mode = Some m \<longrightarrow> rn_execution_mode st = m" by blast
  from old obtain row where row: "find_run run_id db = Some row"
    and legacy: "rr_identity_source row = identity_source_as_str Legacy" by auto
  have entry: "entry_of J (adopted_row i json now row) = \<lparr>en_state = Inr st, en_identity = Inr i, en_legacy = False\<rparr>"
    using identity_of_adopted_row [OF assms(3), of json now row] source decode_written [OF st(1)]
    by (cases "identity_columns i") (simp add: entry_of_def adopted_row_def)
  have "run_view J db run_id = Some (entry_of J row)" "en_legacy (entry_of J row)"
    using row legacy by (simp_all add: run_view_def entry_of_def)
  moreover have "run_view J db1 run_id = Some \<lparr>en_state = Inr st, en_identity = Inr i, en_legacy = False\<rparr>"
    using row entry by (simp add: run_view_def db1 find_update_run)
  ultimately show ?thesis using source st(2) by blast
qed

section \<open>Witnesses\<close>

text \<open>A JSON that writes one state and one order, and a legacy record that gains its mode.\<close>

definition sample_order :: "sdec exchange_order" where
  "sample_order =
     \<lparr>xo_symbol = Symbol ''BTCUSDT'', xo_side = Buy, xo_order_type = ''MARKET'', xo_status = StatusFilled,
      xo_order_id = Some (VenueOrderId ''1''), xo_client_order_id = None, xo_requested_qty = None,
      xo_requested_quote_qty = None, xo_executed_qty = Some (s_of 2 0), xo_cumulative_quote_qty = None,
      xo_avg_price = None, xo_transact_time_ms = Some 7, xo_fills = None\<rparr>"

definition sample_json :: "(nat, sdec, unit) json_api" where
  "sample_json =
     \<lparr>js_state_to_string = (\<lambda>s. if s = sample_run then Inr ''run'' else Inl ''unwritable''),
      js_state_from_string = (\<lambda>t. if t = ''run'' then Inr sample_run else Inl ''not a run''),
      js_state_from_value = (\<lambda>v. if v = 1 then Inr sample_run else Inl ''not a run''),
      js_value_from_string = (\<lambda>t. if t = ''old'' then Inr 0 else if t = ''run'' then Inr 1 else Inl ''not JSON''),
      js_value_to_string = (\<lambda>v. if v = 1 then Inr ''run'' else if v = 0 then Inr ''old'' else Inl ''unwritable''),
      js_get = (\<lambda>v k. if v = 1 \<and> k = ''execution_mode'' then Some 2 else None),
      js_put = (\<lambda>v k x. if v = 0 \<and> x = 2 then Some 1 else Some 4),
      js_index = (\<lambda>v k. 4),
      js_mode_to_value = (\<lambda>m. Inr (if m = Live then 2 else 3)),
      js_mode_from_value = (\<lambda>v. if v = 2 then Inr Live else Inl ''not a mode''),
      js_status_from_value = (\<lambda>v. Inl ''not a status''),
      js_order_to_string = (\<lambda>x. if x = sample_order then Inr ''order'' else Inl ''unwritable''),
      js_order_from_string = (\<lambda>t. if t = ''order'' then Inr sample_order else Inl ''not an order'')\<rparr>"

lemma sample_json_laws: "json_laws sample_json"
proof -
  have "rn_execution_mode sample_run = Live" by (simp add: sample_run_def)
  then show ?thesis
    unfolding json_laws_def sample_json_def by (auto split: if_splits)
qed

definition sample_sqlite :: any_store where
  "sample_sqlite = AnySqlite \<lparr>sq_durability = Enforced, sq_lock_wait = 5000000000, sq_together = False\<rparr>"

text \<open>A call nothing happens to, and one whose commit the disk failed but kept.\<close>

definition sample_call :: any_call where
  "sample_call =
     \<lparr>ac_sqlite = \<lparr>sc_opening = Inr \<lparr>pr_journal_mode = ''wal'', pr_synchronous = 2, pr_fullfsync = 1\<rparr>,
        sc_fault = NoFault, sc_now = 9\<rparr>,
      ac_postgres = \<lparr>pc_pool = PoolReady, pc_limited = True, pc_work = WorkDone, pc_run = None, pc_now = 9\<rparr>\<rparr>"

definition sample_lost_call :: any_call where
  "sample_lost_call =
     sample_call\<lparr>ac_sqlite := (ac_sqlite sample_call)
       \<lparr>sc_fault := CommitFault (SqliteFailure SystemIoFailure 1034 ''disk I/O error'') True\<rparr>\<rparr>"

lemma sample_calls_ok [simp]: "any_call_ok sample_call" "any_call_ok sample_lost_call"
  by (simp_all add: any_call_ok_def sample_call_def sample_lost_call_def sqlite_call_ok_def pg_call_ok_def disk_trouble_def)

definition sample_db :: run_db where
  "sample_db =
     \<lparr>rd_runs = [], rd_events = [], rd_event_seq = 0, rd_trades = [], rd_trade_seq = 0,
      rd_control = Some \<lparr>co_store_id = ''0123456789abcdef0123456789abcdef'', co_environment = Some ''testnet'',
        co_activation = ''inactive'', co_activation_epoch = 0, co_changed_at_ms = 1\<rparr>,
      rd_version = Some ''5'', rd_migrations = []\<rparr>"

definition sample_identity :: run_identity where
  "sample_identity = run_identity_recorded (Some Testnet) (Some (VenueIssued (IssuedAccountId ''42'')))"

lemma sample_identity_valid [simp]: "identity_valid sample_identity" "identity_valid (sample_identity\<lparr>ri_source := Adopted\<rparr>)"
  by (code_simp, code_simp)

abbreviation sample_store :: "(any_call, run_db, sdec, unit) run_journal_store" where
  "sample_store \<equiv> any_journal sample_dec sample_json sample_sqlite"

definition sample_created :: run_db where
  "sample_created = snd (jo_create_run sample_store sample_call sample_run sample_identity sample_db)"

lemma sample_create:
  "jo_create_run sample_store sample_call sample_run sample_identity sample_db = (Inr (), sample_created)"
proof -
  have "fst (jo_create_run sample_store sample_call sample_run sample_identity sample_db) = Inr ()" by code_simp
  then show ?thesis unfolding sample_created_def by (metis prod.collapse)
qed

theorem failed_writes_change_nothing_witness:
  "honest (jo_create_run sample_store sample_lost_call sample_run sample_identity) \<and>
   fst (jo_create_run sample_store sample_lost_call sample_run sample_identity sample_db) =
     Inl (SeOutcomeUnknown ''disk I/O error'') \<and>
   map rr_run_id (rd_runs (snd (jo_create_run sample_store sample_lost_call sample_run sample_identity sample_db))) = [''r'']"
proof (intro conjI)
  show "honest (jo_create_run sample_store sample_lost_call sample_run sample_identity)"
    using failed_writes_change_nothing [OF sample_calls_ok(2)] by blast
  show "fst (jo_create_run sample_store sample_lost_call sample_run sample_identity sample_db) =
     Inl (SeOutcomeUnknown ''disk I/O error'')" by code_simp
  show "map rr_run_id (rd_runs (snd (jo_create_run sample_store sample_lost_call sample_run sample_identity sample_db))) = [''r'']"
    by code_simp
qed


theorem created_runs_read_back_witness:
  "jo_load_run_state sample_store sample_call ''r'' sample_created = (Inr (Some sample_run), sample_created) \<and>
   refused (fst (jo_create_run sample_store sample_call sample_run sample_identity sample_created))"
proof -
  obtain y db2 where l: "jo_load_run_state sample_store sample_call ''r'' sample_created = (y, db2)" by fastforce
  have "is_ok (fst (jo_load_run_state sample_store sample_call ''r'' sample_created))" by code_simp
  with l obtain x where x: "y = Inr x" by (auto simp: is_ok_iff)
  obtain r db3 where t: "jo_create_run sample_store sample_call sample_run sample_identity sample_created = (r, db3)" by fastforce
  have i: "rn_run_id sample_run = ''r''" by (simp add: sample_run_def)
  note * = created_runs_read_back [OF sample_json_laws sample_calls_ok(1) sample_identity_valid(1) sample_create
      sample_calls_ok(1), of x db2 sample_created _ _ sample_identity sample_run r db3]
  from * l x i have "x = Some sample_run" by simp
  moreover have "db2 = sample_created" using any_load_cases [OF l] by simp
  moreover have "refused r" using * t by simp
  ultimately show ?thesis using l x t by simp
qed

definition sample_legacy :: run_db where
  "sample_legacy = sample_db\<lparr>rd_runs :=
     [(new_run_row sample_run run_identity_legacy ''old'' 3)\<lparr>rr_identity_at_ms := None, rr_legacy_state_json := Some ''old''\<rparr>]\<rparr>"

theorem adopted_runs_load_witness:
  "\<exists>db st. jo_adopt_run sample_store sample_call ''r'' (sample_identity\<lparr>ri_source := Adopted\<rparr>) (Some Live) sample_legacy =
     (Inr (Some ()), db) \<and> run_view sample_json db ''r'' = Some \<lparr>en_state = Inr st,
       en_identity = Inr (sample_identity\<lparr>ri_source := Adopted\<rparr>), en_legacy = False\<rparr> \<and> rn_execution_mode st = Live"
proof -
  let ?m = "jo_adopt_run sample_store sample_call ''r'' (sample_identity\<lparr>ri_source := Adopted\<rparr>) (Some Live) sample_legacy"
  have "fst ?m = Inr (Some ())" by code_simp
  then have m: "?m = (Inr (Some ()), snd ?m)" by (metis prod.collapse)
  from adopted_runs_load [OF sample_json_laws sample_calls_ok(1) sample_identity_valid(2) m, of Live] m
  show ?thesis by blast
qed

end
