(* ===== verification/Run_Log.thy ===== *)
theory Run_Log
  imports Run_Journal
begin

text \<open>
  What the store's lists return, on every backend: the newest run of a market, the order events of a run, newest
  first, and the live engine's run identity over a store that other processes use at the same time.
\<close>

section \<open>The newest run of a market\<close>

lemma newer_run_trans: "newer_run a b \<Longrightarrow> newer_run b c \<Longrightarrow> newer_run a c"
  unfolding newer_run_def using text_less_trans by (smt (verit))

lemma newer_run_asym: "newer_run a b \<Longrightarrow> \<not> newer_run b a"
  using newer_run_trans [of a b a] by (auto simp: newer_run_def)

lemma text_less_cotrans: "text_less a c \<Longrightarrow> text_less a b \<or> text_less b c"
  by (metis text_less_total text_less_trans)

lemma newer_run_cotrans: "newer_run a c \<Longrightarrow> newer_run a b \<or> newer_run b c"
  unfolding newer_run_def using text_less_cotrans by (smt (verit))

definition run_of_market :: "market_id \<Rightarrow> string \<Rightarrow> run_row \<Rightarrow> bool" where
  "run_of_market market strategy r \<longleftrightarrow>
     rr_exchange r = exchange_as_str (mk_exchange market) \<and> rr_symbol r = symbol_str (mk_symbol market) \<and>
     rr_interval r = interval_as_str (mk_interval market) \<and> rr_strategy_name r = strategy"

lemma latest_row_spec:
  "case latest_row market strategy db of
     None \<Rightarrow> \<forall>r\<in>set (rd_runs db). \<not> run_of_market market strategy r
   | Some row \<Rightarrow> row \<in> set (rd_runs db) \<and> run_of_market market strategy row \<and>
       (\<forall>r\<in>set (rd_runs db). run_of_market market strategy r \<longrightarrow> \<not> newer_run r row)"
proof -
  let ?rows = "filter (run_of_market market strategy) (rd_runs db)"
  have latest: "latest_row market strategy db = (case order_by newer_run ?rows of [] \<Rightarrow> None | r # _ \<Rightarrow> Some r)"
    by (simp add: latest_row_def run_of_market_def [abs_def])
  have sorted: "in_order newer_run (order_by newer_run ?rows)"
    by (rule order_by_in_order) (use newer_run_trans newer_run_asym newer_run_cotrans in blast)+
  show ?thesis
  proof (cases "order_by newer_run ?rows")
    case Nil
    with latest show ?thesis by (simp add: filter_empty_conv)
  next
    case (Cons row rest)
    then have set_rows: "insert row (set rest) = set ?rows" using set_order_by [of newer_run ?rows] by simp
    have "\<not> newer_run r row" if "r \<in> set ?rows" for r
    proof -
      from that set_rows have "r = row \<or> r \<in> set rest" by blast
      with sorted Cons newer_run_asym [of row row] show ?thesis by (auto simp: in_order_def)
    qed
    with set_rows latest Cons show ?thesis by auto
  qed
qed

text \<open>The run a market's strategy last wrote: no run of the same market and strategy is newer by update, start
  and id; and no answer means there is none.\<close>

theorem latest_run_is_the_newest:
  assumes "jo_latest_run_for_market (any_journal D J store) c market strategy db = (Inr x, db')"
  shows "db' = db \<and>
    (case x of
       None \<Rightarrow> filter (run_of_market market strategy) (rd_runs db) = []
     | Some s \<Rightarrow> \<exists>row. row \<in> set (rd_runs db) \<and> run_of_market market strategy row \<and>
         decode_state J (rr_run_id row) (rr_state_json row) = Inr s \<and>
         filter (\<lambda>r. run_of_market market strategy r \<and> newer_run r row) (rd_runs db) = [])"
proof -
  from any_latest_cases [OF assms] have db: "db' = db" and
    t: "transposed (\<lambda>row. decode_state J (rr_run_id row) (rr_state_json row)) (latest_row market strategy db) = Inr x"
    by auto
  from t latest_row_spec [of db market strategy] db show ?thesis
    by (auto simp: transposed_Inr filter_empty_conv split: option.splits)
qed

section \<open>The order events of a run\<close>

text \<open>Rows are numbered in the order they were written, and no number is used twice.\<close>

definition numbered :: "run_db \<Rightarrow> bool" where
  "numbered db \<longleftrightarrow>
     sorted_wrt (<) (map oe_seq (rd_events db)) \<and> (\<forall>r\<in>set (rd_events db). oe_seq r \<le> rd_event_seq db) \<and>
     sorted_wrt (<) (map cr_seq (rd_trades db)) \<and> (\<forall>r\<in>set (rd_trades db). cr_seq r \<le> rd_trade_seq db)"

lemma numbered_simps [simp]:
  "numbered (update_run i f db) = numbered db" "numbered (bound_control e now db) = numbered db"
  by (simp_all add: numbered_def update_run_def bound_control_def)

lemma numbered_insert:
  "numbered db \<Longrightarrow> numbered (insert_event i ord json db)" "numbered db \<Longrightarrow> numbered (insert_trade D i trade db)"
  "numbered db \<Longrightarrow> insert_run row db = Some db' \<Longrightarrow> numbered db'" "numbered db \<Longrightarrow> save_run s json db = (n, db') \<Longrightarrow> numbered db'"
  by (auto simp: numbered_def insert_event_def insert_trade_def insert_run_def save_run_def update_run_def Let_def
      sorted_wrt_append split: if_splits)

lemma numbered_step:
  assumes "journal_step (any_journal D J store) any_call_ok db db'" and "numbered db"
  shows "numbered db'"
  using assms(1)
proof cases
  case (step_create c i s r)
  from any_create_cases [OF this(1,3)] assms(2) show ?thesis by (auto intro: numbered_insert)
next
  case (step_save c s r)
  from any_save_cases [OF this] assms(2) show ?thesis by (auto intro: numbered_insert)
next
  case (step_event c i ord r)
  from any_event_cases [OF this] assms(2) show ?thesis by (auto intro: numbered_insert)
next
  case (step_trade c i trade r)
  from any_trade_cases [OF this] assms(2) show ?thesis by (auto intro: numbered_insert)
next
  case (step_bind c environment r)
  from any_bind_cases [OF this] assms(2) show ?thesis by auto
next
  case (step_adopt c i j mode q)
  from any_adopt_cases [OF this(1,3)] assms(2) show ?thesis by auto
qed

lemma insert_by_first: "(\<And>x. x \<in> set xs \<Longrightarrow> \<not> before x r) \<Longrightarrow> insert_by before r xs = r # xs"
  by (cases xs) auto

lemma insert_by_last: "(\<And>x. x \<in> set xs \<Longrightarrow> before x r) \<Longrightarrow> insert_by before r xs = xs @ [r]"
  by (induction xs) auto

lemma order_by_append: "order_by before (xs @ ys) = foldr (insert_by before) xs (order_by before ys)"
  by (simp add: order_by_def)

lemma order_descending:
  "sorted_wrt (<) (map key rows) \<Longrightarrow> order_by (\<lambda>a b. key b < (key a :: int)) rows = rev rows"
  unfolding order_by_def by (induction rows) (auto intro: insert_by_last)

lemma newest_events_rev: "numbered db \<Longrightarrow> newest_events i db = rev (filter (\<lambda>r. oe_run_id r = i) (rd_events db))"
  unfolding newest_events_def numbered_def by (intro order_descending) (simp add: sorted_wrt_map sorted_wrt_filter)

definition events_of :: "('v, 'd, 'j) json_api \<Rightarrow> nat \<Rightarrow> order_event_row list \<Rightarrow> storage_error + 'd exchange_order list" where
  "events_of J n rows = try_map (\<lambda>row. other (js_order_from_string J (oe_raw_json row))) (take n rows)"

lemma usize_small: "int n \<le> i64_max \<Longrightarrow> usize_as_i64 n = int n"
  by (simp add: usize_as_i64_def i64_max_def)

lemma any_events_cases:
  assumes "jo_list_order_events (any_journal D J store) c i n db = (r, db')" and "int n \<le> i64_max"
  shows "db' = db \<and> (refused r \<or> r = events_of J n (newest_events i db))"
proof (cases store)
  case (AnySqlite st)
  with assms(1) have "sqlite_on st (ac_sqlite c) (sqlite_query (ac_sqlite c) (\<lambda>db. try_map (\<lambda>row. other (js_order_from_string J (oe_raw_json row)))
         (sqlite_limit (usize_as_i64 n) (newest_events i db)))) db = (r, db')"
    by (simp add: any_journal_simps sqlite_list_order_events_def)
  from sqlite_read_cases [OF this] assms(2) show ?thesis by (auto simp: events_of_def usize_small sqlite_limit_def)
next
  case (AnyPostgres p)
  with assms(1) have "io_bind (pg_read p (ac_postgres c) (\<lambda>db. take (nat (pg_limit n)) (newest_events i db)))
      (\<lambda>rows. op_result (try_map (\<lambda>row. other (js_order_from_string J (oe_raw_json row))) rows)) db = (r, db')"
    by (simp add: any_journal_simps pg_list_order_events_def)
  from pg_read_then_cases [OF this] assms(2) show ?thesis by (auto simp: events_of_def pg_limit_def)
qed

text \<open>The journal of a run's order events lists them newest first, duplicates kept: an event that was appended
  heads the list, before what the list held already, and the events of other runs are not in it.\<close>

theorem order_events_list_newest_first:
  assumes J: "json_laws J" and "any_call_ok c" and "numbered db" and n: "int (Suc n) \<le> i64_max"
    and "jo_append_order_event (any_journal D J store) c run_id ord db = (Inr (), db1)"
    and "jo_list_order_events (any_journal D J store) d run_id (Suc n) db1 = (Inr xs, db2)"
  shows "numbered db1 \<and> (\<exists>ys. xs = ord # ys \<and>
      (jo_list_order_events (any_journal D J store) e run_id n db = (Inr zs, db3) \<longrightarrow> zs = ys)) \<and>
    (k \<noteq> run_id \<longrightarrow> newest_events k db1 = newest_events k db)"
proof -
  from any_event_cases [OF assms(2,5)] obtain json where json: "js_order_to_string J ord = Inr json"
    and db1: "db1 = insert_event run_id ord json db" by auto
  have num: "numbered db1" using numbered_insert(1) [OF assms(3)] db1 by simp
  have new: "\<exists>row. newest_events run_id db1 = row # newest_events run_id db \<and> oe_raw_json row = json"
    using newest_events_rev [OF num] newest_events_rev [OF assms(3)]
    by (simp add: db1 insert_event_def Let_def)
  have same: "newest_events k db1 = newest_events k db" if "k \<noteq> run_id"
    using that newest_events_rev [OF num] newest_events_rev [OF assms(3)]
    by (simp add: db1 insert_event_def Let_def)
  from any_events_cases [OF assms(6) n] have "events_of J (Suc n) (newest_events run_id db1) = Inr xs" by auto
  with new json_lawsD(2) [OF J json] obtain ys where xs: "xs = ord # ys" and ys: "events_of J n (newest_events run_id db) = Inr ys"
    by (auto simp: events_of_def and_then_Inr)
  have "zs = ys" if "jo_list_order_events (any_journal D J store) e run_id n db = (Inr zs, db3)"
    using any_events_cases [OF that] n ys by auto
  with num xs same show ?thesis by blast
qed

section \<open>The live engine on a shared store\<close>

text \<open>What the engine sees of a store: its tables, what the outside does to each of the calls, and what other
  processes do to the tables before each.\<close>

record shared_store =
  lw_db :: run_db
  lw_calls :: "nat \<Rightarrow> any_call"
  lw_between :: "nat \<Rightarrow> run_db \<Rightarrow> run_db"
  lw_at :: nat

definition store_port :: "(any_call \<Rightarrow> (run_db, storage_error, 'a) op) \<Rightarrow> shared_store \<Rightarrow> (string + 'a) \<times> shared_store" where
  "store_port m w =
     (case m (lw_calls w (lw_at w)) (lw_between w (lw_at w) (lw_db w)) of
        (r, db) \<Rightarrow> (map_err (\<lambda>e. storage_error_kind_as_str (storage_error_kind e)) r,
                    w\<lparr>lw_db := db, lw_at := Suc (lw_at w)\<rparr>))"

definition on_store ::
  "(any_call, run_db, 'd, 'j) run_journal_store \<Rightarrow> (shared_store, 'd, 'j) live_ports \<Rightarrow> (shared_store, 'd, 'j) live_ports"
where
  "on_store S P =
     P\<lparr>lp_create_run := (\<lambda>s i. store_port (\<lambda>c. jo_create_run S c s i)),
       lp_load_run_state := (\<lambda>i. store_port (\<lambda>c. jo_load_run_state S c i)),
       lp_run_identity := (\<lambda>i. store_port (\<lambda>c. jo_run_identity S c i)),
       lp_save_run_state := (\<lambda>s. store_port (\<lambda>c. jo_save_run_state S c s)),
       lp_append_order_event := (\<lambda>i x. store_port (\<lambda>c. jo_append_order_event S c i x)),
       lp_append_closed_trade := (\<lambda>i x. store_port (\<lambda>c. jo_append_closed_trade S c i x))\<rparr>"

definition shared_ok :: "(any_call, run_db, 'd, 'j) run_journal_store \<Rightarrow> shared_store \<Rightarrow> bool" where
  "shared_ok S w \<longleftrightarrow>
     (\<forall>n. any_call_ok (lw_calls w n)) \<and>
     (\<forall>n db. (journal_step S any_call_ok)\<^sup>*\<^sup>* db (lw_between w n db))"

lemma store_port_cases:
  assumes "store_port m w = (r, w')"
  obtains q db where "m (lw_calls w (lw_at w)) (lw_between w (lw_at w) (lw_db w)) = (q, db)"
    "r = map_err (\<lambda>e. storage_error_kind_as_str (storage_error_kind e)) q" "w' = w\<lparr>lw_db := db, lw_at := Suc (lw_at w)\<rparr>"
  using assms by (auto simp: store_port_def split: prod.splits)

lemma shared_ok_next: "shared_ok S w \<Longrightarrow> shared_ok S (w\<lparr>lw_db := db, lw_at := n\<rparr>)"
  by (simp add: shared_ok_def)

text \<open>What a read of a run sees.\<close>

lemma shared_entry:
  assumes "shared_ok (any_journal D J store) w" and "run_view J (lw_db w) i = Some e"
    and "en_identity e = Inr identity" "\<not> en_legacy e"
  obtains e' where "run_view J (lw_between w (lw_at w) (lw_db w)) i = Some e'" "en_identity e' = Inr identity"
    "\<not> en_legacy e'" "(journal_step (any_journal D J store) any_call_ok)\<^sup>*\<^sup>* (lw_db w) (lw_between w (lw_at w) (lw_db w))"
proof -
  from assms(1) have steps: "(journal_step (any_journal D J store) any_call_ok)\<^sup>*\<^sup>* (lw_db w) (lw_between w (lw_at w) (lw_db w))"
    by (simp add: shared_ok_def)
  from any.entries_stay [OF this assms(2)] assms(3,4) that steps show thesis by (auto simp: same_run_def)
qed


section \<open>Witnesses\<close>

theorem latest_run_is_the_newest_witness:
  "jo_latest_run_for_market sample_store sample_call sample_market ''sma_cross'' sample_created =
     (Inr (Some sample_run), sample_created)"
proof -
  let ?m = "jo_latest_run_for_market sample_store sample_call sample_market ''sma_cross'' sample_created"
  have "is_ok (fst ?m)" by code_simp
  then obtain x db where m: "?m = (Inr x, db)" by (metis is_ok_iff prod.collapse)
  have rows: "map (\<lambda>r. (run_of_market sample_market ''sma_cross'' r, decode_state sample_json (rr_run_id r) (rr_state_json r)))
      (rd_runs sample_created) = [(True, Inr sample_run)]" by code_simp
  from latest_run_is_the_newest [OF m] rows have "db = sample_created" "x = Some sample_run"
    by (auto simp: Cons_eq_map_conv filter_empty_conv split: option.splits)
  with m show ?thesis by simp
qed

theorem order_events_list_newest_first_witness:
  "\<exists>db. jo_append_order_event sample_store sample_call ''r'' sample_order sample_created = (Inr (), db) \<and> numbered db"
proof -
  let ?a = "jo_append_order_event sample_store sample_call ''r'' sample_order sample_created"
  have "fst ?a = Inr ()" by code_simp
  then have a: "?a = (Inr (), snd ?a)" by (metis prod.collapse)
  have num: "numbered sample_created" by code_simp
  let ?l = "jo_list_order_events sample_store sample_call ''r'' (Suc 0) (snd ?a)"
  have "is_ok (fst ?l)" by code_simp
  then obtain xs db2 where l: "?l = (Inr xs, db2)" by (metis is_ok_iff prod.collapse)
  have "int (Suc 0) \<le> i64_max" by (simp add: i64_max_def)
  from order_events_list_newest_first [OF sample_json_laws sample_calls_ok(1) num this a l] a show ?thesis by blast
qed


end
