(* ===== verification/Bundle_Path.thy ===== *)
theory Bundle_Path
  imports Prelude "HOL-Library.Char_ord" "HOL-Library.List_Lexorder"
begin

text \<open>
  Bundle paths and problems: \<open>protocol/bundle/path.rs\<close> and \<open>protocol/bundle/problems.rs\<close>.

  In the bundle theories a HOL character is a byte: a \<open>Vec<u8>\<close> is a \<open>string\<close>, and a Rust
  \<open>String\<close> is the bytes of its UTF-8 form (\<open>utf8_valid\<close> is what \<open>str::from_utf8\<close> checks), so
  \<open>as_bytes\<close> is the identity and \<open>len\<close> is \<open>length\<close>. Every delimiter and literal the code looks
  for is ASCII, where looking at characters and at bytes is the same. Text is ordered as its
  bytes are, which is how Rust orders strings.

  A problem's message keeps the reason the code gives where the code tells reasons apart
  (path rules, canonical archives); any other message is text formatted from values at hand
  and is left out (\<open>Written\<close>).
\<close>

section \<open>Problems\<close>

datatype problem_code = PathInvalid | PathCollision | ExtensionNotAllowed | FileTooLarge
  | BundleTooLarge | TooManyFiles | NotARegularFile | ManifestMissing | ManifestInvalid
  | FormatUnsupported | EntryInvalid | EntryNotFound | EngineInvalid | PythonInvalid
  | ParamNotJson | DependencyInvalid | DependencyNotAllowed | DependencyVersionUnavailable
  | EngineMismatch | PythonMismatch | ArchiveNotCanonical

definition problem_codes :: "problem_code list" where
  "problem_codes = [PathInvalid, PathCollision, ExtensionNotAllowed, FileTooLarge,
     BundleTooLarge, TooManyFiles, NotARegularFile, ManifestMissing, ManifestInvalid,
     FormatUnsupported, EntryInvalid, EntryNotFound, EngineInvalid, PythonInvalid,
     ParamNotJson, DependencyInvalid, DependencyNotAllowed, DependencyVersionUnavailable,
     EngineMismatch, PythonMismatch, ArchiveNotCanonical]"

primrec problem_code_text :: "problem_code \<Rightarrow> string" where
  "problem_code_text PathInvalid = ''path_invalid''"
| "problem_code_text PathCollision = ''path_collision''"
| "problem_code_text ExtensionNotAllowed = ''extension_not_allowed''"
| "problem_code_text FileTooLarge = ''file_too_large''"
| "problem_code_text BundleTooLarge = ''bundle_too_large''"
| "problem_code_text TooManyFiles = ''too_many_files''"
| "problem_code_text NotARegularFile = ''not_a_regular_file''"
| "problem_code_text ManifestMissing = ''manifest_missing''"
| "problem_code_text ManifestInvalid = ''manifest_invalid''"
| "problem_code_text FormatUnsupported = ''format_unsupported''"
| "problem_code_text EntryInvalid = ''entry_invalid''"
| "problem_code_text EntryNotFound = ''entry_not_found''"
| "problem_code_text EngineInvalid = ''engine_invalid''"
| "problem_code_text PythonInvalid = ''python_invalid''"
| "problem_code_text ParamNotJson = ''param_not_json''"
| "problem_code_text DependencyInvalid = ''dependency_invalid''"
| "problem_code_text DependencyNotAllowed = ''dependency_not_allowed''"
| "problem_code_text DependencyVersionUnavailable = ''dependency_version_unavailable''"
| "problem_code_text EngineMismatch = ''engine_mismatch''"
| "problem_code_text PythonMismatch = ''python_mismatch''"
| "problem_code_text ArchiveNotCanonical = ''archive_not_canonical''"

interpretation problem_codes: spelled_enum problem_codes problem_code_text
proof
  show "x \<in> set problem_codes" for x by (cases x) (simp_all add: problem_codes_def)
  show "problem_code_text x = problem_code_text y \<Longrightarrow> x = y" for x y by (cases x; cases y) simp_all
qed

text \<open>Why a path breaks a rule, and why an archive is not canonical.\<close>

datatype path_reason = Empty_Path | Not_Ascii | Path_Too_Long nat | Leading_Slash | Has_Backslash
  | Empty_Component | Dot_Component | Starts_With string char | Holds string char
  | Ends_In_Dot string | Python_Cache | Reserved_Name string string

datatype header_difference = Wrong_Type char | Field_Differs string | Wrong_Checksum

datatype archive_reason = Not_Whole_Blocks nat | No_Closing_Blocks | Padded_Past_End
  | One_Closing_Block | Goes_On | Name_Not_Utf8 nat | No_Name nat | Size_Not_Octal nat string
  | Header_Differs nat string header_difference | Out_Of_Order nat string
  | Runs_Past_End nat string | Dirty_Padding nat string

datatype problem_message = Breaks_Path_Rule path_reason | Not_Canonical archive_reason | Written

record bundle_problem =
  problem_code :: problem_code
  problem_message :: problem_message

definition bundle_problem_new :: "problem_code \<Rightarrow> problem_message \<Rightarrow> bundle_problem" where
  "bundle_problem_new c m = \<lparr>problem_code = c, problem_message = m\<rparr>"

lemma bundle_problem_new_sel [simp]:
  "problem_code (bundle_problem_new c m) = c"
  "problem_message (bundle_problem_new c m) = m"
  by (simp_all add: bundle_problem_new_def)

datatype bundle_error = Bundle_Io string string | Bundle_Refused "bundle_problem list"

primrec bundle_error_problems :: "bundle_error \<Rightarrow> bundle_problem list" where
  "bundle_error_problems (Bundle_Refused problems) = problems"
| "bundle_error_problems (Bundle_Io path message) = []"

definition refuse_unless_empty :: "bundle_problem list \<Rightarrow> bundle_error + unit" where
  "refuse_unless_empty problems = (if problems = [] then Inr () else Inl (Bundle_Refused problems))"

section \<open>Bytes and text\<close>

definition is_ascii_text :: "string \<Rightarrow> bool" where
  "is_ascii_text s \<longleftrightarrow> list_all (\<lambda>c. code c < 128) s"

definition to_ascii_lower :: "char \<Rightarrow> char" where
  "to_ascii_lower c = (if is_ascii_uppercase c then char_of (code c + 32) else c)"

definition to_ascii_lowercase :: "string \<Rightarrow> string" where
  "to_ascii_lowercase s = map to_ascii_lower s"

text \<open>\<open>std::str::from_utf8\<close>: the table of well-formed byte sequences of the Unicode standard.\<close>

definition utf8_follow :: "nat \<Rightarrow> nat \<Rightarrow> char \<Rightarrow> bool" where
  "utf8_follow lo hi c \<longleftrightarrow> lo \<le> code c \<and> code c \<le> hi"

definition utf8_second :: "nat \<Rightarrow> char \<Rightarrow> bool" where
  "utf8_second lead =
     (if lead = 0xE0 then utf8_follow 0xA0 0xBF
      else if lead = 0xED then utf8_follow 0x80 0x9F
      else if lead = 0xF0 then utf8_follow 0x90 0xBF
      else if lead = 0xF4 then utf8_follow 0x80 0x8F
      else utf8_follow 0x80 0xBF)"

definition utf8_width :: "nat \<Rightarrow> nat" where
  "utf8_width lead =
     (if lead < 0x80 then 1
      else if 0xC2 \<le> lead \<and> lead \<le> 0xDF then 2
      else if 0xE0 \<le> lead \<and> lead \<le> 0xEF then 3
      else if 0xF0 \<le> lead \<and> lead \<le> 0xF4 then 4 else 0)"

fun utf8_valid :: "string \<Rightarrow> bool" where
  "utf8_valid [] = True"
| "utf8_valid (c # s) =
     (let w = utf8_width (code c) in
      w \<noteq> 0 \<and> w \<le> length s + 1 \<and> (1 < w \<longrightarrow> utf8_second (code c) (hd s))
      \<and> list_all (utf8_follow 0x80 0xBF) (drop 1 (take (w - 1) s))
      \<and> utf8_valid (drop (w - 1) s))"

lemma utf8_valid_ascii: "is_ascii_text s \<Longrightarrow> utf8_valid s"
  by (induction s) (simp_all add: is_ascii_text_def utf8_width_def)

section \<open>The path rules\<close>

definition max_path_bytes :: nat where "max_path_bytes = 100"

definition reserved_names :: "string list" where
  "reserved_names = [''CON'', ''PRN'', ''AUX'', ''NUL'',
     ''COM1'', ''COM2'', ''COM3'', ''COM4'', ''COM5'', ''COM6'', ''COM7'', ''COM8'', ''COM9'',
     ''LPT1'', ''LPT2'', ''LPT3'', ''LPT4'', ''LPT5'', ''LPT6'', ''LPT7'', ''LPT8'', ''LPT9'']"

definition allowed_extensions :: "string list" where
  "allowed_extensions = [''py'', ''toml'', ''json'', ''txt'']"

definition reserved_stem :: "string \<Rightarrow> bool" where
  "reserved_stem stem \<longleftrightarrow> (\<exists>name\<in>set reserved_names. to_ascii_lowercase name = to_ascii_lowercase stem)"

definition component_byte :: "char \<Rightarrow> bool" where
  "component_byte c \<longleftrightarrow> is_ascii_alphanumeric c \<or> c \<in> {CHR ''.'', CHR ''_'', CHR ''-''}"

definition component_fault :: "string \<Rightarrow> path_reason option" where
  "component_fault component =
     (case component of [] \<Rightarrow> Some Empty_Component | first # _ \<Rightarrow>
        if component = ''.'' \<or> component = ''..'' then Some Dot_Component
        else if \<not> (is_ascii_alphanumeric first \<or> first = CHR ''_'')
        then Some (Starts_With component first)
        else (case find (\<lambda>c. \<not> component_byte c) component of
                Some c \<Rightarrow> Some (Holds component c)
              | None \<Rightarrow>
                  if last component = CHR ''.'' then Some (Ends_In_Dot component)
                  else if component = ''__pycache__'' then Some Python_Cache
                  else (let stem = hd (split_on (CHR ''.'') component) in
                        if reserved_stem stem
                        then Some (Reserved_Name component (to_ascii_uppercase stem))
                        else None)))"

fun find_map :: "('a \<Rightarrow> 'b option) \<Rightarrow> 'a list \<Rightarrow> 'b option" where
  "find_map f [] = None"
| "find_map f (x # xs) = (case f x of Some y \<Rightarrow> Some y | None \<Rightarrow> find_map f xs)"

definition path_fault :: "string \<Rightarrow> path_reason option" where
  "path_fault path =
     (if path = [] then Some Empty_Path
      else if \<not> is_ascii_text path then Some Not_Ascii
      else if max_path_bytes < length path then Some (Path_Too_Long (length path))
      else if hd path = CHR ''/'' then Some Leading_Slash
      else if CHR 0x5C \<in> set path then Some Has_Backslash
      else find_map component_fault (split_on (CHR ''/'') path))"

text \<open>\<open>BundlePath\<close> holds a checked path; it is ordered as its text is. \<open>rsplit_once\<close> splits at
  the last delimiter.\<close>

datatype bundle_path = Bundle_Path (path_text: string)

definition rsplit_once :: "char \<Rightarrow> string \<Rightarrow> (string \<times> string) option" where
  "rsplit_once c s = map_option (\<lambda>(a, b). (rev b, rev a)) (split_once c (rev s))"

definition bundle_path_new :: "string \<Rightarrow> bundle_problem + bundle_path" where
  "bundle_path_new path =
     (case path_fault path of
        Some reason \<Rightarrow> Inl (bundle_problem_new PathInvalid (Breaks_Path_Rule reason))
      | None \<Rightarrow>
          (let name = last (split_on (CHR ''/'') path);
               allowed = (case rsplit_once (CHR ''.'') name of
                            Some (_, extension) \<Rightarrow> extension \<in> set allowed_extensions
                          | None \<Rightarrow> False)
           in if \<not> allowed then Inl (bundle_problem_new ExtensionNotAllowed Written)
              else Inr (Bundle_Path path)))"

definition path_components :: "bundle_path \<Rightarrow> string list" where
  "path_components p = split_on (CHR ''/'') (path_text p)"

instantiation bundle_path :: linorder
begin

definition less_eq_bundle_path :: "bundle_path \<Rightarrow> bundle_path \<Rightarrow> bool" where
  "p \<le> q \<longleftrightarrow> path_text p \<le> path_text q"

definition less_bundle_path :: "bundle_path \<Rightarrow> bundle_path \<Rightarrow> bool" where
  "p < q \<longleftrightarrow> path_text p < path_text q"

instance
  by standard (auto simp: less_eq_bundle_path_def less_bundle_path_def intro: bundle_path.expand)

end

record bundle_file =
  file_path :: bundle_path
  file_contents :: string

definition bundle_file_new :: "bundle_path \<Rightarrow> string \<Rightarrow> bundle_file" where
  "bundle_file_new p contents = \<lparr>file_path = p, file_contents = contents\<rparr>"

section \<open>What an accepted path is\<close>

lemma find_map_None: "find_map f xs = None \<longleftrightarrow> (\<forall>x\<in>set xs. f x = None)"
  by (induction xs) (auto split: option.splits)

lemma bundle_path_new_Inr:
  assumes "bundle_path_new s = Inr p"
  shows "p = Bundle_Path s" and "path_fault s = None"
  using assms by (auto simp: bundle_path_new_def Let_def split: option.splits if_splits)

lemma bundle_path_new_text: "bundle_path_new s = Inr p \<Longrightarrow> path_text p = s"
  by (drule bundle_path_new_Inr) simp

lemma path_fault_None:
  assumes "path_fault s = None"
  shows "s \<noteq> []" and "is_ascii_text s" and "length s \<le> 100"
    and "\<forall>c\<in>set (split_on (CHR ''/'') s). component_fault c = None"
  using assms by (auto simp: path_fault_def max_path_bytes_def find_map_None split: if_splits)

lemma component_fault_None:
  assumes "component_fault c = None"
  shows "c \<noteq> []" and "c \<noteq> ''.''" and "c \<noteq> ''..''" and "\<forall>b\<in>set c. component_byte b"
    and "last c \<noteq> CHR ''.''"
    and "\<not> reserved_stem (hd (split_on (CHR ''.'') c))"
  using assms
  by (auto simp: component_fault_def Let_def find_None_iff split: list.splits if_splits option.splits)

end
