(* ===== verification/Bundle_Archive.thy ===== *)
theory Bundle_Archive
  imports Bundle_Path
begin

text \<open>
  The canonical tar of a bundle's files: \<open>protocol/bundle/archive.rs\<close> (the writer) and
  \<open>protocol/bundle/reader.rs\<close> (the strict reader), with the limits and the candidates of
  \<open>protocol/bundle/files.rs\<close> both rely on. A byte is a character (see \<open>Bundle_Path\<close>); sizes
  are naturals with the \<open>u64\<close> range and its saturation written out. The reader walks the
  archive by offset, as the code does; its two theorems say that it accepts what the writer
  makes, and nothing else.
\<close>

section \<open>Limits and candidates\<close>

definition u64_max :: nat where "u64_max = 2 ^ 64 - 1"

definition u64_saturating_add :: "nat \<Rightarrow> nat \<Rightarrow> nat" where
  "u64_saturating_add a b = min u64_max (a + b)"

definition u64_saturating_mul :: "nat \<Rightarrow> nat \<Rightarrow> nat" where
  "u64_saturating_mul a b = min u64_max (a * b)"

definition u64_checked_add :: "nat \<Rightarrow> nat \<Rightarrow> nat option" where
  "u64_checked_add a b = (if a + b \<le> u64_max then Some (a + b) else None)"

definition u64_len :: "'a list \<Rightarrow> nat" where
  "u64_len xs = (if length xs \<le> u64_max then length xs else u64_max)"

definition max_tar_file_bytes :: nat where "max_tar_file_bytes = 8 ^ 11 - 1"

record bundle_limits =
  max_file_bytes :: u64
  max_total_bytes :: u64
  max_files :: u32

definition default_limits :: bundle_limits where
  "default_limits = \<lparr>max_file_bytes = 1024 * 1024, max_total_bytes = 8 * 1024 * 1024, max_files = 256\<rparr>"

definition max_archive_bytes :: "bundle_limits \<Rightarrow> nat" where
  "max_archive_bytes l =
     u64_saturating_add
       (u64_saturating_add (u64_saturating_mul (unat (max_files l)) 1023) (unat (max_total_bytes l)))
       1024"

definition file_limit :: "bundle_limits \<Rightarrow> nat" where
  "file_limit l = min (unat (max_file_bytes l)) max_tar_file_bytes"

record candidate =
  candidate_path :: string
  candidate_size :: nat
  candidate_contents :: "string option"

definition candidate_read :: "string \<Rightarrow> string \<Rightarrow> candidate" where
  "candidate_read path contents =
     \<lparr>candidate_path = path, candidate_size = u64_len contents, candidate_contents = Some contents\<rparr>"

section \<open>The writer\<close>

definition block_bytes :: nat where "block_bytes = 512"

definition end_bytes :: nat where "end_bytes = 2 * block_bytes"

definition nul :: char where "nul = CHR 0x00"

definition zeros :: "nat \<Rightarrow> string" where "zeros n = replicate n nul"

definition header_fields :: "(string \<times> nat \<times> nat) list" where
  "header_fields =
     [(''name'', 0, 100), (''mode'', 100, 108), (''uid'', 108, 116), (''gid'', 116, 124),
      (''size'', 124, 136), (''mtime'', 136, 148), (''checksum'', 148, 156), (''typeflag'', 156, 157),
      (''linkname'', 157, 257), (''magic'', 257, 263), (''version'', 263, 265), (''uname'', 265, 297),
      (''gname'', 297, 329), (''devmajor'', 329, 337), (''devminor'', 337, 345),
      (''prefix'', 345, 500), (''pad'', 500, 512)]"

text \<open>\<open>splice at bytes h\<close> is the array \<open>h\<close> after \<open>h[at..at + bytes.len()].copy_from_slice(bytes)\<close>;
  \<open>octal_digits n v\<close> is what \<open>octal\<close> leaves in a slice of \<open>n\<close> bytes.\<close>

definition splice :: "nat \<Rightarrow> string \<Rightarrow> string \<Rightarrow> string" where
  "splice at bytes h = take at h @ bytes @ drop (at + length bytes) h"

definition octal_char :: "nat \<Rightarrow> char" where "octal_char d = char_of (48 + d)"

primrec octal_digits :: "nat \<Rightarrow> nat \<Rightarrow> string" where
  "octal_digits 0 v = []"
| "octal_digits (Suc n) v = octal_digits n (v div 8) @ [octal_char (v mod 8)]"

definition byte_sum :: "string \<Rightarrow> nat" where
  "byte_sum bytes = sum_list (map code bytes)"

definition write_fields :: "string \<Rightarrow> (nat \<times> string) list \<Rightarrow> string" where
  "write_fields h writes = foldl (\<lambda>h (at, bytes). splice at bytes h) h writes"

definition header_unsummed :: "string \<Rightarrow> nat \<Rightarrow> string" where
  "header_unsummed name nbytes =
     write_fields (zeros block_bytes)
       [(0, take 100 name), (100, ''0000644'' @ [nul]), (108, ''0000000'' @ [nul]),
        (116, ''0000000'' @ [nul]), (124, octal_digits 11 nbytes), (136, ''00000000000'' @ [nul]),
        (148, ''        ''), (156, ''0''), (257, ''ustar'' @ [nul]), (263, ''00'')]"

definition header :: "string \<Rightarrow> nat \<Rightarrow> string" where
  "header name nbytes =
     (let h = header_unsummed name nbytes
      in write_fields h [(148, octal_digits 6 (byte_sum h)), (154, [nul])])"

definition padding :: "nat \<Rightarrow> nat" where
  "padding len = (block_bytes - len mod block_bytes) mod block_bytes"

definition write_file :: "bundle_file \<Rightarrow> string" where
  "write_file f =
     header (path_text (file_path f)) (u64_len (file_contents f))
     @ file_contents f @ zeros (padding (length (file_contents f)))"

definition write_tar :: "bundle_file list \<Rightarrow> string" where
  "write_tar files = concat (map write_file files) @ zeros end_bytes"

section \<open>The strict reader\<close>

definition not_canonical :: "archive_reason \<Rightarrow> bundle_problem" where
  "not_canonical reason = bundle_problem_new ArchiveNotCanonical (Not_Canonical reason)"

definition octal_digit :: "char \<Rightarrow> nat option" where
  "octal_digit c = (if 48 \<le> code c \<and> code c \<le> 55 then Some (code c - 48) else None)"

fun read_octal :: "string \<Rightarrow> nat \<Rightarrow> nat option" where
  "read_octal [] v = Some v"
| "read_octal (c # cs) v =
     (case octal_digit c of None \<Rightarrow> None | Some d \<Rightarrow> read_octal cs (v * 8 + d))"

definition parse_size :: "string \<Rightarrow> nat option" where
  "parse_size field =
     (if field = [] then None
      else if last field \<noteq> nul \<or> length (butlast field) \<noteq> 11 then None
      else read_octal (butlast field) 0)"

definition field_differs :: "string \<Rightarrow> string \<Rightarrow> nat \<Rightarrow> nat \<Rightarrow> bool" where
  "field_differs found canonical start stop \<longleftrightarrow>
     take (stop - start) (drop start found) \<noteq> take (stop - start) (drop start canonical)"

definition difference :: "string \<Rightarrow> string \<Rightarrow> header_difference" where
  "difference found canonical =
     (case find (\<lambda>(field, start, stop). field \<noteq> ''checksum'' \<and> field_differs found canonical start stop)
             header_fields of
        Some (field, start, _) \<Rightarrow>
          if field = ''typeflag'' then Wrong_Type (found ! start) else Field_Differs field
      | None \<Rightarrow> Wrong_Checksum)"

definition closing :: "candidate list \<Rightarrow> string \<Rightarrow> bundle_problem + candidate list" where
  "closing candidates rest =
     (let all_zero = list_all (\<lambda>c. c = nul) rest in
      if all_zero \<and> length rest = end_bytes then Inr candidates
      else if all_zero \<and> end_bytes < length rest then Inl (not_canonical Padded_Past_End)
      else if all_zero then Inl (not_canonical One_Closing_Block)
      else Inl (not_canonical Goes_On))"

definition header_name :: "string \<Rightarrow> string" where
  "header_name h = takeWhile (\<lambda>c. c \<noteq> nul) (take 100 h)"

text \<open>One header, the \<open>index\<close>-th: the name and size it records, if it is the canonical header
  of them and its name comes after the previous one.\<close>

definition read_header :: "nat \<Rightarrow> string option \<Rightarrow> string \<Rightarrow> bundle_problem + (string \<times> nat)" where
  "read_header index previous h =
     (let name = header_name h in
      if \<not> utf8_valid name then Inl (not_canonical (Name_Not_Utf8 index))
      else if name = [] then Inl (not_canonical (No_Name index))
      else case parse_size (take 12 (drop 124 h)) of
        None \<Rightarrow> Inl (not_canonical (Size_Not_Octal index name))
      | Some nbytes \<Rightarrow>
          if h \<noteq> header name nbytes
          then Inl (not_canonical (Header_Differs index name (difference h (header name nbytes))))
          else if (case previous of None \<Rightarrow> False | Some p \<Rightarrow> name \<le> p)
          then Inl (not_canonical (Out_Of_Order index name))
          else Inr (name, nbytes))"

text \<open>Where the padded data of \<open>nbytes\<close> bytes from \<open>data_start\<close> ends, if that is within \<open>length\<close>.\<close>

definition data_end :: "nat \<Rightarrow> nat \<Rightarrow> nat \<Rightarrow> nat option" where
  "data_end len data_start nbytes =
     (case u64_checked_add nbytes (padding nbytes) of None \<Rightarrow> None
      | Some padded \<Rightarrow>
          (case u64_checked_add data_start padded of None \<Rightarrow> None
           | Some e \<Rightarrow> if e \<le> len then Some e else None))"

lemma data_end_Some:
  "data_end len s nbytes = Some e \<longleftrightarrow>
   e = s + (nbytes + padding nbytes) \<and> e \<le> u64_max \<and> nbytes + padding nbytes \<le> u64_max \<and> e \<le> len"
  by (auto simp: data_end_def u64_checked_add_def)

function read_entries ::
    "string \<Rightarrow> candidate list \<Rightarrow> string option \<Rightarrow> nat \<Rightarrow> bundle_problem + candidate list" where
  "read_entries tar candidates previous offset =
     (if length tar < offset + block_bytes then Inl (not_canonical No_Closing_Blocks)
      else let rest = drop offset tar; h = take block_bytes rest in
        if list_all (\<lambda>c. c = nul) h then closing candidates rest
        else (case read_header (length candidates + 1) previous h of
                Inl problem \<Rightarrow> Inl problem
              | Inr (name, nbytes) \<Rightarrow>
                  (case data_end (length tar) (offset + block_bytes) nbytes of
                     None \<Rightarrow> Inl (not_canonical (Runs_Past_End (length candidates + 1) name))
                   | Some e \<Rightarrow>
                       let s = offset + block_bytes; contents = take nbytes (drop s tar) in
                       if list_ex (\<lambda>c. c \<noteq> nul) (take (e - (s + nbytes)) (drop (s + nbytes) tar))
                       then Inl (not_canonical (Dirty_Padding (length candidates + 1) name))
                       else read_entries tar (candidates @ [candidate_read name contents]) (Some name) e)))"
  by pat_completeness auto

termination
  by (relation "measure (\<lambda>(tar, _, _, offset). length tar - offset)")
    (auto simp: data_end_Some block_bytes_def)

declare read_entries.simps [simp del]

definition read_tar :: "string \<Rightarrow> bundle_limits \<Rightarrow> bundle_problem + candidate list" where
  "read_tar tar l =
     (if max_archive_bytes l < u64_len tar then Inl (bundle_problem_new BundleTooLarge Written)
      else if length tar mod block_bytes \<noteq> 0 then Inl (not_canonical (Not_Whole_Blocks (length tar)))
      else read_entries tar [] None 0)"

section \<open>The header's bytes\<close>

lemma nul_simps [simp]: "code nul = 0" "utf8_valid [nul]"
  by (simp_all add: nul_def code_def utf8_width_def)

lemma zeros_simps [simp]:
  "length (zeros n) = n"
  "list_all (\<lambda>c. c = nul) (zeros n)"
  "zeros 0 = []"
  by (simp_all add: zeros_def list_all_iff)

lemma all_nul: "list_all (\<lambda>c. c = nul) s \<longleftrightarrow> s = zeros (length s)"
  by (induction s) (auto simp: zeros_def)

lemma length_octal_digits [simp]: "length (octal_digits n v) = n"
  by (induction n arbitrary: v) simp_all

lemma length_splice: "at + length b \<le> length h \<Longrightarrow> length (splice at b h) = length h"
  by (simp add: splice_def)

lemma field_splice_skip:
  "at + length b \<le> length h \<Longrightarrow> at + length b \<le> k \<or> k + m \<le> at \<Longrightarrow>
   take m (drop k (splice at b h)) = take m (drop k h)"
  by (auto simp: splice_def take_drop)

lemma field_splice_at:
  "at + length b \<le> length h \<Longrightarrow> take (length b) (drop at (splice at b h)) = b"
  by (simp add: splice_def)

lemma length_write_fields:
  "\<forall>(at, b)\<in>set writes. at + length b \<le> length h \<Longrightarrow> length (write_fields h writes) = length h"
  by (induction writes arbitrary: h) (auto simp: write_fields_def length_splice)

lemma field_skip:
  "\<forall>(at, b)\<in>set writes. at + length b \<le> length h \<and> (at + length b \<le> k \<or> k + m \<le> at) \<Longrightarrow>
   take m (drop k (write_fields h writes)) = take m (drop k h)"
  by (induction writes arbitrary: h) (auto simp: write_fields_def length_splice field_splice_skip)

lemma write_fields_append: "write_fields h (xs @ ys) = write_fields (write_fields h xs) ys"
  by (simp add: write_fields_def)

text \<open>A field keeps what was written to it last.\<close>

lemma field_written:
  assumes "writes = before @ (k, b) # later" and "m = length b"
    and "\<forall>(at, b)\<in>set writes. at + length b \<le> length h"
    and "\<forall>(at, b)\<in>set later. at + length b \<le> k \<or> k + m \<le> at"
  shows "take m (drop k (write_fields h writes)) = b"
proof -
  let ?h = "write_fields h before"
  have l: "length ?h = length h" using assms(1,3) by (intro length_write_fields) auto
  have ls: "length (splice k b ?h) = length h"
    using assms(1,3) l by (subst length_splice) auto
  have "write_fields h writes = write_fields (splice k b ?h) later"
    by (simp add: assms(1) write_fields_append) (simp add: write_fields_def)
  moreover have "take m (drop k (write_fields (splice k b ?h) later)) = take m (drop k (splice k b ?h))"
    using assms(1,3,4) ls by (intro field_skip) auto
  moreover have "take m (drop k (splice k b ?h)) = b"
    using assms(1,2,3) l by (simp add: field_splice_at)
  ultimately show ?thesis by simp
qed

definition header_writes :: "string \<Rightarrow> nat \<Rightarrow> (nat \<times> string) list" where
  "header_writes name n =
     [(0, take 100 name), (100, ''0000644'' @ [nul]), (108, ''0000000'' @ [nul]),
      (116, ''0000000'' @ [nul]), (124, octal_digits 11 n), (136, ''00000000000'' @ [nul]),
      (148, ''        ''), (156, ''0''), (257, ''ustar'' @ [nul]), (263, ''00''),
      (148, octal_digits 6 (byte_sum (header_unsummed name n))), (154, [nul])]"

lemma header_by_writes: "header name n = write_fields (zeros 512) (header_writes name n)"
  by (simp add: header_def header_unsummed_def header_writes_def Let_def block_bytes_def
      write_fields_append [symmetric])

lemma header_writes_fit: "\<forall>(at, b)\<in>set (header_writes name n). at + length b \<le> length (zeros 512)"
  by (simp add: header_writes_def)

lemma length_header [simp]: "length (header name n) = 512"
  by (simp add: header_by_writes length_write_fields [OF header_writes_fit])

lemma header_field:
  assumes "header_writes name n = before @ (k, b) # later" and "m = length b"
    and "\<forall>(at, b)\<in>set later. at + length b \<le> k \<or> k + m \<le> at"
  shows "take m (drop k (header name n)) = b"
  unfolding header_by_writes
  by (rule field_written [OF assms(1,2) header_writes_fit assms(3)])

lemma header_zero_field:
  assumes "\<forall>(at, b)\<in>set (header_writes name n). at + length b \<le> k \<or> k + m \<le> at" and "k + m \<le> 512"
  shows "take m (drop k (header name n)) = zeros m"
proof -
  have "take m (drop k (header name n)) = take m (drop k (zeros 512))"
    unfolding header_by_writes using assms(1) header_writes_fit [of name n] by (intro field_skip) auto
  with assms(2) show ?thesis by (simp add: zeros_def)
qed

lemma split_at: "take (a + b) (drop k s) = take a (drop k s) @ take b (drop (k + a) s)"
  by (simp add: take_add add.commute)

lemma header_name_field: "take 100 (header name n) = take 100 name @ zeros (100 - length name)"
proof -
  let ?l = "min 100 (length name)"
  have "take ?l (drop 0 (header name n)) = take 100 name"
    by (rule header_field [where before = "[]"]) (auto simp: header_writes_def)
  moreover have "take (100 - ?l) (drop ?l (header name n)) = zeros (100 - ?l)"
    by (rule header_zero_field) (auto simp: header_writes_def)
  ultimately show ?thesis
    using split_at [of ?l "100 - ?l" 0 "header name n"] by (simp add: min_def split: if_splits)
qed

lemma header_size_field: "take 12 (drop 124 (header name n)) = octal_digits 11 n @ [nul]"
proof -
  have "take 11 (drop 124 (header name n)) = octal_digits 11 n"
    by (rule header_field [where before = "take 4 (header_writes name n)"])
      (auto simp: header_writes_def)
  moreover have "take 1 (drop 135 (header name n)) = zeros 1"
    by (rule header_zero_field) (auto simp: header_writes_def)
  ultimately show ?thesis using split_at [of 11 1 124 "header name n"] by (simp add: zeros_def)
qed

lemma header_mode_byte: "header name n ! 100 = CHR ''0''"
proof -
  have "take 8 (drop 100 (header name n)) = ''0000644'' @ [nul]"
    by (rule header_field [where before = "take 1 (header_writes name n)"])
      (auto simp: header_writes_def)
  then have "take 8 (drop 100 (header name n)) ! 0 = CHR ''0''" by simp
  then show ?thesis by simp
qed

lemma header_not_zero: "\<not> list_all (\<lambda>c. c = nul) (header name n)"
  using header_mode_byte [of name n] by (auto simp: list_all_length nul_def intro!: exI [of _ 100])

lemma header_name_header:
  assumes "nul \<notin> set name" and "length name \<le> 100"
  shows "header_name (header name n) = name"
proof -
  have "takeWhile (\<lambda>c. c \<noteq> nul) (name @ zeros k) = name" for k
  proof -
    have "takeWhile (\<lambda>c. c \<noteq> nul) (zeros k) = []" by (cases k) (simp_all add: zeros_def)
    moreover have "takeWhile (\<lambda>c. c \<noteq> nul) (name @ zeros k) = name @ takeWhile (\<lambda>c. c \<noteq> nul) (zeros k)"
      by (rule takeWhile_append2) (use assms(1) in auto)
    ultimately show ?thesis by simp
  qed
  with assms(2) show ?thesis by (simp add: header_name_def header_name_field)
qed

lemma read_octal_append:
  "read_octal (xs @ ys) v = (case read_octal xs v of None \<Rightarrow> None | Some w \<Rightarrow> read_octal ys w)"
  by (induction xs arbitrary: v) (auto split: option.splits)

lemma octal_digit_char [simp]: "d < 8 \<Longrightarrow> octal_digit (octal_char d) = Some d"
  by (simp add: octal_digit_def octal_char_def)

lemma read_octal_digits: "read_octal (octal_digits n v) a = Some (a * 8 ^ n + v mod 8 ^ n)"
proof (induction n arbitrary: v)
  case (Suc n)
  have "v mod 8 ^ Suc n = 8 * (v div 8 mod 8 ^ n) + v mod 8"
    using mod_mult2_eq [of v 8 "8 ^ n"] by simp
  with Suc show ?case by (simp add: read_octal_append algebra_simps)
qed simp

lemma parse_size_octal: "n \<le> max_tar_file_bytes \<Longrightarrow> parse_size (octal_digits 11 n @ [nul]) = Some n"
  by (simp add: parse_size_def read_octal_digits max_tar_file_bytes_def butlast_append)

lemma read_header_header:
  assumes "nul \<notin> set name" and "length name \<le> 100" and "name \<noteq> []" and "utf8_valid name"
    and "n \<le> max_tar_file_bytes" and "\<forall>p. previous = Some p \<longrightarrow> p < name"
  shows "read_header index previous (header name n) = Inr (name, n)"
  using assms
  by (auto simp: read_header_def header_name_header header_size_field parse_size_octal Let_def
      split: option.splits)

lemma read_header_Inr:
  assumes "read_header index previous h = Inr (name, n)"
  shows "h = header name n" and "name \<noteq> []" and "utf8_valid name" and "name = header_name h"
    and "\<forall>p. previous = Some p \<longrightarrow> p < name"
  using assms
  by (auto simp: read_header_def Let_def split: if_splits option.splits)

section \<open>What the writer makes reads back, and nothing else does\<close>

definition file_name :: "bundle_file \<Rightarrow> string" where
  "file_name f = path_text (file_path f)"

definition candidate_of :: "bundle_file \<Rightarrow> candidate" where
  "candidate_of f = candidate_read (file_name f) (file_contents f)"

definition writable :: "bundle_file \<Rightarrow> bool" where
  "writable f \<longleftrightarrow> file_name f \<noteq> [] \<and> nul \<notin> set (file_name f) \<and> length (file_name f) \<le> 100
     \<and> utf8_valid (file_name f) \<and> length (file_contents f) \<le> max_tar_file_bytes"

definition after_name :: "string option \<Rightarrow> bundle_file list \<Rightarrow> bool" where
  "after_name previous files \<longleftrightarrow> sorted_wrt (<) (map file_name files)
     \<and> (\<forall>p f. previous = Some p \<and> f \<in> set files \<longrightarrow> p < file_name f)"

lemma after_name_Cons:
  "after_name previous (f # files) \<longleftrightarrow>
   (\<forall>p. previous = Some p \<longrightarrow> p < file_name f) \<and> after_name (Some (file_name f)) files"
  by (auto simp: after_name_def)

lemma u64_len_small: "length xs \<le> u64_max \<Longrightarrow> u64_len xs = length xs"
  by (simp add: u64_len_def)

lemma padding_block: "512 + n + padding n = block_bytes + (n + padding n)"
  by (simp add: block_bytes_def)

lemma length_write_file: "length (write_file f) = block_bytes + (length (file_contents f) + padding (length (file_contents f)))"
  by (simp add: write_file_def block_bytes_def)

lemma max_tar_u64: "max_tar_file_bytes \<le> u64_max"
  by (simp add: max_tar_file_bytes_def u64_max_def)

lemma write_tar_simps:
  "write_tar [] = zeros end_bytes"
  "write_tar (f # files) = write_file f @ write_tar files"
  by (simp_all add: write_tar_def)

lemma closing_Inr: "closing cs rest = Inr out \<longleftrightarrow> out = cs \<and> rest = zeros end_bytes"
proof -
  have "list_all (\<lambda>c. c = nul) rest \<and> length rest = end_bytes \<longleftrightarrow> rest = zeros end_bytes"
    using all_nul [of rest] by auto
  then show ?thesis by (auto simp: closing_def Let_def split: if_splits)
qed

text \<open>One entry of the archive, as the reader takes it apart.\<close>

lemma read_entries_file:
  assumes tar: "tar = before @ write_file f @ later" and len: "length tar \<le> u64_max"
    and f: "writable f" and previous: "\<forall>p. previous = Some p \<longrightarrow> p < file_name f"
  shows "read_entries tar cs previous (length before) =
    read_entries tar (cs @ [candidate_of f]) (Some (file_name f)) (length (before @ write_file f))"
proof -
  let ?c = "file_contents f" and ?o = "length before"
  let ?n = "length ?c"
  have n: "u64_len ?c = ?n" using f max_tar_u64 by (simp add: writable_def u64_len_def)
  have all: "length tar = ?o + (512 + (?n + padding ?n)) + length later"
    using tar by (simp add: length_write_file block_bytes_def)
  have h: "take 512 (drop ?o tar) = header (file_name f) ?n"
    using n by (simp add: tar write_file_def file_name_def)
  have ok: "read_header (length cs + 1) previous (header (file_name f) ?n) = Inr (file_name f, ?n)"
    using f previous by (intro read_header_header) (auto simp: writable_def)
  have e: "data_end (length tar) (?o + 512) ?n = Some (?o + 512 + (?n + padding ?n))"
    using all len by (simp add: data_end_Some)
  have c: "take ?n (drop (?o + 512) tar) = ?c"
    by (simp add: tar write_file_def drop_append)
  have z: "take (padding ?n) (drop (?o + 512 + ?n) tar) = zeros (padding ?n)"
    by (simp add: tar write_file_def drop_append)
  have fits: "\<not> length tar < ?o + 512" using all by simp
  show ?thesis
    using fits header_not_zero [of "file_name f" ?n]
    by (subst read_entries.simps)
      (simp add: Let_def block_bytes_def h ok [simplified] e c z [unfolded add.assoc] candidate_of_def length_write_file list_ex_iff
        zeros_def add.assoc)
qed

lemma read_entries_write:
  assumes "tar = before @ write_tar files" and "length tar \<le> u64_max"
    and "\<forall>f\<in>set files. writable f" and "after_name previous files"
  shows "read_entries tar cs previous (length before) = Inr (cs @ map candidate_of files)"
  using assms
proof (induction files arbitrary: before cs previous)
  case Nil
  have "read_entries tar cs previous (length before) = closing cs (zeros end_bytes)"
    using Nil(1)
    by (subst read_entries.simps) (simp add: write_tar_simps end_bytes_def block_bytes_def zeros_def list_all_iff)
  then show ?case by (simp add: closing_Inr)
next
  case (Cons f files)
  let ?before = "before @ write_file f"
  have "read_entries tar cs previous (length before) =
      read_entries tar (cs @ [candidate_of f]) (Some (file_name f)) (length ?before)"
    using Cons.prems by (intro read_entries_file [where later = "write_tar files"])
      (auto simp: write_tar_simps after_name_Cons)
  also have "\<dots> = Inr ((cs @ [candidate_of f]) @ map candidate_of files)"
    using Cons.prems by (intro Cons.IH) (auto simp: write_tar_simps after_name_Cons)
  finally show ?case by simp
qed

lemma drop_split: "drop k s = take m (drop k s) @ drop (k + m) s"
  by (metis append_take_drop_id drop_drop add.commute)

lemma read_entries_canonical:
  assumes "read_entries tar cs previous offset = Inr out" and "length tar \<le> u64_max"
  shows "\<exists>files. out = cs @ map candidate_of files \<and> drop offset tar = write_tar files
    \<and> after_name previous files"
  using assms
proof (induction tar cs previous offset rule: read_entries.induct)
  case (1 tar cs previous offset)
  let ?h = "take block_bytes (drop offset tar)"
  have fits: "offset + block_bytes \<le> length tar"
    using 1(2) by (subst (asm) read_entries.simps) (auto split: if_splits)
  show ?case
  proof (cases "list_all (\<lambda>c. c = nul) ?h")
    case True
    with 1(2) fits have "closing cs (drop offset tar) = Inr out"
      by (subst (asm) read_entries.simps) (simp add: Let_def)
    then show ?thesis by (auto simp: closing_Inr write_tar_simps after_name_def intro!: exI [of _ "[]"])
  next
    case False
    let ?s = "offset + block_bytes"
    from 1(2) fits False obtain name n e where
      rh: "read_header (length cs + 1) previous ?h = Inr (name, n)" and
      e: "data_end (length tar) ?s n = Some e" and
      z: "\<not> list_ex (\<lambda>c. c \<noteq> nul) (take (e - (?s + n)) (drop (?s + n) tar))" and
      r: "read_entries tar (cs @ [candidate_read name (take n (drop ?s tar))]) (Some name) e = Inr out"
      by (subst (asm) read_entries.simps) (auto simp: Let_def split: sum.splits prod.splits option.splits if_splits)
    let ?c = "take n (drop ?s tar)"
    let ?f = "\<lparr>file_path = Bundle_Path name, file_contents = ?c\<rparr>"
    have e': "e = ?s + (n + padding n)" "e \<le> length tar" using e by (auto simp: data_end_Some)
    then have n: "length ?c = n" by simp
    obtain files where files: "out = (cs @ [candidate_read name ?c]) @ map candidate_of files"
      "drop e tar = write_tar files" "after_name (Some name) files"
      using 1(1) [OF _ refl refl False rh refl e refl refl z r 1(3)] fits by fastforce
    have len: "u64_len ?c = n" using n 1(3) e' by (simp add: u64_len_def)
    have pad: "take (padding n) (drop (?s + n) tar) = zeros (padding n)"
      using z e' all_nul [of "take (padding n) (drop (?s + n) tar)"] by (auto simp: list_ex_iff list_all_iff)
    have h: "?h = header name n" using rh by (rule read_header_Inr)
    have "drop offset tar = ?h @ drop ?s tar" by (rule drop_split)
    also have "drop ?s tar = ?c @ drop (?s + n) tar" by (rule drop_split)
    also have "drop (?s + n) tar = zeros (padding n) @ drop e tar"
      using drop_split [of "?s + n" tar "padding n"] pad e' by (simp add: add.assoc)
    finally have "drop offset tar = write_tar (?f # files)"
      using h n len files(2) by (simp add: write_tar_simps write_file_def)
    moreover have "after_name previous (?f # files)"
      using files(3) read_header_Inr(5) [OF rh] by (simp add: after_name_Cons file_name_def)
    ultimately show ?thesis
      using files(1) by (intro exI [of _ "?f # files"]) (simp add: candidate_of_def file_name_def)
  qed
qed

lemma read_tar_canonical:
  assumes "read_tar tar l = Inr cs" and "length tar \<le> u64_max"
  obtains files where "cs = map candidate_of files" and "tar = write_tar files" and "after_name None files"
  using read_entries_canonical [of tar "[]" None 0 cs] assms
  by (auto simp: read_tar_def split: if_splits)

end
