(* ===== verification/Bundle_Files.thy ===== *)
theory Bundle_Files
  imports Bundle_Archive
begin

text \<open>
  The checks every bundle's files pass, however they arrived: \<open>protocol/bundle/files.rs\<close>.
  Each file is checked on its own (path rules, size), then the whole set (collisions, number of
  files, total size). The \<open>BTreeMap\<close>s of the collision check are maps from folded text; the
  paths the checks accept are a set. The lemmas say when a set of files passes, what it then
  looks like, and that the outcome depends on the sorted files only.
\<close>

section \<open>Collisions\<close>

definition folded :: "bundle_path \<Rightarrow> string" where
  "folded p = to_ascii_lowercase (path_text p)"

text \<open>\<open>text.match_indices('/').map(|(at, _)| &text[..at])\<close>: the directories a path needs.\<close>

definition directories :: "string \<Rightarrow> string list" where
  "directories text = map (\<lambda>at. take at text) (filter (\<lambda>at. text ! at = CHR ''/'') [0..<length text])"

definition path_collision :: bundle_problem where
  "path_collision = bundle_problem_new PathCollision Written"

fun fold_names ::
    "(string \<rightharpoonup> bundle_path) \<Rightarrow> bundle_path list \<Rightarrow> bundle_problem list \<times> (string \<rightharpoonup> bundle_path)" where
  "fold_names files [] = ([], files)"
| "fold_names files (path # paths) =
     (case files (folded path) of
        Some _ \<Rightarrow> (let (problems, files') = fold_names files paths in (path_collision # problems, files'))
      | None \<Rightarrow> fold_names (files(folded path \<mapsto> path)) paths)"

definition directory_clashes :: "(string \<rightharpoonup> bundle_path) \<Rightarrow> bundle_path list \<Rightarrow> bundle_problem list" where
  "directory_clashes files paths =
     concat (map (\<lambda>path. map (\<lambda>_. path_collision)
       (filter (\<lambda>directory. files directory \<noteq> None) (directories (folded path)))) paths)"

fun spelling_clashes ::
    "(string \<rightharpoonup> string) \<Rightarrow> string set \<Rightarrow> string list \<Rightarrow> bundle_problem list" where
  "spelling_clashes spellings reported [] = []"
| "spelling_clashes spellings reported (directory # rest) =
     (let name = to_ascii_lowercase directory in
      case spellings name of
        Some first \<Rightarrow>
          if first \<noteq> directory \<and> name \<notin> reported
          then path_collision # spelling_clashes spellings (insert name reported) rest
          else spelling_clashes spellings reported rest
      | None \<Rightarrow> spelling_clashes (spellings(name \<mapsto> directory)) reported rest)"

definition collisions :: "bundle_path list \<Rightarrow> bundle_problem list" where
  "collisions paths =
     (let (problems, files) = fold_names Map.empty paths in
      problems @ directory_clashes files paths
        @ spelling_clashes Map.empty {} (concat (map (\<lambda>p. directories (path_text p)) paths)))"

section \<open>The checks\<close>

record file_checks =
  checked_files :: "bundle_file list"
  checked_paths :: "bundle_path set"
  checked_problems :: "bundle_problem list"

definition add_problem :: "bundle_problem \<Rightarrow> file_checks \<Rightarrow> file_checks" where
  "add_problem p c = c\<lparr>checked_problems := checked_problems c @ [p]\<rparr>"

definition check_sized :: "bundle_limits \<Rightarrow> candidate \<Rightarrow> bundle_path \<Rightarrow> file_checks \<Rightarrow> file_checks" where
  "check_sized l c path k =
     (let k = k\<lparr>checked_paths := insert path (checked_paths k)\<rparr> in
      if file_limit l < candidate_size c then add_problem (bundle_problem_new FileTooLarge Written) k
      else case candidate_contents c of
        Some contents \<Rightarrow> k\<lparr>checked_files := checked_files k @ [bundle_file_new path contents]\<rparr>
      | None \<Rightarrow> k)"

fun check_each ::
    "bundle_limits \<Rightarrow> candidate list \<Rightarrow> nat \<Rightarrow> bundle_path list \<Rightarrow> file_checks \<Rightarrow> nat \<times> bundle_path list \<times> file_checks" where
  "check_each l [] held valid k = (held, valid, k)"
| "check_each l (c # cs) held valid k =
     (let held = u64_saturating_add held (candidate_size c) in
      case bundle_path_new (candidate_path c) of
        Inl problem \<Rightarrow> check_each l cs held valid (add_problem problem k)
      | Inr path \<Rightarrow> check_each l cs held (valid @ [path]) (check_sized l c path k))"

definition add_problems :: "bundle_problem list \<Rightarrow> file_checks \<Rightarrow> file_checks" where
  "add_problems ps c = c\<lparr>checked_problems := checked_problems c @ ps\<rparr>"

definition check_candidates :: "candidate list \<Rightarrow> bundle_limits \<Rightarrow> file_checks" where
  "check_candidates candidates l =
     (let candidates = sort_key candidate_path candidates;
          (held, valid, k) = check_each l candidates 0 []
            \<lparr>checked_files = [], checked_paths = {}, checked_problems = []\<rparr>;
          k = add_problems (collisions valid) k;
          k = (if unat (max_files l) < length candidates
               then add_problem (bundle_problem_new TooManyFiles Written) k else k)
      in if unat (max_total_bytes l) < held
         then add_problem (bundle_problem_new BundleTooLarge Written) k else k)"

section \<open>When no two paths collide\<close>

text \<open>Paths a case-insensitive file system holds side by side.\<close>

definition extractable :: "bundle_path list \<Rightarrow> bool" where
  "extractable paths \<longleftrightarrow>
     distinct (map folded paths)
     \<and> (\<forall>p\<in>set paths. \<forall>d\<in>set (directories (folded p)). d \<notin> folded ` set paths)
     \<and> (\<forall>d\<in>\<Union>p\<in>set paths. set (directories (path_text p)).
         \<forall>e\<in>\<Union>p\<in>set paths. set (directories (path_text p)).
           to_ascii_lowercase d = to_ascii_lowercase e \<longrightarrow> d = e)"

lemma fold_names_dom: "dom (snd (fold_names m ps)) = dom m \<union> folded ` set ps"
proof (induction ps arbitrary: m)
  case (Cons path paths)
  show ?case
  proof (cases "m (folded path)")
    case None
    then have "dom (snd (fold_names m (path # paths))) = dom (m(folded path \<mapsto> path)) \<union> folded ` set paths"
      by (simp only: fold_names.simps option.case Cons.IH)
    then show ?thesis by (simp only: dom_fun_upd) auto
  next
    case (Some y)
    then have "folded path \<in> dom m" by blast
    with Cons.IH [of m] Some show ?thesis by (simp add: split_beta Let_def insert_absorb)
  qed
qed simp

lemma fold_names_clean:
  "fst (fold_names m ps) = [] \<longleftrightarrow> distinct (map folded ps) \<and> folded ` set ps \<inter> dom m = {}"
proof (induction ps arbitrary: m)
  case (Cons path paths)
  show ?case
  proof (cases "m (folded path)")
    case None
    then have "folded path \<notin> dom m" by blast
    have "fst (fold_names m (path # paths)) = [] \<longleftrightarrow>
        distinct (map folded paths) \<and> folded ` set paths \<inter> dom (m(folded path \<mapsto> path)) = {}"
      using None by (simp only: fold_names.simps option.case Cons.IH)
    also have "dom (m(folded path \<mapsto> path)) = insert (folded path) (dom m)"
      by (simp only: dom_fun_upd option.distinct if_False)
    also have "distinct (map folded paths) \<and> folded ` set paths \<inter> insert (folded path) (dom m) = {}
        \<longleftrightarrow> distinct (map folded paths) \<and> folded path \<notin> folded ` set paths \<and> folded ` set paths \<inter> dom m = {}"
      by auto
    also have "\<dots> \<longleftrightarrow> distinct (map folded (path # paths)) \<and> folded ` set (path # paths) \<inter> dom m = {}"
      using \<open>folded path \<notin> dom m\<close> by auto
    finally show ?thesis .
  next
    case (Some y)
    then have "folded path \<in> dom m" by blast
    with Some show ?thesis by (simp add: split_beta Let_def)
  qed
qed simp

lemma directory_clashes_clean:
  "directory_clashes m ps = [] \<longleftrightarrow> (\<forall>p\<in>set ps. \<forall>d\<in>set (directories (folded p)). d \<notin> dom m)"
  by (auto simp: directory_clashes_def filter_empty_conv)

lemma spelling_clashes_clean:
  "spelling_clashes sp {} ds = [] \<longleftrightarrow>
   (\<forall>d\<in>set ds. \<forall>e. sp (to_ascii_lowercase d) = Some e \<longrightarrow> e = d)
   \<and> (\<forall>d\<in>set ds. \<forall>e\<in>set ds. to_ascii_lowercase d = to_ascii_lowercase e \<longrightarrow> d = e)"
proof (induction ds arbitrary: sp)
  case (Cons d ds)
  show ?case
  proof (cases "sp (to_ascii_lowercase d)")
    case None
    have "spelling_clashes sp {} (d # ds) = [] \<longleftrightarrow>
      (\<forall>x\<in>set ds. \<forall>e. (sp(to_ascii_lowercase d \<mapsto> d)) (to_ascii_lowercase x) = Some e \<longrightarrow> e = x)
      \<and> (\<forall>x\<in>set ds. \<forall>e\<in>set ds. to_ascii_lowercase x = to_ascii_lowercase e \<longrightarrow> x = e)"
      using None by (simp add: Cons.IH Let_def)
    also have "(\<forall>x\<in>set ds. \<forall>e. (sp(to_ascii_lowercase d \<mapsto> d)) (to_ascii_lowercase x) = Some e \<longrightarrow> e = x)
      \<longleftrightarrow> (\<forall>x\<in>set ds. \<forall>e. sp (to_ascii_lowercase x) = Some e \<longrightarrow> e = x)
        \<and> (\<forall>x\<in>set ds. to_ascii_lowercase x = to_ascii_lowercase d \<longrightarrow> x = d)"
      using None by auto
    finally show ?thesis using None by (simp add: eq_commute conj_ac ball_conj_distrib)
  next
    case (Some e)
    show ?thesis
    proof (cases "e = d")
      case True
      with Some have "\<forall>x\<in>set ds. (\<forall>e. sp (to_ascii_lowercase x) = Some e \<longrightarrow> e = x) \<longrightarrow>
          (to_ascii_lowercase x = to_ascii_lowercase d \<longrightarrow> x = d)" by metis
      with True Some show ?thesis by (auto simp: Cons.IH Let_def)
    next
      case False
      with Some show ?thesis by (simp add: Let_def)
    qed
  qed
qed simp

lemma collisions_clean: "collisions ps = [] \<longleftrightarrow> extractable ps"
proof -
  obtain problems files where f: "fold_names Map.empty ps = (problems, files)" by (cases "fold_names Map.empty ps")
  then have d: "dom files = folded ` set ps" using fold_names_dom [of Map.empty ps] by simp
  have p: "problems = [] \<longleftrightarrow> distinct (map folded ps)" using fold_names_clean [of Map.empty ps] f by simp
  show ?thesis
    by (simp add: collisions_def f p directory_clashes_clean d spelling_clashes_clean extractable_def)
qed

section \<open>What the checks accept\<close>

lemma add_problem_sel [simp]:
  "checked_problems (add_problem p k) = checked_problems k @ [p]"
  "checked_files (add_problem p k) = checked_files k"
  "checked_paths (add_problem p k) = checked_paths k"
  by (simp_all add: add_problem_def)

lemma add_problems_sel [simp]:
  "checked_problems (add_problems ps k) = checked_problems k @ ps"
  "checked_files (add_problems ps k) = checked_files k"
  "checked_paths (add_problems ps k) = checked_paths k"
  by (simp_all add: add_problems_def)

lemma bundle_file_eta: "bundle_file_new (file_path f) (file_contents f) = f"
  by (simp add: bundle_file_new_def)

definition sound_file :: "bundle_limits \<Rightarrow> bundle_file \<Rightarrow> bool" where
  "sound_file l f \<longleftrightarrow> bundle_path_new (file_name f) = Inr (file_path f)
     \<and> u64_len (file_contents f) \<le> file_limit l"

lemma check_each_total:
  "t \<le> u64_max \<Longrightarrow>
   fst (check_each l cs t valid k) = min u64_max (t + sum_list (map candidate_size cs))"
  by (induction l cs t valid k rule: check_each.induct)
    (auto simp: Let_def u64_saturating_add_def min_def split: sum.splits)

lemma check_each_sound:
  assumes "\<forall>f\<in>set fs. sound_file l f"
  shows "check_each l (map candidate_of fs) t valid k =
    (fst (check_each l (map candidate_of fs) t valid k), valid @ map file_path fs,
     k\<lparr>checked_files := checked_files k @ fs, checked_paths := checked_paths k \<union> file_path ` set fs\<rparr>)"
  using assms
proof (induction fs arbitrary: t valid k)
  case (Cons f fs)
  let ?t = "u64_saturating_add t (u64_len (file_contents f))"
  have f: "bundle_path_new (file_name f) = Inr (file_path f)"
    "\<not> file_limit l < u64_len (file_contents f)" using Cons.prems by (auto simp: sound_file_def)
  have "check_each l (map candidate_of (f # fs)) t valid k =
    check_each l (map candidate_of fs) ?t (valid @ [file_path f])
      (k\<lparr>checked_paths := insert (file_path f) (checked_paths k), checked_files := checked_files k @ [f]\<rparr>)"
    using f
    by (simp add: candidate_of_def candidate_read_def check_sized_def bundle_file_eta Let_def file_name_def)
  then show ?case
    using Cons.IH [of ?t "valid @ [file_path f]"
        "k\<lparr>checked_paths := insert (file_path f) (checked_paths k), checked_files := checked_files k @ [f]\<rparr>"]
      Cons.prems by simp
qed simp

lemma check_sized_problems: "checked_problems (check_sized l c p k) = checked_problems k \<longleftrightarrow> \<not> file_limit l < candidate_size c"
  by (simp add: check_sized_def Let_def split: option.splits)

lemma check_each_problems:
  "\<exists>ps. checked_problems (snd (snd (check_each l cs t valid k))) = checked_problems k @ ps"
proof (induction l cs t valid k rule: check_each.induct)
  case (2 l c cs t valid k)
  show ?case
  proof (cases "bundle_path_new (candidate_path c)")
    case (Inl problem)
    with 2(1) [OF refl] show ?thesis by (auto simp: Let_def)
  next
    case (Inr path)
    have "\<exists>ps. checked_problems (check_sized l c path k) = checked_problems k @ ps"
      by (simp add: check_sized_def Let_def split: option.splits)
    with 2(2) [OF refl Inr] Inr show ?thesis by (auto simp: Let_def)
  qed
qed simp

text \<open>Candidates read in full that raise no problem are sound files.\<close>

definition read_in_full :: "candidate \<Rightarrow> bool" where
  "read_in_full c \<longleftrightarrow> (\<exists>contents. c = candidate_read (candidate_path c) contents)"

lemma check_each_clean:
  assumes "\<forall>c\<in>set cs. read_in_full c"
    and "checked_problems (snd (snd (check_each l cs t valid k))) = []"
  shows "\<exists>fs. cs = map candidate_of fs \<and> (\<forall>f\<in>set fs. sound_file l f)"
  using assms
proof (induction cs arbitrary: t valid k)
  case (Cons c cs)
  obtain contents where c: "c = candidate_read (candidate_path c) contents"
    using Cons.prems(1) by (auto simp: read_in_full_def)
  let ?t = "u64_saturating_add t (candidate_size c)"
  show ?case
  proof (cases "bundle_path_new (candidate_path c)")
    case (Inl problem)
    with Cons.prems(2) check_each_problems [of l cs ?t valid "add_problem problem k"] show ?thesis
      by (auto simp: Let_def)
  next
    case (Inr path)
    let ?k = "check_sized l c path k"
    have rest: "checked_problems (snd (snd (check_each l cs ?t (valid @ [path]) ?k))) = []"
      using Cons.prems(2) Inr by (simp add: Let_def)
    then have "checked_problems ?k = []"
      using check_each_problems [of l cs ?t "valid @ [path]" ?k] by auto
    then have within: "candidate_size c \<le> file_limit l"
      by (auto simp: check_sized_def Let_def split: if_splits)
    let ?f = "bundle_file_new path contents"
    have "path_text path = candidate_path c" using Inr by (rule bundle_path_new_text)
    moreover have "candidate_size c = u64_len contents"
      using arg_cong [OF c, of candidate_size] by (simp add: candidate_read_def)
    ultimately have "c = candidate_of ?f" and "sound_file l ?f"
      using c Inr within
      by (auto simp: candidate_of_def sound_file_def file_name_def bundle_file_new_def candidate_read_def)
    moreover obtain fs where "cs = map candidate_of fs" "\<forall>f\<in>set fs. sound_file l f"
      using Cons.IH [OF _ rest] Cons.prems(1) by auto
    ultimately show ?thesis by (intro exI [of _ "?f # fs"]) simp
  qed
qed simp

definition within_limits :: "bundle_limits \<Rightarrow> bundle_file list \<Rightarrow> bool" where
  "within_limits l fs \<longleftrightarrow> length fs \<le> unat (max_files l)
     \<and> min u64_max (sum_list (map (\<lambda>f. u64_len (file_contents f)) fs)) \<le> unat (max_total_bytes l)"

definition sound_files :: "bundle_limits \<Rightarrow> bundle_file list \<Rightarrow> bool" where
  "sound_files l fs \<longleftrightarrow> (\<forall>f\<in>set fs. sound_file l f) \<and> extractable (map file_path fs) \<and> within_limits l fs"

lemma check_sorted: "check_candidates (sort_key candidate_path cs) l = check_candidates cs l"
  by (simp add: check_candidates_def sort_key_id_if_sorted)

lemma check_accepts:
  assumes "sort_key candidate_path cs = map candidate_of fs" and "sound_files l fs"
  shows "check_candidates cs l =
    \<lparr>checked_files = fs, checked_paths = file_path ` set fs, checked_problems = []\<rparr>"
proof -
  let ?k = "\<lparr>checked_files = [], checked_paths = {}, checked_problems = []\<rparr>"
  have sizes: "map candidate_size (map candidate_of fs) = map (\<lambda>f. u64_len (file_contents f)) fs"
    by (simp add: candidate_of_def candidate_read_def)
  have t: "fst (check_each l (map candidate_of fs) 0 [] ?k)
      = min u64_max (sum_list (map (\<lambda>f. u64_len (file_contents f)) fs))"
    by (subst check_each_total) (simp_all only: sizes add_0)
  have "check_each l (map candidate_of fs) 0 [] ?k =
      (min u64_max (sum_list (map (\<lambda>f. u64_len (file_contents f)) fs)), map file_path fs,
       \<lparr>checked_files = fs, checked_paths = file_path ` set fs, checked_problems = []\<rparr>)"
    using check_each_sound [of fs l 0 "[]" ?k] assms(2) t by (simp add: sound_files_def)
  moreover have "collisions (map file_path fs) = []"
    using assms(2) by (simp add: collisions_clean sound_files_def)
  moreover have "\<not> unat (max_total_bytes l) < min u64_max (sum_list (map (\<lambda>f. u64_len (file_contents f)) fs))"
    and "\<not> unat (max_files l) < length fs"
    using assms(2) by (auto simp: sound_files_def within_limits_def)
  ultimately show ?thesis
    using assms(1) by (simp add: check_candidates_def add_problems_def del: min_less_iff_disj min_less_iff_conj)
qed

lemma check_clean:
  assumes "\<forall>c\<in>set cs. read_in_full c" and "checked_problems (check_candidates cs l) = []"
  obtains fs where "sort_key candidate_path cs = map candidate_of fs" and "sound_files l fs"
proof -
  let ?cs = "sort_key candidate_path cs"
  let ?k = "\<lparr>checked_files = [], checked_paths = {}, checked_problems = []\<rparr>"
  obtain held valid k where e: "check_each l ?cs 0 [] ?k = (held, valid, k)"
    by (cases "check_each l ?cs 0 [] ?k")
  have clean: "checked_problems k = []" "collisions valid = []" "length ?cs \<le> unat (max_files l)"
    "held \<le> unat (max_total_bytes l)"
    using assms(2) by (auto simp: check_candidates_def Let_def e split: if_splits)
  obtain fs where fs: "?cs = map candidate_of fs" "\<forall>f\<in>set fs. sound_file l f"
    using check_each_clean [of ?cs l 0 "[]" ?k] assms(1) e clean(1) by auto
  have "valid = map file_path fs"
    using check_each_sound [OF fs(2), of 0 "[]" ?k] e fs(1) by simp
  moreover have "held = min u64_max (sum_list (map candidate_size (map candidate_of fs)))"
    using check_each_total [of 0 l "map candidate_of fs" "[]" ?k] e fs(1) by simp
  moreover have "length fs = length ?cs" using fs(1) by simp
  ultimately have "sound_files l fs"
    using clean fs(2)
    by (simp add: sound_files_def within_limits_def collisions_clean comp_def candidate_of_def candidate_read_def)
  with fs(1) that show ?thesis by blast
qed

lemma sound_files_distinct: "sound_files l fs \<Longrightarrow> distinct (map file_name fs)"
proof -
  assume "sound_files l fs"
  then have "distinct (map folded (map file_path fs))" by (simp add: sound_files_def extractable_def)
  moreover have "map folded (map file_path fs) = map to_ascii_lowercase (map file_name fs)"
    by (simp add: folded_def file_name_def)
  ultimately show ?thesis by (metis distinct_map)
qed

lemma sound_files_sorted:
  assumes "sound_files l fs" and "sorted (map file_name fs)"
  shows "after_name None fs"
  using sound_files_distinct [OF assms(1)] assms(2)
  by (simp add: after_name_def strict_sorted_iff)

lemma in_split_on: "b \<in> set s \<Longrightarrow> b \<noteq> c \<Longrightarrow> \<exists>p\<in>set (split_on c s). b \<in> set p"
  by (induction s) (auto split: list.splits)

lemma sound_file_writable: "sound_file l f \<Longrightarrow> writable f"
proof -
  assume f: "sound_file l f"
  then have p: "path_fault (file_name f) = None"
    by (auto simp: sound_file_def dest: bundle_path_new_Inr(2))
  have "nul \<notin> set (file_name f)"
  proof
    assume n: "nul \<in> set (file_name f)"
    have "\<exists>c\<in>set (split_on (CHR ''/'') (file_name f)). nul \<in> set c"
      using n by (rule in_split_on) (simp add: nul_def)
    then obtain c where c: "c \<in> set (split_on (CHR ''/'') (file_name f))" "nul \<in> set c" by blast
    have "component_fault c = None" using bspec [OF path_fault_None(4) [OF p] c(1)] .
    then have "component_byte nul" using bspec [OF component_fault_None(4) c(2)] by simp
    then show False by (simp add: component_byte_def nul_def char_class_defs)
  qed
  moreover have "length (file_contents f) \<le> max_tar_file_bytes"
    using f by (auto simp: sound_file_def file_limit_def u64_len_def max_tar_file_bytes_def u64_max_def split: if_splits)
  ultimately show ?thesis
    using path_fault_None [OF p] by (simp add: writable_def utf8_valid_ascii)
qed

text \<open>The archive of sound files is within what the limits allow.\<close>

lemma padding_small: "padding n \<le> 511"
  by (simp add: padding_def block_bytes_def)

lemma length_write_tar:
  "length (write_tar fs) \<le> 1023 * length fs + sum_list (map (\<lambda>f. length (file_contents f)) fs) + 1024"
proof (induction fs)
  case Nil
  show ?case by (simp add: write_tar_simps end_bytes_def block_bytes_def)
next
  case (Cons f fs)
  then show ?case
    using padding_small [of "length (file_contents f)"]
    by (simp add: write_tar_simps length_write_file block_bytes_def)
qed

lemma write_tar_fits:
  assumes "sound_files l fs"
  shows "u64_len (write_tar fs) \<le> max_archive_bytes l"
proof -
  let ?sum = "sum_list (map (\<lambda>f. length (file_contents f)) fs)"
  have "\<forall>f\<in>set fs. length (file_contents f) \<le> u64_max"
    using assms sound_file_writable max_tar_u64
    by (fastforce simp: sound_files_def writable_def)
  then have "sum_list (map (\<lambda>f. u64_len (file_contents f)) fs) = ?sum"
    by (intro arg_cong [where f = sum_list]) (simp add: u64_len_small)
  then have held: "min u64_max ?sum \<le> unat (max_total_bytes l)" and count: "length fs \<le> unat (max_files l)"
    using assms by (simp_all add: sound_files_def within_limits_def)
  have files: "unat (max_files l) * 1023 \<le> u64_max"
    using word_nat_bound [of "max_files l"] by (simp add: u64_max_def)
  have total: "unat (max_total_bytes l) \<le> u64_max"
    using word_nat_bound [of "max_total_bytes l"] by (simp add: u64_max_def)
  show ?thesis
    using length_write_tar [of fs] held count files total
    by (auto simp: u64_len_def max_archive_bytes_def u64_saturating_add_def u64_saturating_mul_def min_def
        split: if_splits)
qed

lemma padded_blocks: "(n + padding n) mod 512 = 0"
proof (cases "n mod 512 = 0")
  case False
  have "n mod 512 < 512" by simp
  with False have "padding n = 512 - n mod 512" by (simp add: padding_def block_bytes_def)
  then have "n + padding n = 512 * (n div 512) + 512"
    using mult_div_mod_eq [of 512 n] \<open>n mod 512 < 512\<close> by linarith
  then show ?thesis by simp
qed (simp add: padding_def block_bytes_def)

lemma length_write_file_blocks: "length (write_file f) mod 512 = 0"
  using padded_blocks [of "length (file_contents f)"] by (simp add: length_write_file block_bytes_def)

lemma length_write_tar_blocks: "length (write_tar fs) mod block_bytes = 0"
  by (induction fs)
    (simp_all add: write_tar_simps end_bytes_def block_bytes_def mod_add_eq length_write_file_blocks
      flip: mod_add_eq)

text \<open>A server reads back exactly the files a client wrote.\<close>

lemma read_tar_write:
  assumes "sound_files l fs" and "sorted (map file_name fs)" and "length (write_tar fs) \<le> u64_max"
  shows "read_tar (write_tar fs) l = Inr (map candidate_of fs)"
proof -
  have "read_entries (write_tar fs) [] None (length ([] :: string)) = Inr ([] @ map candidate_of fs)"
    using assms sound_files_sorted sound_file_writable
    by (intro read_entries_write [where before = "[]"]) (auto simp: sound_files_def)
  with write_tar_fits [OF assms(1)] length_write_tar_blocks show ?thesis
    by (simp add: read_tar_def)
qed

end
