(* ===== verification/Wire.thy ===== *)
theory Wire
  imports Numerals
begin

text \<open>
  The wire's small values: protocol errors (\<open>protocol/mod.rs\<close>, \<open>protocol/errors.rs\<close>), content
  hashes (\<open>protocol/hash.rs\<close>) and protocol versions (\<open>protocol/version.rs\<close>), with the opening of
  a session (\<open>protocol/stream/handshake.rs\<close>). A digest is a list of 32 bytes. The lemmas show
  that each value has one spelling and that two peers agree on the newest version both speak.
\<close>

section \<open>Errors\<close>

datatype protocol_error =
    InvalidDecimal string string
  | InvalidContentHash string
  | InvalidId string string
  | InvalidPathVersion string
  | InvalidVersionRange u32 u32
  | InvalidEngineVersion string
  | InvalidEngineRequirement string string
  | InvalidPythonVersion string
  | InvalidPackageName string string
  | InvalidPackageVersion string
  | InvalidEntry string string
  | PeerTooOld u32 u32
  | PeerTooNew u32 u32

section \<open>Content hashes\<close>

type_synonym u8 = "8 word"

datatype content_hash = Content_Hash (hash_digest: "u8 list")

definition hash_prefix :: string where "hash_prefix = ''sha256:''"

definition hex_char :: "nat \<Rightarrow> char" where
  "hex_char d = (if d < 10 then char_of (48 + d) else char_of (87 + d))"

definition hex_byte :: "u8 \<Rightarrow> string" where
  "hex_byte b = [hex_char (unat b div 16), hex_char (unat b mod 16)]"

definition content_hash_text :: "content_hash \<Rightarrow> string" where
  "content_hash_text h = hash_prefix @ concat (map hex_byte (hash_digest h))"

definition nibble :: "char \<Rightarrow> nat option" where
  "nibble c = (if 48 \<le> code c \<and> code c \<le> 57 then Some (code c - 48)
     else if 97 \<le> code c \<and> code c \<le> 102 then Some (code c - 97 + 10) else None)"

fun read_hex :: "string \<Rightarrow> u8 list option" where
  "read_hex [] = Some []"
| "read_hex [_] = None"
| "read_hex (high # low # rest) =
     (case nibble high of None \<Rightarrow> None | Some h \<Rightarrow>
       (case nibble low of None \<Rightarrow> None | Some l \<Rightarrow>
         (case read_hex rest of None \<Rightarrow> None | Some bs \<Rightarrow> Some (of_nat (16 * h + l) # bs))))"

definition content_hash_from_str :: "string \<Rightarrow> protocol_error + content_hash" where
  "content_hash_from_str text =
     (case strip_prefix hash_prefix text of None \<Rightarrow> Inl (InvalidContentHash text)
      | Some hex \<Rightarrow>
          if length hex \<noteq> 64 then Inl (InvalidContentHash text)
          else map_err (\<lambda>_. InvalidContentHash text)
                 (ok_or () (map_option Content_Hash (read_hex hex))))"

lemma nibble_hex [simp]: "d < 16 \<Longrightarrow> nibble (hex_char d) = Some d"
  by (simp add: nibble_def hex_char_def)

lemma hex_nibble: "nibble c = Some d \<Longrightarrow> hex_char d = c \<and> d < 16"
  by (auto simp: nibble_def hex_char_def code_def split: if_splits)

lemma u8_bound: "unat (b :: u8) < 256"
  using word_nat_bound [of b] by simp

lemma hex_of_byte: "unat (of_nat (16 * h + l) :: u8) = 16 * h + l" if "h < 16" "l < 16"
  using that by (intro unat_of_nat_small) simp

lemma read_hex_text: "read_hex (concat (map hex_byte bs)) = Some bs"
proof (induction bs)
  case (Cons b bs)
  have "unat b div 16 < 16" using u8_bound [of b] by simp
  with Cons show ?case by (simp add: hex_byte_def)
qed simp

lemma read_hex_Some: "read_hex s = Some bs \<Longrightarrow> concat (map hex_byte bs) = s \<and> 2 * length bs = length s"
proof (induction s arbitrary: bs rule: read_hex.induct)
  case (3 high low rest)
  then obtain h l bs' where h: "nibble high = Some h" "nibble low = Some l" "read_hex rest = Some bs'"
    "bs = of_nat (16 * h + l) # bs'"
    by (auto split: option.splits)
  with 3(1) [OF h(1,2,3)] show ?case
    using hex_nibble [OF h(1)] hex_nibble [OF h(2)] by (simp add: hex_byte_def hex_of_byte del: of_nat_add of_nat_mult)
qed auto

lemma length_hex_bytes: "length (concat (map hex_byte bs)) = 2 * length bs"
  by (induction bs) (simp_all add: hex_byte_def)

lemma content_hash_reads_back:
  "length (hash_digest h) = 32 \<Longrightarrow> content_hash_from_str (content_hash_text h) = Inr h"
  by (simp add: content_hash_from_str_def content_hash_text_def length_hex_bytes read_hex_text)

lemma content_hash_spelling:
  "content_hash_from_str text = Inr h \<Longrightarrow> content_hash_text h = text \<and> length (hash_digest h) = 32"
  by (auto simp: content_hash_from_str_def content_hash_text_def dest: read_hex_Some split: option.splits if_splits)

section \<open>Protocol versions\<close>

datatype proto_version = ProtoVersion (version_number: u32)

definition newest_proto_version :: proto_version where "newest_proto_version = ProtoVersion 1"
definition min_supported_version :: proto_version where "min_supported_version = ProtoVersion 1"

instantiation proto_version :: linorder
begin

definition less_eq_proto_version :: "proto_version \<Rightarrow> proto_version \<Rightarrow> bool" where
  "a \<le> b \<longleftrightarrow> version_number a \<le> version_number b"

definition less_proto_version :: "proto_version \<Rightarrow> proto_version \<Rightarrow> bool" where
  "a < b \<longleftrightarrow> version_number a < version_number b"

instance
  by standard (auto simp: less_eq_proto_version_def less_proto_version_def intro: proto_version.expand)

end

definition path_segment :: "proto_version \<Rightarrow> string" where
  "path_segment v = CHR ''v'' # u32_string (version_number v)"

definition from_path_segment :: "string \<Rightarrow> protocol_error + proto_version" where
  "from_path_segment segment =
     (case strip_prefix ''v'' segment of None \<Rightarrow> Inl (InvalidPathVersion segment)
      | Some digits \<Rightarrow>
          if \<not> (digits \<noteq> [] \<and> hd digits \<noteq> CHR ''0'' \<and> list_all is_ascii_digit digits)
          then Inl (InvalidPathVersion segment)
          else ok_or (InvalidPathVersion segment) (map_option ProtoVersion (parse_u32 digits)))"

record version_range =
  vr_min_supported :: proto_version
  vr_proto_version :: proto_version

definition supported_versions :: version_range where
  "supported_versions = \<lparr>vr_min_supported = min_supported_version, vr_proto_version = newest_proto_version\<rparr>"

definition holds_a_version :: "version_range \<Rightarrow> bool" where
  "holds_a_version r \<longleftrightarrow> ProtoVersion 1 \<le> vr_min_supported r \<and> vr_min_supported r \<le> vr_proto_version r"

definition supports :: "version_range \<Rightarrow> proto_version \<Rightarrow> bool" where
  "supports r v \<longleftrightarrow> holds_a_version r \<and> vr_min_supported r \<le> v \<and> v \<le> vr_proto_version r"

definition invalid_range :: "version_range \<Rightarrow> protocol_error" where
  "invalid_range r = InvalidVersionRange (version_number (vr_min_supported r)) (version_number (vr_proto_version r))"

definition negotiate :: "version_range \<Rightarrow> version_range \<Rightarrow> protocol_error + proto_version" where
  "negotiate self peer =
     (if \<not> holds_a_version self then Inl (invalid_range self)
      else if \<not> holds_a_version peer then Inl (invalid_range peer)
      else if vr_proto_version peer < vr_min_supported self
      then Inl (PeerTooOld (version_number (vr_proto_version peer)) (version_number (vr_min_supported self)))
      else if vr_proto_version self < vr_min_supported peer
      then Inl (PeerTooNew (version_number (vr_min_supported peer)) (version_number (vr_proto_version self)))
      else Inr (min (vr_proto_version self) (vr_proto_version peer)))"

lemma u32_string_plain: "plain_numeral (u32_string w)"
  by (simp add: u32_string_def nat_string_plain)

lemma u32_string_hd: "0 < w \<Longrightarrow> hd (u32_string w) \<noteq> CHR ''0''"
  by (simp add: u32_string_def nat_string_hd unat_gt_0 word_gt_0)

lemma u32_string_zero: "u32_string 0 = ''0''"
  by (simp add: u32_string_def nat_string_0)

lemma path_segment_reads_back: "0 < version_number v \<Longrightarrow> from_path_segment (path_segment v) = Inr v"
  using u32_string_plain [of "version_number v"] u32_string_hd [of "version_number v"]
  by (simp add: from_path_segment_def path_segment_def strip_prefix_def plain_numeral_def)

lemma path_segment_spelling:
  assumes "from_path_segment s = Inr v"
  shows "path_segment v = s" and "0 < version_number v"
proof -
  obtain digits w where d: "s = CHR ''v'' # digits" "digits \<noteq> []" "hd digits \<noteq> CHR ''0''"
    "list_all is_ascii_digit digits" "parse_u32 digits = Some w" "v = ProtoVersion w"
    using assms by (auto simp: from_path_segment_def split: option.splits if_splits)
  then have p: "u32_string w = digits" by (intro plain_parse_prints) (simp_all add: plain_numeral_def)
  with d show "path_segment v = s" by (simp add: path_segment_def)
  have "w \<noteq> 0" using p d(3) u32_string_zero by auto
  with d show "0 < version_number v" by (simp add: word_gt_0)
qed

lemma holds_a_version_iff: "holds_a_version r \<longleftrightarrow> (\<exists>v. supports r v)"
  by (auto simp: supports_def holds_a_version_def intro: exI [of _ "vr_min_supported r"])

lemma newest_shared_iff:
  fixes b d v :: "'a::linorder"
  assumes "a \<le> b" and "c \<le> d" and "a \<le> d" and "c \<le> b"
  shows "min b d = v \<longleftrightarrow>
    (a \<le> v \<and> v \<le> b) \<and> (c \<le> v \<and> v \<le> d) \<and> (\<forall>w. (a \<le> w \<and> w \<le> b) \<and> (c \<le> w \<and> w \<le> d) \<longrightarrow> w \<le> v)"
    (is "_ \<longleftrightarrow> ?newest v")
proof
  have m: "?newest (min b d)" using assms by simp
  then show "min b d = v \<Longrightarrow> ?newest v" by simp
  assume v: "?newest v"
  show "min b d = v"
  proof (rule antisym)
    show "min b d \<le> v" using v assms by simp
    show "v \<le> min b d" using v by simp
  qed
qed

lemma negotiate_Inr:
  "negotiate self peer = Inr v \<longleftrightarrow>
   supports self v \<and> supports peer v \<and> (\<forall>w. supports self w \<and> supports peer w \<longrightarrow> w \<le> v)"
proof (cases "holds_a_version self \<and> holds_a_version peer
    \<and> vr_min_supported self \<le> vr_proto_version peer \<and> vr_min_supported peer \<le> vr_proto_version self")
  case True
  then have "negotiate self peer = Inr v \<longleftrightarrow> min (vr_proto_version self) (vr_proto_version peer) = v"
    by (auto simp: negotiate_def dest: leD)
  also note newest_shared_iff [of "vr_min_supported self" _ "vr_min_supported peer"]
  finally show ?thesis using True by (simp add: supports_def holds_a_version_def)
next
  case False
  then have "negotiate self peer \<noteq> Inr v" by (auto simp: negotiate_def not_less)
  moreover have "\<not> (supports self v \<and> supports peer v)"
    using False by (auto simp: supports_def intro: order.trans)
  ultimately show ?thesis by blast
qed

section \<open>Opening a session and reporting an error\<close>

record hello_versions =
  hv_proto_version :: proto_version
  hv_min_supported :: proto_version

definition hello_versions_range :: "hello_versions \<Rightarrow> version_range" where
  "hello_versions_range h = \<lparr>vr_min_supported = hv_min_supported h, vr_proto_version = hv_proto_version h\<rparr>"

record hello =
  he_proto_version :: proto_version
  he_min_supported :: proto_version
  he_token :: string
  he_capabilities :: "string list"

definition hello_range :: "hello \<Rightarrow> version_range" where
  "hello_range h = \<lparr>vr_min_supported = he_min_supported h, vr_proto_version = he_proto_version h\<rparr>"

record server_version =
  sv_version :: string
  sv_proto_version :: proto_version
  sv_min_supported :: proto_version

definition server_range :: "server_version \<Rightarrow> version_range" where
  "server_range s = \<lparr>vr_min_supported = sv_min_supported s, vr_proto_version = sv_proto_version s\<rparr>"

datatype error_code = InvalidRequest | Unauthorized | NotFound | ConflictingRequest
  | UnsupportedVersion | LimitExceeded | RateLimited | Unavailable | Internal | UnrecognizedCode

primrec http_status :: "error_code \<Rightarrow> u16 option" where
  "http_status InvalidRequest = Some 400"
| "http_status UnsupportedVersion = Some 400"
| "http_status Unauthorized = Some 401"
| "http_status NotFound = Some 404"
| "http_status ConflictingRequest = Some 409"
| "http_status LimitExceeded = Some 429"
| "http_status RateLimited = Some 429"
| "http_status Internal = Some 500"
| "http_status Unavailable = Some 503"
| "http_status UnrecognizedCode = None"

text \<open>\<open>opaque_id\<close>: its length is counted in bytes, but a text it accepts is ASCII.\<close>

definition opaque_byte :: "char \<Rightarrow> bool" where
  "opaque_byte c \<longleftrightarrow> is_ascii_alphanumeric c \<or> c = CHR ''-'' \<or> c = CHR ''_''"

definition opaque_id :: "string \<Rightarrow> string \<Rightarrow> protocol_error + string" where
  "opaque_id kind i =
     (if 1 \<le> length i \<and> length i \<le> 64 \<and> list_all opaque_byte i then Inr i else Inl (InvalidId kind i))"

datatype session_id = SessionId (session_id_text: string)
datatype job_id = JobId (job_id_text: string)

definition session_id_new :: "string \<Rightarrow> protocol_error + session_id" where
  "session_id_new i = and_then (opaque_id ''session id'' i) (\<lambda>i. Inr (SessionId i))"

definition job_id_new :: "string \<Rightarrow> protocol_error + job_id" where
  "job_id_new i = and_then (opaque_id ''job id'' i) (\<lambda>i. Inr (JobId i))"

text \<open>A hello decoded in full and decoded for its versions only negotiate alike.\<close>

lemma hello_negotiates_alike:
  "negotiate s (hello_range h)
    = negotiate s (hello_versions_range \<lparr>hv_proto_version = he_proto_version h, hv_min_supported = he_min_supported h\<rparr>)"
  by (simp add: hello_range_def hello_versions_range_def)

text \<open>An id never leaves its place in a URL path: it holds no \<open>/\<close>, \<open>.\<close> or \<open>%\<close>.\<close>

lemma opaque_id_safe:
  "opaque_id kind i = Inr j \<Longrightarrow> j = i \<and> set j \<inter> {CHR ''/'', CHR ''.'', CHR ''%'', CHR '' ''} = {}"
  by (auto simp: opaque_id_def list_all_iff opaque_byte_def char_class_defs split: if_splits)

text \<open>C40: two peers agree on the newest version both speak: negotiation succeeds exactly when some
  version is in both ranges, whichever side asks, and its result is the greatest of them.\<close>

theorem negotiation_finds_the_newest_shared_version:
  "(negotiate self peer = Inr v \<longleftrightarrow>
      supports self v \<and> supports peer v \<and> (\<forall>w. supports self w \<and> supports peer w \<longrightarrow> w \<le> v))
   \<and> (negotiate self peer = Inr v \<longleftrightarrow> negotiate peer self = Inr v)
   \<and> ((\<exists>w. supports self w \<and> supports peer w) \<longrightarrow> (\<exists>w. negotiate self peer = Inr w))"
proof -
  have "negotiate self peer = Inr (min (vr_proto_version self) (vr_proto_version peer))"
    if "supports self w" "supports peer w" for w
    using that by (auto simp: negotiate_def supports_def dest: leD order.trans)
  moreover have "negotiate self peer = Inr v \<longleftrightarrow> negotiate peer self = Inr v"
    unfolding negotiate_Inr by blast
  ultimately show ?thesis using negotiate_Inr [of self peer v] by blast
qed

definition version_range_of :: "u32 \<Rightarrow> u32 \<Rightarrow> version_range" where
  "version_range_of lo hi = \<lparr>vr_min_supported = ProtoVersion lo, vr_proto_version = ProtoVersion hi\<rparr>"

theorem negotiation_finds_the_newest_shared_version_witness:
  "negotiate (version_range_of 3 7) (version_range_of 2 4) = Inr (ProtoVersion 4)
   \<and> supports (version_range_of 2 4) (ProtoVersion 4)"
proof -
  have "negotiate (version_range_of 2 4) (version_range_of 3 7) = Inr (ProtoVersion 4)" by code_simp
  with negotiation_finds_the_newest_shared_version [of "version_range_of 2 4" "version_range_of 3 7" "ProtoVersion 4"]
  show ?thesis by blast
qed

end
