(* ===== verification/Bundle_Version.thy ===== *)
theory Bundle_Version
  imports Bundle_Path Wire
begin

text \<open>
  What a bundle asks for: package names and pins (\<open>protocol/bundle/package.rs\<close>), engine and
  Python versions and the engine requirement (\<open>protocol/bundle/requirement.rs\<close>). Scanning is by
  byte offset, as in the code. The reason inside a refusal is the code's text without the value
  it quotes. The lemmas show that a package has one accepted spelling, and that versions and
  requirements read back as they print.
\<close>

section \<open>Package names and pins\<close>

datatype package_name = PackageName (package_name_text: string)
datatype package_version = PackageVersion (package_version_text: string)

definition separator :: "char \<Rightarrow> bool" where
  "separator c \<longleftrightarrow> c \<in> {CHR ''.'', CHR ''_'', CHR ''-''}"

definition is_valid_name :: "string \<Rightarrow> bool" where
  "is_valid_name name \<longleftrightarrow> name \<noteq> [] \<and> is_ascii_alphanumeric (hd name) \<and> is_ascii_alphanumeric (last name)
     \<and> list_all (\<lambda>c. is_ascii_alphanumeric c \<or> separator c) name"

definition normalize_step :: "string \<Rightarrow> char \<Rightarrow> string" where
  "normalize_step out c =
     (if separator c then (if out \<noteq> [] \<and> last out = CHR ''-'' then out else out @ ''-'')
      else out @ [to_ascii_lower c])"

definition normalize_name :: "string \<Rightarrow> string" where
  "normalize_name name = foldl normalize_step [] name"

fun double_dash :: "string \<Rightarrow> bool" where
  "double_dash (a # b # s) = (a = CHR ''-'' \<and> b = CHR ''-'' \<or> double_dash (b # s))"
| "double_dash _ = False"

definition is_normalized_name :: "string \<Rightarrow> bool" where
  "is_normalized_name name \<longleftrightarrow> is_valid_name name
     \<and> list_all (\<lambda>c. is_ascii_lowercase c \<or> is_ascii_digit c \<or> c = CHR ''-'') name \<and> \<not> double_dash name"

definition package_name_new :: "string \<Rightarrow> protocol_error + package_name" where
  "package_name_new name =
     (if is_normalized_name name then Inr (PackageName name)
      else Inl (InvalidPackageName name
        (if is_valid_name name then normalize_name name else ''expected a package name'')))"

text \<open>\<open>0\<close> or a digit string without a leading zero, starting at \<open>at\<close>: where it ends.\<close>

definition number_end :: "string \<Rightarrow> nat \<Rightarrow> nat option" where
  "number_end bytes at =
     (if length bytes \<le> at then None
      else if bytes ! at = CHR ''0'' then Some (at + 1)
      else if is_ascii_digit (bytes ! at)
      then Some (at + length (takeWhile is_ascii_digit (drop at bytes)))
      else None)"

lemma number_end_Some: "number_end bytes at = Some e \<Longrightarrow> at < e \<and> at < length bytes"
  by (auto simp: number_end_def takeWhile_eq_Nil_iff hd_drop_conv_nth split: if_splits)

function release_end :: "string \<Rightarrow> nat \<Rightarrow> nat option" where
  "release_end bytes at =
     (if at + 1 < length bytes \<and> bytes ! at = CHR ''.'' \<and> is_ascii_digit (bytes ! (at + 1))
      then (case number_end bytes (at + 1) of Some e \<Rightarrow> release_end bytes e | None \<Rightarrow> None)
      else Some at)"
  by pat_completeness auto

termination
  by (relation "measure (\<lambda>(bytes, at). length bytes - at)") (auto dest: number_end_Some)

declare release_end.simps [simp del]

definition starts_at :: "string \<Rightarrow> nat \<Rightarrow> string \<Rightarrow> bool" where
  "starts_at bytes at prefix \<longleftrightarrow> take (length prefix) (drop at bytes) = prefix"

definition optional_part :: "string \<Rightarrow> string list \<Rightarrow> nat \<Rightarrow> nat option" where
  "optional_part bytes prefixes at =
     (case find (starts_at bytes at) prefixes of
        Some prefix \<Rightarrow> number_end bytes (at + length prefix)
      | None \<Rightarrow> Some at)"

definition is_canonical_version :: "string \<Rightarrow> bool" where
  "is_canonical_version bytes =
     (case number_end bytes 0 of None \<Rightarrow> False | Some at \<Rightarrow>
       (case release_end bytes at of None \<Rightarrow> False | Some at \<Rightarrow>
         (case optional_part bytes [''rc'', ''a'', ''b''] at of None \<Rightarrow> False | Some at \<Rightarrow>
           (case optional_part bytes [''.post''] at of None \<Rightarrow> False | Some at \<Rightarrow>
             (case optional_part bytes [''.dev''] at of None \<Rightarrow> False | Some at \<Rightarrow>
               at = length bytes)))))"

definition package_version_new :: "string \<Rightarrow> protocol_error + package_version" where
  "package_version_new version =
     (if is_canonical_version version then Inr (PackageVersion version)
      else Inl (InvalidPackageVersion version))"

section \<open>Versions\<close>

datatype engine_version = EngineVersion (ev_major: u32) (ev_minor: u32) (ev_patch: u32)
datatype python_version = PythonVersion (pv_major: u32) (pv_minor: u32)

definition version_numbers :: "string \<Rightarrow> nat \<Rightarrow> u32 list option" where
  "version_numbers text count =
     (let parts = split_on (CHR ''.'') text in
      if length parts \<noteq> count then None
      else those (map (\<lambda>part. if number_end part 0 = Some (length part) then parse_u32 part else None) parts))"

definition engine_version_from_str :: "string \<Rightarrow> protocol_error + engine_version" where
  "engine_version_from_str text =
     (case version_numbers text 3 of Some [major, minor, patch] \<Rightarrow> Inr (EngineVersion major minor patch)
      | _ \<Rightarrow> Inl (InvalidEngineVersion text))"

definition engine_version_text :: "engine_version \<Rightarrow> string" where
  "engine_version_text v = u32_string (ev_major v) @ ''.'' @ u32_string (ev_minor v) @ ''.'' @ u32_string (ev_patch v)"

definition python_version_from_str :: "string \<Rightarrow> protocol_error + python_version" where
  "python_version_from_str text =
     (case version_numbers text 2 of Some [major, minor] \<Rightarrow> Inr (PythonVersion major minor)
      | _ \<Rightarrow> Inl (InvalidPythonVersion text))"

definition python_version_text :: "python_version \<Rightarrow> string" where
  "python_version_text v = u32_string (pv_major v) @ ''.'' @ u32_string (pv_minor v)"

text \<open>The derived order compares major, then minor, then patch.\<close>

instantiation engine_version :: linorder
begin

definition less_eq_engine_version :: "engine_version \<Rightarrow> engine_version \<Rightarrow> bool" where
  "a \<le> b \<longleftrightarrow> ev_major a < ev_major b \<or> ev_major a = ev_major b \<and>
     (ev_minor a < ev_minor b \<or> ev_minor a = ev_minor b \<and> ev_patch a \<le> ev_patch b)"

definition less_engine_version :: "engine_version \<Rightarrow> engine_version \<Rightarrow> bool" where
  "a < b \<longleftrightarrow> ev_major a < ev_major b \<or> ev_major a = ev_major b \<and>
     (ev_minor a < ev_minor b \<or> ev_minor a = ev_minor b \<and> ev_patch a < ev_patch b)"

instance
  by standard (auto simp: less_eq_engine_version_def less_engine_version_def intro: engine_version.expand)

end

section \<open>The engine requirement\<close>

datatype operator = AtLeast | Above | AtMost | Below | Exactly

definition operators :: "(operator \<times> string) list" where
  "operators = [(AtLeast, ''>=''), (AtMost, ''<=''), (Exactly, ''==''), (Above, ''>''), (Below, ''<'')]"

primrec operator_symbol :: "operator \<Rightarrow> string" where
  "operator_symbol AtLeast = ''>=''"
| "operator_symbol Above = ''>''"
| "operator_symbol AtMost = ''<=''"
| "operator_symbol Below = ''<''"
| "operator_symbol Exactly = ''==''"

primrec admits :: "operator \<Rightarrow> engine_version \<Rightarrow> engine_version \<Rightarrow> bool" where
  "admits AtLeast version bound = (bound \<le> version)"
| "admits Above version bound = (bound < version)"
| "admits AtMost version bound = (version \<le> bound)"
| "admits Below version bound = (version < bound)"
| "admits Exactly version bound = (version = bound)"

datatype engine_requirement = EngineRequirement (comparators: "(operator \<times> engine_version) list")

definition requirement_matches :: "engine_requirement \<Rightarrow> engine_version \<Rightarrow> bool" where
  "requirement_matches r version \<longleftrightarrow> list_all (\<lambda>(operator, bound). admits operator version bound) (comparators r)"

definition trim_spaces :: "string \<Rightarrow> string" where
  "trim_spaces s = rev (dropWhile (\<lambda>c. c = CHR '' '') (rev (dropWhile (\<lambda>c. c = CHR '' '') s)))"

definition read_comparator :: "string \<Rightarrow> string \<Rightarrow> protocol_error + (operator \<times> engine_version)" where
  "read_comparator text part =
     (let comparator = trim_spaces part in
      if comparator = [] then Inl (InvalidEngineRequirement text ''a comma leaves an empty comparator'')
      else case find_map (\<lambda>(operator, symbol).
               map_option (\<lambda>rest. (operator, dropWhile (\<lambda>c. c = CHR '' '') rest)) (strip_prefix symbol comparator))
             operators of
        None \<Rightarrow> Inl (InvalidEngineRequirement text ''starts with no operator'')
      | Some (operator, rest) \<Rightarrow>
          and_then (map_err (\<lambda>_. InvalidEngineRequirement text ''not a MAJOR.MINOR.PATCH version'')
            (engine_version_from_str rest)) (\<lambda>bound. Inr (operator, bound)))"

fun read_comparators :: "string \<Rightarrow> string list \<Rightarrow> protocol_error + (operator \<times> engine_version) list" where
  "read_comparators text [] = Inr []"
| "read_comparators text (part # parts) =
     and_then (read_comparator text part) (\<lambda>c.
     and_then (read_comparators text parts) (\<lambda>cs. Inr (c # cs)))"

definition engine_requirement_from_str :: "string \<Rightarrow> protocol_error + engine_requirement" where
  "engine_requirement_from_str text =
     (if trim_spaces text = [] then Inl (InvalidEngineRequirement text ''it is empty'')
      else and_then (read_comparators text (split_on (CHR '','') text)) (\<lambda>cs. Inr (EngineRequirement cs)))"

definition comparator_text :: "operator \<times> engine_version \<Rightarrow> string" where
  "comparator_text c = operator_symbol (fst c) @ engine_version_text (snd c)"

fun join_comparators :: "(operator \<times> engine_version) list \<Rightarrow> string" where
  "join_comparators [] = []"
| "join_comparators [c] = comparator_text c"
| "join_comparators (c # d # cs) = comparator_text c @ '', '' @ join_comparators (d # cs)"

definition engine_requirement_text :: "engine_requirement \<Rightarrow> string" where
  "engine_requirement_text r = join_comparators (comparators r)"

section \<open>One accepted spelling for a package\<close>

lemma lower_simps:
  "is_ascii_alphanumeric c \<Longrightarrow> is_ascii_lowercase (to_ascii_lower c) \<or> is_ascii_digit (to_ascii_lower c)"
  "is_ascii_lowercase c \<or> is_ascii_digit c \<Longrightarrow> to_ascii_lower c = c"
  "is_ascii_alphanumeric c \<Longrightarrow> to_ascii_lower c \<noteq> CHR ''-''"
  "is_ascii_alphanumeric c \<Longrightarrow> \<not> separator c"
proof -
  show "is_ascii_alphanumeric c \<Longrightarrow> is_ascii_lowercase (to_ascii_lower c) \<or> is_ascii_digit (to_ascii_lower c)"
    by (auto simp: to_ascii_lower_def is_ascii_alphanumeric_def is_ascii_uppercase_def is_ascii_lowercase_def
        is_ascii_digit_def)
  then show "is_ascii_alphanumeric c \<Longrightarrow> to_ascii_lower c \<noteq> CHR ''-''"
    by (auto simp: is_ascii_lowercase_def is_ascii_digit_def code_def)
  show "is_ascii_lowercase c \<or> is_ascii_digit c \<Longrightarrow> to_ascii_lower c = c"
    by (auto simp: to_ascii_lower_def is_ascii_uppercase_def is_ascii_lowercase_def is_ascii_digit_def)
  show "is_ascii_alphanumeric c \<Longrightarrow> \<not> separator c"
    by (auto simp: separator_def char_class_defs)
qed

lemma normalize_snoc [simp]: "normalize_name (s @ [c]) = normalize_step (normalize_name s) c"
  by (simp add: normalize_name_def)

lemma normalize_Nil [simp]: "normalize_name [] = []" "normalize_name [c] = normalize_step [] c"
  by (simp_all add: normalize_name_def)

lemma double_dash_snoc:
  "double_dash (s @ [c]) \<longleftrightarrow> double_dash s \<or> s \<noteq> [] \<and> last s = CHR ''-'' \<and> c = CHR ''-''"
  by (induction s rule: double_dash.induct) auto

definition name_byte :: "char \<Rightarrow> bool" where
  "name_byte c \<longleftrightarrow> is_ascii_alphanumeric c \<or> separator c"

text \<open>What each step of the normalisation keeps.\<close>

lemma normalize_invariant:
  assumes "list_all name_byte s"
  shows "list_all (\<lambda>c. is_ascii_lowercase c \<or> is_ascii_digit c \<or> c = CHR ''-'') (normalize_name s)
    \<and> \<not> double_dash (normalize_name s)
    \<and> (s \<noteq> [] \<longrightarrow> normalize_name s \<noteq> [] \<and> (last (normalize_name s) = CHR ''-'' \<longleftrightarrow> separator (last s))
        \<and> (hd (normalize_name s) = CHR ''-'' \<longleftrightarrow> separator (hd s)))"
  using assms
proof (induction s rule: rev_induct)
  case (snoc c s)
  then have IH: "list_all (\<lambda>c. is_ascii_lowercase c \<or> is_ascii_digit c \<or> c = CHR ''-'') (normalize_name s)"
    "\<not> double_dash (normalize_name s)"
    "s \<noteq> [] \<Longrightarrow> normalize_name s \<noteq> [] \<and> (last (normalize_name s) = CHR ''-'' \<longleftrightarrow> separator (last s))
        \<and> (hd (normalize_name s) = CHR ''-'' \<longleftrightarrow> separator (hd s))" by auto
  show ?case
  proof (cases "separator c")
    case True
    with IH show ?thesis
      by (cases "s = []") (auto simp: normalize_step_def double_dash_snoc hd_append)
  next
    case False
    with snoc.prems have c: "is_ascii_alphanumeric c" by (simp add: name_byte_def)
    with IH False lower_simps(1,3) [OF c] show ?thesis
      by (cases "s = []") (auto simp: normalize_step_def double_dash_snoc hd_append)
  qed
qed simp

lemma alnum_cases: "is_ascii_lowercase c \<or> is_ascii_digit c \<Longrightarrow> is_ascii_alphanumeric c"
  by (auto simp: is_ascii_alphanumeric_def)

lemma dash_alnum [simp]: "\<not> is_ascii_alphanumeric (CHR ''-'')" "separator (CHR ''-'')"
  by (simp_all add: char_class_defs separator_def)

lemma normalize_is_normalized:
  assumes "is_valid_name s"
  shows "is_normalized_name (normalize_name s)"
proof -
  let ?n = "normalize_name s"
  have s: "s \<noteq> []" "list_all name_byte s" "\<not> separator (hd s)" "\<not> separator (last s)"
    using assms lower_simps(4) by (auto simp: is_valid_name_def name_byte_def list_all_iff)
  have n: "list_all (\<lambda>c. is_ascii_lowercase c \<or> is_ascii_digit c \<or> c = CHR ''-'') ?n" "\<not> double_dash ?n"
    "?n \<noteq> []" "last ?n \<noteq> CHR ''-''" "hd ?n \<noteq> CHR ''-''"
    using normalize_invariant [OF s(2)] s by auto
  have e: "c \<in> set ?n \<Longrightarrow> c = CHR ''-'' \<or> is_ascii_alphanumeric c" for c
    using n(1) alnum_cases by (auto simp: list_all_iff)
  have "is_ascii_alphanumeric (hd ?n)" "is_ascii_alphanumeric (last ?n)"
    using e [of "hd ?n"] e [of "last ?n"] n by auto
  moreover have "list_all (\<lambda>c. is_ascii_alphanumeric c \<or> separator c) ?n"
    using e by (fastforce simp: list_all_iff)
  ultimately show ?thesis using n by (simp add: is_normalized_name_def is_valid_name_def)
qed

lemma normalize_normalized: "is_normalized_name s \<Longrightarrow> normalize_name s = s"
proof -
  assume "is_normalized_name s"
  then have "list_all (\<lambda>c. is_ascii_lowercase c \<or> is_ascii_digit c \<or> c = CHR ''-'') s" "\<not> double_dash s"
    by (simp_all add: is_normalized_name_def)
  then show ?thesis
  proof (induction s rule: rev_induct)
    case (snoc c s)
    show ?case
    proof (cases "c = CHR ''-''")
      case True
      with snoc show ?thesis by (auto simp: normalize_step_def double_dash_snoc)
    next
      case False
      with snoc.prems have c: "is_ascii_lowercase c \<or> is_ascii_digit c" by simp
      with snoc lower_simps(2) [OF c] lower_simps(4) [OF alnum_cases [OF c]] show ?thesis
        by (simp add: normalize_step_def double_dash_snoc)
    qed
  qed simp
qed

section \<open>Versions read back\<close>

lemma full_takeWhile: "length (takeWhile P s) = length s \<longleftrightarrow> list_all P s"
  by (induction s) auto

lemma number_end_plain: "number_end part 0 = Some (length part) \<longleftrightarrow> plain_numeral part"
proof (cases part)
  case (Cons c cs)
  with full_takeWhile [of is_ascii_digit part] show ?thesis
    by (auto simp: number_end_def plain_numeral_def is_ascii_digit_def)
qed (simp add: number_end_def plain_numeral_def)

lemma u32_string_no: "\<not> is_ascii_digit c \<Longrightarrow> c \<notin> set (u32_string w)"
  using u32_string_plain [of w] by (auto simp: plain_numeral_def list_all_iff)

lemma not_digits [simp]:
  "\<not> is_ascii_digit (CHR ''.'')" "\<not> is_ascii_digit (CHR '','')" "\<not> is_ascii_digit (CHR '' '')"
  "\<not> is_ascii_digit (CHR ''='')"
  by (simp_all add: char_class_defs)

definition read_part :: "string \<Rightarrow> u32 option" where
  "read_part part = (if number_end part 0 = Some (length part) then parse_u32 part else None)"

lemma read_part_text [simp]: "read_part (u32_string w) = Some w"
  by (simp add: read_part_def number_end_plain u32_string_plain)

lemma read_part_Some: "read_part part = Some w \<Longrightarrow> u32_string w = part"
  by (auto simp: read_part_def number_end_plain dest: plain_parse_prints split: if_splits)

lemma version_numbers_parts: "version_numbers text count =
   (if length (split_on (CHR ''.'') text) \<noteq> count then None
    else those (map read_part (split_on (CHR ''.'') text)))"
  by (simp add: version_numbers_def read_part_def [abs_def] Let_def)

lemma split_versions:
  "split_on (CHR ''.'') (u32_string a @ ''.'' @ u32_string b) = [u32_string a, u32_string b]"
  "split_on (CHR ''.'') (u32_string a @ ''.'' @ u32_string b @ ''.'' @ u32_string c)
    = [u32_string a, u32_string b, u32_string c]"
  by (simp_all add: split_on_append split_on_not_in u32_string_no)

lemma engine_version_reads_back: "engine_version_from_str (engine_version_text v) = Inr v"
proof (cases v)
  case (EngineVersion a b c)
  have "version_numbers (engine_version_text v) 3 = Some [a, b, c]"
    using split_versions(2) [of a b c] EngineVersion by (simp add: version_numbers_parts engine_version_text_def)
  with EngineVersion show ?thesis by (simp add: engine_version_from_str_def)
qed

lemma python_version_reads_back: "python_version_from_str (python_version_text v) = Inr v"
proof (cases v)
  case (PythonVersion a b)
  have "version_numbers (python_version_text v) 2 = Some [a, b]"
    using split_versions(1) [of a b] PythonVersion by (simp add: version_numbers_parts python_version_text_def)
  with PythonVersion show ?thesis by (simp add: python_version_from_str_def)
qed

lemma those_Some: "those xs = Some ys \<longleftrightarrow> xs = map Some ys"
  by (induction xs arbitrary: ys) (auto split: option.splits simp: Cons_eq_map_conv)

lemma engine_version_spelling:
  assumes "engine_version_from_str text = Inr v"
  shows "engine_version_text v = text"
proof -
  obtain a b c where v: "v = EngineVersion a b c" "version_numbers text 3 = Some [a, b, c]"
    using assms by (auto simp: engine_version_from_str_def split: option.splits list.splits)
  then have "map read_part (split_on (CHR ''.'') text) = [Some a, Some b, Some c]"
    by (auto simp: version_numbers_parts those_Some split: if_splits)
  then obtain x y z where p: "split_on (CHR ''.'') text = [x, y, z]"
    "read_part x = Some a" "read_part y = Some b" "read_part z = Some c"
    by (auto simp: map_eq_Cons_conv)
  then have "text = x @ ''.'' @ y @ ''.'' @ z"
    using text_join_split_on [of "CHR ''.''" "text"] by simp
  with p v(1) read_part_Some show ?thesis by (simp add: engine_version_text_def)
qed

section \<open>Requirements read back\<close>

lemma engine_version_chars:
  "c \<notin> set (engine_version_text v)" if "c = CHR '','' \<or> c = CHR '' '' \<or> c = CHR ''=''"
  using that by (auto simp: engine_version_text_def u32_string_no)

lemma engine_version_hd: "\<exists>d s. engine_version_text v = d # s \<and> is_ascii_digit d"
proof -
  obtain d s where "u32_string (ev_major v) = d # s" "is_ascii_digit d"
    using u32_string_plain [of "ev_major v"] by (cases "u32_string (ev_major v)") (auto simp: plain_numeral_def)
  then show ?thesis by (simp add: engine_version_text_def)
qed

lemma engine_version_last: "\<exists>d s. engine_version_text v = s @ [d] \<and> is_ascii_digit d"
proof -
  obtain d s where "u32_string (ev_patch v) = s @ [d]" "is_ascii_digit d"
    using u32_string_plain [of "ev_patch v"] by (cases "u32_string (ev_patch v)" rule: rev_cases) (auto simp: plain_numeral_def)
  then show ?thesis by (simp add: engine_version_text_def)
qed

lemma operator_symbol_hd: "\<exists>a s. operator_symbol op = a # s \<and> a \<noteq> CHR '' ''"
  by (cases op) simp_all

lemma trim_spaces_text:
  "trim_spaces (comparator_text c) = comparator_text c"
  "trim_spaces (CHR '' '' # comparator_text c) = comparator_text c"
proof -
  obtain op v where c: "c = (op, v)" by (cases c)
  obtain a s where a: "operator_symbol op = a # s" "a \<noteq> CHR '' ''" using operator_symbol_hd by blast
  obtain d t where d: "engine_version_text v = t @ [d]" "is_ascii_digit d" using engine_version_last by blast
  then have "d \<noteq> CHR '' ''" by auto
  with a d c show "trim_spaces (comparator_text c) = comparator_text c"
    "trim_spaces (CHR '' '' # comparator_text c) = comparator_text c"
    by (simp_all add: trim_spaces_def comparator_text_def)
qed

lemma trimmed_away:
  assumes "dropWhile P (rev (dropWhile P s)) = []" and "x \<in> set s"
  shows "P x"
proof -
  have rest: "\<forall>x\<in>set (dropWhile P s). P x" using assms(1) by (simp add: dropWhile_eq_Nil_conv)
  have "x \<in> set (takeWhile P s @ dropWhile P s)" using assms(2) by simp
  then consider "x \<in> set (takeWhile P s)" | "x \<in> set (dropWhile P s)" unfolding set_append by blast
  then show ?thesis
    by cases (use set_takeWhileD rest in fast)+
qed

lemma trim_spaces_Nil: "trim_spaces s = [] \<Longrightarrow> x \<in> set s \<Longrightarrow> x = CHR '' ''"
  unfolding trim_spaces_def rev_is_Nil_conv by (rule trimmed_away)

lemma find_operator:
  assumes "is_ascii_digit d"
  shows "find_map (\<lambda>(operator, symbol).
      map_option (\<lambda>rest. (operator, dropWhile (\<lambda>c. c = CHR '' '') rest)) (strip_prefix symbol (operator_symbol op @ d # s)))
    operators = Some (op, d # s)"
proof -
  have "d \<noteq> CHR ''=''" and "d \<noteq> CHR '' ''" using assms by auto
  then show ?thesis by (cases op) (simp_all add: operators_def strip_prefix_def)
qed

lemma read_comparator_text:
  assumes "trim_spaces part = comparator_text c"
  shows "read_comparator text part = Inr c"
proof -
  obtain op v where c: "c = (op, v)" by (cases c)
  obtain d s where d: "engine_version_text v = d # s" "is_ascii_digit d" using engine_version_hd by blast
  have ne: "operator_symbol op \<noteq> []" by (cases op) simp_all
  show ?thesis
    using assms c d ne find_operator [OF d(2), of op s] engine_version_reads_back [of v]
    by (simp add: read_comparator_def comparator_text_def)
qed

lemma comparator_no_comma: "CHR '','' \<notin> set (comparator_text c)"
proof -
  have "CHR '','' \<notin> set (operator_symbol (fst c))" by (cases "fst c") simp_all
  then show ?thesis by (simp add: comparator_text_def engine_version_chars)
qed

lemma split_comparators:
  "cs \<noteq> [] \<Longrightarrow> split_on (CHR '','') (join_comparators cs)
    = comparator_text (hd cs) # map (\<lambda>c. CHR '' '' # comparator_text c) (tl cs)"
proof (induction cs rule: join_comparators.induct)
  case (3 c d cs)
  let ?rest = "join_comparators (d # cs)"
  have "split_on (CHR '','') (CHR '' '' # ?rest) = (CHR '' '' # comparator_text d) # map (\<lambda>c. CHR '' '' # comparator_text c) cs"
    using 3 by simp
  with comparator_no_comma [of c] show ?case by (simp add: split_on_append)
qed (simp_all add: split_on_not_in comparator_no_comma)

lemma read_comparators_all:
  "list_all2 (\<lambda>part c. trim_spaces part = comparator_text c) parts cs \<Longrightarrow> read_comparators text parts = Inr cs"
  by (induction rule: list_all2_induct) (simp_all add: read_comparator_text)

lemma engine_requirement_reads_back:
  assumes "comparators r \<noteq> []"
  shows "engine_requirement_from_str (engine_requirement_text r) = Inr r"
proof -
  obtain c cs where r: "comparators r = c # cs" using assms by (cases "comparators r") auto
  let ?text = "engine_requirement_text r"
  have parts: "split_on (CHR '','') ?text = comparator_text c # map (\<lambda>c. CHR '' '' # comparator_text c) cs"
    using split_comparators [of "c # cs"] r by (simp add: engine_requirement_text_def)
  have "read_comparators ?text (split_on (CHR '','') ?text) = Inr (c # cs)"
    unfolding parts
    by (intro read_comparators_all) (simp add: trim_spaces_text list.rel_map list.rel_refl)
  moreover have "trim_spaces ?text \<noteq> []"
  proof -
    obtain a s where a: "operator_symbol (fst c) = a # s" "a \<noteq> CHR '' ''" using operator_symbol_hd by blast
    have "\<exists>t. ?text = comparator_text c @ t" using r by (cases cs) (auto simp: engine_requirement_text_def)
    with a have "a \<in> set ?text" by (auto simp: comparator_text_def)
    with a(2) show ?thesis using trim_spaces_Nil [of ?text a] by blast
  qed
  ultimately show ?thesis using r by (simp add: engine_requirement_from_str_def) (metis engine_requirement.collapse)
qed

text \<open>A requirement read from text asks for something: it is never empty.\<close>

lemma read_comparators_length: "read_comparators text parts = Inr cs \<Longrightarrow> length cs = length parts"
  by (induction parts arbitrary: cs) (auto simp: result_simps)

lemma engine_requirement_nonempty: "engine_requirement_from_str text = Inr r \<Longrightarrow> comparators r \<noteq> []"
  by (auto simp: engine_requirement_from_str_def result_simps split: if_splits dest!: read_comparators_length)

text \<open>A package has one accepted spelling: a valid name's normalised form is accepted, so the
  spelling a refusal proposes is one that works, and an accepted name is its own normalised form,
  so two accepted names are the same package only when they are the same text.\<close>

theorem package_names_have_one_spelling:
  "(is_valid_name name \<longrightarrow> package_name_new (normalize_name name) = Inr (PackageName (normalize_name name)))
   \<and> (package_name_new name = Inr p \<longrightarrow> p = PackageName name \<and> normalize_name name = name)"
  using normalize_is_normalized [of name] normalize_normalized [of name]
  by (auto simp: package_name_new_def split: if_splits)

theorem package_names_have_one_spelling_witness:
  "package_name_new ''zope-interface'' = Inr (PackageName ''zope-interface'')
   \<and> package_name_new ''Zope._Interface'' = Inl (InvalidPackageName ''Zope._Interface'' ''zope-interface'')"
proof -
  have "is_valid_name ''Zope._Interface''" "normalize_name ''Zope._Interface'' = ''zope-interface''"
    "package_name_new ''Zope._Interface'' = Inl (InvalidPackageName ''Zope._Interface'' ''zope-interface'')"
    by code_simp+
  with package_names_have_one_spelling [of "''Zope._Interface''"] show ?thesis by simp
qed

text \<open>An engine requirement reads back as it prints: the text a requirement displays parses to
  the same comparators in the same order, for every requirement read from text, and the version
  inside reads back as well.\<close>

theorem engine_requirements_read_back:
  assumes "engine_requirement_from_str t = Inr r"
  shows "engine_requirement_from_str (engine_requirement_text r) = Inr r
    \<and> (\<forall>v. engine_version_from_str (engine_version_text v) = Inr v)"
  using engine_requirement_reads_back [OF engine_requirement_nonempty [OF assms]] engine_version_reads_back
  by blast

definition sample_requirement :: engine_requirement where
  "sample_requirement = EngineRequirement [(AtLeast, EngineVersion 0 3 0), (Below, EngineVersion 0 4 0)]"

lemma sample_requirement_read: "engine_requirement_from_str (engine_requirement_text sample_requirement) = Inr sample_requirement"
  by (rule engine_requirement_reads_back) (simp add: sample_requirement_def)

theorem engine_requirements_read_back_witness:
  "engine_requirement_from_str ''>=0.3.0, <0.4.0'' = Inr sample_requirement"
proof -
  have "engine_requirement_text sample_requirement = ''>=0.3.0, <0.4.0''" by code_simp
  with engine_requirements_read_back [OF sample_requirement_read] show ?thesis by simp
qed

end
