(* ===== verification/Bundle_Manifest.thy ===== *)
theory Bundle_Manifest
  imports Bundle_Version
begin

text \<open>
  The manifest of a bundle: the entry (\<open>protocol/bundle/entry.rs\<close>), the parameters
  (\<open>protocol/bundle/params.rs\<close>), the manifest itself (\<open>protocol/bundle/manifest.rs\<close>) and whether
  a runtime can run it (\<open>protocol/bundle/runtime.rs\<close>). The \<open>toml\<close> crate's parser is an argument
  (\<open>toml_api\<close>), as is the finiteness of its floats; a TOML table is the list of its entries in
  iteration order. Positions and keys that only appear in messages are left out. A \<open>BTreeMap\<close>
  that is iterated is the list of its entries in key order.
\<close>

section \<open>The entry\<close>

definition python_keywords :: "string list" where
  "python_keywords = [''False'', ''None'', ''True'', ''and'', ''as'', ''assert'', ''async'', ''await'',
     ''break'', ''class'', ''continue'', ''def'', ''del'', ''elif'', ''else'', ''except'', ''finally'',
     ''for'', ''from'', ''global'', ''if'', ''import'', ''in'', ''is'', ''lambda'', ''nonlocal'', ''not'',
     ''or'', ''pass'', ''raise'', ''return'', ''try'', ''while'', ''with'', ''yield'']"

datatype identifier_reason = Not_An_Identifier | A_Keyword

definition identifier_fault :: "string \<Rightarrow> identifier_reason option" where
  "identifier_fault name =
     (let starts = (case name of [] \<Rightarrow> False
        | c # _ \<Rightarrow> is_ascii_lowercase c \<or> is_ascii_uppercase c \<or> c = CHR ''_'')
      in if \<not> starts \<or> \<not> list_all (\<lambda>c. is_ascii_alphanumeric c \<or> c = CHR ''_'') name
         then Some Not_An_Identifier
         else if name \<in> set python_keywords then Some A_Keyword else None)"

record entry =
  entry_file :: bundle_path
  entry_module :: string
  entry_class :: string

definition strip_suffix :: "string \<Rightarrow> string \<Rightarrow> string option" where
  "strip_suffix suffix s = map_option rev (strip_prefix (rev suffix) (rev s))"

definition module_parts :: "string \<Rightarrow> string list" where
  "module_parts stem =
     (let parts = split_on (CHR ''/'') stem in if last parts = ''__init__'' then butlast parts else parts)"

definition entry_from_str :: "string \<Rightarrow> protocol_error + entry" where
  "entry_from_str text =
     (case split_once (CHR '':'') text of
        None \<Rightarrow> Inl (InvalidEntry text ''it must name a file and a class'')
      | Some (file, class) \<Rightarrow>
          and_then (map_err (\<lambda>_. InvalidEntry text ''not a bundle path'') (bundle_path_new file)) (\<lambda>file.
          case strip_suffix ''.py'' (path_text file) of
            None \<Rightarrow> Inl (InvalidEntry text ''not a Python file'')
          | Some stem \<Rightarrow>
              let parts = module_parts stem in
              if parts = [] then Inl (InvalidEntry text ''a root __init__.py is not a module'')
              else if find (\<lambda>part. identifier_fault part \<noteq> None) parts \<noteq> None
              then Inl (InvalidEntry text ''cannot be imported'')
              else if identifier_fault class \<noteq> None then Inl (InvalidEntry text ''the class is no identifier'')
              else Inr \<lparr>entry_file = file, entry_module = text_join (CHR ''.'') parts, entry_class = class\<rparr>))"

definition entry_text :: "entry \<Rightarrow> string" where
  "entry_text e = path_text (entry_file e) @ '':'' @ entry_class e"

text \<open>What reading an entry went through.\<close>

lemma entry_from_str_Inr:
  assumes "entry_from_str t = Inr e"
  obtains path stem where "split_once (CHR '':'') t = Some (path, entry_class e)"
    and "bundle_path_new path = Inr (entry_file e)"
    and "strip_suffix ''.py'' path = Some stem" and "module_parts stem \<noteq> []"
    and "\<forall>part\<in>set (module_parts stem). identifier_fault part = None"
    and "identifier_fault (entry_class e) = None"
    and "entry_module e = text_join (CHR ''.'') (module_parts stem)"
proof -
  obtain path cls where s: "split_once (CHR '':'') t = Some (path, cls)"
    using assms by (auto simp: entry_from_str_def split: option.splits)
  obtain p where p: "bundle_path_new path = Inr p"
    using assms s by (cases "bundle_path_new path") (auto simp: entry_from_str_def)
  then have named: "path_text p = path" by (rule bundle_path_new_text)
  obtain stem where stem: "strip_suffix ''.py'' path = Some stem"
    using assms s p named by (cases "strip_suffix ''.py'' path") (auto simp: entry_from_str_def)
  show ?thesis
    using assms s p named stem that [of path stem]
    by (auto simp: entry_from_str_def Let_def find_None_iff split: if_splits)
qed

lemma entry_prints_as_read: "entry_from_str t = Inr e \<Longrightarrow> entry_text e = t"
  by (elim entry_from_str_Inr) (auto simp: entry_text_def dest!: split_once_Some bundle_path_new_text)

section \<open>Parameters\<close>

datatype 'f toml_value = Toml_String string | Toml_Integer int | Toml_Float 'f | Toml_Boolean bool
  | Toml_Datetime string | Toml_Array "'f toml_value list" | Toml_Table "(string \<times> 'f toml_value) list"

datatype 'f json_value = Json_String string | Json_Bool bool | Json_Integer int | Json_Float 'f
  | Json_Array "'f json_value list" | Json_Object "(string \<times> 'f json_value) list"

type_synonym 'f toml_table = "(string \<times> 'f toml_value) list"

record 'f toml_api =
  toml_parse :: "string \<Rightarrow> 'f toml_table option"
  float_finite :: "'f \<Rightarrow> bool"

definition max_safe_integer :: int where "max_safe_integer = 2 ^ 53 - 1"

definition param_not_json :: bundle_problem where
  "param_not_json = bundle_problem_new ParamNotJson Written"

text \<open>The converted value, if JSON can hold it, with the problems found on the way.\<close>

function (sequential) convert_value :: "'f toml_api \<Rightarrow> 'f toml_value \<Rightarrow> 'f json_value option \<times> bundle_problem list" and
  convert_items :: "'f toml_api \<Rightarrow> 'f toml_value list \<Rightarrow> 'f json_value list \<times> bundle_problem list" and
  convert_table :: "'f toml_api \<Rightarrow> 'f toml_table \<Rightarrow> (string \<times> 'f json_value) list \<times> bundle_problem list"
where
  "convert_value api (Toml_String s) = (Some (Json_String s), [])"
| "convert_value api (Toml_Boolean b) = (Some (Json_Bool b), [])"
| "convert_value api (Toml_Integer n) =
     (if \<bar>n\<bar> \<le> max_safe_integer then (Some (Json_Integer n), []) else (None, [param_not_json]))"
| "convert_value api (Toml_Float f) =
     (if float_finite api f then (Some (Json_Float f), []) else (None, [param_not_json]))"
| "convert_value api (Toml_Datetime d) = (None, [param_not_json])"
| "convert_value api (Toml_Array items) =
     (let (vs, ps) = convert_items api items in (Some (Json_Array vs), ps))"
| "convert_value api (Toml_Table table) =
     (let (m, ps) = convert_table api table in (Some (Json_Object m), ps))"
| "convert_items api [] = ([], [])"
| "convert_items api (item # items) =
     (let (v, ps) = convert_value api item; (vs, qs) = convert_items api items
      in ((case v of Some v \<Rightarrow> v # vs | None \<Rightarrow> vs), ps @ qs))"
| "convert_table api [] = ([], [])"
| "convert_table api ((key, item) # entries) =
     (if take 1 key = ''$''
      then (let (m, qs) = convert_table api entries in (m, param_not_json # qs))
      else let (v, ps) = convert_value api item; (m, qs) = convert_table api entries
           in ((case v of Some v \<Rightarrow> (key, v) # m | None \<Rightarrow> m), ps @ qs))"
  by pat_completeness auto

termination
  by (relation "measure (\<lambda>x. case x of Inl (_, v) \<Rightarrow> size v
      | Inr (Inl (_, items)) \<Rightarrow> size_list size items
      | Inr (Inr (_, entries)) \<Rightarrow> size_list (size_prod (\<lambda>_. 0) size) entries)") auto

text \<open>What every JSON reader holds exactly.\<close>

fun json_safe :: "'f toml_api \<Rightarrow> 'f json_value \<Rightarrow> bool" where
  "json_safe api (Json_Integer n) = (\<bar>n\<bar> \<le> max_safe_integer)"
| "json_safe api (Json_Float f) = float_finite api f"
| "json_safe api (Json_Array vs) = list_all (json_safe api) vs"
| "json_safe api (Json_Object m) = list_all (\<lambda>e. take 1 (fst e) \<noteq> ''$'' \<and> json_safe api (snd e)) m"
| "json_safe api _ = True"

lemma converted_safe:
  "fst (convert_value api v) = Some j \<Longrightarrow> json_safe api j"
  "list_all (json_safe api) (fst (convert_items api items))"
  "list_all (\<lambda>e. take 1 (fst e) \<noteq> ''$'' \<and> json_safe api (snd e)) (fst (convert_table api table))"
  by (induction api v and api items and api table arbitrary: j and rule: convert_value_convert_items_convert_table.induct)
    (auto simp: Let_def split: prod.splits option.splits if_splits, blast)

section \<open>The document\<close>

definition max_manifest_depth :: nat where "max_manifest_depth = 32"
definition max_manifest_bytes :: nat where "max_manifest_bytes = 64 * 1024"
definition bundle_format :: int where "bundle_format = 1"
definition manifest_file :: string where "manifest_file = ''quantforge.toml''"
definition manifest_keys :: "string list" where
  "manifest_keys = [''format'', ''entry'', ''engine'', ''python'', ''params'', ''deps'']"

definition manifest_invalid :: bundle_problem where
  "manifest_invalid = bundle_problem_new ManifestInvalid Written"

datatype subset_reason = Nests_Too_Deep | Not_Finite

text \<open>The first value, depth first, that bundle TOML refuses; \<open>value_fault\<close> is the match inside
  the search, \<open>subset_fault\<close> one level of values.\<close>

function (sequential) value_fault :: "'f toml_api \<Rightarrow> 'f toml_value \<Rightarrow> nat \<Rightarrow> subset_reason option" and
  items_fault :: "'f toml_api \<Rightarrow> 'f toml_value list \<Rightarrow> nat \<Rightarrow> subset_reason option" and
  entries_fault :: "'f toml_api \<Rightarrow> 'f toml_table \<Rightarrow> nat \<Rightarrow> subset_reason option"
where
  "value_fault api (Toml_Float f) depth = (if float_finite api f then None else Some Not_Finite)"
| "value_fault api (Toml_Array items) depth =
     (if max_manifest_depth < depth + 1 then Some Nests_Too_Deep else items_fault api items (depth + 1))"
| "value_fault api (Toml_Table table) depth =
     (if max_manifest_depth < depth + 1 then Some Nests_Too_Deep else entries_fault api table (depth + 1))"
| "value_fault api _ depth = None"
| "items_fault api [] depth = None"
| "items_fault api (v # vs) depth =
     (case value_fault api v depth of Some r \<Rightarrow> Some r | None \<Rightarrow> items_fault api vs depth)"
| "entries_fault api [] depth = None"
| "entries_fault api ((k, v) # es) depth =
     (case value_fault api v depth of Some r \<Rightarrow> Some r | None \<Rightarrow> entries_fault api es depth)"
  by pat_completeness auto

termination
  by (relation "measure (\<lambda>x. case x of Inl (_, v, _) \<Rightarrow> size v
      | Inr (Inl (_, items, _)) \<Rightarrow> size_list size items
      | Inr (Inr (_, entries, _)) \<Rightarrow> size_list (size_prod (\<lambda>_. 0) size) entries)") auto

definition subset_fault :: "'f toml_api \<Rightarrow> 'f toml_table \<Rightarrow> nat \<Rightarrow> subset_reason option" where
  "subset_fault api table depth =
     (if max_manifest_depth < depth then Some Nests_Too_Deep else entries_fault api table depth)"

definition manifest_document :: "'f toml_api \<Rightarrow> string \<Rightarrow> bundle_problem + 'f toml_table" where
  "manifest_document api bytes =
     (if max_manifest_bytes < length bytes then Inl manifest_invalid
      else if take 3 bytes = [CHR 0xEF, CHR 0xBB, CHR 0xBF] then Inl manifest_invalid
      else if \<not> utf8_valid bytes then Inl manifest_invalid
      else case toml_parse api bytes of
        None \<Rightarrow> Inl manifest_invalid
      | Some table \<Rightarrow> if subset_fault api table 1 \<noteq> None then Inl manifest_invalid else Inr table)"

definition manifest_format :: "'f toml_table \<Rightarrow> bundle_problem + int" where
  "manifest_format table =
     (case map_of table ''format'' of
        None \<Rightarrow> Inl manifest_invalid
      | Some (Toml_Integer n) \<Rightarrow>
          if n = bundle_format then Inr bundle_format else Inl (bundle_problem_new FormatUnsupported Written)
      | Some _ \<Rightarrow> Inl manifest_invalid)"

definition manifest_string :: "'f toml_table \<Rightarrow> string \<Rightarrow> problem_code \<Rightarrow> bundle_problem + string" where
  "manifest_string table key c =
     (case map_of table key of Some (Toml_String text) \<Rightarrow> Inr text
      | _ \<Rightarrow> Inl (bundle_problem_new c Written))"

definition manifest_entry :: "'f toml_table \<Rightarrow> bundle_path set \<Rightarrow> bundle_problem + entry" where
  "manifest_entry table paths =
     and_then (manifest_string table ''entry'' EntryInvalid) (\<lambda>text.
     and_then (map_err (\<lambda>_. bundle_problem_new EntryInvalid Written) (entry_from_str text)) (\<lambda>e.
     if entry_file e \<in> paths then Inr e else Inl (bundle_problem_new EntryNotFound Written)))"

definition manifest_engine :: "'f toml_table \<Rightarrow> bundle_problem + engine_requirement" where
  "manifest_engine table =
     and_then (manifest_string table ''engine'' EngineInvalid) (\<lambda>text.
     map_err (\<lambda>_. bundle_problem_new EngineInvalid Written) (engine_requirement_from_str text))"

definition manifest_python :: "'f toml_table \<Rightarrow> bundle_problem + python_version" where
  "manifest_python table =
     and_then (manifest_string table ''python'' PythonInvalid) (\<lambda>text.
     map_err (\<lambda>_. bundle_problem_new PythonInvalid Written) (python_version_from_str text))"

section \<open>Dependencies\<close>

instantiation package_name :: linorder
begin

definition less_eq_package_name :: "package_name \<Rightarrow> package_name \<Rightarrow> bool" where
  "p \<le> q \<longleftrightarrow> package_name_text p \<le> package_name_text q"

definition less_package_name :: "package_name \<Rightarrow> package_name \<Rightarrow> bool" where
  "p < q \<longleftrightarrow> package_name_text p < package_name_text q"

instance
  by standard (auto simp: less_eq_package_name_def less_package_name_def intro: package_name.expand)

end

fun btree_insert :: "'k::linorder \<Rightarrow> 'v \<Rightarrow> ('k \<times> 'v) list \<Rightarrow> ('k \<times> 'v) list" where
  "btree_insert k v [] = [(k, v)]"
| "btree_insert k v ((k', v') # kvs) =
     (if k < k' then (k, v) # (k', v') # kvs
      else if k = k' then (k, v) # kvs
      else (k', v') # btree_insert k v kvs)"

definition keep :: "bundle_problem + 'a \<Rightarrow> bundle_problem list \<Rightarrow> 'a option \<times> bundle_problem list" where
  "keep checked problems = (case checked of Inl p \<Rightarrow> (None, problems @ [p]) | Inr a \<Rightarrow> (Some a, problems))"

definition dependency_invalid :: bundle_problem where
  "dependency_invalid = bundle_problem_new DependencyInvalid Written"

definition pinned_version :: "'f toml_value \<Rightarrow> bundle_problem + package_version" where
  "pinned_version v =
     (case v of Toml_String s \<Rightarrow> map_err (\<lambda>_. dependency_invalid) (package_version_new s)
      | _ \<Rightarrow> Inl dependency_invalid)"

type_synonym deps = "(package_name \<times> package_version) list"

fun read_deps :: "'f toml_table \<Rightarrow> deps \<times> bundle_problem list \<Rightarrow> deps \<times> bundle_problem list" where
  "read_deps [] acc = acc"
| "read_deps ((name, version) # entries) (ds, problems) =
     (let (n, problems) = keep (map_err (\<lambda>_. dependency_invalid) (package_name_new name)) problems;
          (v, problems) = keep (pinned_version version) problems
      in read_deps entries
        ((case (n, v) of (Some n, Some v) \<Rightarrow> btree_insert n v ds | _ \<Rightarrow> ds), problems))"

definition manifest_deps :: "'f toml_table \<Rightarrow> bundle_problem list \<Rightarrow> deps \<times> bundle_problem list" where
  "manifest_deps table problems =
     (case map_of table ''deps'' of
        None \<Rightarrow> ([], problems)
      | Some (Toml_Table entries) \<Rightarrow> read_deps entries ([], problems)
      | Some _ \<Rightarrow> ([], problems @ [dependency_invalid]))"

section \<open>The manifest\<close>

record 'f manifest =
  mf_format :: int
  mf_entry :: entry
  mf_engine :: engine_requirement
  mf_python :: python_version
  mf_params :: "(string \<times> 'f json_value) list"
  mf_deps :: deps

definition manifest_params ::
    "'f toml_api \<Rightarrow> 'f toml_table \<Rightarrow> bundle_problem list \<Rightarrow> (string \<times> 'f json_value) list \<times> bundle_problem list" where
  "manifest_params api table problems =
     (case map_of table ''params'' of
        None \<Rightarrow> ([], problems)
      | Some (Toml_Table entries) \<Rightarrow> (let (m, ps) = convert_table api entries in (m, problems @ ps))
      | Some _ \<Rightarrow> ([], problems @ [param_not_json]))"

definition manifest_parse ::
    "'f toml_api \<Rightarrow> string \<Rightarrow> bundle_path set \<Rightarrow> bundle_problem list + 'f manifest" where
  "manifest_parse api bytes paths =
     and_then (map_err (\<lambda>p. [p]) (manifest_document api bytes)) (\<lambda>table.
     and_then (map_err (\<lambda>p. [p]) (manifest_format table)) (\<lambda>format.
     let (e, problems) = keep (manifest_entry table paths) [];
         (engine, problems) = keep (manifest_engine table) problems;
         (python, problems) = keep (manifest_python table) problems;
         (params, problems) = manifest_params api table problems;
         (ds, problems) = manifest_deps table problems;
         problems = problems @ map (\<lambda>_. manifest_invalid) (filter (\<lambda>(k, _). k \<notin> set manifest_keys) table)
     in case (e, engine, python) of
          (Some e, Some engine, Some python) \<Rightarrow>
            if problems = []
            then Inr \<lparr>mf_format = format, mf_entry = e, mf_engine = engine, mf_python = python,
                      mf_params = params, mf_deps = ds\<rparr>
            else Inl problems
        | _ \<Rightarrow> Inl problems))"

section \<open>Where a bundle can run\<close>

record runtime =
  rt_engine :: engine_version
  rt_python :: python_version
  rt_packages :: "package_name \<rightharpoonup> package_version set"

definition admission :: "'f manifest \<Rightarrow> runtime \<Rightarrow> bundle_problem list" where
  "admission m r =
     (if requirement_matches (mf_engine m) (rt_engine r) then [] else [bundle_problem_new EngineMismatch Written])
     @ (if mf_python m = rt_python r then [] else [bundle_problem_new PythonMismatch Written])
     @ concat (map (\<lambda>(name, version).
         case rt_packages r name of
           None \<Rightarrow> [bundle_problem_new DependencyNotAllowed Written]
         | Some versions \<Rightarrow>
             if version \<notin> versions then [bundle_problem_new DependencyVersionUnavailable Written] else [])
         (mf_deps m))"

lemma admission_clean:
  "admission m r = [] \<longleftrightarrow> requirement_matches (mf_engine m) (rt_engine r) \<and> mf_python m = rt_python r
     \<and> (\<forall>(name, version)\<in>set (mf_deps m). \<exists>versions. rt_packages r name = Some versions \<and> version \<in> versions)"
  by (auto simp: admission_def split: option.splits if_splits)

text \<open>What an accepted manifest is.\<close>

definition sound_manifest :: "'f toml_api \<Rightarrow> bundle_path set \<Rightarrow> 'f manifest \<Rightarrow> bool" where
  "sound_manifest api paths m \<longleftrightarrow> mf_format m = bundle_format \<and> entry_file (mf_entry m) \<in> paths
     \<and> comparators (mf_engine m) \<noteq> []
     \<and> list_all (\<lambda>e. take 1 (fst e) \<noteq> ''$'' \<and> json_safe api (snd e)) (mf_params m)
     \<and> (\<forall>(n, v)\<in>set (mf_deps m). is_normalized_name (package_name_text n)
          \<and> is_canonical_version (package_version_text v))"

lemma set_btree_insert: "set (btree_insert k v kvs) \<subseteq> insert (k, v) (set kvs)"
  by (induction k v kvs rule: btree_insert.induct) auto

definition sound_deps :: "deps \<Rightarrow> bool" where
  "sound_deps ds \<longleftrightarrow> (\<forall>(n, v)\<in>set ds. is_normalized_name (package_name_text n)
     \<and> is_canonical_version (package_version_text v))"

lemma read_deps_sound: "sound_deps (fst acc) \<Longrightarrow> sound_deps (fst (read_deps entries acc))"
proof (induction entries acc rule: read_deps.induct)
  case (2 name version entries ds problems)
  have "sound_deps ds" using 2(2) by simp
  then have ins: "package_name_new name = Inr n \<Longrightarrow> pinned_version version = Inr v \<Longrightarrow> sound_deps (btree_insert n v ds)" for n v
    using set_btree_insert [of n v ds]
    by (fastforce simp: sound_deps_def package_name_new_def pinned_version_def package_version_new_def
        split: if_splits toml_value.splits)
  show ?case
    by (cases "package_name_new name"; cases "pinned_version version")
      (use 2(1) \<open>sound_deps ds\<close> ins in \<open>auto simp: keep_def Let_def\<close>)
qed simp

lemma keep_Some: "keep c ps = (Some a, qs) \<Longrightarrow> c = Inr a"
  by (auto simp: keep_def split: sum.splits)

lemma manifest_params_safe:
  "manifest_params api table ps = (m, qs) \<Longrightarrow> list_all (\<lambda>e. take 1 (fst e) \<noteq> ''$'' \<and> json_safe api (snd e)) m"
proof -
  assume p: "manifest_params api table ps = (m, qs)"
  have "m = [] \<or> (\<exists>entries. m = fst (convert_table api entries))"
    using p by (auto simp: manifest_params_def split: option.splits toml_value.splits prod.splits)
      (metis fst_conv)
  then show ?thesis using converted_safe(3) by auto
qed

lemma read_deps_sound_from: "read_deps entries (ds, ps) = (ds', qs) \<Longrightarrow> sound_deps ds \<Longrightarrow> sound_deps ds'"
  using read_deps_sound [of "(ds, ps)" entries] by simp

lemma manifest_deps_sound: "manifest_deps table ps = (ds, qs) \<Longrightarrow> sound_deps ds"
  by (auto simp: manifest_deps_def sound_deps_def [of "[]"] split: option.splits toml_value.splits
      dest!: read_deps_sound_from)

lemma manifest_parse_sound:
  assumes "manifest_parse api bytes paths = Inr m"
  shows "sound_manifest api paths m"
proof -
  obtain table where table: "manifest_document api bytes = Inr table"
    using assms by (cases "manifest_document api bytes") (auto simp: manifest_parse_def)
  obtain format where format: "manifest_format table = Inr format"
    using assms table by (cases "manifest_format table") (auto simp: manifest_parse_def)
  obtain e p1 where e: "keep (manifest_entry table paths) [] = (e, p1)" by (metis prod.exhaust)
  obtain engine p2 where engine: "keep (manifest_engine table) p1 = (engine, p2)" by (metis prod.exhaust)
  obtain python p3 where python: "keep (manifest_python table) p2 = (python, p3)" by (metis prod.exhaust)
  obtain params p4 where params: "manifest_params api table p3 = (params, p4)" by (metis prod.exhaust)
  obtain ds p5 where ds: "manifest_deps table p4 = (ds, p5)" by (metis prod.exhaust)
  obtain e' engine' python' where some: "e = Some e'" "engine = Some engine'" "python = Some python'"
    and m: "m = \<lparr>mf_format = format, mf_entry = e', mf_engine = engine', mf_python = python',
      mf_params = params, mf_deps = ds\<rparr>"
    using assms table format e engine python params ds
    by (auto simp: manifest_parse_def Let_def split: option.splits if_splits)
  have "entry_file e' \<in> paths"
    using keep_Some [OF e [unfolded some]] by (auto simp: manifest_entry_def result_simps split: if_splits)
  moreover have "comparators engine' \<noteq> []"
    using keep_Some [OF engine [unfolded some]]
    by (auto simp: manifest_engine_def result_simps dest: engine_requirement_nonempty)
  moreover have "format = bundle_format"
    using format by (auto simp: manifest_format_def split: option.splits toml_value.splits if_splits)
  ultimately show ?thesis
    using manifest_params_safe [OF params] manifest_deps_sound [OF ds] m
    by (simp add: sound_manifest_def sound_deps_def)
qed

end
