(* ===== verification/Bundle.thy ===== *)
theory Bundle
  imports Bundle_Files Bundle_Manifest "HOL-Library.Multiset"
begin

text \<open>
  Strategy bundles: \<open>protocol/bundle/mod.rs\<close>. A bundle is built from files in memory or read back
  from its canonical tar, through the same checks; the manifest is parsed once every file passed.
  SHA-256 is an argument. The code's files are the sorted, checked ones, so everything below
  follows from one characterisation of the checks (\<open>bundle_check_Inr\<close>): the outcome is a
  function of the sorted files.
\<close>

record 'f strategy_bundle =
  bundle_manifest :: "'f manifest"
  bundle_files :: "bundle_file list"

definition bundle_check ::
    "'f toml_api \<Rightarrow> candidate list \<Rightarrow> bundle_problem list \<Rightarrow> bundle_limits \<Rightarrow> bundle_error + 'f strategy_bundle" where
  "bundle_check api candidates problems l =
     (let manifest_bytes = Option.bind (find (\<lambda>c. candidate_path c = manifest_file) candidates) candidate_contents;
          k = check_candidates candidates l;
          problems = problems @ checked_problems k;
          manifest_path = bundle_path_new manifest_file;
          has_manifest = (case manifest_path of Inr p \<Rightarrow> p \<in> checked_paths k | Inl _ \<Rightarrow> False);
          passed = (case manifest_path of Inr p \<Rightarrow> (\<exists>f\<in>set (checked_files k). file_path f = p) | Inl _ \<Rightarrow> False);
          (manifest, problems) =
            (case (if passed then manifest_bytes else None) of
               Some bytes \<Rightarrow>
                 (case manifest_parse api bytes (checked_paths k) of
                    Inr m \<Rightarrow> (Some m, problems)
                  | Inl found \<Rightarrow> (None, problems @ found))
             | None \<Rightarrow>
                 if has_manifest then (None, problems)
                 else (None, problems @ [bundle_problem_new ManifestMissing Written]))
      in case manifest of
           Some m \<Rightarrow>
             if problems = [] then Inr \<lparr>bundle_manifest = m, bundle_files = checked_files k\<rparr>
             else Inl (Bundle_Refused problems)
         | None \<Rightarrow> Inl (Bundle_Refused problems))"

definition from_files ::
    "'f toml_api \<Rightarrow> (string \<times> string) list \<Rightarrow> bundle_limits \<Rightarrow> bundle_error + 'f strategy_bundle" where
  "from_files api files l = bundle_check api (map (\<lambda>(path, contents). candidate_read path contents) files) [] l"

definition from_canonical_tar ::
    "'f toml_api \<Rightarrow> string \<Rightarrow> bundle_limits \<Rightarrow> bundle_error + 'f strategy_bundle" where
  "from_canonical_tar api tar l =
     and_then (map_err (\<lambda>problem. Bundle_Refused [problem]) (read_tar tar l)) (\<lambda>candidates.
     bundle_check api candidates [] l)"

definition canonical_tar :: "'f strategy_bundle \<Rightarrow> string" where
  "canonical_tar b = write_tar (bundle_files b)"

text \<open>\<open>archive::code_hash\<close> over the canonical tar.\<close>

definition code_hash :: "(string \<Rightarrow> u8 list) \<Rightarrow> 'f strategy_bundle \<Rightarrow> content_hash" where
  "code_hash sha256 b = Content_Hash (sha256 (canonical_tar b))"

definition admit :: "'f strategy_bundle \<Rightarrow> runtime \<Rightarrow> bundle_error + unit" where
  "admit b r = refuse_unless_empty (admission (bundle_manifest b) r)"

section \<open>What the checks let through\<close>

lemma manifest_file_path: "bundle_path_new manifest_file = Inr (Bundle_Path manifest_file)"
  by code_simp

definition bundle_of :: "'f toml_api \<Rightarrow> bundle_limits \<Rightarrow> bundle_file list \<Rightarrow> 'f strategy_bundle \<Rightarrow> bool" where
  "bundle_of api l fs b \<longleftrightarrow> sound_files l fs \<and> sorted (map file_name fs) \<and> bundle_files b = fs
     \<and> (\<exists>f\<in>set fs. file_name f = manifest_file
          \<and> manifest_parse api (file_contents f) (file_path ` set fs) = Inr (bundle_manifest b))"

lemma find_unique:
  assumes "distinct (map k xs)" and "x \<in> set xs"
  shows "find (\<lambda>y. k y = k x) xs = Some x"
  using assms by (induction xs) (auto simp: image_iff)

lemma find_candidate:
  assumes "sort_key candidate_path cs = map candidate_of fs" and "distinct (map file_name fs)"
    and "f \<in> set fs"
  shows "find (\<lambda>c. candidate_path c = file_name f) cs = Some (candidate_of f)"
proof -
  have paths: "map candidate_path (map candidate_of fs) = map file_name fs"
    by (simp add: candidate_of_def candidate_read_def)
  have "mset (map candidate_path cs) = mset (map file_name fs)"
  proof -
    have "mset (map candidate_path cs) = mset (map candidate_path (sort_key candidate_path cs))" by simp
    also have "\<dots> = mset (map file_name fs)" unfolding assms(1) paths by (rule refl)
    finally show ?thesis .
  qed
  then have "distinct (map candidate_path cs)"
    using assms(2) by (metis mset_eq_imp_distinct_iff)
  moreover have "candidate_of f \<in> set cs"
    using arg_cong [OF assms(1), of set] assms(3) by auto
  ultimately show ?thesis
    using find_unique [of candidate_path cs "candidate_of f"] by (simp add: candidate_of_def candidate_read_def)
qed

lemma sorted_candidates:
  "sort_key candidate_path cs = map candidate_of fs \<Longrightarrow> sorted (map file_name fs)"
proof -
  assume s: "sort_key candidate_path cs = map candidate_of fs"
  have "sorted (map candidate_path (sort_key candidate_path cs))" by simp
  then show ?thesis unfolding s by (simp add: candidate_of_def candidate_read_def comp_def)
qed

lemma sound_path: "sound_files l fs \<Longrightarrow> f \<in> set fs \<Longrightarrow> file_path f = Bundle_Path (file_name f)"
  by (simp add: file_name_def)

lemma bundle_check_Inr:
  assumes full: "\<forall>c\<in>set cs. read_in_full c"
  shows "bundle_check api cs [] l = Inr b \<longleftrightarrow>
    (\<exists>fs. sort_key candidate_path cs = map candidate_of fs \<and> bundle_of api l fs b)" (is "_ \<longleftrightarrow> ?rhs")
proof
  assume ok: "bundle_check api cs [] l = Inr b"
  then have "checked_problems (check_candidates cs l) = []"
    by (auto simp: bundle_check_def Let_def split: prod.splits option.splits sum.splits if_splits)
  then obtain fs where fs: "sort_key candidate_path cs = map candidate_of fs" "sound_files l fs"
    using check_clean [OF full] by blast
  note k = check_accepts [OF fs]
  have "\<exists>f\<in>set fs. file_name f = manifest_file"
  proof (rule ccontr)
    assume "\<not> (\<exists>f\<in>set fs. file_name f = manifest_file)"
    then have "\<forall>f\<in>set fs. file_path f \<noteq> Bundle_Path manifest_file" by (auto simp: file_name_def)
    then have "Bundle_Path manifest_file \<notin> file_path ` set fs"
      and "\<not> (\<exists>f\<in>set fs. file_path f = Bundle_Path manifest_file)" by auto
    with ok show False by (simp add: bundle_check_def Let_def k manifest_file_path)
  qed
  then obtain f where f: "f \<in> set fs" "file_name f = manifest_file" by blast
  have "find (\<lambda>c. candidate_path c = manifest_file) cs = Some (candidate_of f)"
    using find_candidate [OF fs(1) sound_files_distinct [OF fs(2)] f(1)] f(2) by simp
  with ok k f have "manifest_parse api (file_contents f) (file_path ` set fs) = Inr (bundle_manifest b)
      \<and> bundle_files b = fs"
    by (auto simp: bundle_check_def Let_def manifest_file_path candidate_of_def candidate_read_def
        split: if_splits sum.splits)
  with fs f sorted_candidates [OF fs(1)] show ?rhs by (auto simp: bundle_of_def)
next
  assume ?rhs
  then obtain fs f where fs: "sort_key candidate_path cs = map candidate_of fs" "sound_files l fs"
    and b: "bundle_files b = fs" "manifest_parse api (file_contents f) (file_path ` set fs) = Inr (bundle_manifest b)"
    and f: "f \<in> set fs" "file_name f = manifest_file" by (auto simp: bundle_of_def)
  note k = check_accepts [OF fs]
  have p: "file_path f = Bundle_Path manifest_file" using f(2) by (simp add: file_name_def bundle_path.expand)
  have "find (\<lambda>c. candidate_path c = manifest_file) cs = Some (candidate_of f)"
    using find_candidate [OF fs(1) sound_files_distinct [OF fs(2)] f(1)] f(2) by simp
  moreover have "\<exists>f\<in>set fs. file_path f = Bundle_Path manifest_file" using f(1) p by blast
  ultimately show "bundle_check api cs [] l = Inr b"
    using b by (simp add: bundle_check_def Let_def k manifest_file_path candidate_of_def candidate_read_def)
qed

lemma files_read_in_full: "\<forall>c\<in>set (map (\<lambda>(path, contents). candidate_read path contents) files). read_in_full c"
  by (auto simp: read_in_full_def candidate_read_def)

lemma candidates_read_in_full: "\<forall>c\<in>set (map candidate_of fs). read_in_full c"
  by (auto simp: read_in_full_def candidate_of_def candidate_read_def)

lemma sorted_own_candidates:
  "sorted (map file_name fs) \<Longrightarrow> sort_key candidate_path (map candidate_of fs) = map candidate_of fs"
  by (rule sort_key_id_if_sorted) (simp add: candidate_of_def candidate_read_def comp_def)

lemma candidate_of_inject: "candidate_of f = candidate_of g \<Longrightarrow> f = g"
  by (simp add: candidate_of_def candidate_read_def file_name_def bundle_path.expand)

lemma from_files_Inr:
  "from_files api files l = Inr b \<longleftrightarrow>
   (\<exists>fs. sort_key candidate_path (map (\<lambda>(path, contents). candidate_read path contents) files) = map candidate_of fs
     \<and> bundle_of api l fs b)"
  unfolding from_files_def by (rule bundle_check_Inr [OF files_read_in_full])

lemma from_files_bundle: "from_files api files l = Inr b \<Longrightarrow> bundle_of api l (bundle_files b) b"
  by (auto simp: from_files_Inr bundle_of_def)

lemma from_candidates_bundle:
  assumes "sorted (map file_name fs)"
  shows "bundle_check api (map candidate_of fs) [] l = Inr b \<longleftrightarrow> bundle_of api l fs b"
proof -
  have "map candidate_of fs = map candidate_of gs \<Longrightarrow> gs = fs" for gs
    using candidate_of_inject by (metis injI inj_map_eq_map)
  then show ?thesis
    by (subst bundle_check_Inr [OF candidates_read_in_full])
      (auto simp: sorted_own_candidates [OF assms])
qed

lemma from_tar_bundle:
  assumes "from_canonical_tar api tar l = Inr b" and "length tar \<le> u64_max"
  shows "bundle_of api l (bundle_files b) b \<and> tar = write_tar (bundle_files b)"
proof -
  obtain cs where cs: "read_tar tar l = Inr cs" "bundle_check api cs [] l = Inr b"
    using assms(1) by (auto simp: from_canonical_tar_def result_simps)
  obtain fs where fs: "cs = map candidate_of fs" "tar = write_tar fs" "after_name None fs"
    using read_tar_canonical [OF cs(1) assms(2)] .
  then have "sorted (map file_name fs)" by (simp add: after_name_def strict_sorted_imp_sorted)
  with cs(2) fs(1) have "bundle_of api l fs b" by (simp add: from_candidates_bundle)
  moreover from this have "bundle_files b = fs" by (simp add: bundle_of_def)
  ultimately show ?thesis using fs(2) by simp
qed

section \<open>A sample bundle\<close>

definition sample_toml :: "unit toml_api" where
  "sample_toml = \<lparr>toml_parse = (\<lambda>_. Some
       [(''format'', Toml_Integer 1), (''entry'', Toml_String ''strategy.py:Hold''),
        (''engine'', Toml_String ''>=0.3.0, <0.4.0''), (''python'', Toml_String ''3.12'')]),
     float_finite = (\<lambda>_. True)\<rparr>"

definition sample_source :: string where "sample_source = ''class Hold: pass''"
definition sample_document :: string where "sample_document = ''format = 1''"

definition sample_files :: "(string \<times> string) list" where
  "sample_files = [(''strategy.py'', sample_source), (''quantforge.toml'', sample_document)]"

definition sample_entry :: entry where
  "sample_entry = \<lparr>entry_file = Bundle_Path ''strategy.py'', entry_module = ''strategy'', entry_class = ''Hold''\<rparr>"

definition sample_manifest :: "unit manifest" where
  "sample_manifest = \<lparr>mf_format = 1, mf_entry = sample_entry,
     mf_engine = EngineRequirement [(AtLeast, EngineVersion 0 3 0), (Below, EngineVersion 0 4 0)],
     mf_python = PythonVersion 3 12, mf_params = [], mf_deps = []\<rparr>"

definition sample_bundle :: "unit strategy_bundle" where
  "sample_bundle = \<lparr>bundle_manifest = sample_manifest,
     bundle_files = [bundle_file_new (Bundle_Path ''quantforge.toml'') sample_document,
       bundle_file_new (Bundle_Path ''strategy.py'') sample_source]\<rparr>"

abbreviation sample_contents :: "bundle_file list" where
  "sample_contents \<equiv> bundle_files sample_bundle"

lemma sample_document_accepted:
  "manifest_document sample_toml sample_document =
     Inr [(''format'', Toml_Integer 1), (''entry'', Toml_String ''strategy.py:Hold''),
        (''engine'', Toml_String ''>=0.3.0, <0.4.0''), (''python'', Toml_String ''3.12'')]"
proof -
  have "utf8_valid sample_document" by code_simp
  moreover have "subset_fault sample_toml
      [(''format'', Toml_Integer 1), (''entry'', Toml_String ''strategy.py:Hold''),
        (''engine'', Toml_String ''>=0.3.0, <0.4.0''), (''python'', Toml_String ''3.12'')] 1 = None" by code_simp
  ultimately show ?thesis
    by (simp add: manifest_document_def max_manifest_bytes_def sample_document_def) (simp add: sample_toml_def)
qed

definition sample_paths :: "bundle_path set" where
  "sample_paths = {Bundle_Path ''quantforge.toml'', Bundle_Path ''strategy.py''}"

lemma sample_fields:
  "entry_from_str ''strategy.py:Hold'' = Inr sample_entry"
  "engine_requirement_from_str ''>=0.3.0, <0.4.0'' = Inr (mf_engine sample_manifest)"
  "python_version_from_str ''3.12'' = Inr (mf_python sample_manifest)"
proof -
  show "entry_from_str ''strategy.py:Hold'' = Inr sample_entry" by code_simp
  have "engine_requirement_text (mf_engine sample_manifest) = ''>=0.3.0, <0.4.0''" by code_simp
  then show "engine_requirement_from_str ''>=0.3.0, <0.4.0'' = Inr (mf_engine sample_manifest)"
    using engine_requirement_reads_back [of "mf_engine sample_manifest"] by (simp add: sample_manifest_def)
  have "python_version_text (mf_python sample_manifest) = ''3.12''" by code_simp
  then show "python_version_from_str ''3.12'' = Inr (mf_python sample_manifest)"
    using python_version_reads_back [of "mf_python sample_manifest"] by simp
qed

lemma sample_parsed: "manifest_parse sample_toml sample_document sample_paths = Inr sample_manifest"
  using sample_fields
  by (simp add: manifest_parse_def sample_document_accepted manifest_format_def manifest_entry_def
      manifest_engine_def manifest_python_def manifest_string_def keep_def manifest_params_def
      manifest_deps_def manifest_keys_def bundle_format_def sample_paths_def sample_entry_def sample_manifest_def)

lemma no_directories: "CHR ''/'' \<notin> set s \<Longrightarrow> directories s = []"
  by (auto simp: directories_def filter_empty_conv in_set_conv_nth)

lemma folded_slash: "CHR ''/'' \<notin> set s \<Longrightarrow> directories (folded (Bundle_Path s)) = []"
  by (rule no_directories)
    (auto simp: folded_def to_ascii_lowercase_def to_ascii_lower_def is_ascii_uppercase_def code_def
      dest: arg_cong [where f = "of_char :: char \<Rightarrow> nat"])

lemma sample_sound: "sound_files default_limits sample_contents"
proof -
  have "bundle_path_new ''quantforge.toml'' = Inr (Bundle_Path ''quantforge.toml'')"
    "bundle_path_new ''strategy.py'' = Inr (Bundle_Path ''strategy.py'')" by code_simp+
  moreover have "extractable (map file_path sample_contents)"
  proof -
    have "folded (Bundle_Path ''quantforge.toml'') \<noteq> folded (Bundle_Path ''strategy.py'')"
      by (simp add: folded_def to_ascii_lowercase_def)
    then show ?thesis
      by (simp add: extractable_def sample_bundle_def bundle_file_new_def no_directories folded_slash)
  qed
  ultimately show ?thesis
    by (simp add: sound_files_def sound_file_def within_limits_def sample_bundle_def bundle_file_new_def
        file_name_def u64_len_def u64_max_def file_limit_def max_tar_file_bytes_def default_limits_def
        sample_document_def sample_source_def)
qed

lemma sample_is_bundle: "bundle_of sample_toml default_limits sample_contents sample_bundle"
  using sample_sound sample_parsed
  by (auto simp: bundle_of_def sample_bundle_def bundle_file_new_def file_name_def manifest_file_def
      sample_paths_def)

lemma sample_candidates:
  assumes "files = sample_files \<or> files = rev sample_files"
  shows "sort_key candidate_path (map (\<lambda>(path, contents). candidate_read path contents) files)
    = map candidate_of sample_contents"
  using assms
  by (auto simp: sample_files_def sample_bundle_def bundle_file_new_def candidate_of_def candidate_read_def
      file_name_def)

lemma sample_built:
  "from_files sample_toml sample_files default_limits = Inr sample_bundle"
  "from_files sample_toml (rev sample_files) default_limits = Inr sample_bundle"
  using sample_is_bundle sample_candidates by (auto simp: from_files_Inr)

lemma sample_tar_length: "length (canonical_tar sample_bundle) \<le> u64_max"
  using length_write_tar [of "bundle_files sample_bundle"]
  by (simp add: canonical_tar_def sample_bundle_def bundle_file_new_def sample_source_def sample_document_def
      u64_max_def)

section \<open>What holds of every bundle\<close>

text \<open>C13: a server reads back exactly the bundle a client built: the canonical tar of a bundle made
  from files passes every check of the strict reader under the same limits, and gives the same
  manifest and the same files. The only hypothesis beyond the bundle being built is that its
  archive fits a 64-bit length, as anything in memory does.\<close>

theorem bundles_survive_the_upload:
  assumes "from_files api files l = Inr b" and "length (canonical_tar b) \<le> u64_max"
  shows "from_canonical_tar api (canonical_tar b) l = Inr b"
proof -
  have b: "bundle_of api l (bundle_files b) b" using assms(1) by (rule from_files_bundle)
  then have fs: "sound_files l (bundle_files b)" "sorted (map file_name (bundle_files b))"
    by (simp_all add: bundle_of_def)
  have "read_tar (canonical_tar b) l = Inr (map candidate_of (bundle_files b))"
    using read_tar_write [OF fs] assms(2) by (simp add: canonical_tar_def)
  with b fs show ?thesis by (simp add: from_canonical_tar_def from_candidates_bundle)
qed

theorem bundles_survive_the_upload_witness:
  "from_canonical_tar sample_toml (canonical_tar sample_bundle) default_limits = Inr sample_bundle"
  using bundles_survive_the_upload [OF sample_built(1) sample_tar_length] .

text \<open>C14: an upload a server accepts is, byte for byte, the canonical tar of the bundle it holds, so
  that its hash is the bundle's code hash: there is no second encoding of a bundle, no trailing
  bytes, no other header, order or padding.\<close>

theorem accepted_uploads_are_canonical:
  assumes "from_canonical_tar api tar l = Inr b" and "length tar \<le> u64_max"
  shows "canonical_tar b = tar \<and> code_hash sha256 b = Content_Hash (sha256 tar)"
  using from_tar_bundle [OF assms] by (simp add: canonical_tar_def code_hash_def)

theorem accepted_uploads_are_canonical_witness:
  "\<exists>tar. from_canonical_tar sample_toml tar default_limits = Inr sample_bundle
     \<and> code_hash (\<lambda>_. replicate 32 7) sample_bundle = Content_Hash (replicate 32 7)
     \<and> canonical_tar sample_bundle = tar"
proof -
  let ?tar = "canonical_tar sample_bundle"
  have ok: "from_canonical_tar sample_toml ?tar default_limits = Inr sample_bundle"
    using read_tar_write [OF sample_sound] sample_is_bundle sample_tar_length
    by (simp add: from_canonical_tar_def canonical_tar_def bundle_of_def from_candidates_bundle)
  from accepted_uploads_are_canonical [OF ok sample_tar_length, of "\<lambda>_. replicate 32 7"] ok show ?thesis by auto
qed

text \<open>The order in which files are given does not matter: the same files in any order make the
  same bundle, and so the same canonical tar and code hash.\<close>

theorem file_order_does_not_matter:
  assumes "from_files api files l = Inr b" and "mset files' = mset files"
  shows "from_files api files' l = Inr b"
proof -
  let ?c = "\<lambda>files. map (\<lambda>(path, contents). candidate_read path contents) files"
  obtain fs where fs: "sort_key candidate_path (?c files) = map candidate_of fs" "bundle_of api l fs b"
    using assms(1) by (auto simp: from_files_Inr)
  have m: "mset (?c files') = mset (map candidate_of fs)"
    using assms(2) arg_cong [OF fs(1), of mset] by simp
  have "distinct (map candidate_path (map candidate_of fs))"
    using sound_files_distinct [of l fs] fs(2)
    by (simp add: bundle_of_def candidate_of_def candidate_read_def comp_def)
  then have "inj_on candidate_path (set (map candidate_of fs))" by (simp only: distinct_map)
  then have "inj_on candidate_path (set (?c files'))" using mset_eq_setD [OF m] by simp
  moreover have "sorted (map candidate_path (map candidate_of fs))"
    using fs(1) by (metis sorted_sort_key)
  ultimately have "sort_key candidate_path (?c files') = map candidate_of fs"
    using m by (intro sort_key_inj_key_eq)
  with fs(2) show ?thesis by (auto simp: from_files_Inr)
qed

theorem file_order_does_not_matter_witness:
  "from_files sample_toml (rev sample_files) default_limits = Inr sample_bundle"
  using file_order_does_not_matter [OF sample_built(1), of "rev sample_files"] by simp

text \<open>A path that extracts the same way on every operating system, and stays inside the bundle.\<close>

definition portable_component :: "string \<Rightarrow> bool" where
  "portable_component c \<longleftrightarrow> c \<noteq> [] \<and> c \<noteq> ''.'' \<and> c \<noteq> ''..'' \<and> (\<forall>b\<in>set c. component_byte b)
     \<and> last c \<noteq> CHR ''.''
     \<and> \<not> reserved_stem (hd (split_on (CHR ''.'') c))"

definition portable_file :: "bundle_limits \<Rightarrow> bundle_file \<Rightarrow> bool" where
  "portable_file l f \<longleftrightarrow> length (file_name f) \<le> max_path_bytes
     \<and> list_all portable_component (path_components (file_path f))
     \<and> u64_len (file_contents f) \<le> file_limit l"

lemma sound_file_portable: "sound_file l f \<Longrightarrow> portable_file l f"
proof -
  assume f: "sound_file l f"
  then have p: "path_fault (file_name f) = None"
    by (auto simp: sound_file_def dest: bundle_path_new_Inr(2))
  have "component_fault c = None \<Longrightarrow> portable_component c" for c
    using component_fault_None [of c] by (simp add: portable_component_def)
  with f path_fault_None [OF p] show ?thesis
    by (simp add: portable_file_def sound_file_def max_path_bytes_def path_components_def file_name_def list_all_iff)
qed



text \<open>The canonical tar of a bundle within its limits is within what a server accepts for those
  limits (\<open>max_archive_bytes\<close>) and is a whole number of 512-byte blocks, whatever the limits, up
  to the saturation of their sum.\<close>

theorem archives_fit_the_upload_limit:
  assumes "from_files api files l = Inr b"
  shows "u64_len (canonical_tar b) \<le> max_archive_bytes l \<and> length (canonical_tar b) mod block_bytes = 0"
  using from_files_bundle [OF assms] write_tar_fits length_write_tar_blocks
  by (simp add: bundle_of_def canonical_tar_def)

theorem archives_fit_the_upload_limit_witness:
  "u64_len (canonical_tar sample_bundle) \<le> max_archive_bytes default_limits"
  using archives_fit_the_upload_limit [OF sample_built(1)] by simp

text \<open>A bundle is admitted exactly where its manifest's engine, Python and pins are offered.\<close>

lemma admit_iff:
  "admit b r = Inr () \<longleftrightarrow> requirement_matches (mf_engine (bundle_manifest b)) (rt_engine r)
     \<and> mf_python (bundle_manifest b) = rt_python r
     \<and> (\<forall>(name, version)\<in>set (mf_deps (bundle_manifest b)).
          \<exists>versions. rt_packages r name = Some versions \<and> version \<in> versions)"
  using admission_clean [of "bundle_manifest b" r] by (simp add: admit_def refuse_unless_empty_def)

end
