(* ===== verification/Bundle_Dir.thy ===== *)
theory Bundle_Dir
  imports Bundle
begin

text \<open>
  Collecting a bundle from a directory: \<open>protocol/bundle/dir.rs\<close>, and \<open>Bundle::from_dir\<close>. The file
  system is an argument: what \<open>read_dir\<close>, \<open>symlink_metadata\<close> and a bounded read answer for a path,
  each an error message or a value, the same answer each time it is asked. A file's contents need
  not have the length its metadata gives. A directory tree need not be finite, so the walk is a
  partial function whose \<open>None\<close> is not returning.
\<close>

datatype file_kind = Link | Directory | Regular | Special

record file_system =
  fs_read_dir :: "string \<Rightarrow> string + (string \<times> string) list"
  fs_metadata :: "string \<Rightarrow> string + (file_kind \<times> nat)"
  fs_read :: "string \<Rightarrow> nat \<Rightarrow> string + string"

record collected =
  cl_candidates :: "candidate list"
  cl_problems :: "bundle_problem list"

definition fs_io :: "string \<Rightarrow> string + 'a \<Rightarrow> bundle_error + 'a" where
  "fs_io path r = map_err (Bundle_Io path) r"

definition sorted_entries :: "file_system \<Rightarrow> string \<Rightarrow> bundle_error + (string \<times> string) list" where
  "sorted_entries F dir = and_then (fs_io dir (fs_read_dir F dir)) (\<lambda>entries. Inr (sort_key fst entries))"

text \<open>At most \<open>limit\<close> + 1 bytes.\<close>

definition read_at_most :: "file_system \<Rightarrow> string \<Rightarrow> nat \<Rightarrow> bundle_error + string" where
  "read_at_most F path lim = fs_io path (fs_read F path (u64_saturating_add lim 1))"

definition not_regular :: bundle_problem where
  "not_regular = bundle_problem_new NotARegularFile Written"

definition add_candidate :: "candidate \<Rightarrow> collected \<Rightarrow> collected" where
  "add_candidate c k = k\<lparr>cl_candidates := cl_candidates k @ [c]\<rparr>"

text \<open>Enough files were found: the manifest at the root is still collected.\<close>

definition root_manifest :: "file_system \<Rightarrow> string \<Rightarrow> bundle_limits \<Rightarrow> collected \<Rightarrow> bundle_error + collected" where
  "root_manifest F root l k =
     (if list_ex (\<lambda>c. candidate_path c = manifest_file) (cl_candidates k) then Inr k
      else let path = root @ ''/'' @ manifest_file in
        case fs_metadata F path of
          Inr (Regular, len) \<Rightarrow>
            and_then (if len \<le> file_limit l then map_sum id Some (read_at_most F path (file_limit l)) else Inr None)
              (\<lambda>contents. Inr (add_candidate
                 \<lparr>candidate_path = manifest_file, candidate_size = len, candidate_contents = contents\<rparr> k))
        | _ \<Rightarrow> Inr k)"

text \<open>What one entry does to the walk: end it, or go on with what was collected, the bytes seen and
  the subdirectories to visit.\<close>

datatype walk = Walk_Done collected | Walk_On collected nat "(string \<times> string) list"

definition relative_path :: "string \<Rightarrow> string \<Rightarrow> string" where
  "relative_path prefix name = (if prefix = [] then name else prefix @ ''/'' @ name)"

definition collect_file ::
    "file_system \<Rightarrow> bundle_limits \<Rightarrow> string \<Rightarrow> string \<Rightarrow> nat \<Rightarrow> collected \<Rightarrow> nat \<Rightarrow> bundle_error + (collected \<times> nat)" where
  "collect_file F l path relative len k held =
     (let fits = len \<le> file_limit l \<and>
            (relative = manifest_file \<or> u64_saturating_add held len \<le> unat (max_total_bytes l));
          held = u64_saturating_add held len
      in if fits
         then and_then (read_at_most F path (file_limit l)) (\<lambda>contents.
                Inr (add_candidate (candidate_read relative contents) k, held))
         else Inr (add_candidate
                \<lparr>candidate_path = relative, candidate_size = len, candidate_contents = None\<rparr> k, held))"

definition walk_entry ::
    "file_system \<Rightarrow> string \<Rightarrow> bundle_limits \<Rightarrow> string \<Rightarrow> string \<times> string \<Rightarrow> collected \<Rightarrow> nat
     \<Rightarrow> (string \<times> string) list \<Rightarrow> bundle_error + walk" where
  "walk_entry F root l prefix e k held subs =
     (let (name, path) = e in
      if take 1 name = ''.'' then Inr (Walk_On k held subs)
      else let relative = relative_path prefix name in
        and_then (fs_io path (fs_metadata F path)) (\<lambda>(kind, len).
          case kind of
            Link \<Rightarrow> Inr (Walk_On (k\<lparr>cl_problems := cl_problems k @ [not_regular]\<rparr>) held subs)
          | Directory \<Rightarrow>
              Inr (Walk_On k held (if name \<noteq> ''__pycache__'' then subs @ [(path, relative)] else subs))
          | Special \<Rightarrow> Inr (Walk_On (k\<lparr>cl_problems := cl_problems k @ [not_regular]\<rparr>) held subs)
          | Regular \<Rightarrow>
              if unat (max_files l) + 1 \<le> length (cl_candidates k)
              then and_then (root_manifest F root l k) (\<lambda>k. Inr (Walk_Done k))
              else and_then (collect_file F l path relative len k held) (\<lambda>(k, held). Inr (Walk_On k held subs))))"

fun walk_entries ::
    "file_system \<Rightarrow> string \<Rightarrow> bundle_limits \<Rightarrow> string \<Rightarrow> (string \<times> string) list \<Rightarrow> collected \<Rightarrow> nat
     \<Rightarrow> (string \<times> string) list \<Rightarrow> bundle_error + walk" where
  "walk_entries F root l prefix [] k held subs = Inr (Walk_On k held subs)"
| "walk_entries F root l prefix (e # es) k held subs =
     and_then (walk_entry F root l prefix e k held subs) (\<lambda>w.
     case w of Walk_Done k \<Rightarrow> Inr (Walk_Done k)
     | Walk_On k held subs \<Rightarrow> walk_entries F root l prefix es k held subs)"

text \<open>The stack of directories to visit; the last one is popped first.\<close>

partial_function (option) collect_loop ::
    "file_system \<Rightarrow> string \<Rightarrow> bundle_limits \<Rightarrow> (string \<times> string) list \<Rightarrow> collected \<Rightarrow> nat
     \<Rightarrow> (bundle_error + collected) option" where
  "collect_loop F root l pending k held =
     (if pending = [] then Some (Inr k)
      else let (dir, prefix) = last pending in
        case and_then (sorted_entries F dir) (\<lambda>entries. walk_entries F root l prefix entries k held []) of
          Inl e \<Rightarrow> Some (Inl e)
        | Inr (Walk_Done k) \<Rightarrow> Some (Inr k)
        | Inr (Walk_On k held subs) \<Rightarrow> collect_loop F root l (butlast pending @ rev subs) k held)"

definition collect_dir :: "file_system \<Rightarrow> string \<Rightarrow> bundle_limits \<Rightarrow> (bundle_error + collected) option" where
  "collect_dir F root l = collect_loop F root l [(root, [])] \<lparr>cl_candidates = [], cl_problems = []\<rparr> 0"

definition from_dir ::
    "'f toml_api \<Rightarrow> file_system \<Rightarrow> string \<Rightarrow> bundle_limits \<Rightarrow> (bundle_error + 'f strategy_bundle) option" where
  "from_dir api F root l =
     map_option (\<lambda>r. and_then r (\<lambda>k. bundle_check api (cl_candidates k) (cl_problems k) l)) (collect_dir F root l)"

section \<open>What a walk collects\<close>

text \<open>A walk stops in time: it never holds more than two candidates above the limit, one that
  shows the limit is broken and the manifest.\<close>

definition collected_within :: "bundle_limits \<Rightarrow> nat \<Rightarrow> collected \<Rightarrow> bool" where
  "collected_within l extra k \<longleftrightarrow> length (cl_candidates k) \<le> unat (max_files l) + extra"

lemma length_add_candidate [simp]:
  "length (cl_candidates (add_candidate c k)) = length (cl_candidates k) + 1"
  by (simp add: add_candidate_def)

lemma root_manifest_length:
  "root_manifest F root l k = Inr k' \<Longrightarrow> length (cl_candidates k') \<le> length (cl_candidates k) + 1"
  by (auto simp: root_manifest_def Let_def result_simps split: sum.splits prod.splits file_kind.splits if_splits)

lemma collect_file_length:
  "collect_file F l path relative len k held = Inr (k', held') \<Longrightarrow>
   length (cl_candidates k') = length (cl_candidates k) + 1"
  by (auto simp: collect_file_def Let_def result_simps split: if_splits)

lemma walk_entry_within:
  assumes "walk_entry F root l prefix e k held subs = Inr w" and "collected_within l 1 k"
  shows "case w of Walk_Done k' \<Rightarrow> collected_within l 2 k' | Walk_On k' _ _ \<Rightarrow> collected_within l 1 k'"
  using assms
  by (auto simp: walk_entry_def Let_def result_simps collected_within_def
      split: prod.splits if_splits file_kind.splits
      dest!: root_manifest_length collect_file_length)

lemma walk_entries_within:
  assumes "walk_entries F root l prefix es k held subs = Inr w" and "collected_within l 1 k"
  shows "case w of Walk_Done k' \<Rightarrow> collected_within l 2 k' | Walk_On k' _ _ \<Rightarrow> collected_within l 1 k'"
  using assms
proof (induction es arbitrary: k held subs)
  case (Cons e es)
  obtain v where v: "walk_entry F root l prefix e k held subs = Inr v"
    using Cons.prems(1) by (auto simp: result_simps)
  note within = walk_entry_within [OF v Cons.prems(2)]
  show ?case
  proof (cases v)
    case (Walk_Done k')
    with Cons.prems(1) v within show ?thesis by auto
  next
    case (Walk_On k' held' subs')
    with Cons v within show ?thesis by auto
  qed
qed auto

lemma collect_loop_within:
  assumes "collect_loop F root l pending k held = Some r" and "collected_within l 1 k"
  shows "case r of Inl _ \<Rightarrow> True | Inr k' \<Rightarrow> collected_within l 2 k'"
proof -
  have "collected_within l 1 k \<longrightarrow> (case r of Inl _ \<Rightarrow> True | Inr k' \<Rightarrow> collected_within l 2 k')"
  proof (rule collect_loop.raw_induct [OF _ assms(1),
        where P = "\<lambda>F root l pending k held r. collected_within l 1 k \<longrightarrow>
          (case r of Inl _ \<Rightarrow> True | Inr k' \<Rightarrow> collected_within l 2 k')"], rule impI)
    fix loop F root l pending k held r
    assume IH: "\<And>F root l pending k held r. loop F root l pending k held = Some r \<Longrightarrow>
        collected_within l 1 k \<longrightarrow> (case r of Inl _ \<Rightarrow> True | Inr k' \<Rightarrow> collected_within l 2 k')"
      and step: "(if pending = [] then Some (Inr k)
        else let (dir, prefix) = last pending in
          case and_then (sorted_entries F dir) (\<lambda>entries. walk_entries F root l prefix entries k held []) of
            Inl e \<Rightarrow> Some (Inl e)
          | Inr (Walk_Done k) \<Rightarrow> Some (Inr k)
          | Inr (Walk_On k held subs) \<Rightarrow> loop F root l (butlast pending @ rev subs) k held) = Some r"
      and k: "collected_within l 1 k"
    obtain dir prefix where top: "last pending = (dir, prefix)" by (cases "last pending")
    show "case r of Inl _ \<Rightarrow> True | Inr k' \<Rightarrow> collected_within l 2 k'"
    proof (cases "pending = []")
      case True
      with step k show ?thesis by (auto simp: collected_within_def)
    next
      case False
      show ?thesis
      proof (cases "and_then (sorted_entries F dir) (\<lambda>entries. walk_entries F root l prefix entries k held [])")
        case (Inl e)
        with step False top show ?thesis by auto
      next
        case (Inr w)
        then have "case w of Walk_Done k' \<Rightarrow> collected_within l 2 k' | Walk_On k' _ _ \<Rightarrow> collected_within l 1 k'"
          using walk_entries_within [OF _ k] by (auto simp: result_simps)
        with step False top Inr IH show ?thesis by (cases w) auto
      qed
    qed
  qed
  with assms(2) show ?thesis by blast
qed

text \<open>However large or deep the directory, a collection that ends holds at most two files more than
  the limit, so its memory is bounded by the limits.\<close>

lemma collections_stay_small:
  "collect_dir F root l = Some (Inr k) \<Longrightarrow> length (cl_candidates k) \<le> unat (max_files l) + 2"
  using collect_loop_within [of F root l "[(root, [])]" "\<lparr>cl_candidates = [], cl_problems = []\<rparr>" 0]
  by (auto simp: collect_dir_def collected_within_def)

text \<open>A directory with an entry that is not a regular file gives no bundle.\<close>

lemma bundle_check_keeps_problems:
  "ps \<noteq> [] \<Longrightarrow> \<exists>qs. bundle_check api cs ps l = Inl (Bundle_Refused (ps @ qs))"
  by (simp add: bundle_check_def Let_def split: option.split sum.split prod.split)

lemma irregular_entries_refused:
  "collect_dir F root l = Some (Inr k) \<Longrightarrow> cl_problems k \<noteq> [] \<Longrightarrow>
   \<exists>qs. from_dir api F root l = Some (Inl (Bundle_Refused (cl_problems k @ qs)))"
  using bundle_check_keeps_problems [of "cl_problems k" api "cl_candidates k" l] by (auto simp: from_dir_def)

end
