(* ===== verification/Wire_Decimal.thy ===== *)
theory Wire_Decimal
  imports Wire Segments
begin

text \<open>
  Exact decimals on the wire: \<open>protocol/decimal.rs\<close>. A decimal is wrapped with the sign of zero
  cleared, printed with its own digits, and read only from its exact form. The form is the one the
  segment payload accepts (\<open>storage/segments/payload.rs\<close>), so a price has the same text in a
  segment and in a frame.
\<close>

datatype 'd exact_decimal = ExactDecimal (exact_decimal_get: 'd)

definition exact_decimal_new :: "'d decimal_ops \<Rightarrow> 'd \<Rightarrow> 'd exact_decimal" where
  "exact_decimal_new D v = ExactDecimal (if dec_is_zero D v then dec_set_sign_positive D v else v)"

definition exact_decimal_text :: "'d decimal_ops \<Rightarrow> 'd exact_decimal \<Rightarrow> string" where
  "exact_decimal_text D v = dec_to_string D (exact_decimal_get v)"

definition wire_exact_form :: "string \<Rightarrow> bool" where
  "wire_exact_form text =
     (let (negative, unsigned_text) = (case strip_prefix ''-'' text of
            Some rest \<Rightarrow> (True, rest) | None \<Rightarrow> (False, text));
          (integer, fraction) = (case split_once (CHR ''.'') unsigned_text of
            Some (i, f) \<Rightarrow> (i, Some f) | None \<Rightarrow> (unsigned_text, None));
          well_formed = (numeral_part integer \<and> (integer = ''0'' \<or> \<not> starts_with (CHR ''0'') integer) \<and>
            (case fraction of None \<Rightarrow> True | Some f \<Rightarrow> numeral_part f));
          zero = list_all (\<lambda>b. b = CHR ''0'' \<or> b = CHR ''.'') unsigned_text
      in well_formed \<and> \<not> (negative \<and> zero))"

definition exact_decimal_from_str :: "'d decimal_ops \<Rightarrow> string \<Rightarrow> protocol_error + 'd exact_decimal" where
  "exact_decimal_from_str D text =
     (if \<not> wire_exact_form text then Inl (protocol_error.InvalidDecimal text ''expected digits with an optional fraction'')
      else map_err (\<lambda>_. protocol_error.InvalidDecimal text ''a decimal cannot hold it without rounding'')
        (ok_or () (map_option ExactDecimal (dec_from_str_exact D text))))"

lemma wire_form_is_segment_form: "wire_exact_form = is_exact_form"
  by (rule ext) (simp add: wire_exact_form_def is_exact_form_def)

text \<open>What a segment holds reads from a frame, and prints the same.\<close>

lemma segment_decimals_read_on_the_wire:
  "exact_dec D v \<Longrightarrow> exact_decimal_from_str D (dec_to_string D v) = Inr (ExactDecimal v)"
  by (simp add: exact_dec_def is_exact_def exact_decimal_from_str_def wire_form_is_segment_form)

lemma zero_has_no_sign:
  "decimal_laws D \<Longrightarrow> dec_is_zero D v \<Longrightarrow>
   \<not> dec_is_sign_negative D (exact_decimal_get (exact_decimal_new D v))"
  by (simp add: exact_decimal_new_def decimal_laws_def)

lemma wrapping_keeps_the_value:
  "decimal_laws D \<Longrightarrow> dec_val D (exact_decimal_get (exact_decimal_new D v)) = dec_val D v"
  by (simp add: exact_decimal_new_def decimal_laws_def)

end
