(* ===== verification/Ip_Address.thy ===== *)
theory Ip_Address
  imports Numerals
begin

text \<open>
  IP addresses as Rust's standard library reads and prints them (\<open>str::parse::<IpAddr>\<close>, \<open>Display\<close>,
  \<open>is_loopback\<close>): a connection's host is asked whether it names this machine. A reader takes the text that
  is left and answers with a value and the rest.
\<close>

type_synonym 'a reader = "string \<Rightarrow> ('a \<times> string) option"

datatype ip_addr = V4 "8 word" "8 word" "8 word" "8 word" | V6 "u16 list"

section \<open>Reading\<close>

definition to_digit :: "nat \<Rightarrow> char \<Rightarrow> nat option" where
  "to_digit radix c =
     (let d = (if is_ascii_digit c then code c - 48 else if is_ascii_lowercase c then code c - 87
               else if is_ascii_uppercase c then code c - 55 else 36)
      in if d < radix then Some d else None)"

text \<open>A number of at most so many digits and at most \<open>largest\<close>; all digits there are, are read.\<close>

definition read_number :: "nat \<Rightarrow> nat \<Rightarrow> bool \<Rightarrow> int \<Rightarrow> nat reader" where
  "read_number radix max_digits zero_prefix largest s =
     (let digits = takeWhile (\<lambda>c. to_digit radix c \<noteq> None) s;
          n = foldl (\<lambda>n c. n * radix + the (to_digit radix c)) 0 digits
      in if digits = [] \<or> max_digits < length digits \<or>
            (\<not> zero_prefix \<and> hd digits = CHR ''0'' \<and> 1 < length digits) \<or> largest < int n
         then None else Some (n, drop (length digits) s))"

definition read_separator :: "char \<Rightarrow> nat \<Rightarrow> 'a reader \<Rightarrow> 'a reader" where
  "read_separator sep i inner s =
     (if i = 0 then inner s
      else case s of [] \<Rightarrow> None | c # rest \<Rightarrow> if c = sep then inner rest else None)"

fun read_octets :: "nat \<Rightarrow> nat \<Rightarrow> nat list reader" where
  "read_octets i 0 s = Some ([], s)"
| "read_octets i (Suc k) s =
     (case read_separator (CHR ''.'') i (read_number 10 3 False 255) s of
        None \<Rightarrow> None
      | Some (n, rest) \<Rightarrow> (case read_octets (i + 1) k rest of
          None \<Rightarrow> None | Some (ns, rest') \<Rightarrow> Some (n # ns, rest')))"

definition read_ipv4 :: "nat list reader" where
  "read_ipv4 = read_octets 0 4"

text \<open>Groups of sixteen bits from the \<open>i\<close>-th on, at most \<open>k\<close> of them; the last two may be written as an IPv4
  address, which ends them.\<close>

fun read_groups :: "nat \<Rightarrow> nat \<Rightarrow> string \<Rightarrow> nat list \<times> bool \<times> string" where
  "read_groups i 0 s = ([], False, s)"
| "read_groups i (Suc k) s =
     (case (if 0 < k then read_separator (CHR '':'') i read_ipv4 s else None) of
        Some (o4, rest) \<Rightarrow> ([o4 ! 0 * 256 + o4 ! 1, o4 ! 2 * 256 + o4 ! 3], True, rest)
      | None \<Rightarrow>
          (case read_separator (CHR '':'') i (read_number 16 4 True 65535) s of
             None \<Rightarrow> ([], False, s)
           | Some (g, rest) \<Rightarrow> (case read_groups (i + 1) k rest of (gs, ipv4, rest') \<Rightarrow> (g # gs, ipv4, rest'))))"

definition read_ipv6 :: "nat list reader" where
  "read_ipv6 s =
     (case read_groups 0 8 s of (head, ipv4, rest) \<Rightarrow>
        if length head = 8 then Some (head, rest)
        else if ipv4 \<or> take 2 rest \<noteq> ''::'' then None
        else (case read_groups 0 (8 - (length head + 1)) (drop 2 rest) of (tail, _, rest') \<Rightarrow>
          Some (head @ replicate (8 - length head - length tail) 0 @ tail, rest')))"

definition parse_ip :: "string \<Rightarrow> ip_addr option" where
  "parse_ip s =
     (case read_ipv4 s of
        Some (o4, rest) \<Rightarrow>
          if rest = [] then Some (V4 (of_nat (o4 ! 0)) (of_nat (o4 ! 1)) (of_nat (o4 ! 2)) (of_nat (o4 ! 3))) else None
      | None \<Rightarrow>
          (case read_ipv6 s of
             Some (gs, rest) \<Rightarrow> if rest = [] then Some (V6 (map of_nat gs)) else None
           | None \<Rightarrow> None))"

section \<open>Printing\<close>

fun hex_string :: "nat \<Rightarrow> string" where
  "hex_string n =
     (let c = (if n mod 16 < 10 then digit_char (n mod 16) else char_of (n mod 16 + 87))
      in if n < 16 then [c] else hex_string (n div 16) @ [c])"

declare hex_string.simps [simp del]

definition ipv4_string :: "8 word \<Rightarrow> 8 word \<Rightarrow> 8 word \<Rightarrow> 8 word \<Rightarrow> string" where
  "ipv4_string a b c d =
     nat_string (unat a) @ ''.'' @ nat_string (unat b) @ ''.'' @ nat_string (unat c) @ ''.'' @ nat_string (unat d)"

text \<open>The first of the longest runs of zero groups, as its start and length.\<close>

fun zero_run :: "u16 list \<Rightarrow> nat \<Rightarrow> nat \<times> nat \<Rightarrow> nat \<times> nat \<Rightarrow> nat \<times> nat" where
  "zero_run [] i current longest = longest"
| "zero_run (g # gs) i current longest =
     (if g = 0
      then let current' = (if snd current = 0 then i else fst current, snd current + 1)
           in zero_run gs (i + 1) current' (if snd longest < snd current' then current' else longest)
      else zero_run gs (i + 1) (0, 0) longest)"

definition groups_string :: "u16 list \<Rightarrow> string" where
  "groups_string gs = text_join (CHR '':'') (map (\<lambda>g. hex_string (unat g)) gs)"

definition ipv6_string :: "u16 list \<Rightarrow> string" where
  "ipv6_string gs =
     (if take 6 gs = [0, 0, 0, 0, 0, 65535] \<and> length gs = 8
      then ''::ffff:'' @ ipv4_string (ucast (drop_bit 8 (gs ! 6))) (ucast (gs ! 6)) (ucast (drop_bit 8 (gs ! 7))) (ucast (gs ! 7))
      else case zero_run gs 0 (0, 0) (0, 0) of (start, len) \<Rightarrow>
        if 1 < len then groups_string (take start gs) @ ''::'' @ groups_string (drop (start + len) gs)
        else groups_string gs)"

fun ip_string :: "ip_addr \<Rightarrow> string" where
  "ip_string (V4 a b c d) = ipv4_string a b c d"
| "ip_string (V6 gs) = ipv6_string gs"

fun is_loopback :: "ip_addr \<Rightarrow> bool" where
  "is_loopback (V4 a b c d) = (a = 127)"
| "is_loopback (V6 gs) = (gs = [0, 0, 0, 0, 0, 0, 0, 1])"

section \<open>A loopback address reads back\<close>

lemma to_digit_decimal: "is_ascii_digit c \<Longrightarrow> to_digit 10 c = Some (code c - 48)"
  by (auto simp: to_digit_def is_ascii_digit_def Let_def)

lemma to_digit_dot: "to_digit 10 (CHR ''.'') = None"
  by (simp add: to_digit_def is_ascii_digit_def is_ascii_lowercase_def is_ascii_uppercase_def code_def)

lemma foldl_decimal:
  "list_all is_ascii_digit s \<Longrightarrow> foldl (\<lambda>n c. n * 10 + the (to_digit 10 c)) m s = foldl (\<lambda>n c. 10 * n + (code c - 48)) m s"
  by (induction s arbitrary: m) (simp_all add: to_digit_decimal mult.commute)

lemma nat_string_length_three: "n < 256 \<Longrightarrow> length (nat_string n) \<le> 3"
  by (subst nat_string.simps) (subst nat_string.simps, subst nat_string.simps, simp)

lemma read_octet:
  assumes "n < 256" "rest = [] \<or> hd rest = CHR ''.''"
  shows "read_number 10 3 False 255 (nat_string n @ rest) = Some (n, rest)"
proof -
  have digits: "takeWhile (\<lambda>c. to_digit 10 c \<noteq> None) (nat_string n @ rest) = nat_string n"
    using nat_string_digits [of n] assms(2)
    by (subst takeWhile_append2) (auto simp: list_all_iff to_digit_decimal to_digit_dot takeWhile_eq_Nil_iff)
  have "foldl (\<lambda>n c. n * 10 + the (to_digit 10 c)) 0 (nat_string n) = n"
    using numeral_value_nat_string [of n] by (simp add: foldl_decimal nat_string_digits numeral_value_def)
  then show ?thesis
    using assms(1) nat_string_plain [of n] nat_string_length_three [of n] digits
    by (auto simp: read_number_def plain_numeral_def)
qed

lemma read_octet_after_dot:
  "0 < i \<Longrightarrow> n < 256 \<Longrightarrow> rest = [] \<or> hd rest = CHR ''.'' \<Longrightarrow>
   read_separator (CHR ''.'') i (read_number 10 3 False 255) (CHR ''.'' # nat_string n @ rest) = Some (n, rest)"
  by (simp add: read_separator_def read_octet)

lemma read_ipv4_string: "read_ipv4 (ipv4_string a b c d) = Some ([unat a, unat b, unat c, unat d], [])"
proof -
  have small: "unat w < 256" for w :: "8 word" using word_nat_bound [of w] by simp
  have four: "(4::nat) = Suc (Suc (Suc (Suc 0)))" by simp
  have first: "read_separator (CHR ''.'') 0 (read_number 10 3 False 255) (nat_string (unat w) @ CHR ''.'' # rest)
      = Some (unat w, CHR ''.'' # rest)" for w :: "8 word" and rest
    using small [of w] by (simp add: read_separator_def read_octet)
  have final: "0 < i \<Longrightarrow> read_separator (CHR ''.'') i (read_number 10 3 False 255) (CHR ''.'' # nat_string (unat w))
      = Some (unat w, [])" for w :: "8 word" and i
    using read_octet_after_dot [of i "unat w" "[]"] small [of w] by simp
  show ?thesis
    by (simp add: read_ipv4_def ipv4_string_def four first final read_octet_after_dot small)
qed

theorem ipv4_reads_back: "parse_ip (ipv4_string a b c d) = Some (V4 a b c d)"
  by (simp add: parse_ip_def read_ipv4_string)

lemma loopback_reads_back: "is_loopback ip \<Longrightarrow> parse_ip (ip_string ip) = Some ip"
proof (cases ip)
  case (V6 gs)
  assume "is_loopback ip"
  with V6 have gs: "gs = [0, 0, 0, 0, 0, 0, 0, 1]" by simp
  have "parse_ip ''::1'' = Some (V6 [0, 0, 0, 0, 0, 0, 0, 1])" by code_simp
  moreover have "ipv6_string [0, 0, 0, 0, 0, 0, 0, 1] = ''::1''" by code_simp
  ultimately show ?thesis using V6 gs by simp
qed (simp add: ipv4_reads_back)

end
