(* ===== verification/Schema_Chain.thy ===== *)
theory Schema_Chain
  imports Run_Store Segment_Store
begin

text \<open>
  The schema chain: what opening a store does to the schema it finds. This theory has the loop both backends
  share and SQLite's chain (\<open>src/storage/sqlite/migrate.rs\<close>, with the DDL of \<open>candles.rs\<close>, \<open>journal.rs\<close>,
  \<open>segments/mod.rs\<close> and \<open>control.rs\<close> and the rewrite of \<open>journal/events.rs\<close>).

  A file is a \<open>chain_db\<close>: each table is there or not, in the columns of the version that wrote it. One pass is
  one transaction; between two passes any number of passes of other processes may run, and any of them may
  fail at a statement or at its commit. The locale \<open>schema_chain\<close> states what a pass owes the loop.
\<close>

section \<open>The loop\<close>

datatype pass_end = PassCurrent | PassCreated u32 | PassMigrated u32 u32

text \<open>A process's passes, numbered, and before each of them those of other processes.\<close>

record 'c passes =
  pa_own :: "nat \<Rightarrow> 'c"
  pa_others :: "nat \<Rightarrow> 'c list"

definition run_others :: "('c \<Rightarrow> 'db \<Rightarrow> (storage_error + pass_end) \<times> 'db) \<Rightarrow> 'c list \<Rightarrow> 'db \<Rightarrow> 'db" where
  "run_others pass cs db = foldl (\<lambda>db c. snd (pass c db)) db cs"

partial_function (option) chain_loop ::
  "('c \<Rightarrow> 'db \<Rightarrow> (storage_error + pass_end) \<times> 'db) \<Rightarrow> 'c passes \<Rightarrow> nat \<Rightarrow> 'db \<Rightarrow>
   ((storage_error + unit) \<times> 'db) option"
where
  "chain_loop pass E i db =
     (case pass (pa_own E i) (run_others pass (pa_others E i) db) of
        (Inl e, db') \<Rightarrow> Some (Inl e, db')
      | (Inr PassCurrent, db') \<Rightarrow> Some (Inr (), db')
      | (Inr (PassCreated _), db') \<Rightarrow> chain_loop pass E (i + 1) db'
      | (Inr (PassMigrated _ _), db') \<Rightarrow> chain_loop pass E (i + 1) db')"

text \<open>What the loop relies on: a pass that moved the store raised its version, to at most the target; one that
  found it current left it alone; one that failed did one or the other; and no pass touches the rows.\<close>

locale schema_chain =
  fixes pass :: "'c \<Rightarrow> 'db \<Rightarrow> (storage_error + pass_end) \<times> 'db"
    and version :: "'db \<Rightarrow> storage_error + u32"
    and target :: u32
    and rows :: "'db \<Rightarrow> 'r"
  assumes pass_moves: "pass c db = (r, db') \<Longrightarrow> db' = db \<or>
      (\<exists>v w. version db = Inr v \<and> version db' = Inr w \<and> v < w \<and> w \<le> target)"
    and pass_raises: "pass c db = (Inr p, db') \<Longrightarrow> p \<noteq> PassCurrent \<Longrightarrow>
      \<exists>v w. version db = Inr v \<and> version db' = Inr w \<and> v < w \<and> w \<le> target"
    and pass_current: "pass c db = (Inr PassCurrent, db') \<Longrightarrow> db' = db \<and> version db = Inr target"
    and pass_rows: "pass c db = (r, db') \<Longrightarrow> rows db' = rows db"
begin

definition raised :: "'db \<Rightarrow> 'db \<Rightarrow> bool" where
  "raised db db' \<longleftrightarrow> db' = db \<or> (\<exists>v w. version db = Inr v \<and> version db' = Inr w \<and> v < w \<and> w \<le> target)"

lemma raised_trans: "raised a b \<Longrightarrow> raised b c \<Longrightarrow> raised a c"
  by (auto simp: raised_def)

lemma others_raise: "raised db (run_others pass cs db) \<and> rows (run_others pass cs db) = rows db"
proof (induction cs rule: rev_induct)
  case (snoc c cs)
  let ?db = "run_others pass cs db"
  obtain r db' where p: "pass c ?db = (r, db')" by fastforce
  then have "raised ?db db'" "rows db' = rows ?db" using pass_moves pass_rows by (auto simp: raised_def)
  with snoc p raised_trans show ?case by (auto simp: run_others_def)
qed (simp add: run_others_def raised_def)

text \<open>How far a store is from the target; a version above it, or none, is as far as the last step.\<close>

definition to_go :: "'db \<Rightarrow> nat" where
  "to_go db = (case version db of Inr v \<Rightarrow> unat target - unat v | Inl _ \<Rightarrow> 0)"

lemma raised_to_go: "raised db db' \<Longrightarrow> to_go db' \<le> to_go db"
  by (auto simp: raised_def to_go_def word_less_nat_alt)

lemma strictly_raised_to_go:
  "version db = Inr v \<Longrightarrow> version db' = Inr w \<Longrightarrow> v < w \<Longrightarrow> w \<le> target \<Longrightarrow> to_go db' < to_go db"
  by (auto simp: to_go_def word_less_nat_alt word_le_nat_alt)

lemma loop_returns:
  "\<exists>r db'. chain_loop pass E i db = Some (r, db') \<and> rows db' = rows db \<and> raised db db' \<and>
     (r = Inr () \<longrightarrow> version db' = Inr target)"
proof (induction "to_go db" arbitrary: i db rule: less_induct)
  case less
  let ?db = "run_others pass (pa_others E i) db"
  note others = others_raise [of db "pa_others E i"]
  obtain r db1 where p: "pass (pa_own E i) ?db = (r, db1)" by fastforce
  have kept: "rows db1 = rows db" "raised db db1"
    using pass_rows [OF p] pass_moves [OF p] others raised_trans by (auto simp: raised_def)
  show ?case
  proof (cases "\<exists>q. r = Inr q \<and> q \<noteq> PassCurrent")
    case True
    then obtain q where q: "r = Inr q" "q \<noteq> PassCurrent" by blast
    with pass_raises p strictly_raised_to_go have "to_go db1 < to_go ?db" by blast
    with raised_to_go others have "to_go db1 < to_go db" by fastforce
    from less [OF this, of "i + 1"] obtain r' db' where
      rest: "chain_loop pass E (i + 1) db1 = Some (r', db')" "rows db' = rows db1" "raised db1 db'"
        "r' = Inr () \<longrightarrow> version db' = Inr target" by blast
    have "chain_loop pass E i db = chain_loop pass E (i + 1) db1"
      using p q by (subst chain_loop.simps) (auto split: pass_end.splits)
    with rest kept raised_trans show ?thesis by auto
  next
    case False
    then have "chain_loop pass E i db = Some (map_sum id (\<lambda>_. ()) r, db1)"
      using p by (subst chain_loop.simps) (auto split: sum.splits pass_end.splits)
    moreover have "map_sum id (\<lambda>_. ()) r = Inr () \<longrightarrow> version db1 = Inr target"
      using False p pass_current by (cases r) auto
    ultimately show ?thesis using kept by blast
  qed
qed

end

section \<open>The tables of a SQLite file\<close>

record candle_row =
  kr_exchange :: string
  kr_symbol :: string
  kr_interval :: string
  kr_candle :: text_candle

record mark_row =
  mw_id :: int
  mw_exchange :: string
  mw_symbol :: string
  mw_interval :: string
  mw_window_start_ms :: timestamp_ms

text \<open>The journal's rows as QuantForge 0.2.0 wrote them: no identity, and venue ids as integers.\<close>

record v2_run_row =
  vr_run_id :: string
  vr_exchange :: string
  vr_symbol :: string
  vr_interval :: string
  vr_strategy_name :: string
  vr_status :: string
  vr_state_json :: string
  vr_started_at_ms :: timestamp_ms
  vr_updated_at_ms :: timestamp_ms
  vr_stopped_at_ms :: "timestamp_ms option"
  vr_last_error :: "string option"

record v2_event_row =
  ve_seq :: int
  ve_run_id :: string
  ve_symbol :: string
  ve_side :: string
  ve_order_type :: string
  ve_status :: string
  ve_order_id :: "int option"
  ve_client_order_id :: "string option"
  ve_transact_time_ms :: "timestamp_ms option"
  ve_raw_json :: string

record v2_trade_row =
  vt_seq :: int
  vt_run_id :: string
  vt_symbol :: string
  vt_entry_time_ms :: timestamp_ms
  vt_exit_time_ms :: timestamp_ms
  vt_entry_price :: string
  vt_exit_price :: string
  vt_qty :: string
  vt_gross_quote_pnl :: string
  vt_entry_order_id :: "int option"
  vt_exit_order_id :: "int option"

text \<open>The three journal tables are created in one transaction and rebuilt in another, so a file has them all in
  one form or none; so with the three of the segments. Each numbered table has the last number it handed out.\<close>

datatype journal_tables =
    JournalV2 "v2_run_row list" "v2_event_row list" int "v2_trade_row list" int
  | JournalV5 "run_row list" "order_event_row list" int "closed_trade_row list" int

record segment_tables =
  sx_segments :: "segment_row list"
  sx_index :: "(string \<times> string \<times> string \<times> index_row) list"
  sx_marks :: "mark_row list"
  sx_mark_id :: int

record chain_db =
  ch_meta :: "(string \<times> string) list option"
  ch_candles :: "candle_row list option"
  ch_journal :: "journal_tables option"
  ch_segments :: "segment_tables option"
  ch_control :: "control_row option option"
  ch_log :: "migration_row list option"

definition fresh_file :: chain_db where
  "fresh_file = \<lparr>ch_meta = None, ch_candles = None, ch_journal = None, ch_segments = None, ch_control = None,
     ch_log = None\<rparr>"

text \<open>\<open>CREATE TABLE IF NOT EXISTS\<close>, and the error of a statement SQLite refuses.\<close>

definition create_missing :: "'t \<Rightarrow> 't option \<Rightarrow> 't option" where
  "create_missing new table = (case table of None \<Rightarrow> Some new | Some old \<Rightarrow> Some old)"

definition refused :: "string \<Rightarrow> storage_error" where
  "refused text = sqlite_failed (SqliteFailure OtherCode 1 text)"

text \<open>What a pass takes from outside: how its transaction ends, the clock, a generated store id and the build's
  version.\<close>

record chain_call =
  cc_call :: sqlite_call
  cc_store_id :: string
  cc_created_at_ms :: timestamp_ms
  cc_package_version :: string

section \<open>Rewriting the venue ids\<close>

text \<open>\<open>serde_json::Value\<close>, a library's: its parser, its printer and the text of a number are parameters. An
  object is the list of its entries.\<close>

datatype 'n json =
    JNull | JBool bool | JNumber 'n | JString string | JArray "'n json list" | JObject "(string \<times> 'n json) list"

record 'n json_values =
  jv_parse :: "string \<Rightarrow> string + 'n json"
  jv_print :: "'n json \<Rightarrow> string + string"
  jv_number_text :: "'n \<Rightarrow> string"

definition json_put :: "string \<Rightarrow> 'n json \<Rightarrow> (string \<times> 'n json) list \<Rightarrow> (string \<times> 'n json) list" where
  "json_put key v entries = map (\<lambda>(k, w). if k = key then (k, v) else (k, w)) entries"

definition number_to_text ::
  "'n json_values \<Rightarrow> (string \<times> 'n json) list \<Rightarrow> string \<Rightarrow> bool \<times> (string \<times> 'n json) list"
where
  "number_to_text V entries key =
     (case map_of entries key of
        Some (JNumber n) \<Rightarrow> (True, json_put key (JString (jv_number_text V n)) entries)
      | _ \<Rightarrow> (False, entries))"

definition ids_in_state :: "'n json_values \<Rightarrow> 'n json \<Rightarrow> bool \<times> 'n json" where
  "ids_in_state V state =
     (case state of
        JObject entries \<Rightarrow>
          (case map_of entries ''position'' of
             Some (JObject position) \<Rightarrow>
               (case number_to_text V position ''entry_order_id'' of
                  (changed, position') \<Rightarrow> (changed, JObject (json_put ''position'' (JObject position') entries)))
           | _ \<Rightarrow> (False, state))
      | _ \<Rightarrow> (False, state))"

fun ids_in_fill :: "'n json_values \<Rightarrow> 'n json \<Rightarrow> bool \<times> 'n json" where
  "ids_in_fill V (JObject fill) = (case number_to_text V fill ''trade_id'' of (changed, fill') \<Rightarrow> (changed, JObject fill'))"
| "ids_in_fill V v = (False, v)"

definition ids_in_order :: "'n json_values \<Rightarrow> 'n json \<Rightarrow> bool \<times> 'n json" where
  "ids_in_order V ord =
     (case ord of
        JObject entries \<Rightarrow>
          (case number_to_text V entries ''order_id'' of (changed, entries') \<Rightarrow>
             (case map_of entries' ''fills'' of
                Some (JArray fills) \<Rightarrow>
                  (changed \<or> list_ex (\<lambda>v. fst (ids_in_fill V v)) fills,
                   JObject (json_put ''fills'' (JArray (map (\<lambda>v. snd (ids_in_fill V v)) fills)) entries'))
              | _ \<Rightarrow> (changed, JObject entries')))
      | _ \<Rightarrow> (False, ord))"

text \<open>Each row that was there is read, and written back where an id changed.\<close>

fun rewrite_rows ::
  "('n json \<Rightarrow> bool \<times> 'n json) \<Rightarrow> 'n json_values \<Rightarrow> ('k \<Rightarrow> string \<Rightarrow> 'r list \<Rightarrow> 'r list) \<Rightarrow> ('k \<times> string) list \<Rightarrow>
   'r list \<Rightarrow> storage_error + 'r list"
where
  "rewrite_rows ids V update [] rows = Inr rows"
| "rewrite_rows ids V update ((k, text) # todo) rows =
     and_then (map_err SeOther (jv_parse V text)) (\<lambda>v.
       case ids v of (changed, v') \<Rightarrow>
         if changed
         then and_then (map_err SeOther (jv_print V v')) (\<lambda>text'. rewrite_rows ids V update todo (update k text' rows))
         else rewrite_rows ids V update todo rows)"

definition update_state :: "string \<Rightarrow> string \<Rightarrow> run_row list \<Rightarrow> run_row list" where
  "update_state run_id text rows = map (\<lambda>r. if rr_run_id r = run_id then r\<lparr>rr_state_json := text\<rparr> else r) rows"

definition update_raw :: "int \<Rightarrow> string \<Rightarrow> order_event_row list \<Rightarrow> order_event_row list" where
  "update_raw seq text rows = map (\<lambda>r. if oe_seq r = seq then r\<lparr>oe_raw_json := text\<rparr> else r) rows"

definition migrate_ids ::
  "'n json_values \<Rightarrow> run_row list \<Rightarrow> order_event_row list \<Rightarrow> storage_error + (run_row list \<times> order_event_row list)"
where
  "migrate_ids V runs events =
     and_then (rewrite_rows (ids_in_state V) V update_state (map (\<lambda>r. (rr_run_id r, rr_state_json r)) runs) runs) (\<lambda>runs'.
     and_then (rewrite_rows (ids_in_order V) V update_raw (map (\<lambda>r. (oe_seq r, oe_raw_json r)) events) events) (\<lambda>events'.
       Inr (runs', events')))"

section \<open>The steps\<close>

type_synonym chain_step = "chain_call \<Rightarrow> chain_db \<Rightarrow> storage_error + chain_db"

definition step_1_candles :: chain_step where
  "step_1_candles c db =
     Inr (db\<lparr>ch_meta := create_missing [] (ch_meta db), ch_candles := create_missing [] (ch_candles db)\<rparr>)"

definition step_2_journal :: chain_step where
  "step_2_journal c db = Inr (db\<lparr>ch_journal := create_missing (JournalV2 [] [] 0 [] 0) (ch_journal db)\<rparr>)"

definition step_3_execution_mode :: chain_step where
  "step_3_execution_mode c db = Inr db"

text \<open>SQLite divides integers toward zero. \<open>INSERT OR REPLACE\<close> takes a new id.\<close>

definition sqlite_div :: "int \<Rightarrow> int \<Rightarrow> int" where
  "sqlite_div a b = (if 0 \<le> a then a div b else - ((- a) div b))"

definition marked_start :: "interval \<Rightarrow> timestamp_ms \<Rightarrow> timestamp_ms" where
  "marked_start interval t = sqlite_div t (span_ms interval) * span_ms interval"

definition candle_market :: "candle_row \<Rightarrow> string \<times> string \<times> string" where
  "candle_market r = (kr_exchange r, kr_symbol r, kr_interval r)"

definition mark_market :: "mark_row \<Rightarrow> string \<times> string \<times> string" where
  "mark_market m = (mw_exchange m, mw_symbol m, mw_interval m)"

definition replace_mark :: "string \<times> string \<times> string \<Rightarrow> timestamp_ms \<Rightarrow> mark_row list \<times> int \<Rightarrow> mark_row list \<times> int" where
  "replace_mark market start t =
     (case market of (exchange, symbol, interval) \<Rightarrow> case t of (marks, last_id) \<Rightarrow>
       (filter (\<lambda>m. \<not> (mark_market m = market \<and> mw_window_start_ms m = start)) marks @
          [\<lparr>mw_id = last_id + 1, mw_exchange = exchange, mw_symbol = symbol, mw_interval = interval,
            mw_window_start_ms = start\<rparr>], last_id + 1))"

fun mark_markets ::
  "candle_row list \<Rightarrow> (string \<times> string \<times> string) list \<Rightarrow> mark_row list \<times> int \<Rightarrow> storage_error + (mark_row list \<times> int)"
where
  "mark_markets rows [] t = Inr t"
| "mark_markets rows (market # markets) t =
     and_then (map_err (\<lambda>_. SeOther ''a stored interval is unknown'') (interval_from_str (snd (snd market)))) (\<lambda>interval.
       mark_markets rows markets
         (foldl (\<lambda>t start. replace_mark market start t) t
           (remdups (map (\<lambda>r. marked_start interval (tc_open_time_ms (kr_candle r)))
             (filter (\<lambda>r. candle_market r = market) rows)))))"

definition mark_every_window :: "chain_db \<Rightarrow> storage_error + chain_db" where
  "mark_every_window db =
     (case (ch_candles db, ch_segments db) of
        (Some rows, Some tables) \<Rightarrow>
          and_then (mark_markets rows (remdups (map candle_market rows)) (sx_marks tables, sx_mark_id tables)) (\<lambda>(marks, last_id).
            Inr (db\<lparr>ch_segments := Some (tables\<lparr>sx_marks := marks, sx_mark_id := last_id\<rparr>)\<rparr>))
      | (None, _) \<Rightarrow> Inl (refused ''no such table: candles'')
      | (_, None) \<Rightarrow> Inl (refused ''no such table: segment_dirty''))"

definition step_4_segments :: chain_step where
  "step_4_segments c db =
     mark_every_window (db\<lparr>ch_segments := create_missing
       \<lparr>sx_segments = [], sx_index = [], sx_marks = [], sx_mark_id = 0\<rparr> (ch_segments db)\<rparr>)"

text \<open>The columns schema 5 adds, and the tables it rebuilds; the original JSON goes beside the row.\<close>

definition run_of_v2 :: "v2_run_row \<Rightarrow> run_row" where
  "run_of_v2 r =
     \<lparr>rr_run_id = vr_run_id r, rr_exchange = vr_exchange r, rr_symbol = vr_symbol r, rr_interval = vr_interval r,
      rr_strategy_name = vr_strategy_name r, rr_status = vr_status r, rr_state_json = vr_state_json r,
      rr_started_at_ms = vr_started_at_ms r, rr_updated_at_ms = vr_updated_at_ms r,
      rr_stopped_at_ms = vr_stopped_at_ms r, rr_last_error = vr_last_error r, rr_environment = None,
      rr_account_kind = None, rr_account_id = None, rr_identity_source = ''legacy'', rr_identity_at_ms = None,
      rr_legacy_state_json = None\<rparr>"

definition event_of_v2 :: "v2_event_row \<Rightarrow> order_event_row" where
  "event_of_v2 r =
     \<lparr>oe_seq = ve_seq r, oe_run_id = ve_run_id r, oe_symbol = ve_symbol r, oe_side = ve_side r,
      oe_order_type = ve_order_type r, oe_status = ve_status r, oe_order_id = map_option int_string (ve_order_id r),
      oe_client_order_id = ve_client_order_id r, oe_transact_time_ms = ve_transact_time_ms r,
      oe_raw_json = ve_raw_json r, oe_legacy_raw_json = None\<rparr>"

definition trade_of_v2 :: "v2_trade_row \<Rightarrow> closed_trade_row" where
  "trade_of_v2 r =
     \<lparr>cr_seq = vt_seq r, cr_run_id = vt_run_id r, cr_symbol = vt_symbol r, cr_entry_time_ms = vt_entry_time_ms r,
      cr_exit_time_ms = vt_exit_time_ms r, cr_entry_price = vt_entry_price r, cr_exit_price = vt_exit_price r,
      cr_qty = vt_qty r, cr_gross_quote_pnl = vt_gross_quote_pnl r,
      cr_entry_order_id = map_option int_string (vt_entry_order_id r),
      cr_exit_order_id = map_option int_string (vt_exit_order_id r)\<rparr>"

definition last_seq :: "int list \<Rightarrow> int" where
  "last_seq seqs = foldl max 0 seqs"

definition identity_ddl :: "journal_tables option \<Rightarrow> storage_error + (run_row list \<times> order_event_row list \<times> closed_trade_row list)" where
  "identity_ddl tables =
     (case tables of
        None \<Rightarrow> Inl (refused ''no such table: bot_runs'')
      | Some (JournalV5 _ _ _ _ _) \<Rightarrow> Inl (refused ''duplicate column name: environment'')
      | Some (JournalV2 runs events _ trades _) \<Rightarrow>
          Inr (map (\<lambda>r. (run_of_v2 r)\<lparr>rr_legacy_state_json := Some (vr_state_json r)\<rparr>) runs,
               map (\<lambda>r. (event_of_v2 r)\<lparr>oe_legacy_raw_json := Some (ve_raw_json r)\<rparr>) events,
               map trade_of_v2 trades))"

definition create_row :: "chain_call \<Rightarrow> control_row option option \<Rightarrow> storage_error + control_row option option" where
  "create_row c table =
     (case table of
        None \<Rightarrow> Inl (refused ''no such table: store_control'')
      | Some (Some _) \<Rightarrow> Inl (refused ''UNIQUE constraint failed: store_control.id'')
      | Some None \<Rightarrow>
          Inr (Some (Some \<lparr>co_store_id = cc_store_id c, co_environment = None, co_activation = activation_as_str Inactive,
            co_activation_epoch = 0, co_changed_at_ms = cc_created_at_ms c\<rparr>)))"

definition step_5_identity :: "'n json_values \<Rightarrow> chain_step" where
  "step_5_identity V c db =
     and_then (identity_ddl (ch_journal db)) (\<lambda>(runs, events, trades).
     and_then (migrate_ids V runs events) (\<lambda>(runs', events').
     and_then (create_row c (create_missing None (ch_control db))) (\<lambda>control.
       Inr (db\<lparr>ch_journal := Some (JournalV5 runs' events' (last_seq (map oe_seq events)) trades (last_seq (map cr_seq trades))),
               ch_control := control\<rparr>))))"

section \<open>The chain\<close>

definition sqlite_schema_version :: u32 where "sqlite_schema_version = 5"

definition sqlite_steps :: "'n json_values \<Rightarrow> (u32 \<times> chain_step) list" where
  "sqlite_steps V =
     [(1, step_1_candles), (2, step_2_journal), (3, step_3_execution_mode), (4, step_4_segments),
      (5, step_5_identity V)]"

definition chain_version :: "chain_db \<Rightarrow> storage_error + u32" where
  "chain_version db =
     (case ch_meta db of
        None \<Rightarrow> Inr 0
      | Some rows \<Rightarrow>
          (case map_of rows ''schema_version'' of
             None \<Rightarrow> Inr 0
           | Some value \<Rightarrow>
               ok_or (SeInvalidArgument (''the database records schema version '' @ value @ '', which is not a number''))
                 (parse_u32 value)))"

text \<open>\<open>ON CONFLICT(key) DO UPDATE\<close>.\<close>

definition put_meta :: "string \<Rightarrow> string \<Rightarrow> (string \<times> string) list \<Rightarrow> (string \<times> string) list" where
  "put_meta key value rows =
     (if map_of rows key = None then rows @ [(key, value)]
      else map (\<lambda>(k, v). if k = key then (k, value) else (k, v)) rows)"

definition log_step :: "chain_call \<Rightarrow> u32 \<Rightarrow> u32 \<Rightarrow> migration_row" where
  "log_step c from_version to =
     \<lparr>mg_version = int (unat to), mg_from_version = int (unat from_version),
      mg_applied_at_ms = sc_now (cc_call c), mg_quantforge_version = cc_package_version c\<rparr>"

definition chain_stamp :: "chain_call \<Rightarrow> u32 \<Rightarrow> u32 \<Rightarrow> chain_db \<Rightarrow> storage_error + chain_db" where
  "chain_stamp c from_version to db =
     (case ch_meta db of
        None \<Rightarrow> Inl (refused ''no such table: meta'')
      | Some rows \<Rightarrow>
          (let steps = (case ch_log db of None \<Rightarrow> [] | Some steps \<Rightarrow> steps) in
           if int (unat to) \<in> set (map mg_version steps)
           then Inl (refused ''UNIQUE constraint failed: schema_migrations.version'')
           else Inr (db\<lparr>ch_meta := Some (put_meta ''schema_version'' (u32_string to) rows),
                        ch_log := Some (steps @ [log_step c from_version to])\<rparr>)))"

fun apply_steps :: "(u32 \<times> chain_step) list \<Rightarrow> chain_call \<Rightarrow> chain_db \<Rightarrow> storage_error + chain_db" where
  "apply_steps [] c db = Inr db"
| "apply_steps ((_, apply_step) # steps) c db = and_then (apply_step c db) (apply_steps steps c)"

text \<open>One pass of \<open>ensure_current\<close>: one \<open>BEGIN IMMEDIATE\<close> transaction.\<close>

definition sqlite_pass_work ::
  "'n json_values \<Rightarrow> chain_call \<Rightarrow> chain_db \<Rightarrow> storage_error + (pass_end \<times> chain_db option)"
where
  "sqlite_pass_work V c db =
     and_then (chain_version db) (\<lambda>found.
       if found = sqlite_schema_version then Inr (PassCurrent, None)
       else if sqlite_schema_version < found then Inl (SeSchemaUnsupported found sqlite_schema_version)
       else and_then
         (if found = 0
          then and_then (apply_steps (sqlite_steps V) c db) (\<lambda>db'. Inr (sqlite_schema_version, db'))
          else (case find (\<lambda>s. fst s = found + 1) (sqlite_steps V) of
                  None \<Rightarrow> Inl (SeInvalidArgument (''no migration step leaves schema version '' @ u32_string found))
                | Some (to, apply_step) \<Rightarrow> and_then (apply_step c db) (\<lambda>db'. Inr (to, db')))) (\<lambda>(to, db').
         and_then (chain_stamp c found to db') (\<lambda>db''.
           Inr (if found = 0 then PassCreated to else PassMigrated found to, Some db''))))"

definition sqlite_pass :: "'n json_values \<Rightarrow> chain_call \<Rightarrow> (chain_db, storage_error, pass_end) op" where
  "sqlite_pass V c = sqlite_transaction (cc_call c) (sqlite_pass_work V c)"

definition sqlite_ensure_current ::
  "'n json_values \<Rightarrow> sqlite_store \<Rightarrow> rusqlite_error + pragmas \<Rightarrow> chain_call passes \<Rightarrow> chain_db \<Rightarrow>
   ((storage_error + unit) \<times> chain_db) option"
where
  "sqlite_ensure_current V store opening E db =
     (case sqlite_open store opening of
        Inl e \<Rightarrow> Some (Inl e, db)
      | Inr _ \<Rightarrow> chain_loop (sqlite_pass V) E 0 db)"

section \<open>What a file holds\<close>

text \<open>The rows of a file whatever version wrote them: venue ids as text, the JSON a row was written with, and an
  identity of its own only where it has one.\<close>

definition run_original :: "run_row \<Rightarrow> run_row" where
  "run_original r =
     r\<lparr>rr_state_json := (case rr_legacy_state_json r of Some json \<Rightarrow> json | None \<Rightarrow> rr_state_json r),
       rr_legacy_state_json := None\<rparr>"

definition event_original :: "order_event_row \<Rightarrow> order_event_row" where
  "event_original r =
     r\<lparr>oe_raw_json := (case oe_legacy_raw_json r of Some json \<Rightarrow> json | None \<Rightarrow> oe_raw_json r),
       oe_legacy_raw_json := None\<rparr>"

definition journal_rows :: "journal_tables option \<Rightarrow> run_row list \<times> order_event_row list \<times> closed_trade_row list" where
  "journal_rows tables =
     (case tables of
        None \<Rightarrow> ([], [], [])
      | Some (JournalV2 runs events _ trades _) \<Rightarrow> (map run_of_v2 runs, map event_of_v2 events, map trade_of_v2 trades)
      | Some (JournalV5 runs events _ trades _) \<Rightarrow> (map run_original runs, map event_original events, trades))"

definition chain_rows ::
  "chain_db \<Rightarrow> candle_row list \<times> (run_row list \<times> order_event_row list \<times> closed_trade_row list) \<times>
     segment_row list \<times> (string \<times> string \<times> string \<times> index_row) list"
where
  "chain_rows db =
     (case ch_candles db of None \<Rightarrow> [] | Some rows \<Rightarrow> rows, journal_rows (ch_journal db),
      case ch_segments db of None \<Rightarrow> [] | Some t \<Rightarrow> sx_segments t,
      case ch_segments db of None \<Rightarrow> [] | Some t \<Rightarrow> sx_index t)"

lemma rewrite_rows_keeps:
  assumes "rewrite_rows ids V update todo rows = Inr rows'" and "P rows"
    and kept: "\<And>k text rs. P rs \<Longrightarrow> P (update k text rs) \<and> f (update k text rs) = f rs"
  shows "P rows' \<and> f rows' = f rows"
  using assms(1,2)
proof (induction todo arbitrary: rows)
  case (Cons row todo)
  obtain k raw where row: "row = (k, raw)" by (cases row)
  from Cons.prems row obtain v where "jv_parse V raw = Inr v" by (auto simp: and_then_Inr)
  with Cons.prems row have "rewrite_rows ids V update todo rows = Inr rows' \<or>
      (\<exists>text'. rewrite_rows ids V update todo (update k text' rows) = Inr rows')"
    by (auto simp: and_then_Inr split: prod.splits if_splits)
  with Cons.IH Cons.prems(2) kept show ?case by metis
qed simp

lemma update_state_keeps:
  "\<forall>r\<in>set rs. rr_legacy_state_json r \<noteq> None \<Longrightarrow>
   (\<forall>r\<in>set (update_state k text rs). rr_legacy_state_json r \<noteq> None) \<and>
   map run_original (update_state k text rs) = map run_original rs"
  by (auto simp: update_state_def run_original_def)

lemma update_raw_keeps:
  "\<forall>r\<in>set rs. oe_legacy_raw_json r \<noteq> None \<Longrightarrow>
   (\<forall>r\<in>set (update_raw k text rs). oe_legacy_raw_json r \<noteq> None) \<and>
   map event_original (update_raw k text rs) = map event_original rs"
  by (auto simp: update_raw_def event_original_def)

lemma migrate_ids_keeps:
  assumes "migrate_ids V runs events = Inr (runs', events')"
    and "\<forall>r\<in>set runs. rr_legacy_state_json r \<noteq> None" and "\<forall>r\<in>set events. oe_legacy_raw_json r \<noteq> None"
  shows "map run_original runs' = map run_original runs" and "map event_original events' = map event_original events"
proof -
  from assms(1) have runs: "rewrite_rows (ids_in_state V) V update_state (map (\<lambda>r. (rr_run_id r, rr_state_json r)) runs) runs = Inr runs'"
    and events: "rewrite_rows (ids_in_order V) V update_raw (map (\<lambda>r. (oe_seq r, oe_raw_json r)) events) events = Inr events'"
    by (auto simp: migrate_ids_def and_then_Inr)
  show "map run_original runs' = map run_original runs"
    using rewrite_rows_keeps [OF runs, where P = "\<lambda>rs. \<forall>r\<in>set rs. rr_legacy_state_json r \<noteq> None"] assms(2)
      update_state_keeps by blast
  show "map event_original events' = map event_original events"
    using rewrite_rows_keeps [OF events, where P = "\<lambda>rs. \<forall>r\<in>set rs. oe_legacy_raw_json r \<noteq> None"] assms(3)
      update_raw_keeps by blast
qed

lemma step_5_keeps: "step_5_identity V c db = Inr db' \<Longrightarrow> chain_rows db' = chain_rows db"
proof -
  assume step: "step_5_identity V c db = Inr db'"
  then obtain runs events n trades m where old: "ch_journal db = Some (JournalV2 runs events n trades m)"
    by (auto simp: step_5_identity_def identity_ddl_def and_then_Inr split: option.splits journal_tables.splits)
  let ?runs = "map (\<lambda>r. (run_of_v2 r)\<lparr>rr_legacy_state_json := Some (vr_state_json r)\<rparr>) runs"
  let ?events = "map (\<lambda>r. (event_of_v2 r)\<lparr>oe_legacy_raw_json := Some (ve_raw_json r)\<rparr>) events"
  from step old obtain runs' events' control k l where ids: "migrate_ids V ?runs ?events = Inr (runs', events')"
    and db': "db' = db\<lparr>ch_journal := Some (JournalV5 runs' events' k (map trade_of_v2 trades) l), ch_control := control\<rparr>"
    by (auto simp: step_5_identity_def identity_ddl_def and_then_Inr)
  have "map run_original runs' = map run_of_v2 runs" "map event_original events' = map event_of_v2 events"
    using migrate_ids_keeps [OF ids] by (auto simp: run_original_def event_original_def run_of_v2_def event_of_v2_def)
  then show ?thesis by (simp add: db' chain_rows_def journal_rows_def old)
qed

lemma step_4_keeps: "step_4_segments c db = Inr db' \<Longrightarrow> chain_rows db' = chain_rows db"
  by (auto simp: step_4_segments_def mark_every_window_def and_then_Inr chain_rows_def create_missing_def split: option.splits)

lemma step_1_keeps: "step_1_candles c db = Inr db' \<Longrightarrow> chain_rows db' = chain_rows db"
  by (cases "ch_candles db") (auto simp: step_1_candles_def chain_rows_def create_missing_def)

lemma step_2_keeps: "step_2_journal c db = Inr db' \<Longrightarrow> chain_rows db' = chain_rows db"
  by (cases "ch_journal db") (auto simp: step_2_journal_def chain_rows_def journal_rows_def create_missing_def)

lemma steps_keep:
  assumes "(to, apply_step) \<in> set (sqlite_steps V)" and "apply_step c db = Inr db'"
  shows "chain_rows db' = chain_rows db"
proof -
  from assms(1) consider "apply_step = step_1_candles" | "apply_step = step_2_journal"
    | "apply_step = step_3_execution_mode" | "apply_step = step_4_segments" | "apply_step = step_5_identity V"
    by (auto simp: sqlite_steps_def)
  then show ?thesis
    using assms(2)
    by cases (auto simp: step_3_execution_mode_def dest: step_1_keeps step_2_keeps step_4_keeps step_5_keeps)
qed

lemma apply_steps_keep:
  "set steps \<subseteq> set (sqlite_steps V) \<Longrightarrow> apply_steps steps c db = Inr db' \<Longrightarrow> chain_rows db' = chain_rows db"
proof (induction steps arbitrary: db)
  case (Cons s steps)
  obtain to apply_step where s: "s = (to, apply_step)" by (cases s)
  with Cons.prems(2) obtain db1 where run: "apply_step c db = Inr db1" "apply_steps steps c db1 = Inr db'"
    by (auto simp: and_then_Inr)
  from Cons.prems(1) s have here: "(to, apply_step) \<in> set (sqlite_steps V)" "set steps \<subseteq> set (sqlite_steps V)" by simp_all
  show ?case using Cons.IH [OF here(2) run(2)] steps_keep [OF here(1) run(1)] by simp
qed simp

lemma map_of_put_meta: "map_of (put_meta key value rows) key = Some value"
proof -
  have replaced: "map_of (map (\<lambda>(k, v). if k = key then (k, value) else (k, v)) rows) key = map_option (\<lambda>_. value) (map_of rows key)"
    by (induction rows) auto
  show ?thesis by (cases "map_of rows key") (simp_all add: put_meta_def replaced map_add_def)
qed

lemma chain_stamp_Inr:
  assumes "chain_stamp c from_version to db = Inr db'"
  obtains rows steps where "ch_meta db = Some rows" "steps = (case ch_log db of None \<Rightarrow> [] | Some steps \<Rightarrow> steps)"
    "int (unat to) \<notin> set (map mg_version steps)"
    "db' = db\<lparr>ch_meta := Some (put_meta ''schema_version'' (u32_string to) rows),
              ch_log := Some (steps @ [log_step c from_version to])\<rparr>"
proof (cases "ch_meta db")
  case (Some rows)
  with assms that show ?thesis by (simp add: chain_stamp_def Let_def split: if_split_asm)
qed (use assms in \<open>simp add: chain_stamp_def\<close>)

lemma stamp_version:
  assumes "chain_stamp c from_version to db = Inr db'"
  shows "chain_version db' = Inr to \<and> chain_rows db' = chain_rows db"
  using assms by (rule chain_stamp_Inr) (simp add: chain_version_def chain_rows_def map_of_put_meta)

lemma step_above:
  assumes "find (\<lambda>s. fst s = found + 1) (sqlite_steps V) = Some (to, apply_step)"
  shows "(to, apply_step) \<in> set (sqlite_steps V)" and "found < to" and "to \<le> sqlite_schema_version"
proof -
  have found: "find P xs = Some x \<Longrightarrow> P x \<and> x \<in> set xs" for P xs and x :: "u32 \<times> chain_step"
    by (induction xs) (auto split: if_splits)
  from found [OF assms] have to: "to = found + 1" "(to, apply_step) \<in> set (sqlite_steps V)" by auto
  then have "found = to - 1" "to \<in> {1, 2, 3, 4, 5}" by (auto simp: sqlite_steps_def)
  then show "(to, apply_step) \<in> set (sqlite_steps V)" "found < to" "to \<le> sqlite_schema_version"
    using to by (auto simp: sqlite_schema_version_def)
qed

lemma pass_work_Inr:
  assumes "sqlite_pass_work V c db = Inr (p, change)"
  obtains (current) "p = PassCurrent" "change = None" "chain_version db = Inr sqlite_schema_version"
  | (moved) found to db' where "change = Some db'" "p = (if found = 0 then PassCreated to else PassMigrated found to)"
      "chain_version db = Inr found" "found < to" "to \<le> sqlite_schema_version" "chain_version db' = Inr to"
      "chain_rows db' = chain_rows db"
proof -
  obtain found where found: "chain_version db = Inr found"
    using assms by (auto simp: sqlite_pass_work_def and_then_Inr)
  show ?thesis
  proof (cases "found = sqlite_schema_version")
    case True
    with assms found current show ?thesis by (simp add: sqlite_pass_work_def)
  next
    case False
    let ?steps = "if found = 0
          then and_then (apply_steps (sqlite_steps V) c db) (\<lambda>db'. Inr (sqlite_schema_version, db'))
          else (case find (\<lambda>s. fst s = found + 1) (sqlite_steps V) of
                  None \<Rightarrow> Inl (SeInvalidArgument (''no migration step leaves schema version '' @ u32_string found))
                | Some (to, apply_step) \<Rightarrow> and_then (apply_step c db) (\<lambda>db'. Inr (to, db')))"
    from assms found False obtain to db1 db' where run: "?steps = Inr (to, db1)"
      and stamp: "chain_stamp c found to db1 = Inr db'" and change: "change = Some db'"
      and p: "p = (if found = 0 then PassCreated to else PassMigrated found to)"
      unfolding sqlite_pass_work_def by (auto simp: and_then_Inr split: if_split_asm)
    have "chain_rows db1 = chain_rows db \<and> found < to \<and> to \<le> sqlite_schema_version"
    proof (cases "found = 0")
      case True
      with run have "apply_steps (sqlite_steps V) c db = Inr db1" "to = sqlite_schema_version"
        by (auto simp: and_then_Inr)
      with True apply_steps_keep [of "sqlite_steps V" V c db db1] show ?thesis by (simp add: sqlite_schema_version_def)
    next
      case False
      with run obtain apply_step where "find (\<lambda>s. fst s = found + 1) (sqlite_steps V) = Some (to, apply_step)"
        "apply_step c db = Inr db1"
        by (auto simp: and_then_Inr split: option.splits prod.splits)
      with step_above steps_keep show ?thesis by blast
    qed
    with stamp_version [OF stamp] change p found moved show ?thesis by metis
  qed
qed

lemma chain_transaction_cases:
  assumes "sqlite_transaction c f db = (r, db')"
  obtains (stayed) "db' = db" "\<And>a. r = Inr a \<Longrightarrow> f db = Inr (a, None)"
  | (written) a where "f db = Inr (a, Some db')" "r = Inr a \<or> (\<exists>e. r = Inl e)"
  using assms
  by (auto simp: sqlite_transaction_def split: sqlite_fault.splits sum.splits prod.splits option.splits if_splits)

interpretation sqlite_chain: schema_chain "sqlite_pass V" chain_version sqlite_schema_version chain_rows
proof
  fix c db r db'
  assume pass: "sqlite_pass V c db = (r, db')"
  show "db' = db \<or> (\<exists>v w. chain_version db = Inr v \<and> chain_version db' = Inr w \<and> v < w \<and> w \<le> sqlite_schema_version)"
    using pass unfolding sqlite_pass_def
    by (cases rule: chain_transaction_cases) (auto elim: pass_work_Inr)
  show "chain_rows db' = chain_rows db"
    using pass unfolding sqlite_pass_def
    by (cases rule: chain_transaction_cases) (auto elim: pass_work_Inr)
next
  fix c db p db'
  assume pass: "sqlite_pass V c db = (Inr p, db')" and moved: "p \<noteq> PassCurrent"
  show "\<exists>v w. chain_version db = Inr v \<and> chain_version db' = Inr w \<and> v < w \<and> w \<le> sqlite_schema_version"
    using pass moved unfolding sqlite_pass_def
    by (cases rule: chain_transaction_cases) (auto elim: pass_work_Inr)
next
  fix c db db'
  assume pass: "sqlite_pass V c db = (Inr PassCurrent, db')"
  show "db' = db \<and> chain_version db = Inr sqlite_schema_version"
    using pass unfolding sqlite_pass_def
    by (cases rule: chain_transaction_cases) (auto elim!: pass_work_Inr split: if_splits)
qed

section \<open>Opening a file\<close>

lemma chain_raised_newer:
  "sqlite_chain.raised db db' \<Longrightarrow> chain_version db = Inr v \<Longrightarrow> sqlite_schema_version < v \<Longrightarrow> db' = db"
  by (auto simp: sqlite_chain.raised_def)


text \<open>What each version of the schema consists of, and what its rows must read as for the next steps.\<close>

definition log_rows :: "chain_db \<Rightarrow> migration_row list" where
  "log_rows db = (case ch_log db of None \<Rightarrow> [] | Some steps \<Rightarrow> steps)"

definition shaped :: "u32 \<Rightarrow> chain_db \<Rightarrow> bool" where
  "shaped v db \<longleftrightarrow>
     ch_meta db \<noteq> None \<and> ch_candles db \<noteq> None \<and>
     (case ch_journal db of None \<Rightarrow> v = 1 | Some (JournalV2 _ _ _ _ _) \<Rightarrow> v \<in> {2, 3, 4}
      | Some (JournalV5 _ _ _ _ _) \<Rightarrow> v = 5) \<and>
     (ch_segments db = None \<longleftrightarrow> v \<in> {1, 2, 3}) \<and>
     (case ch_control db of None \<Rightarrow> v \<noteq> 5 | Some None \<Rightarrow> False | Some (Some _) \<Rightarrow> v = 5)"

definition laid_out :: "u32 \<Rightarrow> chain_db \<Rightarrow> bool" where
  "laid_out v db \<longleftrightarrow>
     chain_version db = Inr v \<and> v \<in> {0, 1, 2, 3, 4, 5} \<and> (if v = 0 then db = fresh_file else shaped v db) \<and>
     (\<forall>r\<in>set (log_rows db). mg_version r \<le> int (unat v))"

definition rows_read :: "'n json_values \<Rightarrow> chain_db \<Rightarrow> bool" where
  "rows_read V db \<longleftrightarrow>
     (\<forall>v. \<exists>printed. jv_print V v = Inr printed) \<and>
     (case ch_candles db of None \<Rightarrow> True | Some rows \<Rightarrow> \<forall>r\<in>set rows. is_ok (interval_from_str (kr_interval r))) \<and>
     (case ch_journal db of
        Some (JournalV2 runs events _ _ _) \<Rightarrow>
          (\<forall>r\<in>set runs. is_ok (jv_parse V (vr_state_json r))) \<and> (\<forall>r\<in>set events. is_ok (jv_parse V (ve_raw_json r)))
      | _ \<Rightarrow> True)"

lemma rewrite_rows_total:
  "\<forall>v. \<exists>printed. jv_print V v = Inr printed \<Longrightarrow> \<forall>(k, raw)\<in>set todo. is_ok (jv_parse V raw) \<Longrightarrow>
   \<exists>rows'. rewrite_rows ids V update todo rows = Inr rows'"
proof (induction todo arbitrary: rows)
  case (Cons row todo)
  obtain k raw where row: "row = (k, raw)" by (cases row)
  with Cons.prems obtain v where v: "jv_parse V raw = Inr v" by (auto simp: is_ok_iff)
  obtain changed v' where "ids v = (changed, v')" by fastforce
  moreover obtain printed where "jv_print V v' = Inr printed" using Cons.prems by blast
  ultimately show ?case using Cons row v by (cases changed) auto
qed simp

lemma mark_markets_total:
  "\<forall>m\<in>set markets. is_ok (interval_from_str (snd (snd m))) \<Longrightarrow> \<exists>t'. mark_markets rows markets t = Inr t'"
proof (induction markets arbitrary: t)
  case (Cons market markets)
  then obtain interval where "interval_from_str (snd (snd market)) = Inr interval" by (auto simp: is_ok_iff)
  with Cons.IH Cons.prems show ?case by (simp del: split_paired_Ex)
qed simp

lemma step_4_total:
  assumes "ch_candles db = Some rows" "\<forall>r\<in>set rows. is_ok (interval_from_str (kr_interval r))"
  obtains tables where "step_4_segments c db = Inr (db\<lparr>ch_segments := Some tables\<rparr>)"
proof -
  let ?new = "\<lparr>sx_segments = [], sx_index = [], sx_marks = [], sx_mark_id = 0\<rparr>"
  obtain t where t: "create_missing ?new (ch_segments db) = Some t"
    by (cases "ch_segments db") (simp_all add: create_missing_def)
  have "\<forall>m\<in>set (remdups (map candle_market rows)). is_ok (interval_from_str (snd (snd m)))"
    using assms(2) by (auto simp: candle_market_def)
  then obtain marks last_id where
    "mark_markets rows (remdups (map candle_market rows)) (sx_marks t, sx_mark_id t) = Inr (marks, last_id)"
    using mark_markets_total by (metis surj_pair)
  then show ?thesis
    using that [of "t\<lparr>sx_marks := marks, sx_mark_id := last_id\<rparr>"] assms(1) t
    by (simp add: step_4_segments_def mark_every_window_def)
qed

lemma step_5_total:
  assumes "ch_journal db = Some (JournalV2 runs events n trades m)" "ch_control db = None" "rows_read V db"
  obtains a b i t j row where "step_5_identity V c db =
    Inr (db\<lparr>ch_journal := Some (JournalV5 a b i t j), ch_control := Some (Some row)\<rparr>)"
proof -
  let ?runs = "map (\<lambda>r. (run_of_v2 r)\<lparr>rr_legacy_state_json := Some (vr_state_json r)\<rparr>) runs"
  let ?events = "map (\<lambda>r. (event_of_v2 r)\<lparr>oe_legacy_raw_json := Some (ve_raw_json r)\<rparr>) events"
  have total: "\<forall>v. \<exists>printed. jv_print V v = Inr printed" using assms(3) by (simp add: rows_read_def)
  have "\<exists>runs'. rewrite_rows (ids_in_state V) V update_state (map (\<lambda>r. (rr_run_id r, rr_state_json r)) ?runs) ?runs = Inr runs'"
    using assms(1,3) by (intro rewrite_rows_total [OF total]) (auto simp: rows_read_def run_of_v2_def)
  moreover have "\<exists>events'. rewrite_rows (ids_in_order V) V update_raw (map (\<lambda>r. (oe_seq r, oe_raw_json r)) ?events) ?events = Inr events'"
    using assms(1,3) by (intro rewrite_rows_total [OF total]) (auto simp: rows_read_def event_of_v2_def)
  ultimately obtain runs' events' where "migrate_ids V ?runs ?events = Inr (runs', events')"
    by (auto simp: migrate_ids_def)
  then show ?thesis
    using that assms(1,2) by (auto simp: step_5_identity_def identity_ddl_def create_row_def create_missing_def)
qed

lemma stamp_total:
  assumes "ch_meta db \<noteq> None" "\<forall>r\<in>set (log_rows db). mg_version r < int (unat to)"
  obtains db' where "chain_stamp c from_version to db = Inr db'" "chain_version db' = Inr to" "ch_meta db' \<noteq> None"
    "log_rows db' = log_rows db @ [log_step c from_version to]" "ch_candles db' = ch_candles db"
    "ch_journal db' = ch_journal db" "ch_segments db' = ch_segments db" "ch_control db' = ch_control db"
proof -
  obtain rows where rows: "ch_meta db = Some rows" using assms(1) by auto
  let ?db = "db\<lparr>ch_meta := Some (put_meta ''schema_version'' (u32_string to) rows),
      ch_log := Some (log_rows db @ [log_step c from_version to])\<rparr>"
  have "int (unat to) \<notin> set (map mg_version (log_rows db))" using assms(2) by auto
  then have "chain_stamp c from_version to db = Inr ?db" using rows by (simp add: chain_stamp_def log_rows_def Let_def)
  moreover have "chain_version ?db = Inr to" by (simp add: chain_version_def map_of_put_meta)
  ultimately show ?thesis using that [of ?db] by (simp add: log_rows_def)
qed

lemma step_finds:
  "find (\<lambda>s. fst s = (1 :: u32) + 1) (sqlite_steps V) = Some (2, step_2_journal)"
  "find (\<lambda>s. fst s = (2 :: u32) + 1) (sqlite_steps V) = Some (3, step_3_execution_mode)"
  "find (\<lambda>s. fst s = (3 :: u32) + 1) (sqlite_steps V) = Some (4, step_4_segments)"
  "find (\<lambda>s. fst s = (4 :: u32) + 1) (sqlite_steps V) = Some (5, step_5_identity V)"
  by (simp_all add: sqlite_steps_def)

lemma fresh_steps:
  "\<exists>row tables. apply_steps (sqlite_steps V) c fresh_file =
     Inr (fresh_file\<lparr>ch_meta := Some [], ch_candles := Some [], ch_journal := Some (JournalV5 [] [] 0 [] 0),
            ch_segments := Some tables, ch_control := Some (Some row)\<rparr>)"
  by (simp add: sqlite_steps_def step_1_candles_def step_2_journal_def step_3_execution_mode_def step_4_segments_def
      step_5_identity_def mark_every_window_def identity_ddl_def migrate_ids_def create_row_def create_missing_def
      fresh_file_def last_seq_def)

text \<open>One step from each version: what it leaves is the next version's layout, and its rows still read.\<close>

lemma step_lays_out:
  assumes "laid_out v db" "rows_read V db" "v \<noteq> 5" "v \<noteq> 0"
  obtains apply_step db' where "find (\<lambda>s. fst s = v + 1) (sqlite_steps V) = Some (v + 1, apply_step)"
    "apply_step c db = Inr db'" "rows_read V db'" "log_rows db' = log_rows db" "shaped (v + 1) db'"
proof -
  from assms(1,4) have shape: "shaped v db" and v: "v \<in> {1, 2, 3, 4, 5}" by (auto simp: laid_out_def)
  from shape obtain rows where rows: "ch_candles db = Some rows" and meta: "ch_meta db \<noteq> None"
    by (auto simp: shaped_def)
  from v assms(3) consider (1) "v = 1" | (2) "v = 2" | (3) "v = 3" | (4) "v = 4" by auto
  then show ?thesis
  proof cases
    case 1
    with shape have db: "ch_journal db = None" "ch_segments db = None" "ch_control db = None"
      by (auto simp: shaped_def split: option.splits journal_tables.splits)
    show ?thesis
      by (rule that [of step_2_journal "db\<lparr>ch_journal := Some (JournalV2 [] [] 0 [] 0)\<rparr>"])
        (use 1 db rows meta assms(2) step_finds in
          \<open>simp_all add: step_2_journal_def create_missing_def rows_read_def log_rows_def shaped_def\<close>)
  next
    case 2
    with shape have "shaped 3 db" by (auto simp: shaped_def split: option.splits journal_tables.splits)
    then show ?thesis
      by (intro that [of step_3_execution_mode db]) (use 2 assms(2) step_finds in \<open>simp_all add: step_3_execution_mode_def\<close>)
  next
    case 3
    from assms(2) rows have "\<forall>r\<in>set rows. is_ok (interval_from_str (kr_interval r))" by (simp add: rows_read_def)
    then obtain tables where step: "step_4_segments c db = Inr (db\<lparr>ch_segments := Some tables\<rparr>)"
      using step_4_total [OF rows] by blast
    have "shaped 4 (db\<lparr>ch_segments := Some tables\<rparr>)"
      using shape 3 by (auto simp: shaped_def split: option.splits journal_tables.splits)
    with step show ?thesis
      by (intro that [of step_4_segments "db\<lparr>ch_segments := Some tables\<rparr>"])
        (use 3 assms(2) step_finds in \<open>simp_all add: rows_read_def log_rows_def\<close>)
  next
    case 4
    with shape obtain runs events n trades m where journal: "ch_journal db = Some (JournalV2 runs events n trades m)"
      and control: "ch_control db = None" and segments: "ch_segments db \<noteq> None"
      by (auto simp: shaped_def split: option.splits journal_tables.splits)
    obtain a b i t j row where step: "step_5_identity V c db =
        Inr (db\<lparr>ch_journal := Some (JournalV5 a b i t j), ch_control := Some (Some row)\<rparr>)" (is "_ = Inr ?db")
      by (rule step_5_total [OF journal control assms(2), where c = c])
    have "shaped 5 ?db" using segments rows meta by (simp add: shaped_def)
    moreover have "rows_read V ?db" using assms(2) by (simp add: rows_read_def)
    ultimately show ?thesis
      by (intro that [of "step_5_identity V" ?db]) (use 4 step step_finds(4) in \<open>simp_all add: log_rows_def\<close>)
  qed
qed

text \<open>Where the next step leads: a fresh file runs the whole chain.\<close>

definition step_target :: "u32 \<Rightarrow> u32" where
  "step_target v = (if v = 0 then sqlite_schema_version else v + 1)"

lemma pass_lays_out:
  assumes "laid_out v db" "rows_read V db" "v \<noteq> 5" "sc_fault (cc_call c) = NoFault"
  obtains p db' where "sqlite_pass V c db = (Inr p, db')" "p \<noteq> PassCurrent" "laid_out (step_target v) db'"
    "rows_read V db'" "log_rows db' = log_rows db @ [log_step c v (step_target v)]"
proof -
  have version: "chain_version db = Inr v" and v: "v \<in> {0, 1, 2, 3, 4}" and older: "v < sqlite_schema_version"
    using assms(1,3) by (auto simp: laid_out_def sqlite_schema_version_def)
  obtain db1 where run: "(if v = 0
          then and_then (apply_steps (sqlite_steps V) c db) (\<lambda>db'. Inr (sqlite_schema_version, db'))
          else (case find (\<lambda>s. fst s = v + 1) (sqlite_steps V) of
                  None \<Rightarrow> Inl (SeInvalidArgument (''no migration step leaves schema version '' @ u32_string v))
                | Some (to, apply_step) \<Rightarrow> and_then (apply_step c db) (\<lambda>db'. Inr (to, db')))) = Inr (step_target v, db1)"
    and db1: "rows_read V db1" "log_rows db1 = log_rows db" "shaped (step_target v) db1"
  proof (cases "v = 0")
    case True
    then have fresh: "db = fresh_file" using assms(1) by (simp add: laid_out_def)
    obtain row tables where steps: "apply_steps (sqlite_steps V) c fresh_file =
      Inr (fresh_file\<lparr>ch_meta := Some [], ch_candles := Some [], ch_journal := Some (JournalV5 [] [] 0 [] 0),
            ch_segments := Some tables, ch_control := Some (Some row)\<rparr>)" (is "_ = Inr ?db")
      using fresh_steps by blast
    show ?thesis
      by (rule that [of ?db])
        (use True fresh steps assms(2) in \<open>simp_all add: step_target_def sqlite_schema_version_def rows_read_def
          log_rows_def fresh_file_def shaped_def\<close>)
  next
    case False
    obtain apply_step db1 where "find (\<lambda>s. fst s = v + 1) (sqlite_steps V) = Some (v + 1, apply_step)"
      "apply_step c db = Inr db1" "rows_read V db1" "log_rows db1 = log_rows db" "shaped (v + 1) db1"
      using step_lays_out [OF assms(1-3) False] by blast
    with False show ?thesis by (intro that [of db1]) (simp_all add: step_target_def)
  qed
  have above: "v < step_target v" "step_target v \<in> {1, 2, 3, 4, 5}"
    using v by (auto simp: step_target_def sqlite_schema_version_def)
  have logged: "\<forall>r\<in>set (log_rows db1). mg_version r < int (unat (step_target v))"
  proof -
    have "int (unat v) < int (unat (step_target v))" using above(1) unfolding word_less_nat_alt by (simp only: of_nat_less_iff)
    moreover have "\<forall>r\<in>set (log_rows db). mg_version r \<le> int (unat v)" using assms(1) unfolding laid_out_def by blast
    ultimately show ?thesis unfolding db1(2) using le_less_trans by blast
  qed
  obtain db2 where stamp: "chain_stamp c v (step_target v) db1 = Inr db2"
    and db2: "chain_version db2 = Inr (step_target v)" "ch_meta db2 \<noteq> None"
      "log_rows db2 = log_rows db1 @ [log_step c v (step_target v)]" "ch_candles db2 = ch_candles db1"
      "ch_journal db2 = ch_journal db1" "ch_segments db2 = ch_segments db1" "ch_control db2 = ch_control db1"
    using stamp_total [OF _ logged, of c v] db1(3) by (auto simp: shaped_def)
  let ?p = "if v = 0 then PassCreated (step_target v) else PassMigrated v (step_target v)"
  have "v \<noteq> sqlite_schema_version" "\<not> sqlite_schema_version < v" using older by auto
  then have "sqlite_pass_work V c db = Inr (?p, Some db2)"
    using run stamp by (simp add: sqlite_pass_work_def version)
  then have "sqlite_pass V c db = (Inr ?p, db2)"
    using assms(4) by (simp add: sqlite_pass_def sqlite_transaction_def)
  moreover have "laid_out (step_target v) db2"
  proof -
    have "shaped (step_target v) db2" using db1(3) db2 by (simp add: shaped_def)
    moreover have "\<forall>r\<in>set (log_rows db2). mg_version r \<le> int (unat (step_target v))"
      using logged db2(3) by (auto simp: log_step_def)
    ultimately show ?thesis using db2(1) above by (auto simp: laid_out_def)
  qed
  moreover have "rows_read V db2" using db1(1) db2 by (simp add: rows_read_def)
  ultimately show ?thesis using that [of ?p db2] db2 db1(2) by simp
qed

definition log_versions :: "chain_db \<Rightarrow> (int \<times> int) list" where
  "log_versions db = map (\<lambda>r. (mg_from_version r, mg_version r)) (log_rows db)"

definition steps_left :: "u32 \<Rightarrow> (int \<times> int) list" where
  "steps_left v = (if v = 0 then [(0, 5)] else map (\<lambda>k. (int k, int k + 1)) [unat v..<5])"

lemma steps_left_step:
  assumes "v \<in> {0, 1, 2, 3, 4}"
  shows "steps_left v = (int (unat v), int (unat (step_target v))) # steps_left (step_target v)"
  using assms by (auto simp: steps_left_def step_target_def sqlite_schema_version_def upt_conv_Cons)

lemma passes_lay_out:
  assumes "\<forall>i. sc_fault (cc_call (pa_own E i)) = NoFault" "\<forall>i. pa_others E i = []"
  shows "laid_out v db \<Longrightarrow> rows_read V db \<Longrightarrow>
    \<exists>db'. chain_loop (sqlite_pass V) E i db = Some (Inr (), db') \<and> laid_out sqlite_schema_version db' \<and>
      log_versions db' = log_versions db @ steps_left v"
proof (induction "5 - unat v" arbitrary: v db i rule: less_induct)
  case less
  then have v: "v \<in> {0, 1, 2, 3, 4, 5}" "chain_version db = Inr v" by (auto simp: laid_out_def)
  have others: "run_others (sqlite_pass V) (pa_others E i) db = db" using assms(2) by (simp add: run_others_def)
  show ?case
  proof (cases "v = 5")
    case True
    then have "sqlite_pass V (pa_own E i) db = (Inr PassCurrent, db)"
      using v assms(1) by (simp add: sqlite_pass_def sqlite_transaction_def sqlite_pass_work_def sqlite_schema_version_def)
    then have "chain_loop (sqlite_pass V) E i db = Some (Inr (), db)"
      using others by (subst chain_loop.simps) simp
    with True less.prems show ?thesis by (simp add: steps_left_def sqlite_schema_version_def)
  next
    case False
    have fault: "sc_fault (cc_call (pa_own E i)) = NoFault" using assms(1) by blast
    obtain p db1 where pass: "sqlite_pass V (pa_own E i) db = (Inr p, db1)" "p \<noteq> PassCurrent"
      and db1: "laid_out (step_target v) db1" "rows_read V db1"
        "log_rows db1 = log_rows db @ [log_step (pa_own E i) v (step_target v)]"
      by (rule pass_lays_out [OF less.prems False fault])
    have loop: "chain_loop (sqlite_pass V) E i db = chain_loop (sqlite_pass V) E (i + 1) db1"
      using pass others by (subst chain_loop.simps) (auto split: pass_end.splits)
    have "5 - unat (step_target v) < 5 - unat v"
      using v False by (auto simp: step_target_def sqlite_schema_version_def)
    from less.hyps [OF this db1(1,2), of "i + 1"] obtain db' where
      "chain_loop (sqlite_pass V) E (i + 1) db1 = Some (Inr (), db')" "laid_out sqlite_schema_version db'"
      "log_versions db' = log_versions db1 @ steps_left (step_target v)" by blast
    moreover have "steps_left v = (int (unat v), int (unat (step_target v))) # steps_left (step_target v)"
      using v False by (intro steps_left_step) auto
    ultimately show ?thesis using loop db1(3) by (simp add: log_versions_def log_step_def)
  qed
qed

text \<open>C19: a file of any version a build has written is brought to the current one, step by step, when nothing
  fails and its rows read: each step is logged once, a fresh file logs one step from 0, a current one none, and
  the tables are those of the current schema.\<close>

theorem every_version_moves_to_the_current_one:
  assumes "laid_out v db" and "rows_read V db" and "sqlite_open store opened = Inr ()"
    and "\<forall>i. sc_fault (cc_call (pa_own E i)) = NoFault" and "\<forall>i. pa_others E i = []"
  shows "\<exists>db'. sqlite_ensure_current V store opened E db = Some (Inr (), db') \<and> laid_out sqlite_schema_version db' \<and>
    log_versions db' = log_versions db @ steps_left v"
  using passes_lay_out [OF assms(4,5,1,2), of 0] assms(3) by (simp add: sqlite_ensure_current_def)

section \<open>The windows step 4 marks\<close>

definition mark_keys :: "mark_row list \<Rightarrow> ((string \<times> string \<times> string) \<times> timestamp_ms) set" where
  "mark_keys marks = (\<lambda>m. (mark_market m, mw_window_start_ms m)) ` set marks"

lemma replace_mark_keys: "mark_keys (fst (replace_mark market start t)) = insert (market, start) (mark_keys (fst t))"
  by (cases market; cases t) (auto simp: replace_mark_def mark_keys_def mark_market_def image_iff)

lemma replace_marks_keys:
  "mark_keys (fst (foldl (\<lambda>t start. replace_mark market start t) t starts)) =
   (\<lambda>s. (market, s)) ` set starts \<union> mark_keys (fst t)"
  by (induction starts arbitrary: t) (auto simp: replace_mark_keys)

lemma mark_markets_keys:
  assumes "mark_markets rows markets t = Inr t'"
  shows "mark_keys (fst t) \<subseteq> mark_keys (fst t') \<and>
    (\<forall>r\<in>set rows. \<forall>interval. candle_market r \<in> set markets \<longrightarrow> interval_from_str (kr_interval r) = Inr interval \<longrightarrow>
       (candle_market r, marked_start interval (tc_open_time_ms (kr_candle r))) \<in> mark_keys (fst t'))"
  using assms
proof (induction markets arbitrary: t)
  case (Cons market markets)
  then obtain interval where interval: "interval_from_str (snd (snd market)) = Inr interval"
    by (auto simp: and_then_Inr simp del: split_paired_Ex)
  let ?starts = "remdups (map (\<lambda>r. marked_start interval (tc_open_time_ms (kr_candle r)))
      (filter (\<lambda>r. candle_market r = market) rows))"
  let ?t = "foldl (\<lambda>t start. replace_mark market start t) t ?starts"
  have rest: "mark_markets rows markets ?t = Inr t'" using Cons.prems interval by simp
  have here: "mark_keys (fst ?t) = (\<lambda>s. (market, s)) ` set ?starts \<union> mark_keys (fst t)" by (rule replace_marks_keys)
  have kept: "mark_keys (fst ?t) \<subseteq> mark_keys (fst t')" using Cons.IH [OF rest] by blast
  have "(candle_market r, marked_start iv (tc_open_time_ms (kr_candle r))) \<in> mark_keys (fst t')"
    if r: "r \<in> set rows" "candle_market r = market" "interval_from_str (kr_interval r) = Inr iv" for r iv
  proof -
    have "iv = interval" using r(2,3) interval by (auto simp: candle_market_def)
    with r here kept show ?thesis by auto
  qed
  with Cons.IH [OF rest] here kept show ?case by auto
qed simp

lemma marked_start_window:
  assumes "window interval t = Some (s, e)"
  shows "marked_start interval t = (if 0 \<le> t \<or> span_ms interval dvd t then s else e)"
proof -
  let ?n = "span_ms interval"
  have pos: "?n \<noteq> 0" using span_pos [of interval] by linarith
  have s: "s = t div ?n * ?n" "e = s + ?n" using assms unfolding window_Some by blast+
  have "- (- t div ?n) = (if ?n dvd t then t div ?n else t div ?n + 1)" if "t < 0"
    using zdiv_zminus1_eq_if [OF pos, of t] by (simp add: dvd_eq_mod_eq_0)
  then show ?thesis using s by (auto simp: marked_start_def sqlite_div_def algebra_simps)
qed


section \<open>Witnesses\<close>

definition sample_pragmas :: pragmas where
  "sample_pragmas = \<lparr>pr_journal_mode = ''wal'', pr_synchronous = 2, pr_fullfsync = 1\<rparr>"

definition sample_chain_store :: sqlite_store where
  "sample_chain_store = \<lparr>sq_durability = Reported, sq_lock_wait = 0, sq_together = False\<rparr>"

definition sample_chain_call :: chain_call where
  "sample_chain_call =
     \<lparr>cc_call = \<lparr>sc_opening = Inr sample_pragmas, sc_fault = NoFault, sc_now = 1700000000000\<rparr>,
      cc_store_id = ''0123456789abcdef0123456789abcdef'', cc_created_at_ms = 1700000000000,
      cc_package_version = ''0.5.0''\<rparr>"

definition sample_passes :: "chain_call passes" where
  "sample_passes = \<lparr>pa_own = (\<lambda>_. sample_chain_call), pa_others = (\<lambda>_. [])\<rparr>"

text \<open>JSON of which only one document is used: a run's state with a numeric venue id.\<close>

definition sample_state :: "nat json" where
  "sample_state = JObject [(''position'', JObject [(''entry_order_id'', JNumber 7)])]"

definition sample_json :: "nat json_values" where
  "sample_json =
     \<lparr>jv_parse = (\<lambda>raw. if raw = ''state'' then Inr sample_state else Inl ''expected value''),
      jv_print = (\<lambda>v. Inr (if v = sample_state then ''state'' else ''rewritten'')), jv_number_text = nat_string\<rparr>"

definition sample_candle_row :: "timestamp_ms \<Rightarrow> candle_row" where
  "sample_candle_row t =
     \<lparr>kr_exchange = ''binance_spot'', kr_symbol = ''BTCUSDT'', kr_interval = ''1m'',
      kr_candle = \<lparr>tc_open_time_ms = t, tc_close_time_ms = t + 59999, tc_decimals = [''1'', ''1'', ''1'', ''1'', ''1''],
        tc_trades = None\<rparr>\<rparr>"

definition sample_v4_file :: chain_db where
  "sample_v4_file =
     \<lparr>ch_meta = Some [(''schema_version'', u32_string 4)], ch_candles = Some [sample_candle_row (- 60000)],
      ch_journal = Some (JournalV2
        [\<lparr>vr_run_id = ''run'', vr_exchange = ''binance_spot'', vr_symbol = ''BTCUSDT'', vr_interval = ''1m'',
          vr_strategy_name = ''cross'', vr_status = ''running'', vr_state_json = ''state'', vr_started_at_ms = 1,
          vr_updated_at_ms = 2, vr_stopped_at_ms = None, vr_last_error = None\<rparr>] [] 0 [] 0),
      ch_segments = Some \<lparr>sx_segments = [], sx_index = [], sx_marks = [], sx_mark_id = 0\<rparr>,
      ch_control = None, ch_log = None\<rparr>"

lemma sample_interval: "interval_from_str ''1m'' = Inr M1"
  by code_simp

lemma sample_v4_version: "chain_version sample_v4_file = Inr 4"
  by (simp add: sample_v4_file_def chain_version_def)

lemma sample_v4_laid_out: "laid_out 4 sample_v4_file"
  using sample_v4_version by (simp add: laid_out_def) (simp add: shaped_def sample_v4_file_def log_rows_def)

lemma sample_v4_rows_read: "rows_read sample_json sample_v4_file"
  using sample_interval
  by (simp add: rows_read_def sample_v4_file_def sample_candle_row_def sample_json_def is_ok_iff)

lemma sample_chain_opens: "sqlite_open sample_chain_store (Inr sample_pragmas) = Inr ()"
  by (simp add: sqlite_open_def sample_chain_store_def)


theorem every_version_moves_to_the_current_one_witness:
  "\<exists>db'. sqlite_ensure_current sample_json sample_chain_store (Inr sample_pragmas) sample_passes sample_v4_file =
      Some (Inr (), db') \<and> chain_version db' = Inr 5 \<and> log_versions db' = [(4, 5)]"
proof -
  have "steps_left 4 = [(4, 5)]" by (simp add: steps_left_def upt_conv_Cons)
  moreover have "log_versions sample_v4_file = []" by (simp add: log_versions_def log_rows_def sample_v4_file_def)
  ultimately show ?thesis
    using every_version_moves_to_the_current_one [OF sample_v4_laid_out sample_v4_rows_read sample_chain_opens, of sample_passes]
    by (auto simp: sample_passes_def sample_chain_call_def laid_out_def sqlite_schema_version_def)
qed


end
