(* ===== verification/Pg_Chain.thy ===== *)
theory Pg_Chain
  imports Schema_Chain
begin

text \<open>
  The schema chain on PostgreSQL: \<open>src/storage/postgres/migrate.rs\<close> and \<open>schema.rs\<close>. One pass is one
  transaction under an advisory lock every \<open>init\<close> takes first, so passes follow each other. The database is the
  first schema of the role's search path: the three tables the chain itself writes, and the rows of every
  other one by its name.
\<close>

section \<open>The database\<close>

record 'row pg_file =
  pf_schema :: "string option"
  pf_meta :: "(string \<times> string) list option"
  pf_log :: "migration_row list option"
  pf_control :: "control_row option option"
  pf_table :: "string \<Rightarrow> 'row list option"

definition our_tables :: "string list" where
  "our_tables =
     [''meta'', ''candles'', ''bot_runs'', ''order_events'', ''closed_trades'', ''segments'', ''segment_index'',
      ''segment_dirty'', ''store_control'', ''schema_migrations'']"

definition table_exists :: "'row pg_file \<Rightarrow> string \<Rightarrow> bool" where
  "table_exists db name =
     (if name = ''meta'' then pf_meta db \<noteq> None
      else if name = ''store_control'' then pf_control db \<noteq> None
      else if name = ''schema_migrations'' then pf_log db \<noteq> None
      else pf_table db name \<noteq> None)"

text \<open>\<open>SELECT tablename FROM pg_tables ... ORDER BY tablename\<close>.\<close>

definition ours :: "'row pg_file \<Rightarrow> string list" where
  "ours db = order_by text_less (filter (table_exists db) our_tables)"

fun join_names :: "string list \<Rightarrow> string" where
  "join_names [] = ''''"
| "join_names [s] = s"
| "join_names (s # ss) = s @ '', '' @ join_names ss"

definition pg_version :: "'row pg_file \<Rightarrow> storage_error + u32" where
  "pg_version db =
     (case pf_schema db of
        None \<Rightarrow> Inl (SeInvalidArgument ''the role's search_path names no schema that exists, so there is nowhere to create the tables'')
      | Some schema \<Rightarrow>
          (case pf_meta db of
             None \<Rightarrow>
               if ours db = [] then Inr 0
               else Inl (SeInvalidArgument (''schema '' @ schema @ '' already holds '' @ join_names (ours db) @
                 '' but records no QuantForge schema version; give QuantForge a database of its own''))
           | Some rows \<Rightarrow>
               (case map_of rows ''schema_version'' of
                  None \<Rightarrow> Inl (SeInvalidArgument (''schema '' @ schema @
                    '' has a meta table but records no QuantForge schema version; give QuantForge a database of its own''))
                | Some value \<Rightarrow>
                    ok_or (SeInvalidArgument (''the database records schema version '' @ value @ '', which is not a number''))
                      (parse_u32 value))))"

section \<open>The steps\<close>

record pg_chain_call =
  px_call :: pg_call
  px_store_id :: string
  px_created_at_ms :: timestamp_ms
  px_package_version :: string

type_synonym 'row pg_step = "pg_chain_call \<Rightarrow> 'row pg_file \<Rightarrow> tokio_error + 'row pg_file"

definition duplicate_table :: string where "duplicate_table = ''42P07''"

definition already_there :: "string \<Rightarrow> tokio_error" where
  "already_there name = ServerError duplicate_table (''relation '' @ name @ '' already exists'')"

text \<open>\<open>CREATE TABLE\<close>, which a table of that name refuses.\<close>

definition create_table :: "string \<Rightarrow> 'row pg_file \<Rightarrow> tokio_error + 'row pg_file" where
  "create_table name db =
     (if table_exists db name then Inl (already_there name)
      else if name = ''meta'' then Inr (db\<lparr>pf_meta := Some []\<rparr>)
      else if name = ''store_control'' then Inr (db\<lparr>pf_control := Some None\<rparr>)
      else if name = ''schema_migrations'' then Inr (db\<lparr>pf_log := Some []\<rparr>)
      else Inr (db\<lparr>pf_table := (pf_table db)(name := Some [])\<rparr>))"

fun create_tables :: "string list \<Rightarrow> 'row pg_file \<Rightarrow> tokio_error + 'row pg_file" where
  "create_tables [] db = Inr db"
| "create_tables (name # names) db = and_then (create_table name db) (create_tables names)"

definition create_control_row :: "'row pg_step" where
  "create_control_row c db =
     (case pf_control db of
        Some None \<Rightarrow>
          Inr (db\<lparr>pf_control := Some (Some \<lparr>co_store_id = px_store_id c, co_environment = None,
            co_activation = activation_as_str Inactive, co_activation_epoch = 0,
            co_changed_at_ms = px_created_at_ms c\<rparr>)\<rparr>)
      | Some (Some _) \<Rightarrow> Inl (ServerError unique_violation ''duplicate key value violates unique constraint'')
      | None \<Rightarrow> Inl (ServerError ''42P01'' ''relation store_control does not exist''))"

definition step_5_schema :: "'row pg_step" where
  "step_5_schema c db = and_then (create_tables our_tables db) (create_control_row c)"

definition pg_steps :: "(u32 \<times> 'row pg_step) list" where
  "pg_steps = [(5, step_5_schema)]"

definition pg_stamp :: "pg_chain_call \<Rightarrow> u32 \<Rightarrow> u32 \<Rightarrow> 'row pg_file \<Rightarrow> tokio_error + 'row pg_file" where
  "pg_stamp c from_version to db =
     (case (pf_meta db, pf_log db) of
        (Some rows, Some steps) \<Rightarrow>
          if int (unat to) \<in> set (map mg_version steps)
          then Inl (ServerError unique_violation ''duplicate key value violates unique constraint'')
          else Inr (db\<lparr>pf_meta := Some (put_meta ''schema_version'' (u32_string to) rows),
                       pf_log := Some (steps @ [\<lparr>mg_version = int (unat to), mg_from_version = int (unat from_version),
                         mg_applied_at_ms = pc_now (px_call c), mg_quantforge_version = px_package_version c\<rparr>])\<rparr>)
      | _ \<Rightarrow> Inl (ServerError ''42P01'' ''relation does not exist''))"

fun apply_pg_steps :: "(u32 \<times> 'row pg_step) list \<Rightarrow> 'row pg_step" where
  "apply_pg_steps [] c db = Inr db"
| "apply_pg_steps ((_, apply_step) # steps) c db = and_then (apply_step c db) (apply_pg_steps steps c)"

section \<open>The chain\<close>

text \<open>One pass over any chain ending at \<open>target\<close>: an error of the driver, or what the pass answers. A refusal
  drops the transaction, which rolls it back.\<close>

definition run_pass ::
  "(u32 \<times> 'row pg_step) list \<Rightarrow> u32 \<Rightarrow> pg_chain_call \<Rightarrow> 'row pg_file \<Rightarrow>
   tokio_error + ((storage_error + pass_end) \<times> 'row pg_file)"
where
  "run_pass steps target c db =
     (case pg_version db of
        Inl e \<Rightarrow> Inr (Inl e, db)
      | Inr found \<Rightarrow>
          if found = target then Inr (Inr PassCurrent, db)
          else if target < found then Inr (Inl (SeSchemaUnsupported found target), db)
          else
            (case (if found = 0 then Some (target, apply_pg_steps steps)
                   else find (\<lambda>s. fst s = found + 1) steps) of
               None \<Rightarrow> Inr (Inl (SeInvalidArgument (''no migration step leaves schema version '' @ u32_string found)), db)
             | Some (to, apply_step) \<Rightarrow>
                 and_then (apply_step c db) (\<lambda>db'.
                   if unat found < 2 ^ 31 \<and> unat to < 2 ^ 31
                   then and_then (pg_stamp c found to db') (\<lambda>db''.
                     Inr (Inr (if found = 0 then PassCreated to else PassMigrated found to), db''))
                   else Inr (Inl (SeInvalidArgument (''schema version '' @ u32_string to @
                     '' does not fit the migration log'')), db))))"

definition pg_pass ::
  "(u32 \<times> 'row pg_step) list \<Rightarrow> u32 \<Rightarrow> pg_store \<Rightarrow> pg_chain_call \<Rightarrow> ('row pg_file, storage_error, pass_end) op"
where
  "pg_pass steps target store c = io_bind (pg_write store (px_call c) (run_pass steps target c)) op_result"

definition pg_ensure_current_with ::
  "(u32 \<times> 'row pg_step) list \<Rightarrow> u32 \<Rightarrow> pg_store \<Rightarrow> pg_chain_call passes \<Rightarrow> 'row pg_file \<Rightarrow>
   ((storage_error + unit) \<times> 'row pg_file) option"
where
  "pg_ensure_current_with steps target store E db = chain_loop (pg_pass steps target store) E 0 db"

definition pg_ensure_current ::
  "pg_store \<Rightarrow> pg_chain_call passes \<Rightarrow> 'row pg_file \<Rightarrow> ((storage_error + unit) \<times> 'row pg_file) option"
where
  "pg_ensure_current = pg_ensure_current_with pg_steps sqlite_schema_version"

section \<open>A pass keeps the contract of the loop\<close>

definition pg_rows :: "'row pg_file \<Rightarrow> string \<Rightarrow> 'row list" where
  "pg_rows db name = (case pf_table db name of None \<Rightarrow> [] | Some rows \<Rightarrow> rows)"

lemma pg_rows_update [simp]:
  "pg_rows (db\<lparr>pf_control := x\<rparr>) = pg_rows db" "pg_rows (db\<lparr>pf_meta := m\<rparr>) = pg_rows db"
  "pg_rows (db\<lparr>pf_log := l\<rparr>) = pg_rows db"
  by (simp_all add: pg_rows_def fun_eq_iff)

lemma create_tables_keep: "create_tables names db = Inr db' \<Longrightarrow> pg_rows db' = pg_rows db \<and> pf_schema db' = pf_schema db"
proof (induction names arbitrary: db)
  case (Cons name names)
  then obtain db1 where "create_table name db = Inr db1" "create_tables names db1 = Inr db'" by (auto simp: and_then_Inr)
  moreover from this(1) have "pg_rows db1 = pg_rows db \<and> pf_schema db1 = pf_schema db"
    by (auto simp: create_table_def table_exists_def pg_rows_def fun_eq_iff split: if_splits option.splits)
  ultimately show ?case using Cons.IH by metis
qed simp

lemma step_5_schema_keeps: "step_5_schema c db = Inr db' \<Longrightarrow> pg_rows db' = pg_rows db \<and> pf_schema db' = pf_schema db"
proof -
  assume "step_5_schema c db = Inr db'"
  then obtain db1 where "create_tables our_tables db = Inr db1" "create_control_row c db1 = Inr db'"
    by (auto simp: step_5_schema_def and_then_Inr)
  with create_tables_keep [of our_tables db db1] show ?thesis
    by (auto simp: create_control_row_def split: option.splits)
qed

lemma pg_stamp_version:
  assumes "pg_stamp c from_version to db = Inr db'" "pf_schema db \<noteq> None"
  shows "pg_version db' = Inr to \<and> pg_rows db' = pg_rows db"
  using assms by (auto simp: pg_stamp_def pg_version_def map_of_put_meta split: option.splits if_splits)

lemma run_pass_Inr:
  fixes db :: "'row pg_file"
  assumes "run_pass pg_steps sqlite_schema_version c db = Inr (r, db')"
  obtains (stayed) "db' = db" "\<And>p. r = Inr p \<Longrightarrow> p = PassCurrent \<and> pg_version db = Inr sqlite_schema_version"
  | (moved) found to where "pg_version db = Inr found" "pg_version db' = Inr to" "found < to" "to \<le> sqlite_schema_version"
      "pg_rows db' = pg_rows db" "r = Inr (if found = 0 then PassCreated to else PassMigrated found to)"
proof (cases "pg_version db")
  case (Inl e)
  show ?thesis by (rule stayed) (use assms Inl in \<open>auto simp: run_pass_def\<close>)
next
  case found: (Inr found)
  let ?steps = "pg_steps :: (u32 \<times> 'row pg_step) list"
  let ?step = "if found = 0 then Some (sqlite_schema_version, apply_pg_steps ?steps) else find (\<lambda>s. fst s = found + 1) ?steps"
  show ?thesis
  proof (cases "found < sqlite_schema_version \<and> ?step \<noteq> None")
    case False
    show ?thesis
      by (rule stayed) (use False found assms in \<open>auto simp: run_pass_def not_less split: if_splits option.splits\<close>)
  next
    case True
    then obtain to apply_step where step: "?step = Some (to, apply_step)" by (metis not_None_eq surj_pair)
    have older: "found \<noteq> sqlite_schema_version" "\<not> sqlite_schema_version < found" using True by auto
    have rows: "pg_rows db1 = pg_rows db \<and> pf_schema db1 = pf_schema db" if "apply_step c db = Inr db1" for db1
      using step that step_5_schema_keeps [of c db db1] by (auto simp: pg_steps_def and_then_Inr split: if_splits)
    have to: "found < to" "to \<le> sqlite_schema_version"
      using step True by (auto simp: pg_steps_def sqlite_schema_version_def split: if_splits)
    have schema: "pf_schema db \<noteq> None" using found by (auto simp: pg_version_def split: option.splits)
    consider "r = Inl (SeInvalidArgument (''schema version '' @ u32_string to @ '' does not fit the migration log''))" "db' = db"
      | db1 where "apply_step c db = Inr db1" "pg_stamp c found to db1 = Inr db'"
        "r = Inr (if found = 0 then PassCreated to else PassMigrated found to)"
      using assms found older step unfolding run_pass_def by (auto simp: and_then_Inr split: if_splits)
    then show ?thesis
    proof cases
      case 1
      with stayed show ?thesis by simp
    next
      case 2
      with rows schema have "pf_schema db1 \<noteq> None" by simp
      with pg_stamp_version [OF 2(2)] rows [OF 2(1)] 2(3) found to moved show ?thesis by metis
    qed
  qed
qed

text \<open>What the bridge makes of a write: it ran or it did not, and an answer is what it answered.\<close>

lemma pg_write_ends:
  assumes "pg_write store c f db = (r, db')"
  obtains (not_run) e where "db' = db" "r = Inl e" | (run) a where "f db = Inr (a, db')" "r = Inr a \<or> (\<exists>e. r = Inl e)"
  using assms
  by (auto simp: pg_write_def pg_execute_def pg_job_def pg_answered_def pg_kept_def Let_def
      split: option.splits pool_end.splits work_end.splits sum.splits prod.splits if_splits)

lemma pg_pass_cases:
  assumes "pg_pass pg_steps sqlite_schema_version store c db = (r, db')"
  obtains (stayed) "db' = db" "\<And>p. r = Inr p \<Longrightarrow> p = PassCurrent \<and> pg_version db = Inr sqlite_schema_version"
  | (moved) found to where "pg_version db = Inr found" "pg_version db' = Inr to" "found < to" "to \<le> sqlite_schema_version"
      "pg_rows db' = pg_rows db" "\<And>p. r = Inr p \<Longrightarrow> p \<noteq> PassCurrent"
proof -
  obtain w db1 where wrote: "pg_write store (px_call c) (run_pass pg_steps sqlite_schema_version c) db = (w, db1)" by fastforce
  have r: "(r, db') = (case w of Inl e \<Rightarrow> (Inl e, db1) | Inr a \<Rightarrow> (a, db1))"
    using assms wrote by (cases w) (simp_all add: pg_pass_def io_bind_def op_result_def)
  from wrote show ?thesis
  proof (cases rule: pg_write_ends)
    case (not_run e)
    with r stayed show ?thesis by auto
  next
    case (run a)
    have same: "db' = db1" "r = a \<or> (\<exists>e. r = Inl e)" using r run(2) by (auto split: sum.splits)
    from run(1) show ?thesis
    proof (cases rule: run_pass_Inr)
      case stayed': stayed
      show ?thesis by (rule stayed) (use stayed' same in auto)
    next
      case (moved found to)
      show ?thesis by (rule that(2) [of found to]) (use moved same in \<open>auto split: if_splits\<close>)
    qed
  qed
qed

interpretation pg_chain: schema_chain "pg_pass pg_steps sqlite_schema_version store" "pg_version :: 'row pg_file \<Rightarrow> _"
  sqlite_schema_version pg_rows
proof
  fix c r and db db' :: "'row pg_file"
  assume pass: "pg_pass pg_steps sqlite_schema_version store c db = (r, db')"
  show "db' = db \<or> (\<exists>v w. pg_version db = Inr v \<and> pg_version db' = Inr w \<and> v < w \<and> w \<le> sqlite_schema_version)"
    using pass by (cases rule: pg_pass_cases) auto
  show "pg_rows db' = pg_rows db" using pass by (cases rule: pg_pass_cases) auto
next
  fix c p and db db' :: "'row pg_file"
  assume pass: "pg_pass pg_steps sqlite_schema_version store c db = (Inr p, db')" and moved: "p \<noteq> PassCurrent"
  show "\<exists>v w. pg_version db = Inr v \<and> pg_version db' = Inr w \<and> v < w \<and> w \<le> sqlite_schema_version"
    using pass moved by (cases rule: pg_pass_cases) auto
next
  fix c and db db' :: "'row pg_file"
  assume pass: "pg_pass pg_steps sqlite_schema_version store c db = (Inr PassCurrent, db')"
  show "db' = db \<and> pg_version db = Inr sqlite_schema_version"
    using pass by (cases rule: pg_pass_cases) auto
qed

section \<open>Initialising a database\<close>


section \<open>Witnesses\<close>

definition sample_pg_file :: "string pg_file" where
  "sample_pg_file =
     \<lparr>pf_schema = Some ''public'', pf_meta = None, pf_log = None, pf_control = None,
      pf_table = (\<lambda>name. if name = ''candles'' then Some [''a bar''] else None)\<rparr>"

definition sample_pg_call :: pg_chain_call where
  "sample_pg_call =
     \<lparr>px_call = \<lparr>pc_pool = PoolReady, pc_limited = True, pc_work = WorkDone, pc_run = None, pc_now = 1700000000000\<rparr>,
      px_store_id = ''0123456789abcdef0123456789abcdef'', px_created_at_ms = 1700000000000,
      px_package_version = ''0.5.0''\<rparr>"


lemma empty_databases_are_created:
  "\<exists>db'. pg_ensure_current \<lparr>pgs_bounded = False\<rparr> \<lparr>pa_own = (\<lambda>_. sample_pg_call), pa_others = (\<lambda>_. [])\<rparr>
       (sample_pg_file\<lparr>pf_table := (\<lambda>_. None)\<rparr>) = Some (Inr (), db') \<and>
     pg_version db' = Inr 5 \<and> map (\<lambda>r. (mg_from_version r, mg_version r)) (the (pf_log db')) = [(0, 5)]"
proof -
  let ?db = "sample_pg_file\<lparr>pf_table := (\<lambda>_. None)\<rparr>"
  let ?E = "\<lparr>pa_own = (\<lambda>_. sample_pg_call), pa_others = (\<lambda>_. [])\<rparr>"
  have none: "ours ?db = []" by code_simp
  obtain db1 where steps: "apply_pg_steps pg_steps sample_pg_call ?db = Inr db1" "pf_schema db1 = Some ''public''"
      "pf_meta db1 = Some []" "pf_log db1 = Some []"
    by (simp add: pg_steps_def step_5_schema_def our_tables_def create_table_def table_exists_def sample_pg_file_def
        create_control_row_def)
  let ?db2 = "db1\<lparr>pf_meta := Some (put_meta ''schema_version'' (u32_string 5) []),
      pf_log := Some [\<lparr>mg_version = 5, mg_from_version = 0, mg_applied_at_ms = 1700000000000, mg_quantforge_version = ''0.5.0''\<rparr>]\<rparr>"
  have version: "pg_version ?db = Inr 0" using none by (simp add: pg_version_def sample_pg_file_def)
  have "pg_stamp sample_pg_call 0 5 db1 = Inr ?db2" using steps by (simp add: pg_stamp_def sample_pg_call_def)
  then have "run_pass pg_steps 5 sample_pg_call ?db = Inr (Inr (PassCreated 5), ?db2)"
    using steps version by (simp add: run_pass_def)
  then have first: "pg_pass pg_steps 5 \<lparr>pgs_bounded = False\<rparr> sample_pg_call ?db = (Inr (PassCreated 5), ?db2)"
    by (simp add: pg_pass_def pg_write_def pg_execute_def pg_job_def sample_pg_call_def io_bind_def op_result_def)
  have version2: "pg_version ?db2 = Inr 5" using steps by (simp add: pg_version_def map_of_put_meta)
  then have "run_pass pg_steps 5 sample_pg_call ?db2 = Inr (Inr PassCurrent, ?db2)" by (simp add: run_pass_def)
  then have again: "pg_pass pg_steps 5 \<lparr>pgs_bounded = False\<rparr> sample_pg_call ?db2 = (Inr PassCurrent, ?db2)"
    by (simp add: pg_pass_def pg_write_def pg_execute_def pg_job_def sample_pg_call_def io_bind_def op_result_def)
  have "chain_loop (pg_pass pg_steps 5 \<lparr>pgs_bounded = False\<rparr>) ?E 1 ?db2 = Some (Inr (), ?db2)"
    using again by (subst chain_loop.simps) (simp add: run_others_def)
  then have "chain_loop (pg_pass pg_steps 5 \<lparr>pgs_bounded = False\<rparr>) ?E 0 ?db = Some (Inr (), ?db2)"
    using first by (subst chain_loop.simps) (simp add: run_others_def)
  then show ?thesis
    using version2 by (simp add: pg_ensure_current_def pg_ensure_current_with_def sqlite_schema_version_def)
qed

end
