(* ===== verification/Store_Factory.thy ===== *)
theory Store_Factory
  imports Store_Settings Pg_Chain
begin

text \<open>
  \<open>StoreFactory\<close> (\<open>src/storage/factory.rs\<close>): opening the store the settings describe through the provider
  registered for its backend, and the two built-in providers, which bring the schema up to date
  (\<open>Schema_Chain\<close>, \<open>Pg_Chain\<close>) before they hand the store over.

  The world is the files by their path, the databases by the text that names them and the directories made so
  far (not those a failed creation leaves). What else happens while a store is opened is a \<open>store_env\<close>.
\<close>

section \<open>The world a store is opened in\<close>

record 'row store_world =
  sw_files :: "string \<Rightarrow> chain_db"
  sw_databases :: "string \<Rightarrow> 'row pg_file"
  sw_directories :: "string list"

record 'n store_env =
  se_create_dir_all :: "string \<Rightarrow> string + unit"
  se_json :: "'n json_values"
  se_opening :: "rusqlite_error + pragmas"
  se_passes :: "chain_call passes"
  se_connect :: "postgres_settings \<Rightarrow> storage_error + unit"
  se_pg_passes :: "pg_chain_call passes"

type_synonym 'row store_provider =
  "storage_settings \<Rightarrow> 'row store_world \<Rightarrow> ((storage_error + any_store) \<times> 'row store_world) option"

text \<open>\<open>Path::parent\<close>: the path without its last component. A path is trimmed from its end, so it is read
  backwards.\<close>

fun trim_back :: "string \<Rightarrow> string" where
  "trim_back (c # back) =
     (if c = CHR ''/'' \<and> back \<noteq> [] then trim_back back
      else if c = CHR ''.'' \<and> back \<noteq> [] \<and> hd back = CHR ''/'' then trim_back back
      else c # back)"
| "trim_back [] = []"

definition path_parent :: "string \<Rightarrow> string option" where
  "path_parent path =
     (let back = trim_back (rev path) in
      if back = [] \<or> back = ''/'' then None
      else Some (rev (trim_back (dropWhile (\<lambda>c. c \<noteq> CHR ''/'') back))))"

section \<open>The providers\<close>

definition wrong_settings :: "string \<Rightarrow> storage_settings \<Rightarrow> storage_error" where
  "wrong_settings provider settings =
     SeInvalidArgument (''the '' @ provider @ '' provider was handed '' @
       storage_backend_as_str (settings_backend settings) @ '' settings'')"

definition open_sqlite :: "'n store_env \<Rightarrow> 'row store_provider" where
  "open_sqlite env settings w =
     (case settings of
        SettingsPostgres _ \<Rightarrow> Some (Inl (wrong_settings ''sqlite'' settings), w)
      | SettingsSqlite sqlite \<Rightarrow>
          (case (case path_parent (ss_path sqlite) of
                   None \<Rightarrow> (Inr (), w)
                 | Some parent \<Rightarrow>
                     (case se_create_dir_all env parent of
                        Inl e \<Rightarrow> (Inl (SeOther (''failed to create parent directory '' @ parent @ '': '' @ e)), w)
                      | Inr _ \<Rightarrow> (Inr (), w\<lparr>sw_directories := sw_directories w @ [parent]\<rparr>))) of
             (Inl e, w) \<Rightarrow> Some (Inl e, w)
           | (Inr _, w) \<Rightarrow>
               let store = sqlite_with_limits (ss_limits sqlite) in
               (case sqlite_ensure_current (se_json env) store (se_opening env) (se_passes env) (sw_files w (ss_path sqlite)) of
                  None \<Rightarrow> None
                | Some (r, file) \<Rightarrow>
                    Some (and_then r (\<lambda>_. Inr (AnySqlite store)), w\<lparr>sw_files := (sw_files w)(ss_path sqlite := file)\<rparr>))))"

definition open_postgres :: "'n store_env \<Rightarrow> 'row store_provider" where
  "open_postgres env settings w =
     (case settings of
        SettingsSqlite _ \<Rightarrow> Some (Inl (wrong_settings ''postgres'' settings), w)
      | SettingsPostgres postgres \<Rightarrow>
          (case se_connect env postgres of
             Inl e \<Rightarrow> Some (Inl e, w)
           | Inr _ \<Rightarrow>
               let store = \<lparr>pgs_bounded = False\<rparr>; name = connection_text (ps_connection postgres) in
               (case pg_ensure_current store (se_pg_passes env) (sw_databases w name) of
                  None \<Rightarrow> None
                | Some (r, database) \<Rightarrow>
                    Some (and_then r (\<lambda>_. Inr (AnyPostgres store)), w\<lparr>sw_databases := (sw_databases w)(name := database)\<rparr>))))"

section \<open>The factory\<close>

type_synonym 'row store_factory = "(storage_backend \<times> 'row store_provider) list"

definition empty_factory :: "'row store_factory" where
  "empty_factory = []"

definition register_provider :: "storage_backend \<Rightarrow> 'row store_provider \<Rightarrow> 'row store_factory \<Rightarrow> 'row store_factory" where
  "register_provider backend provider factory =
     filter (\<lambda>(registered, _). registered \<noteq> backend) factory @ [(backend, provider)]"

definition registered_backends :: "'row store_factory \<Rightarrow> storage_backend list" where
  "registered_backends factory = map fst factory"

definition builtin_factory :: "'n store_env \<Rightarrow> bool \<Rightarrow> 'row store_factory" where
  "builtin_factory env feature =
     (let factory = register_provider BackendSqlite (open_sqlite env) empty_factory in
      if feature then register_provider BackendPostgres (open_postgres env) factory else factory)"

datatype store_open_error = OpenConfig storage_config_error | OpenStorage storage_error

definition factory_open ::
  "'row store_factory \<Rightarrow> storage_settings \<Rightarrow> 'row store_world \<Rightarrow> ((store_open_error + any_store) \<times> 'row store_world) option"
where
  "factory_open factory settings w =
     (let backend = settings_backend settings in
      case find (\<lambda>(registered, _). registered = backend) factory of
        None \<Rightarrow> Some (Inl (OpenConfig (NoAdapter backend)), w)
      | Some (_, provider) \<Rightarrow> map_option (\<lambda>(r, w'). (map_err OpenStorage r, w')) (provider settings w))"

section \<open>What a provider owes the factory\<close>

text \<open>A provider opens only settings of its backend, answers, and leaves the other backend's stores alone.\<close>

definition other_stores :: "storage_backend \<Rightarrow> 'row store_world \<Rightarrow> (string \<Rightarrow> chain_db) option \<times> (string \<Rightarrow> 'row pg_file) option" where
  "other_stores backend w =
     (case backend of BackendSqlite \<Rightarrow> (None, Some (sw_databases w)) | BackendPostgres \<Rightarrow> (Some (sw_files w), None))"

locale store_provider_contract =
  fixes backend :: storage_backend and provider :: "'row store_provider"
  assumes answers: "\<exists>r w'. provider settings w = Some (r, w')"
    and own_settings: "provider settings w = Some (Inr store, w') \<Longrightarrow> settings_backend settings = backend"
    and own_stores: "provider settings w = Some (r, w') \<Longrightarrow> other_stores backend w' = other_stores backend w"
begin

lemma opens_through_it:
  assumes "find (\<lambda>(registered, _). registered = settings_backend settings) factory = Some (settings_backend settings, provider)"
  shows "\<exists>r w'. factory_open factory settings w = Some (map_err OpenStorage r, w') \<and> provider settings w = Some (r, w') \<and>
    other_stores backend w' = other_stores backend w"
  using answers [of settings w] own_stores [of settings w] assms by (auto simp: factory_open_def)

end

lemma sqlite_ensure_answers:
  obtains r db' where "sqlite_ensure_current V store opened E db = Some (r, db')" "chain_rows db' = chain_rows db"
    "r = Inr () \<longrightarrow> chain_version db' = Inr sqlite_schema_version"
proof (cases "sqlite_open store opened")
  case (Inl e)
  with that show ?thesis by (auto simp: sqlite_ensure_current_def)
next
  case (Inr u)
  with that sqlite_chain.loop_returns [of V E 0 db] show ?thesis by (auto simp: sqlite_ensure_current_def)
qed

lemma pg_ensure_answers:
  obtains r db' where "pg_ensure_current store E db = Some (r, db')" "pg_rows db' = pg_rows db"
    "r = Inr () \<longrightarrow> pg_version db' = Inr sqlite_schema_version"
  using that pg_chain.loop_returns [of store E 0 db] by (auto simp: pg_ensure_current_def pg_ensure_current_with_def)

text \<open>What the built-in providers do to their own store.\<close>

lemma open_sqlite_ends:
  obtains r w' where "open_sqlite env (SettingsSqlite q) w = Some (r, w')"
    "sw_databases w' = sw_databases w" "\<forall>path. path \<noteq> ss_path q \<longrightarrow> sw_files w' path = sw_files w path"
    "chain_rows (sw_files w' (ss_path q)) = chain_rows (sw_files w (ss_path q))"
    "\<forall>store. r = Inr store \<longrightarrow> store = AnySqlite (sqlite_with_limits (ss_limits q)) \<and>
       chain_version (sw_files w' (ss_path q)) = Inr sqlite_schema_version"
proof -
  define made where "made = (case path_parent (ss_path q) of
                   None \<Rightarrow> (Inr (), w)
                 | Some parent \<Rightarrow>
                     (case se_create_dir_all env parent of
                        Inl e \<Rightarrow> (Inl (SeOther (''failed to create parent directory '' @ parent @ '': '' @ e)), w)
                      | Inr _ \<Rightarrow> (Inr (), w\<lparr>sw_directories := sw_directories w @ [parent]\<rparr>)))"
  obtain m w1 where m: "made = (m, w1)" by fastforce
  then have same: "sw_files w1 = sw_files w" "sw_databases w1 = sw_databases w"
    by (auto simp: made_def split: option.splits sum.splits)
  obtain r db where run: "sqlite_ensure_current (se_json env) (sqlite_with_limits (ss_limits q)) (se_opening env) (se_passes env)
      (sw_files w (ss_path q)) = Some (r, db)" "chain_rows db = chain_rows (sw_files w (ss_path q))"
      "r = Inr () \<longrightarrow> chain_version db = Inr sqlite_schema_version"
    by (rule sqlite_ensure_answers)
  have opened: "open_sqlite env (SettingsSqlite q) w = (case m of Inl e \<Rightarrow> Some (Inl e, w1)
      | Inr _ \<Rightarrow> Some (and_then r (\<lambda>_. Inr (AnySqlite (sqlite_with_limits (ss_limits q)))),
          w1\<lparr>sw_files := (sw_files w1)(ss_path q := db)\<rparr>))"
    using m run(1) same by (simp add: open_sqlite_def made_def [symmetric] Let_def split: sum.splits)
  show ?thesis
  proof (cases m)
    case (Inl e)
    with opened that same show ?thesis by auto
  next
    case (Inr u)
    show ?thesis
      by (rule that [of "and_then r (\<lambda>_. Inr (AnySqlite (sqlite_with_limits (ss_limits q))))" "w1\<lparr>sw_files := (sw_files w1)(ss_path q := db)\<rparr>"])
        (use opened Inr run same in \<open>auto simp: and_then_Inr\<close>)
  qed
qed

lemma open_postgres_ends:
  obtains r w' where "open_postgres env (SettingsPostgres p) w = Some (r, w')" "sw_files w' = sw_files w"
    "\<forall>name. pg_rows (sw_databases w' name) = pg_rows (sw_databases w name)"
    "\<forall>store. r = Inr store \<longrightarrow> (\<exists>s. store = AnyPostgres s) \<and>
       pg_version (sw_databases w' (connection_text (ps_connection p))) = Inr sqlite_schema_version"
proof (cases "se_connect env p")
  case (Inl e)
  with that show ?thesis by (auto simp: open_postgres_def)
next
  case (Inr u)
  let ?name = "connection_text (ps_connection p)"
  obtain r db where run: "pg_ensure_current \<lparr>pgs_bounded = False\<rparr> (se_pg_passes env) (sw_databases w ?name) = Some (r, db)"
    "pg_rows db = pg_rows (sw_databases w ?name)" "r = Inr () \<longrightarrow> pg_version db = Inr sqlite_schema_version"
    by (rule pg_ensure_answers)
  have "open_postgres env (SettingsPostgres p) w =
      Some (and_then r (\<lambda>_. Inr (AnyPostgres \<lparr>pgs_bounded = False\<rparr>)), w\<lparr>sw_databases := (sw_databases w)(?name := db)\<rparr>)"
    using Inr run(1) by (simp add: open_postgres_def Let_def)
  then show ?thesis by (rule that) (use run in \<open>auto simp: and_then_Inr\<close>)
qed

interpretation sqlite_provider: store_provider_contract BackendSqlite "open_sqlite env"
proof
  fix settings and w :: "'b store_world"
  show "\<exists>r w'. open_sqlite env settings w = Some (r, w')"
  proof (cases settings)
    case (SettingsSqlite q)
    then show ?thesis using open_sqlite_ends [of env q w] by metis
  qed (simp add: open_sqlite_def)
next
  fix settings store and w w' :: "'b store_world"
  show "open_sqlite env settings w = Some (Inr store, w') \<Longrightarrow> settings_backend settings = BackendSqlite"
    by (cases settings) (auto simp: open_sqlite_def)
next
  fix settings r and w w' :: "'b store_world"
  assume opened: "open_sqlite env settings w = Some (r, w')"
  show "other_stores BackendSqlite w' = other_stores BackendSqlite w"
  proof (cases settings)
    case (SettingsSqlite q)
    obtain r1 w1 where "open_sqlite env (SettingsSqlite q) w = Some (r1, w1)" "sw_databases w1 = sw_databases w"
      by (rule open_sqlite_ends)
    with opened SettingsSqlite show ?thesis by (simp add: other_stores_def)
  next
    case (SettingsPostgres p)
    with opened show ?thesis by (auto simp: open_sqlite_def)
  qed
qed

interpretation postgres_provider: store_provider_contract BackendPostgres "open_postgres env"
proof
  fix settings and w :: "'b store_world"
  show "\<exists>r w'. open_postgres env settings w = Some (r, w')"
  proof (cases settings)
    case (SettingsPostgres p)
    then show ?thesis using open_postgres_ends [of env p w] by metis
  qed (simp add: open_postgres_def)
next
  fix settings store and w w' :: "'b store_world"
  show "open_postgres env settings w = Some (Inr store, w') \<Longrightarrow> settings_backend settings = BackendPostgres"
    by (cases settings) (auto simp: open_postgres_def)
next
  fix settings r and w w' :: "'b store_world"
  assume opened: "open_postgres env settings w = Some (r, w')"
  show "other_stores BackendPostgres w' = other_stores BackendPostgres w"
  proof (cases settings)
    case (SettingsPostgres p)
    obtain r1 w1 where "open_postgres env (SettingsPostgres p) w = Some (r1, w1)" "sw_files w1 = sw_files w"
      by (rule open_postgres_ends)
    with opened SettingsPostgres show ?thesis by (simp add: other_stores_def)
  next
    case (SettingsSqlite q)
    with opened show ?thesis by (auto simp: open_postgres_def)
  qed
qed

section \<open>Opening a store\<close>

lemma register_replaces:
  "find (\<lambda>(registered, _). registered = b) (register_provider backend provider factory) =
     (if b = backend then Some (backend, provider) else find (\<lambda>(registered, _). registered = b) factory)"
proof -
  have missing: "find (\<lambda>(registered, _). registered = backend) (filter (\<lambda>(registered, _). registered \<noteq> backend) factory) = None"
    by (auto simp: find_None_iff)
  have appended: "find P (xs @ ys) = (case find P xs of None \<Rightarrow> find P ys | Some x \<Rightarrow> Some x)" for P and xs ys :: "'a store_factory"
    by (induction xs) auto
  have kept: "find (\<lambda>(registered, _). registered = b) (filter (\<lambda>(registered, _). registered \<noteq> backend) factory) =
      find (\<lambda>(registered, _). registered = b) factory" if "b \<noteq> backend"
    using that by (induction factory) auto
  show ?thesis using missing kept by (auto simp: register_provider_def appended split: option.splits)
qed

lemma builtin_providers:
  "find (\<lambda>(registered, _). registered = BackendSqlite) (builtin_factory env feature) = Some (BackendSqlite, open_sqlite env)"
  "find (\<lambda>(registered, _). registered = BackendPostgres) (builtin_factory env feature) =
     (if feature then Some (BackendPostgres, open_postgres env) else None)"
  by (simp_all add: builtin_factory_def register_replaces empty_factory_def Let_def)


section \<open>Witness\<close>

definition sample_store_env :: "nat store_env" where
  "sample_store_env =
     \<lparr>se_create_dir_all = (\<lambda>_. Inr ()), se_json = sample_json, se_opening = Inr sample_pragmas,
      se_passes = sample_passes, se_connect = (\<lambda>_. Inr ()),
      se_pg_passes = \<lparr>pa_own = (\<lambda>_. sample_pg_call), pa_others = (\<lambda>_. [])\<rparr>\<rparr>"

definition sample_store_world :: "string store_world" where
  "sample_store_world =
     \<lparr>sw_files = (\<lambda>path. if path = ''data/market.sqlite'' then sample_v4_file else fresh_file),
      sw_databases = (\<lambda>_. sample_pg_file), sw_directories = []\<rparr>"


end
