(* ===== verification/Lock_Wait.thy ===== *)
theory Lock_Wait
  imports Sql_Call
begin

text \<open>
  How a SQLite connection waits for another writer's lock: \<open>src/storage/sqlite/wait.rs\<close>. A thread keeps the
  limit of its waits, whether they share it, and when it started to run; SQLite asks after each failed try of a
  statement, counted from 0, whether to try again. The clock and the sleep are those of \<open>Storage\<close>.
\<close>

definition longest_try_pause :: duration where "longest_try_pause = 10 * 1000000"

record wait_cells =
  wc_limit :: duration
  wc_together :: bool
  wc_since :: duration

definition start_waits :: "'w retry_ports \<Rightarrow> duration \<Rightarrow> bool \<Rightarrow> 'w \<Rightarrow> wait_cells \<times> 'w" where
  "start_waits R limit together w =
     (case rp_now R w of (now, w') \<Rightarrow> (\<lparr>wc_limit = limit, wc_together = together, wc_since = now\<rparr>, w'))"

text \<open>Opening a connection sets the thread's limit running.\<close>

definition wait_at_most :: "'w retry_ports \<Rightarrow> sqlite_store \<Rightarrow> 'w \<Rightarrow> wait_cells \<times> 'w" where
  "wait_at_most R store w = start_waits R (sq_lock_wait store) (sq_together store) w"

definition wait_left :: "'w retry_ports \<Rightarrow> wait_cells \<Rightarrow> 'w \<Rightarrow> duration \<times> 'w" where
  "wait_left R cells w = (case rp_now R w of (now, w') \<Rightarrow> (wc_limit cells - (now - wc_since cells), w'))"

definition try_again :: "'w retry_ports \<Rightarrow> nat \<Rightarrow> wait_cells \<times> 'w \<Rightarrow> bool \<times> (wait_cells \<times> 'w)" where
  "try_again R tries s =
     (case s of (cells, w) \<Rightarrow>
      case (if tries = 0 \<and> \<not> wc_together cells
            then (case rp_now R w of (now, w') \<Rightarrow> (cells\<lparr>wc_since := now\<rparr>, w')) else (cells, w)) of (cells, w) \<Rightarrow>
      let pause = min ((tries + 1) * 1000000) longest_try_pause in
      case wait_left R cells w of (left, w) \<Rightarrow>
        if left \<le> pause then (False, (cells, w))
        else (case wait_left R cells (rp_sleep R pause w) of (left, w) \<Rightarrow> (left \<noteq> 0, (cells, w))))"

text \<open>A statement that stays locked: \<open>n\<close> more tries, as long as each is answered with another.\<close>

fun lock_tries :: "'w retry_ports \<Rightarrow> nat \<Rightarrow> nat \<Rightarrow> wait_cells \<times> 'w \<Rightarrow> bool \<times> (wait_cells \<times> 'w)" where
  "lock_tries R tries 0 s = (True, s)"
| "lock_tries R tries (Suc n) s =
     (case try_again R tries s of
        (True, s') \<Rightarrow> lock_tries R (tries + 1) n s'
      | (False, s') \<Rightarrow> (False, s'))"

text \<open>Time as the clock reads it does not run backwards, and a sleep takes at least as long as asked.\<close>

definition wait_clock :: "('w \<Rightarrow> duration) \<Rightarrow> 'w retry_ports \<Rightarrow> bool" where
  "wait_clock time R \<longleftrightarrow>
     (\<forall>w. fst (rp_now R w) = time w \<and> time w \<le> time (snd (rp_now R w))) \<and>
     (\<forall>pause w. time w + pause \<le> time (rp_sleep R pause w))"

lemma try_again_True:
  assumes "wait_clock time R" and "try_again R tries (cells, w) = (True, (cells', w'))"
    and "wc_since cells \<le> time w" and "0 < tries \<or> wc_together cells \<longrightarrow> wc_since cells + m \<le> time w"
    and "tries = 0 \<and> \<not> wc_together cells \<longrightarrow> m = 0"
  shows "cells' = (if tries = 0 \<and> \<not> wc_together cells then cells\<lparr>wc_since := time w\<rparr> else cells) \<and>
    wc_since cells' + m + 1000000 \<le> time w' \<and> m + 1000000 < wc_limit cells"
proof -
  define cells1 where "cells1 = (if tries = 0 \<and> \<not> wc_together cells then cells\<lparr>wc_since := time w\<rparr> else cells)"
  define w1 where "w1 = (if tries = 0 \<and> \<not> wc_together cells then snd (rp_now R w) else w)"
  define pause where "pause = min ((tries + 1) * 1000000) longest_try_pause"
  define w2 where "w2 = rp_sleep R pause (snd (rp_now R w1))"
  have clock: "fst (rp_now R v) = time v" "time v \<le> time (snd (rp_now R v))" "time v + p \<le> time (rp_sleep R p v)" for v p
    using assms(1) by (auto simp: wait_clock_def)
  have now: "rp_now R v = (time v, snd (rp_now R v))" for v using clock(1) [of v] by (metis prod.collapse)
  have "1000000 \<le> pause" by (simp add: pause_def longest_try_pause_def)
  have start: "(if tries = 0 \<and> \<not> wc_together cells
      then (case rp_now R w of (now, w') \<Rightarrow> (cells\<lparr>wc_since := now\<rparr>, w')) else (cells, w)) = (cells1, w1)"
    by (subst now) (simp add: cells1_def w1_def)
  have "try_again R tries (cells, w) =
     (if wc_limit cells1 - (time w1 - wc_since cells1) \<le> pause then (False, (cells1, snd (rp_now R w1)))
      else (wc_limit cells1 - (time w2 - wc_since cells1) \<noteq> 0, (cells1, snd (rp_now R w2))))"
    unfolding try_again_def prod.case start pause_def [symmetric] Let_def wait_left_def w2_def
    by (subst (1 2) now) (simp add: not_le)
  with assms(2) have ends: "cells' = cells1" "w' = snd (rp_now R w2)" "wc_limit cells1 - (time w2 - wc_since cells1) \<noteq> 0"
    by (auto split: if_splits)
  have since: "wc_since cells1 + m \<le> time w1"
    using assms(3-5) clock(2) [of w] by (auto simp: cells1_def w1_def)
  have "time w1 + pause \<le> time w2" using clock(2) [of w1] clock(3) [of "snd (rp_now R w1)" pause] by (simp add: w2_def)
  with since \<open>1000000 \<le> pause\<close> ends clock(2) [of w2] show ?thesis
    by (auto simp: cells1_def [symmetric]) (auto simp: cells1_def split: if_splits)
qed

lemma lock_tries_True:
  assumes clock: "wait_clock time R"
  shows "lock_tries R tries n (cells, w) = (True, (cells', w')) \<Longrightarrow> 0 < tries \<Longrightarrow>
    wc_since cells + m \<le> time w \<Longrightarrow>
    cells' = cells \<and> wc_since cells + m + n * 1000000 \<le> time w' \<and> (0 < n \<longrightarrow> m + n * 1000000 < wc_limit cells)"
proof (induction n arbitrary: tries w m)
  case (Suc n)
  then obtain cells1 w1 where first: "try_again R tries (cells, w) = (True, (cells1, w1))"
    and rest: "lock_tries R (tries + 1) n (cells1, w1) = (True, (cells', w'))"
    by (auto split: prod.splits bool.splits)
  have one: "cells1 = cells" "wc_since cells + (m + 1000000) \<le> time w1" "m + 1000000 < wc_limit cells"
    using try_again_True [OF clock first, of m] Suc.prems(2,3) by auto
  with Suc.IH [of "tries + 1" w1 "m + 1000000"] rest show ?case by (cases n) auto
qed simp


section \<open>Witness\<close>

text \<open>A clock that is the world itself, and a sleep that takes as long as asked.\<close>

definition sample_wait_clock :: "nat retry_ports" where
  "sample_wait_clock = \<lparr>rp_now = (\<lambda>w. (w, w)), rp_last_instant = 0, rp_sleep = (\<lambda>pause w. w + pause)\<rparr>"

definition sample_cells :: wait_cells where
  "sample_cells = \<lparr>wc_limit = 5000000, wc_together = True, wc_since = 0\<rparr>"


end
