(* ===== verification/Pg_Candles.thy ===== *)
theory Pg_Candles
  imports Run_Journal Segment_Store
begin

text \<open>
  A market's candles on PostgreSQL: \<open>src/storage/postgres/candles.rs\<close>. A batch is one statement over arrays, which
  refuses a key twice, so \<open>pg_batch\<close> keeps the last candle of each open time; then one statement that marks the
  windows that changed. Both statements are functions on the tables \<open>Segment_Store\<close> has, which are SQLite's; a
  trade count is kept as the bits of a \<open>u64\<close>, which the signed column and the casts leave as they are.

  The section on SQLite's answers shows that the batch leaves what SQLite's row by row upsert would leave.
\<close>

section \<open>A batch\<close>

record columns =
  co_close_time_ms :: timestamp_ms
  co_open :: string
  co_high :: string
  co_low :: string
  co_close :: string
  co_volume :: string
  co_trades :: "u64 option"

definition columns_of :: "'d decimal_ops \<Rightarrow> 'd candle \<Rightarrow> columns" where
  "columns_of D c =
     \<lparr>co_close_time_ms = cd_close_time_ms c, co_open = dec_to_string D (cd_open c), co_high = dec_to_string D (cd_high c),
      co_low = dec_to_string D (cd_low c), co_close = dec_to_string D (cd_close c),
      co_volume = dec_to_string D (cd_volume c), co_trades = cd_trades c\<rparr>"

record pg_batch =
  pb_open_time_ms :: "timestamp_ms list"
  pb_window_start_ms :: "timestamp_ms list"
  pb_close_time_ms :: "timestamp_ms list"
  pb_open :: "string list"
  pb_high :: "string list"
  pb_low :: "string list"
  pb_close :: "string list"
  pb_volume :: "string list"
  pb_trades :: "u64 option list"
  pb_forced :: "timestamp_ms list"

text \<open>The \<open>BTreeMap\<close> from open times is a list of its entries in order, the \<open>BTreeSet\<close> of windows a sorted list.\<close>

type_synonym batch_row = "timestamp_ms \<times> timestamp_ms \<times> columns"

fun batch_rows ::
  "'d decimal_ops \<Rightarrow> interval \<Rightarrow> 'd candle list \<Rightarrow> batch_row list \<Rightarrow> timestamp_ms list \<Rightarrow>
   storage_error + (batch_row list \<times> timestamp_ms list)"
where
  "batch_rows D iv [] rows forced = Inr (rows, forced)"
| "batch_rows D iv (c # cs) rows forced =
     and_then (window_start iv (cd_open_time_ms c)) (\<lambda>w.
       let cols = columns_of D c
       in batch_rows D iv cs (put_row fst (cd_open_time_ms c, w, cols) rows)
            (case find_row fst (cd_open_time_ms c) rows of
               Some (_, _, earlier) \<Rightarrow> if earlier \<noteq> cols then put_row (\<lambda>s. s) w forced else forced
             | None \<Rightarrow> forced))"

definition push_row :: "batch_row \<Rightarrow> pg_batch \<Rightarrow> pg_batch" where
  "push_row row b =
     (case row of (t, w, cols) \<Rightarrow>
        \<lparr>pb_open_time_ms = pb_open_time_ms b @ [t], pb_window_start_ms = pb_window_start_ms b @ [w],
         pb_close_time_ms = pb_close_time_ms b @ [co_close_time_ms cols], pb_open = pb_open b @ [co_open cols],
         pb_high = pb_high b @ [co_high cols], pb_low = pb_low b @ [co_low cols], pb_close = pb_close b @ [co_close cols],
         pb_volume = pb_volume b @ [co_volume cols], pb_trades = pb_trades b @ [co_trades cols],
         pb_forced = pb_forced b\<rparr>)"

definition empty_batch :: "timestamp_ms list \<Rightarrow> pg_batch" where
  "empty_batch forced =
     \<lparr>pb_open_time_ms = [], pb_window_start_ms = [], pb_close_time_ms = [], pb_open = [], pb_high = [], pb_low = [],
      pb_close = [], pb_volume = [], pb_trades = [], pb_forced = forced\<rparr>"

definition batch_of :: "'d decimal_ops \<Rightarrow> market_id \<Rightarrow> 'd candle list \<Rightarrow> storage_error + pg_batch" where
  "batch_of D market candles =
     and_then (batch_rows D (mk_interval market) candles [] []) (\<lambda>(rows, forced).
       Inr (fold push_row rows (empty_batch forced)))"

text \<open>The search halves the range \<open>lo ..< hi\<close>.\<close>

function binary_search :: "int list \<Rightarrow> int \<Rightarrow> nat \<Rightarrow> nat \<Rightarrow> nat option" where
  "binary_search ts t lo hi =
     (if hi \<le> lo then None
      else let mid = lo + (hi - lo) div 2
           in if ts ! mid = t then Some mid
              else if ts ! mid < t then binary_search ts t (mid + 1) hi
              else binary_search ts t lo mid)"
  by auto
termination by (relation "measure (\<lambda>(ts, t, lo, hi). hi - lo)") auto

declare binary_search.simps [simp del]

definition window_of :: "pg_batch \<Rightarrow> timestamp_ms \<Rightarrow> timestamp_ms option" where
  "window_of b t =
     map_option (\<lambda>i. pb_window_start_ms b ! i) (binary_search (pb_open_time_ms b) t 0 (length (pb_open_time_ms b)))"

section \<open>The statements\<close>

text \<open>\<open>unnest\<close> of arrays side by side: a shorter one is padded with \<open>NULL\<close>, which every column but the trade
  count refuses.\<close>

definition not_null_violation :: string where "not_null_violation = ''23502''"
definition cardinality_violation :: string where "cardinality_violation = ''21000''"

definition unnest :: "pg_batch \<Rightarrow> tokio_error + text_candle list" where
  "unnest b =
     (let n = length (pb_open_time_ms b)
      in if length (pb_close_time_ms b) = n \<and> length (pb_open b) = n \<and> length (pb_high b) = n \<and> length (pb_low b) = n \<and>
            length (pb_close b) = n \<and> length (pb_volume b) = n \<and> length (pb_trades b) \<le> n
         then Inr (map (\<lambda>i. \<lparr>tc_open_time_ms = pb_open_time_ms b ! i, tc_close_time_ms = pb_close_time_ms b ! i,
                tc_decimals = [pb_open b ! i, pb_high b ! i, pb_low b ! i, pb_close b ! i, pb_volume b ! i],
                tc_trades = (if i < length (pb_trades b) then pb_trades b ! i else None)\<rparr>) [0..<n])
         else Inl (ServerError not_null_violation ''null value violates not-null constraint''))"

text \<open>\<open>UPSERT\<close>: a row is inserted, or updated where a column is distinct, and its open time returned; a row the
  statement has written already is refused.\<close>

fun insert_rows ::
  "text_candle list \<Rightarrow> text_candle list \<Rightarrow> timestamp_ms list \<Rightarrow> tokio_error + (text_candle list \<times> timestamp_ms list)"
where
  "insert_rows [] rows returned = Inr (rows, returned)"
| "insert_rows (c # new) rows returned =
     (if tc_open_time_ms c \<in> set returned
      then Inl (ServerError cardinality_violation ''ON CONFLICT DO UPDATE command cannot affect row a second time'')
      else if find_row tc_open_time_ms (tc_open_time_ms c) rows = Some c then insert_rows new rows returned
      else insert_rows new (put_row tc_open_time_ms c rows) (returned @ [tc_open_time_ms c]))"

text \<open>The windows to mark: the forced ones and those of the rows written. A row the batch does not hold ends the
  work, and the transaction rolls back.\<close>

fun windows_to_mark :: "pg_batch \<Rightarrow> timestamp_ms list \<Rightarrow> timestamp_ms list \<Rightarrow> timestamp_ms + timestamp_ms list" where
  "windows_to_mark b [] windows = Inr windows"
| "windows_to_mark b (t # ts) windows =
     (case window_of b t of
        Some w \<Rightarrow> windows_to_mark b ts (put_row (\<lambda>s. s) w windows)
      | None \<Rightarrow> Inl t)"

text \<open>\<open>MARK\<close>: the row proposed takes an id of the sequence, and where a mark is there already \<open>SET id = DEFAULT\<close>
  takes one more.\<close>

fun mark_rows :: "timestamp_ms list \<Rightarrow> dirty_row list \<Rightarrow> int \<Rightarrow> dirty_row list \<times> int" where
  "mark_rows [] dirty next_id = (dirty, next_id)"
| "mark_rows (s # ss) dirty next_id =
     (let revision = (if find_row dw_window_start_ms s dirty = None then next_id else next_id + 1)
      in mark_rows ss (put_row dw_window_start_ms \<lparr>dw_id = revision, dw_window_start_ms = s\<rparr> dirty) (revision + 1))"

definition upsert_statements ::
  "market_id \<Rightarrow> pg_batch \<Rightarrow> segment_db \<Rightarrow> tokio_error + ((timestamp_ms + unit) \<times> segment_db)"
where
  "upsert_statements market b db =
     (let rows = db_market db market
      in and_then (unnest b) (\<lambda>new.
         and_then (insert_rows new (mr_candles rows) []) (\<lambda>(stored, returned).
           case windows_to_mark b returned (pb_forced b) of
             Inl t \<Rightarrow> Inr (Inl t, db)
           | Inr windows \<Rightarrow>
               let (dirty, next_id) = mark_rows windows (mr_dirty rows) (db_next_id db)
               in Inr (Inr (), db\<lparr>db_market := (db_market db)(market := rows\<lparr>mr_candles := stored, mr_dirty := dirty\<rparr>),
                                 db_next_id := next_id\<rparr>))))"

section \<open>The store\<close>

definition pg_upsert_candles ::
  "'d decimal_ops \<Rightarrow> pg_store \<Rightarrow> pg_call \<Rightarrow> market_id \<Rightarrow> 'd candle list \<Rightarrow> (segment_db, storage_error, nat) op"
where
  "pg_upsert_candles D store c market candles =
     (if candles = [] then io_return 0
      else io_bind (op_result (batch_of D market candles)) (\<lambda>b.
           io_bind (pg_write store c (upsert_statements market b)) (\<lambda>marked.
             case marked of
               Inl t \<Rightarrow> io_fail (SeInvalidArgument (''the database wrote a candle at '' @ int_string t @
                          '', which the batch does not hold''))
             | Inr _ \<Rightarrow> io_return (length candles))))"

text \<open>A count as \<open>LIMIT\<close> takes it.\<close>

definition pg_limit :: "nat \<Rightarrow> nat" where
  "pg_limit n = min n (2 ^ 63 - 1)"

definition pg_load_candles ::
  "'d decimal_ops \<Rightarrow> pg_store \<Rightarrow> pg_call \<Rightarrow> market_id \<Rightarrow> candle_query \<Rightarrow> (segment_db, storage_error, 'd candle list) op"
where
  "pg_load_candles D store c market q =
     io_bind (pg_read store c (\<lambda>db.
       limited (map_option pg_limit (cq_limit q))
         (filter (\<lambda>r. query_holds q (tc_open_time_ms r)) (mr_candles (db_market db market))))) (\<lambda>rows.
     op_result (parse_rows D rows))"

definition pg_load_recent_candles ::
  "'d decimal_ops \<Rightarrow> pg_store \<Rightarrow> pg_call \<Rightarrow> market_id \<Rightarrow> nat \<Rightarrow> (segment_db, storage_error, 'd candle list) op"
where
  "pg_load_recent_candles D store c market count =
     io_bind (pg_read store c (\<lambda>db. take (pg_limit count) (rev (mr_candles (db_market db market))))) (\<lambda>rows.
     io_bind (op_result (parse_rows D rows)) (\<lambda>cs. io_return (rev cs)))"

definition pg_max_open_time_ms ::
  "pg_store \<Rightarrow> pg_call \<Rightarrow> market_id \<Rightarrow> (segment_db, storage_error, timestamp_ms option) op"
where
  "pg_max_open_time_ms store c market = pg_read store c (max_open_time_ms market)"

section \<open>What a batch holds\<close>

definition window_begin :: "interval \<Rightarrow> timestamp_ms \<Rightarrow> timestamp_ms" where
  "window_begin iv t = (case window iv t of Some (s, _) \<Rightarrow> s | None \<Rightarrow> 0)"

definition row_text :: "batch_row \<Rightarrow> text_candle" where
  "row_text row =
     (case row of (t, w, cols) \<Rightarrow>
        \<lparr>tc_open_time_ms = t, tc_close_time_ms = co_close_time_ms cols,
         tc_decimals = [co_open cols, co_high cols, co_low cols, co_close cols, co_volume cols],
         tc_trades = co_trades cols\<rparr>)"

definition row_of :: "'d decimal_ops \<Rightarrow> interval \<Rightarrow> 'd candle \<Rightarrow> batch_row" where
  "row_of D iv c = (cd_open_time_ms c, window_begin iv (cd_open_time_ms c), columns_of D c)"

lemma row_of_simps [simp]:
  "fst (row_of D iv c) = cd_open_time_ms c" "row_text (row_of D iv c) = text_candle_of (dec_to_string D) c"
  "tc_open_time_ms (row_text row) = fst row"
  by (simp_all add: row_of_def row_text_def columns_of_def text_candle_of_def split: prod.splits)

lemma columns_eq: "columns_of D c = columns_of D d \<longleftrightarrow>
    row_text (row_of D iv c) = row_text (row_of D iv d)" if "cd_open_time_ms c = cd_open_time_ms d"
  using that by (auto simp: row_of_def row_text_def columns_of_def)

text \<open>The last value given to each key.\<close>

abbreviation last_by :: "('c \<Rightarrow> int) \<Rightarrow> ('c \<Rightarrow> 'v) \<Rightarrow> 'c list \<Rightarrow> (int \<Rightarrow> 'v option) \<Rightarrow> int \<Rightarrow> 'v option" where
  "last_by key v cs m \<equiv> fold (\<lambda>c f. f(key c \<mapsto> v c)) cs m"

lemma last_by_Some: "last_by key v cs m t = Some x \<Longrightarrow> (\<exists>c\<in>set cs. key c = t \<and> x = v c) \<or> t \<notin> key ` set cs \<and> m t = Some x"
  by (induction cs arbitrary: m) (force split: if_splits)+

lemma last_by_None: "last_by key v cs m t = None \<longleftrightarrow> t \<notin> key ` set cs \<and> m t = None"
  by (induction cs arbitrary: m) auto

lemma last_by_start: "last_by key v cs m t = (case last_by key v cs (\<lambda>_. None) t of None \<Rightarrow> m t | Some x \<Rightarrow> Some x)"
proof (induction cs rule: rev_induct)
  case (snoc c cs)
  then show ?case by simp
qed simp

lemma last_by_keyed: "keyed key new \<Longrightarrow> last_by key v new m t = (case find_row key t new of None \<Rightarrow> m t | Some c \<Rightarrow> Some (v c))"
proof (induction new arbitrary: m)
  case (Cons c new)
  then have "key c = t \<Longrightarrow> find_row key t new = None" by (auto simp: find_row_None)
  with Cons show ?case by (auto simp: find_row_def split: option.splits)
qed (simp add: find_row_def)

lemma batch_rows_Inl: "batch_rows D iv cs rows forced = Inl e \<longleftrightarrow> window_starts iv (map cd_open_time_ms cs) = Inl e"
  by (induction cs arbitrary: rows forced) (auto simp: and_then_Inl Let_def)

text \<open>The columns the batch has been given for an open time, and those it holds.\<close>

definition given :: "'d decimal_ops \<Rightarrow> 'd candle list \<Rightarrow> timestamp_ms \<Rightarrow> columns set" where
  "given D cs t = columns_of D ` {c \<in> set cs. cd_open_time_ms c = t}"

definition held_columns :: "batch_row list \<Rightarrow> timestamp_ms \<Rightarrow> columns set" where
  "held_columns rows t = (case find_row fst t rows of None \<Rightarrow> {} | Some (_, _, cols) \<Rightarrow> {cols})"

definition clashes :: "'d decimal_ops \<Rightarrow> batch_row list \<Rightarrow> 'd candle list \<Rightarrow> timestamp_ms set" where
  "clashes D rows cs = {t. \<exists>x\<in>given D cs t. \<exists>y\<in>held_columns rows t \<union> given D cs t. x \<noteq> y}"

lemma unequal_insert:
  "(\<exists>x\<in>insert k G. \<exists>y\<in>H \<union> insert k G. x \<noteq> y) \<longleftrightarrow> (\<exists>y\<in>H. y \<noteq> k) \<or> (\<exists>x\<in>G. \<exists>y\<in>{k} \<union> G. x \<noteq> y)"
  by (rule iffI) auto

lemma clashes_Cons:
  "clashes D rows (c # cs) =
     (if \<exists>y\<in>held_columns rows (cd_open_time_ms c). y \<noteq> columns_of D c then {cd_open_time_ms c} else {}) \<union>
     clashes D (put_row fst (row_of D iv c) rows) cs"
proof -
  have given: "given D (c # cs) t = (if cd_open_time_ms c = t then insert (columns_of D c) (given D cs t) else given D cs t)" for t
    by (auto simp: given_def)
  have held: "held_columns (put_row fst (row_of D iv c) rows) t =
      (if cd_open_time_ms c = t then {columns_of D c} else held_columns rows t)" for t
    by (simp add: held_columns_def find_put_row) (simp add: row_of_def)
  have "t \<in> clashes D rows (c # cs) \<longleftrightarrow>
      cd_open_time_ms c = t \<and> (\<exists>y\<in>held_columns rows t. y \<noteq> columns_of D c) \<or>
      t \<in> clashes D (put_row fst (row_of D iv c) rows) cs" for t
    unfolding clashes_def mem_Collect_eq given held
    by (cases "cd_open_time_ms c = t") (simp_all only: unequal_insert if_True if_False simp_thms)
  then show ?thesis by auto
qed

lemma batch_rows_spec:
  assumes "batch_rows D iv cs rows forced = Inr (rows', forced')" and "keyed fst rows" and "keyed (\<lambda>s. s) forced"
  shows "keyed fst rows' \<and> keyed (\<lambda>s. s) forced' \<and> (\<forall>c\<in>set cs. window iv (cd_open_time_ms c) \<noteq> None) \<and>
    (\<lambda>t. find_row fst t rows') = last_by cd_open_time_ms (row_of D iv) cs (\<lambda>t. find_row fst t rows) \<and>
    set forced' = set forced \<union> window_begin iv ` clashes D rows cs"
  using assms
proof (induction cs arbitrary: rows forced)
  case Nil
  then show ?case by (simp add: clashes_def given_def)
next
  case (Cons c cs)
  let ?t = "cd_open_time_ms c"
  let ?rows = "put_row fst (row_of D iv c) rows"
  let ?forced = "case find_row fst ?t rows of
     Some (_, _, earlier) \<Rightarrow> if earlier \<noteq> columns_of D c then put_row (\<lambda>s. s) (window_begin iv ?t) forced else forced
   | None \<Rightarrow> forced"
  from Cons.prems(1) have w: "window iv ?t \<noteq> None"
    and run: "batch_rows D iv cs ?rows ?forced = Inr (rows', forced')"
    by (auto simp: and_then_Inr window_start_def ok_or_def Let_def row_of_def window_begin_def split: option.splits)
  have forced: "keyed (\<lambda>s. s) ?forced"
    and set_forced: "set ?forced = set forced \<union>
      (if \<exists>y\<in>held_columns rows ?t. y \<noteq> columns_of D c then {window_begin iv ?t} else {})"
    using Cons.prems(3) by (auto simp: keyed_put_row set_put_row held_columns_def split: option.splits)
  note IH = Cons.IH [OF run keyed_put_row [OF Cons.prems(2)] forced]
  have "(\<lambda>t. find_row fst t ?rows) = (\<lambda>t. find_row fst t rows)(?t \<mapsto> row_of D iv c)"
    by (simp add: find_put_row fun_eq_iff)
  with IH have "(\<lambda>t. find_row fst t rows') =
      last_by cd_open_time_ms (row_of D iv) (c # cs) (\<lambda>t. find_row fst t rows)"
    by (simp del: fun_upd_apply)
  moreover have "set forced' = set forced \<union> window_begin iv ` clashes D rows (c # cs)"
    using IH unfolding set_forced clashes_Cons [of D rows c cs iv] by auto
  ultimately show ?case using IH w by (simp del: fun_upd_apply not_None_eq)
qed

section \<open>What the statements do\<close>

lemma push_rows_fields:
  fixes rows :: "batch_row list"
  shows "pb_open_time_ms (fold push_row rows b) = pb_open_time_ms b @ map fst rows"
    "pb_window_start_ms (fold push_row rows b) = pb_window_start_ms b @ map (fst \<circ> snd) rows"
    "pb_close_time_ms (fold push_row rows b) = pb_close_time_ms b @ map (co_close_time_ms \<circ> snd \<circ> snd) rows"
    "pb_open (fold push_row rows b) = pb_open b @ map (co_open \<circ> snd \<circ> snd) rows"
    "pb_high (fold push_row rows b) = pb_high b @ map (co_high \<circ> snd \<circ> snd) rows"
    "pb_low (fold push_row rows b) = pb_low b @ map (co_low \<circ> snd \<circ> snd) rows"
    "pb_close (fold push_row rows b) = pb_close b @ map (co_close \<circ> snd \<circ> snd) rows"
    "pb_volume (fold push_row rows b) = pb_volume b @ map (co_volume \<circ> snd \<circ> snd) rows"
    "pb_trades (fold push_row rows b) = pb_trades b @ map (co_trades \<circ> snd \<circ> snd) rows"
    "pb_forced (fold push_row rows b) = pb_forced b"
  by (induction rows arbitrary: b) (auto simp: push_row_def split: prod.splits)

lemma unnest_rows: "unnest (fold push_row rows (empty_batch forced)) = Inr (map row_text rows)"
proof -
  have "map (\<lambda>i. f (rows ! i)) [0..<length rows] = map f rows" for f :: "batch_row \<Rightarrow> text_candle"
    by (metis map_map map_nth comp_apply map_cong)
  note this [of row_text, symmetric]
  then show ?thesis
    by (simp add: unnest_def push_rows_fields empty_batch_def Let_def) (simp add: row_text_def case_prod_unfold)
qed

lemma binary_search_step:
  fixes lo hi :: nat
  defines "mid \<equiv> lo + (hi - lo) div 2"
  assumes "lo < hi"
  shows "binary_search ts t lo hi =
      (if ts ! mid = t then Some mid else if ts ! mid < t then binary_search ts t (mid + 1) hi
       else binary_search ts t lo mid)" and "lo \<le> mid" and "mid < hi"
proof -
  show "binary_search ts t lo hi =
      (if ts ! mid = t then Some mid else if ts ! mid < t then binary_search ts t (mid + 1) hi
       else binary_search ts t lo mid)"
    using assms by (subst binary_search.simps) (simp add: Let_def)
qed (use assms in linarith)+

lemma binary_search_Some:
  assumes "sorted_wrt (<) ts" and "hi \<le> length ts"
  shows "binary_search ts t lo hi = Some i \<longleftrightarrow> lo \<le> i \<and> i < hi \<and> ts ! i = t"
  using assms(2)
proof (induction "hi - lo" arbitrary: lo hi rule: less_induct)
  case less
  show ?case
  proof (cases "lo < hi")
    case False
    then show ?thesis by (subst binary_search.simps) auto
  next
    case True
    define mid where "mid = lo + (hi - lo) div 2"
    note step = binary_search_step [OF True, folded mid_def]
    have right: "binary_search ts t (mid + 1) hi = Some i \<longleftrightarrow> mid + 1 \<le> i \<and> i < hi \<and> ts ! i = t"
      using step(2,3) less.prems by (intro less.hyps) linarith+
    have left: "binary_search ts t lo mid = Some i \<longleftrightarrow> lo \<le> i \<and> i < mid \<and> ts ! i = t"
      using step(2,3) less.prems by (intro less.hyps) linarith+
    have below: "i < mid \<Longrightarrow> ts ! i < ts ! mid" and above: "mid < i \<Longrightarrow> i < hi \<Longrightarrow> ts ! mid < ts ! i"
      using sorted_wrt_nth_less [OF assms(1)] step(3) less.prems by auto
    show ?thesis unfolding step(1)
      using right left below above step(2,3) by (cases i mid rule: linorder_cases) auto
  qed
qed

lemma window_of_rows:
  assumes "keyed fst rows" and "row \<in> set rows"
  shows "window_of (fold push_row rows (empty_batch forced)) (fst row) = Some (fst (snd row))"
proof -
  let ?b = "fold push_row rows (empty_batch forced)"
  obtain i where i: "i < length rows" "rows ! i = row" using assms(2) by (auto simp: in_set_conv_nth)
  have opens: "pb_open_time_ms ?b = map fst rows" "pb_window_start_ms ?b = map (fst \<circ> snd) rows"
    by (simp_all add: push_rows_fields empty_batch_def)
  have "binary_search (map fst rows) (fst row) 0 (length rows) = Some i"
    using binary_search_Some [of "map fst rows" "length rows" "fst row" 0 i] assms(1) i by (simp add: keyed_def)
  with i show ?thesis by (simp add: window_of_def opens)
qed

text \<open>The rows a statement writes: those it changes.\<close>

definition changed_rows :: "text_candle list \<Rightarrow> text_candle list \<Rightarrow> text_candle list" where
  "changed_rows new rows = filter (\<lambda>c. find_row tc_open_time_ms (tc_open_time_ms c) rows \<noteq> Some c) new"

definition put_rows :: "text_candle list \<Rightarrow> text_candle list \<Rightarrow> text_candle list" where
  "put_rows new rows = fold (put_row tc_open_time_ms) new rows"

lemma insert_rows_Inr:
  assumes "keyed tc_open_time_ms new" and "\<forall>c\<in>set new. tc_open_time_ms c \<notin> set returned"
  shows "insert_rows new rows returned =
    Inr (put_rows (changed_rows new rows) rows, returned @ map tc_open_time_ms (changed_rows new rows))"
  using assms
proof (induction new rows returned rule: insert_rows.induct)
  case (2 c new rows returned)
  show ?case
  proof (cases "find_row tc_open_time_ms (tc_open_time_ms c) rows = Some c")
    case True
    with 2 show ?thesis by (simp add: changed_rows_def)
  next
    case False
    have "changed_rows new (put_row tc_open_time_ms c rows) = changed_rows new rows"
      using "2.prems"(1) by (auto simp: changed_rows_def find_put_row intro!: filter_cong)
    moreover have "tc_open_time_ms c \<notin> set returned" "\<forall>x\<in>set new. tc_open_time_ms x \<notin> set (returned @ [tc_open_time_ms c])"
      using "2.prems" by auto
    ultimately show ?thesis
      using "2.IH"(2) False "2.prems"(1) by (simp add: put_rows_def) (simp add: changed_rows_def)
  qed
qed (simp add: put_rows_def changed_rows_def)

lemma keyed_put_rows: "keyed tc_open_time_ms rows \<Longrightarrow> keyed tc_open_time_ms (put_rows new rows)"
  by (induction new arbitrary: rows) (simp_all add: put_rows_def keyed_put_row)

lemma candle_map_put_rows: "candle_map (put_rows new rows) = last_by tc_open_time_ms (\<lambda>c. c) new (candle_map rows)"
proof (induction new arbitrary: rows)
  case (Cons c new)
  have "candle_map (put_row tc_open_time_ms c rows) = (candle_map rows)(tc_open_time_ms c \<mapsto> c)"
    by (auto simp: candle_map_def find_put_row)
  with Cons show ?case by (simp add: put_rows_def del: fun_upd_apply)
qed (simp add: put_rows_def)

lemma candle_map_changed:
  assumes "keyed tc_open_time_ms new"
  shows "candle_map (put_rows (changed_rows new rows) rows) = last_by tc_open_time_ms (\<lambda>c. c) new (candle_map rows)"
proof
  fix t
  have k: "keyed tc_open_time_ms (changed_rows new rows)" unfolding changed_rows_def using assms by (rule keyed_filter)
  show "candle_map (put_rows (changed_rows new rows) rows) t = last_by tc_open_time_ms (\<lambda>c. c) new (candle_map rows) t"
  proof (cases "find_row tc_open_time_ms t new")
    case None
    then have "find_row tc_open_time_ms t (changed_rows new rows) = None" by (auto simp: find_row_None changed_rows_def)
    with None show ?thesis by (simp add: candle_map_put_rows last_by_keyed [OF k] last_by_keyed [OF assms])
  next
    case (Some c)
    then have c: "c \<in> set new" "tc_open_time_ms c = t" by (simp_all add: find_row_Some [OF assms])
    have "find_row tc_open_time_ms t (changed_rows new rows) = (if candle_map rows t = Some c then None else Some c)"
    proof (cases "candle_map rows t = Some c")
      case True
      have "x = c" if "x \<in> set new" "tc_open_time_ms x = t" for x using keyed_inj [OF assms that(1) c(1)] that c by simp
      with True show ?thesis by (auto simp: find_row_None changed_rows_def candle_map_def)
    next
      case False
      with c have "c \<in> set (changed_rows new rows)" by (simp add: changed_rows_def candle_map_def)
      with c False show ?thesis by (simp add: find_row_Some [OF k])
    qed
    with Some show ?thesis
      by (simp add: candle_map_put_rows last_by_keyed [OF k] last_by_keyed [OF assms] split: if_splits)
  qed
qed

lemma tables_by_map:
  assumes "keyed tc_open_time_ms rows" and "keyed tc_open_time_ms rows'" and "candle_map rows = candle_map rows'"
  shows "rows = rows'"
proof (rule keyed_unique [OF assms(1,2)])
  have "c \<in> set rows \<longleftrightarrow> c \<in> set rows'" for c
    using find_row_Some [OF assms(1), of "tc_open_time_ms c" c] find_row_Some [OF assms(2), of "tc_open_time_ms c" c]
      fun_cong [OF assms(3), of "tc_open_time_ms c"] by (simp add: candle_map_def)
  then show "set rows = set rows'" by blast
qed

section \<open>SQLite's answers\<close>

lemma upsert_rows_windows:
  assumes "upsert_rows new rows changed = (rows', changed')" and "keyed (\<lambda>s. s) changed"
    and "\<forall>(c, s)\<in>set new. s = begin_of (tc_open_time_ms c)"
  shows "keyed (\<lambda>s. s) changed' \<and>
    set changed' = set changed \<union> {s. \<exists>c. (c, s) \<in> set new \<and> find_row tc_open_time_ms (tc_open_time_ms c) rows \<noteq> Some c}"
  using assms
proof (induction new rows changed rule: upsert_rows.induct)
  case (2 c start new rows changed)
  show ?case
  proof (cases "find_row tc_open_time_ms (tc_open_time_ms c) rows = Some c")
    case True
    with 2 show ?thesis by auto
  next
    case False
    let ?rows = "put_row tc_open_time_ms c rows"
    from "2.IH"(2) [OF False] False "2.prems" have IH: "keyed (\<lambda>s. s) changed'"
      "set changed' = set (put_row (\<lambda>s. s) start changed) \<union>
        {s. \<exists>d. (d, s) \<in> set new \<and> find_row tc_open_time_ms (tc_open_time_ms d) ?rows \<noteq> Some d}"
      by (simp_all add: keyed_put_row)
    have start: "s = start" if "(d, s) \<in> set new" "tc_open_time_ms d = tc_open_time_ms c" for d s
      using "2.prems"(3) that by auto
    have "set (put_row (\<lambda>s. s) start changed) = insert start (set changed)"
      using "2.prems"(2) by (auto simp: set_put_row)
    with IH start False show ?thesis by (auto simp: find_put_row split: if_splits)
  qed
qed simp

lemma windows_to_mark_Inr:
  assumes "\<forall>t\<in>set ts. window_of b t = Some (begin_of t)" and "keyed (\<lambda>s. s) windows"
  shows "\<exists>windows'. windows_to_mark b ts windows = Inr windows' \<and> keyed (\<lambda>s. s) windows' \<and>
    set windows' = set windows \<union> begin_of ` set ts"
  using assms
proof (induction ts arbitrary: windows)
  case (Cons t ts)
  have "set (put_row (\<lambda>s. s) (begin_of t) windows) = insert (begin_of t) (set windows)"
    using Cons.prems(2) by (auto simp: set_put_row)
  with Cons.IH [of "put_row (\<lambda>s. s) (begin_of t) windows"] Cons.prems show ?case by (simp add: keyed_put_row)
qed simp

text \<open>Marking again: the same windows, each with an id above every mark there was.\<close>

lemma mark_rows_spec:
  assumes "mark_rows ss dirty n = (dirty', n')" and "keyed dw_window_start_ms dirty"
    and "\<forall>d\<in>set dirty. dw_id d < n" and "inj_on dw_id (set dirty)"
  shows "keyed dw_window_start_ms dirty' \<and> n \<le> n' \<and> inj_on dw_id (set dirty') \<and> (\<forall>d\<in>set dirty'. dw_id d < n') \<and>
    (\<forall>d\<in>set dirty'. dw_id d < n \<longrightarrow> d \<in> set dirty \<and> dw_window_start_ms d \<notin> set ss) \<and>
    dw_window_start_ms ` set dirty' = dw_window_start_ms ` set dirty \<union> set ss"
  using assms
proof (induction ss dirty n rule: mark_rows.induct)
  case (2 s ss dirty n)
  define k where "k = (if find_row dw_window_start_ms s dirty = None then n else n + 1)"
  let ?d = "\<lparr>dw_id = k, dw_window_start_ms = s\<rparr>"
  let ?dirty = "put_row dw_window_start_ms ?d dirty"
  have k: "n \<le> k" by (simp add: k_def)
  have set: "set ?dirty = insert ?d {d \<in> set dirty. dw_window_start_ms d \<noteq> s}"
    using set_put_row [OF "2.prems"(2), of ?d] by simp
  have "inj_on dw_id (set ?dirty)" "\<forall>d\<in>set ?dirty. dw_id d < k + 1"
    using "2.prems"(3,4) k unfolding set inj_on_def by fastforce+
  with "2.IH" [OF k_def _ keyed_put_row [OF "2.prems"(2)]] "2.prems"(1)
  have IH: "keyed dw_window_start_ms dirty'" "k + 1 \<le> n'" "inj_on dw_id (set dirty')" "\<forall>d\<in>set dirty'. dw_id d < n'"
    "\<forall>d\<in>set dirty'. dw_id d < k + 1 \<longrightarrow> d \<in> set ?dirty \<and> dw_window_start_ms d \<notin> set ss"
    "dw_window_start_ms ` set dirty' = dw_window_start_ms ` set ?dirty \<union> set ss" by (auto simp: k_def Let_def)
  have "dw_window_start_ms ` set ?dirty = insert s (dw_window_start_ms ` set dirty)" unfolding set by auto
  moreover have "d \<in> set dirty \<and> dw_window_start_ms d \<notin> set (s # ss)" if "d \<in> set dirty'" "dw_id d < n" for d
  proof -
    from IH(5) that k have "d = ?d \<or> d \<in> set dirty \<and> dw_window_start_ms d \<noteq> s" "dw_window_start_ms d \<notin> set ss"
      unfolding set by auto
    with that(2) k show ?thesis by auto
  qed
  ultimately show ?case using IH k by auto
qed simp

lemma find_row_map: "(\<And>x. key (f x) = key' x) \<Longrightarrow> find_row key t (map f xs) = map_option f (find_row key' t xs)"
  by (induction xs) (simp_all add: find_row_def)

lemma last_by_text:
  "last_by tc_open_time_ms (\<lambda>c. c) (text_rows D cs) (\<lambda>_. None) t =
   map_option row_text (last_by cd_open_time_ms (row_of D iv) cs (\<lambda>_. None) t)"
proof (induction cs rule: rev_induct)
  case (snoc c cs)
  have "tc_open_time_ms (text_candle_of (dec_to_string D) c) = cd_open_time_ms c" by (simp add: text_candle_of_def)
  with snoc show ?case by simp
qed simp

text \<open>What the batch for some candles holds.\<close>

lemma batch_of_Inr:
  assumes "window_starts (mk_interval market) (map cd_open_time_ms cs) = Inr starts"
  shows "\<exists>rows forced. batch_of D market cs = Inr (fold push_row rows (empty_batch forced)) \<and> keyed fst rows \<and>
    keyed (\<lambda>s. s) forced \<and> set forced = window_begin (mk_interval market) ` clashes D [] cs \<and>
    (\<forall>row\<in>set rows. \<exists>c\<in>set cs. row = row_of D (mk_interval market) c) \<and>
    (\<forall>c\<in>set cs. find_row fst (cd_open_time_ms c) rows \<noteq> None) \<and>
    (\<forall>t. find_row tc_open_time_ms t (map row_text rows) =
       last_by tc_open_time_ms (\<lambda>c. c) (text_rows D cs) (\<lambda>_. None) t)"
proof -
  let ?iv = "mk_interval market"
  obtain rows forced where run: "batch_rows D ?iv cs [] [] = Inr (rows, forced)"
    using batch_rows_Inl [of D ?iv cs "[]" "[]"] assms by (cases "batch_rows D ?iv cs [] []") auto
  have none: "(\<lambda>t. find_row fst t ([] :: batch_row list)) = (\<lambda>_. None)" by (simp add: find_row_def fun_eq_iff)
  note spec = batch_rows_spec [OF run, unfolded none, simplified]
  then have find: "find_row fst t rows = last_by cd_open_time_ms (row_of D ?iv) cs (\<lambda>_. None) t" for t
    by (metis (no_types))
  have "\<exists>c\<in>set cs. row = row_of D ?iv c" if "row \<in> set rows" for row
  proof -
    from that spec have "find_row fst (fst row) rows = Some row" by (simp add: find_row_Some)
    with find [of "fst row"] last_by_Some [of cd_open_time_ms "row_of D ?iv" cs "\<lambda>_. None" "fst row" row] show ?thesis by auto
  qed
  moreover have "find_row fst (cd_open_time_ms c) rows \<noteq> None" if "c \<in> set cs" for c
    using that unfolding find last_by_None by blast
  moreover have "find_row tc_open_time_ms t (map row_text rows) =
      last_by tc_open_time_ms (\<lambda>c. c) (text_rows D cs) (\<lambda>_. None) t" for t
    by (simp only: find_row_map [of tc_open_time_ms row_text fst, OF row_of_simps(3)] last_by_text [of D cs t ?iv] find)
  ultimately show ?thesis
    using spec run by (intro exI [of _ rows] exI [of _ forced]) (simp add: batch_of_def)
qed

text \<open>A window is forced or written exactly where some candle of the batch is not the stored one.\<close>

lemma clashes_or_changed:
  assumes "\<forall>row\<in>set rows. \<exists>c\<in>set cs. row = row_of D iv c"
    and "\<forall>c\<in>set cs. find_row fst (cd_open_time_ms c) rows \<noteq> None"
  shows "clashes D [] cs \<union> tc_open_time_ms ` set (changed_rows (map row_text rows) kept) =
    {t. \<exists>c\<in>set (text_rows D cs). tc_open_time_ms c = t \<and> find_row tc_open_time_ms t kept \<noteq> Some c}" (is "?L = ?R")
proof (intro subset_antisym subsetI)
  let ?text = "text_candle_of (dec_to_string D)"
  have at: "tc_open_time_ms (?text c) = cd_open_time_ms c" for c by (simp add: text_candle_of_def)
  fix t
  {
    assume "t \<in> ?L"
    then consider c d where "c \<in> set cs" "d \<in> set cs" "cd_open_time_ms c = t" "cd_open_time_ms d = t" "columns_of D c \<noteq> columns_of D d"
      | row where "row \<in> set rows" "fst row = t" "find_row tc_open_time_ms t kept \<noteq> Some (row_text row)"
      by (auto simp: clashes_def given_def held_columns_def find_row_def changed_rows_def)
    then show "t \<in> ?R"
    proof cases
      case 1
      then have "?text c \<noteq> ?text d" using columns_eq [of c d D] by simp
      with 1 at show ?thesis by (cases "find_row tc_open_time_ms t kept = Some (?text c)") auto
    next
      case 2
      with assms(1) obtain c where "c \<in> set cs" "row = row_of D iv c" by blast
      with 2 at show ?thesis by auto
    qed
  next
    assume "t \<in> ?R"
    then obtain c where c: "c \<in> set cs" "cd_open_time_ms c = t" "find_row tc_open_time_ms t kept \<noteq> Some (?text c)"
      by (auto simp: at)
    with assms(2) obtain row where "find_row fst t rows = Some row" by blast
    then have row: "row \<in> set rows" "fst row = t"
      unfolding find_row_def by (auto simp: find_Some_iff)
    with assms(1) obtain d where d: "d \<in> set cs" "row = row_of D iv d" "cd_open_time_ms d = t" by auto
    show "t \<in> ?L"
    proof (cases "find_row tc_open_time_ms t kept = Some (?text d)")
      case True
      with c have "columns_of D c \<noteq> columns_of D d" using columns_eq [of c d D iv] d by auto
      with c d show ?thesis by (auto simp: clashes_def given_def)
    next
      case False
      with row d(2) have "row_text row \<in> set (changed_rows (map row_text rows) kept)"
        by (simp add: changed_rows_def del: row_of_simps(1,2)) (simp add: d(2))
      with row(2) have "t \<in> tc_open_time_ms ` set (changed_rows (map row_text rows) kept)" by (metis imageI row_of_simps(3))
      then show ?thesis ..
    qed
  }
qed

text \<open>Both statements leave the candles SQLite's row by row upsert leaves, and mark the same windows.\<close>

lemma statements_as_sqlite:
  assumes inv: "store_inv D K db held" and times: "list_all i64_times cs"
    and starts: "window_starts (mk_interval market) (map cd_open_time_ms cs) = Inr starts"
    and up: "upsert_rows (zip (text_rows D cs) starts) (mr_candles (db_market db market)) [] = (kept, windows)"
    and mark: "mark_rows windows (mr_dirty (db_market db market)) (db_next_id db) = (dirty, n)"
  shows "\<exists>b. batch_of D market cs = Inr b \<and>
    upsert_statements market b db = Inr (Inr (), db\<lparr>db_market := (db_market db)(market := (db_market db market)
      \<lparr>mr_candles := kept, mr_dirty := dirty\<rparr>), db_next_id := n\<rparr>)"
proof -
  let ?iv = "mk_interval market" and ?table = "mr_candles (db_market db market)"
  from batch_of_Inr [OF starts, of D] obtain rows forced where
      b: "batch_of D market cs = Inr (fold push_row rows (empty_batch forced))"
    and k: "keyed fst rows" "keyed (\<lambda>s. s) forced" and forced: "set forced = window_begin ?iv ` clashes D [] cs"
    and rows: "\<forall>row\<in>set rows. \<exists>c\<in>set cs. row = row_of D ?iv c" "\<forall>c\<in>set cs. find_row fst (cd_open_time_ms c) rows \<noteq> None"
    and find: "\<forall>t. find_row tc_open_time_ms t (map row_text rows) =
       last_by tc_open_time_ms (\<lambda>c. c) (text_rows D cs) (\<lambda>_. None) t" by blast
  let ?b = "fold push_row rows (empty_batch forced)" and ?new = "map row_text rows"
  let ?written = "changed_rows ?new ?table"
  have new: "keyed tc_open_time_ms ?new" using k(1) by (simp add: keyed_def comp_def)
  have table: "keyed tc_open_time_ms ?table" using inv by (simp add: store_inv_def market_ok_def)
  have zip: "map fst (zip (text_rows D cs) starts) = text_rows D cs" and len: "length starts = length cs"
    using window_starts_Inr [OF starts] by simp_all
  have begin_at: "\<forall>(c, s)\<in>set (zip (text_rows D cs) starts). s = window_begin ?iv (tc_open_time_ms c)"
    using window_starts_Inr [OF starts] by (fastforce simp: zip_map1 zip_map2 text_candle_of_def window_begin_def)
  note lite = upsert_rows_windows [OF up _ begin_at, simplified]
  have "window_of ?b t = Some (window_begin ?iv t)" if "t \<in> set (map tc_open_time_ms ?written)" for t
  proof -
    from that obtain row where row: "row \<in> set rows" "fst row = t" by (auto simp: changed_rows_def)
    with rows(1) have "fst (snd row) = window_begin ?iv t" by (auto simp: row_of_def)
    with window_of_rows [OF k(1) row(1), of forced] row(2) show ?thesis by simp
  qed
  then obtain ws where ws: "windows_to_mark ?b (map tc_open_time_ms ?written) forced = Inr ws" "keyed (\<lambda>s. s) ws"
      "set ws = set forced \<union> window_begin ?iv ` set (map tc_open_time_ms ?written)"
    using windows_to_mark_Inr [of "map tc_open_time_ms ?written" ?b "window_begin ?iv" forced] k(2) by blast
  have "set ws = window_begin ?iv ` (clashes D [] cs \<union> tc_open_time_ms ` set ?written)"
    unfolding ws(3) forced by auto
  also have "\<dots> = set windows"
  proof -
    have "\<exists>s. (c, s) \<in> set (zip (text_rows D cs) starts)" if "c \<in> set (text_rows D cs)" for c
      using that len by (metis in_set_impl_in_set_zip1 length_map)
    then show ?thesis unfolding clashes_or_changed [OF rows] using lite begin_at
      by (fastforce dest: set_zip_leftD simp: image_iff)
  qed
  finally have same_windows: "ws = windows" using keyed_unique [OF ws(2)] lite by blast
  have "put_rows ?written ?table = kept"
  proof (rule tables_by_map)
    show "keyed tc_open_time_ms (put_rows ?written ?table)" by (rule keyed_put_rows [OF table])
    have w: "\<forall>(c, s)\<in>set (zip (text_rows D cs) starts). \<exists>e. window ?iv (tc_open_time_ms c) = Some (s, e)"
      using window_starts_Inr [OF starts] by (fastforce simp: zip_map1 zip_map2 text_candle_of_def)
    show "keyed tc_open_time_ms kept" using upsert_rows_spec [OF up table _ w] by simp
    show "candle_map (put_rows ?written ?table) = candle_map kept"
    proof
      fix t
      have "candle_map kept t = last_by tc_open_time_ms (\<lambda>c. c) (text_rows D cs) (candle_map ?table) t"
        using upsert_rows_map [OF up] by (simp only: zip)
      also have "\<dots> = (case find_row tc_open_time_ms t ?new of None \<Rightarrow> candle_map ?table t | Some x \<Rightarrow> Some x)"
        using find by (subst last_by_start) (metis (no_types))
      also have "\<dots> = candle_map (put_rows ?written ?table) t"
        by (simp only: candle_map_changed [OF new] last_by_keyed [OF new])
      finally show "candle_map (put_rows ?written ?table) t = candle_map kept t" by simp
    qed
  qed
  then have "insert_rows ?new ?table [] = Inr (kept, map tc_open_time_ms ?written)"
    using insert_rows_Inr [OF new, of "[]" ?table] by simp
  moreover have "pb_forced ?b = forced" by (simp add: push_rows_fields empty_batch_def)
  ultimately have "upsert_statements market ?b db = Inr (Inr (), db\<lparr>db_market := (db_market db)(market := (db_market db market)
      \<lparr>mr_candles := kept, mr_dirty := dirty\<rparr>), db_next_id := n\<rparr>)"
    using ws(1) mark by (simp add: upsert_statements_def unnest_rows same_windows Let_def)
  with b show ?thesis by blast
qed

section \<open>What a call does\<close>

lemma mark_rows_replaces:
  assumes inv: "store_inv D K db held"
    and mark: "mark_rows windows (mr_dirty (db_market db m)) (db_next_id db) = (dirty, n)"
  shows "marks_replaced db held windows (mr_dirty (db_market db m)) dirty n"
proof -
  from inv have "keyed dw_window_start_ms (mr_dirty (db_market db m))"
      "\<forall>d\<in>set (mr_dirty (db_market db m)). dw_id d < db_next_id db" "inj_on dw_id (set (mr_dirty (db_market db m)))"
    by (simp_all add: store_inv_def market_ok_def ids_ok_def)
  note mark_rows_spec [OF mark this]
  then show ?thesis using large_ids_fresh [OF inv] by (auto simp: marks_replaced_def not_less)
qed

text \<open>The marks that keep their revision are those of the windows not marked again.\<close>

lemma set_put_mark:
  "keyed dw_window_start_ms dirty \<Longrightarrow> k \<le> i \<Longrightarrow>
   {d \<in> set (put_row dw_window_start_ms \<lparr>dw_id = i, dw_window_start_ms = s\<rparr> dirty). dw_id d < k \<and> P d} =
   {d \<in> set dirty. dw_id d < k \<and> dw_window_start_ms d \<noteq> s \<and> P d}"
  by (auto simp: set_put_row)

lemma mark_dirty_keeps:
  "mark_dirty ss dirty n = (dirty', n') \<Longrightarrow> keyed dw_window_start_ms dirty \<Longrightarrow> k \<le> n \<Longrightarrow>
   {d \<in> set dirty'. dw_id d < k} = {d \<in> set dirty. dw_id d < k \<and> dw_window_start_ms d \<notin> set ss}"
  by (induction ss dirty n rule: mark_dirty.induct) (simp_all add: keyed_put_row set_put_mark)

lemma mark_rows_keeps:
  "mark_rows ss dirty n = (dirty', n') \<Longrightarrow> keyed dw_window_start_ms dirty \<Longrightarrow> k \<le> n \<Longrightarrow>
   {d \<in> set dirty'. dw_id d < k} = {d \<in> set dirty. dw_id d < k \<and> dw_window_start_ms d \<notin> set ss}"
proof (induction ss dirty n rule: mark_rows.induct)
  case (2 s ss dirty n)
  define i where "i = (if find_row dw_window_start_ms s dirty = None then n else n + 1)"
  have "k \<le> i" using "2.prems"(3) by (simp add: i_def)
  with 2 show ?case by (simp add: keyed_put_row set_put_mark i_def [symmetric] Let_def)
qed simp

text \<open>Two stores that grew from one: the same candles, segments and index, and marks on the same windows, a mark
  keeping its revision in both or in neither.\<close>

definition old_marks :: "segment_db \<Rightarrow> market_id \<Rightarrow> segment_db \<Rightarrow> dirty_row set" where
  "old_marks before m db = {d \<in> set (mr_dirty (db_market db m)). dw_id d < db_next_id before}"

definition grown_alike :: "segment_db \<Rightarrow> segment_db \<Rightarrow> segment_db \<Rightarrow> bool" where
  "grown_alike before pg lite \<longleftrightarrow>
     db_segments pg = db_segments lite \<and>
     (\<forall>m. mr_candles (db_market pg m) = mr_candles (db_market lite m) \<and>
          mr_index (db_market pg m) = mr_index (db_market lite m) \<and>
          dw_window_start_ms ` set (mr_dirty (db_market pg m)) = dw_window_start_ms ` set (mr_dirty (db_market lite m)) \<and>
          old_marks before m pg = old_marks before m lite)"

lemma upsert_statements_alike:
  assumes inv: "store_inv D K db held" and times: "list_all i64_times cs" and lite: "upsert_candles D market cs db = (r, lite)"
    and some: "cs \<noteq> []"
  shows "(\<exists>e. r = Inl e \<and> lite = db \<and> batch_of D market cs = Inl e) \<or>
    (\<exists>b pg. r = Inr (length cs) \<and> batch_of D market cs = Inr b \<and> upsert_statements market b db = Inr (Inr (), pg) \<and>
       grown_alike db pg lite \<and> store_inv D K pg held)"
proof (cases "window_starts (mk_interval market) (map cd_open_time_ms cs)")
  case (Inl e)
  then have "batch_of D market cs = Inl e"
    using batch_rows_Inl [of D "mk_interval market" cs "[]" "[]" e] by (simp add: batch_of_def)
  with Inl lite some show ?thesis by (simp add: upsert_candles_def)
next
  case (Inr starts)
  let ?rows = "db_market db market"
  obtain kept windows where up: "upsert_rows (zip (text_rows D cs) starts) (mr_candles ?rows) [] = (kept, windows)" by fastforce
  obtain dirty n where mark: "mark_rows windows (mr_dirty ?rows) (db_next_id db) = (dirty, n)" by fastforce
  obtain dirty' n' where mark': "mark_dirty windows (mr_dirty ?rows) (db_next_id db) = (dirty', n')" by fastforce
  let ?pg = "db\<lparr>db_market := (db_market db)(market := ?rows\<lparr>mr_candles := kept, mr_dirty := dirty\<rparr>), db_next_id := n\<rparr>"
  from Inr up mark' lite some have lite': "r = Inr (length cs)"
      "lite = db\<lparr>db_market := (db_market db)(market := ?rows\<lparr>mr_candles := kept, mr_dirty := dirty'\<rparr>), db_next_id := n'\<rparr>"
    by (simp_all add: upsert_candles_def Let_def)
  from statements_as_sqlite [OF inv times Inr up mark] obtain b where
      b: "batch_of D market cs = Inr b" "upsert_statements market b db = Inr (Inr (), ?pg)" by blast
  have "\<forall>(c, s)\<in>set (zip (text_rows D cs) starts). five_decimals c \<and>
      (\<exists>e. window (mk_interval market) (tc_open_time_ms c) = Some (s, e))"
    using window_starts_Inr [OF Inr] text_rows_five [OF times, of _ D]
    by (fastforce simp: zip_map1 zip_map2 text_candle_of_def dest: set_zip_leftD)
  with up inv have "candles_changed market windows (mr_candles ?rows) kept"
    by (intro upsert_rows_changed) (simp_all add: store_inv_def market_ok_def)
  from commit_inv [OF inv this mark_rows_replaces [OF inv mark]] have "store_inv D K ?pg held" .
  moreover have "grown_alike db ?pg lite"
  proof -
    from inv have k: "keyed dw_window_start_ms (mr_dirty ?rows)" "\<forall>d\<in>set (mr_dirty ?rows). dw_id d < db_next_id db"
        "inj_on dw_id (set (mr_dirty ?rows))"
      by (simp_all add: store_inv_def market_ok_def ids_ok_def)
    note spec = mark_rows_spec [OF mark k] mark_dirty_spec [OF mark' k]
    have "{d \<in> set dirty. dw_id d < db_next_id db} = {d \<in> set dirty'. dw_id d < db_next_id db}"
      using mark_rows_keeps [OF mark k(1)] mark_dirty_keeps [OF mark' k(1)] by simp
    with spec show ?thesis by (simp add: grown_alike_def old_marks_def lite'(2))
  qed
  ultimately show ?thesis using b lite'(1) by blast
qed

text \<open>C17: writing candles to PostgreSQL answers as SQLite would: when nothing fails the answer is SQLite's; whatever the
  server, the pool or the network does, the store has every row SQLite's upsert would leave, with the same windows
  marked and every changed one under a new revision, or none of it, and an error other than an unknown outcome
  means none of it. Either way every window without a mark stays indexed under exactly its candles.\<close>

theorem postgres_writes_what_sqlite_writes:
  assumes "store_inv D K db held" and "list_all i64_times candles" and "pg_call_ok c"
    and "pg_upsert_candles D store c market candles db = (r, pg)"
    and "upsert_candles D market candles db = (r', lite)"
  shows "store_inv D K pg held \<and> (pg = db \<or> grown_alike db pg lite) \<and>
    (\<forall>e. r = Inl e \<longrightarrow> pg = db \<or> storage_error_kind e = KindOutcomeUnknown) \<and>
    (\<forall>n. r = Inr n \<longrightarrow> r' = Inr n \<and> grown_alike db pg lite) \<and>
    (\<forall>e. r' = Inl e \<longrightarrow> r = Inl e) \<and>
    (pc_run c = None \<longrightarrow> pc_pool c = PoolReady \<longrightarrow> pc_limited c \<longrightarrow> pc_work c = WorkDone \<longrightarrow> r = r')"
proof (cases "candles = []")
  case True
  with assms have "r = Inr 0" "pg = db" "r' = Inr 0" "lite = db" by (simp_all add: pg_upsert_candles_def upsert_candles_def)
  with assms(1) show ?thesis by (simp add: grown_alike_def)
next
  case False
  from upsert_statements_alike [OF assms(1,2,5) this] consider
      (refuse) e where "r' = Inl e" "lite = db" "batch_of D market candles = Inl e"
    | (run) b pg' where "r' = Inr (length candles)" "batch_of D market candles = Inr b"
        "upsert_statements market b db = Inr (Inr (), pg')" "grown_alike db pg' lite" "store_inv D K pg' held"
    by blast
  then show ?thesis
  proof cases
    case refuse
    with assms(4) False have "r = Inl e" "pg = db" by (simp_all add: pg_upsert_candles_def op_result_def)
    with assms(1) refuse show ?thesis by simp
  next
    case run
    obtain q db1 where q: "pg_write store c (upsert_statements market b) db = (q, db1)" by fastforce
    have r: "r = map_sum id (\<lambda>_. length candles) q" and pg: "pg = db1" if "\<forall>x. q = Inr x \<longrightarrow> x = Inr ()"
      using assms(4) False run(2) q that
      by (cases q; simp add: pg_upsert_candles_def op_result_def io_bind_def io_return_def)+
    from pg_write_cases [OF assms(3) q] consider "refused q" "db1 = db"
      | "db1 = pg'" "landed q" "\<forall>x. q = Inr x \<longrightarrow> x = Inr ()"
      using run(3) by auto
    then show ?thesis
    proof cases
      case 1
      then obtain e where e: "q = Inl e" by (cases q) simp_all
      with r pg 1 have "r = Inl e" "pg = db" by simp_all
      moreover have "\<not> (pc_run c = None \<and> pc_pool c = PoolReady \<and> pc_limited c \<and> pc_work c = WorkDone)"
        using q e run(3) by (auto simp: pg_write_def pg_execute_def pg_job_def)
      ultimately show ?thesis using assms(1) run(1) by blast
    next
      case 2
      with r pg have "r = map_sum id (\<lambda>_. length candles) q" "pg = pg'" by blast+
      moreover have "\<exists>x. q = Inr x"
        if "pc_run c = None" "pc_pool c = PoolReady" "pc_limited c" "pc_work c = WorkDone"
        using q that run(3) by (auto simp: pg_write_def pg_execute_def pg_job_def)
      ultimately show ?thesis using 2 run by (cases q) auto
    qed
  qed
qed

text \<open>Two candles written to an empty store over a connection that answers.\<close>

definition sample_answer :: pg_call where
  "sample_answer = \<lparr>pc_pool = PoolReady, pc_limited = True, pc_work = WorkDone, pc_run = None, pc_now = 9\<rparr>"

theorem postgres_writes_what_sqlite_writes_witness:
  "\<exists>pg. pg_upsert_candles sample_dec \<lparr>pgs_bounded = True\<rparr> sample_answer sample_market sample_bars empty_db = (Inr 2, pg) \<and>
     mr_candles (db_market pg sample_market) = text_rows sample_dec sample_bars \<and>
     dw_window_start_ms ` set (mr_dirty (db_market pg sample_market)) = {0, 86400000}"
proof -
  obtain r pg where run: "pg_upsert_candles sample_dec \<lparr>pgs_bounded = True\<rparr> sample_answer sample_market sample_bars
      empty_db = (r, pg)" by fastforce
  have lite: "upsert_candles sample_dec sample_market sample_bars empty_db = (Inr 2, sample_db)"
  proof -
    have "fst (upsert_candles sample_dec sample_market sample_bars empty_db) = Inr 2" by code_simp
    then show ?thesis by (simp add: sample_db_def prod_eq_iff)
  qed
  have inv: "store_inv sample_dec sample_codec empty_db []"
    by (rule reachable_store_inv [OF sample_collision_free reachable_store.fresh])
  have times: "list_all i64_times sample_bars"
    by (simp add: sample_bars_def sample_candle_def i64_times_def i64_defs)
  have "pg_call_ok sample_answer" by (simp add: pg_call_ok_def sample_answer_def)
  note main = postgres_writes_what_sqlite_writes [OF inv times this run lite, THEN conjunct2, THEN conjunct2, THEN conjunct2]
  have "pc_run sample_answer = None" "pc_pool sample_answer = PoolReady" "pc_limited sample_answer"
      "pc_work sample_answer = WorkDone" by (simp_all add: sample_answer_def)
  then have r: "r = Inr 2" using main [THEN conjunct2, THEN conjunct2] by blast
  then have "grown_alike empty_db pg sample_db" using main [THEN conjunct1] by blast
  moreover have "mr_candles (db_market sample_db sample_market) = text_rows sample_dec sample_bars" by code_simp
  moreover have "map dw_window_start_ms (mr_dirty (db_market sample_db sample_market)) = [0, 86400000]" by code_simp
  then have "dw_window_start_ms ` set (mr_dirty (db_market sample_db sample_market)) = {0, 86400000}"
    by (simp only: set_map [symmetric] list.set)
  ultimately show ?thesis using run unfolding r grown_alike_def by (intro exI [of _ pg]) simp
qed

end
